(* ===== verification/ElbPrelude.thy ===== *)
theory ElbPrelude
  imports Complex_Main "HOL-Library.Word" "HOL-Library.AList" "HOL-Library.Log_Nat"
begin

text \<open>
  What the components share: the machine integers of the sources, the faults
  a C++ operation can run into (a failed \<open>assert\<close>, a dangling pointer, \<open>front()\<close>
  of an empty list, a read of an uninitialised member, an out-of-range
  conversion or index) with the sequencing of operations that may fault, the
  64-bit keys \<open>((uint64_t)a << 32) + b\<close> every table is indexed by, the hash
  tables (association lists with distinct keys), and the three interfaces
  (locales) that the components are used through: a keyed store, a list that
  is served in rotation, and a machine whose steps keep an invariant.
\<close>

section \<open>Machine integers\<close>

text \<open>
  \<open>u32\<close>, \<open>u64\<close> and \<open>i32\<close> are the C types \<open>uint32_t\<close>, \<open>uint64_t\<close> and the 32-bit
  \<open>int\<close> used for identifiers (read with \<open>sint\<close> where its sign matters).
  \<open>clong\<close> is the C type \<open>long\<close>, used for seconds of wall-clock time only.
\<close>

type_synonym u32 = "32 word"
type_synonym i32 = "32 word"
type_synonym u64 = "64 word"
type_synonym clong = int

named_theorems elb_defs \<open>definitions unfolded together in the proofs about one operation\<close>
named_theorems res_simps \<open>evaluation of operations that may fault\<close>

section \<open>Faults\<close>

datatype fault =
    AssertFail   \<comment> \<open>\<open>assert\<close> aborts the process\<close>
  | DanglingPtr  \<comment> \<open>a pointer to a deleted object is followed\<close>
  | EmptyFront   \<comment> \<open>\<open>front()\<close> of an empty list\<close>
  | UninitRead   \<comment> \<open>a member that no constructor has written is read\<close>
  | BadCast      \<comment> \<open>a floating-point value outside the range of the integer type\<close>
  | BadIndex     \<comment> \<open>an array index out of range\<close>
  | BufOverflow  \<comment> \<open>a write beyond the end of a buffer\<close>
  | DivZero      \<comment> \<open>an integer division by zero\<close>
  | Hang         \<comment> \<open>a loop or a system call that does not return\<close>

type_synonym 'a res = "fault + 'a"

definition rbind :: "'a res \<Rightarrow> ('a \<Rightarrow> 'b res) \<Rightarrow> 'b res" where
  "rbind m f = (case m of Inl e \<Rightarrow> Inl e | Inr x \<Rightarrow> f x)"

lemma rbind_simps [simp, res_simps]:
  "rbind (Inl e) f = Inl e"
  "rbind (Inr x) f = f x"
  by (simp_all add: rbind_def)

lemma rbind_eq_Inr [simp]: "rbind m f = Inr y \<longleftrightarrow> (\<exists>x. m = Inr x \<and> f x = Inr y)"
  by (cases m) simp_all

lemma rbind_eq_Inl: "rbind m f = Inl e \<longleftrightarrow> m = Inl e \<or> (\<exists>x. m = Inr x \<and> f x = Inl e)"
  by (cases m) simp_all

lemma rbind_cong [fundef_cong]:
  "m = m' \<Longrightarrow> (\<And>x. m' = Inr x \<Longrightarrow> f x = f' x) \<Longrightarrow> rbind m f = rbind m' f'"
  by (cases m') simp_all

text \<open>\<open>traverse f xs\<close> is a loop that appends \<open>f x\<close> for every \<open>x\<close>; \<open>foldM f s xs\<close> is a
  loop over \<open>xs\<close> that updates the state \<open>s\<close>. Both stop at the first fault.\<close>

fun traverse :: "('a \<Rightarrow> 'b res) \<Rightarrow> 'a list \<Rightarrow> 'b list res" where
  "traverse f [] = Inr []"
| "traverse f (x # xs) = rbind (f x) (\<lambda>y. rbind (traverse f xs) (\<lambda>ys. Inr (y # ys)))"

fun foldM :: "('s \<Rightarrow> 'a \<Rightarrow> 's res) \<Rightarrow> 's \<Rightarrow> 'a list \<Rightarrow> 's res" where
  "foldM f s [] = Inr s"
| "foldM f s (x # xs) = rbind (f s x) (\<lambda>s'. foldM f s' xs)"

lemma traverse_Inr_map:
  "(\<And>x. x \<in> set xs \<Longrightarrow> f x = Inr (g x)) \<Longrightarrow> traverse f xs = Inr (map g xs)"
  by (induction xs) auto

text \<open>
  \<open>ends F Q r\<close>: the operation ends in a fault that satisfies \<open>F\<close> or in a result that
  satisfies \<open>Q\<close>; with rules for sequencing and for the two loops.
\<close>

definition ends :: "(fault \<Rightarrow> bool) \<Rightarrow> ('a \<Rightarrow> bool) \<Rightarrow> 'a res \<Rightarrow> bool" where
  "ends F Q r = (case r of Inl e \<Rightarrow> F e | Inr x \<Rightarrow> Q x)"

lemma ends_simps [simp]: "ends F Q (Inl e) = F e" "ends F Q (Inr x) = Q x"
  by (simp_all add: ends_def)

lemma ends_rbind: "ends F Q m \<Longrightarrow> (\<And>x. Q x \<Longrightarrow> ends F R (f x)) \<Longrightarrow> ends F R (rbind m f)"
  by (cases m) simp_all

lemma ends_rbindI:
  "ends F Q m \<Longrightarrow> (\<And>e. F e \<Longrightarrow> F' e) \<Longrightarrow> (\<And>x. Q x \<Longrightarrow> ends F' R (f x)) \<Longrightarrow>
   ends F' R (rbind m f)"
  by (cases m) simp_all

lemma ends_any: "(\<And>x. ends (\<lambda>_. True) R (f x)) \<Longrightarrow> ends (\<lambda>_. True) R (rbind m f)"
  by (cases m) simp_all

lemma ends_mono:
  "ends F Q r \<Longrightarrow> (\<And>e. F e \<Longrightarrow> F' e) \<Longrightarrow> (\<And>x. Q x \<Longrightarrow> Q' x) \<Longrightarrow> ends F' Q' r"
  by (cases r) simp_all

lemma ends_foldM:
  assumes "\<And>s x. I s \<Longrightarrow> x \<in> set xs \<Longrightarrow> ends F I (f s x)" "I s"
  shows "ends F I (foldM f s xs)"
  using assms by (induction xs arbitrary: s) (auto intro!: ends_rbind [where Q = I])

lemma endsD: "ends F Q r \<Longrightarrow> r = Inr x \<Longrightarrow> Q x" and ends_faultD: "ends F Q r \<Longrightarrow> r = Inl e \<Longrightarrow> F e"
  by simp_all

section \<open>Keys\<close>

text \<open>
  Modules and hosts are looked up under \<open>((uint64_t)modid << 32) + cmdid\<close> and
  \<open>((uint64_t)ip << 32) + port\<close>, where both halves are 32-bit \<open>int\<close>s: the
  conversion to \<open>uint64_t\<close> extends the sign. \<open>mkukey\<close> is the dnsserver's form, where
  the first half is \<open>unsigned\<close>.
\<close>

definition mkkey :: "i32 \<Rightarrow> i32 \<Rightarrow> u64" where
  "mkkey a b = push_bit 32 (scast a) + scast b"

definition mkukey :: "u32 \<Rightarrow> i32 \<Rightarrow> u64" where
  "mkukey a b = push_bit 32 (ucast a) + scast b"

text \<open>\<open>(int)key\<close> and \<open>(int)(key >> 32)\<close>.\<close>

definition key_lo :: "u64 \<Rightarrow> i32" where
  "key_lo k = ucast k"

definition key_hi :: "u64 \<Rightarrow> i32" where
  "key_hi k = ucast (drop_bit 32 k)"

lemma mkukey_eq_mkkey: "mkukey a b = mkkey a b"
proof -
  have "push_bit 32 (ucast a) = (push_bit 32 (scast a) :: u64)"
    by (rule bit_word_eqI) (auto simp: bit_simps not_le)
  then show ?thesis by (simp only: mkukey_def mkkey_def)
qed

lemma mkkey_int: "mkkey a b = word_of_int (sint a * 2 ^ 32 + sint b)"
  unfolding mkkey_def scast_eq push_bit_eq_mult
  by (simp only: of_int_add of_int_mult of_int_numeral of_int_power)

lemma uint_mkkey: "uint (mkkey a b) = (sint a * 2 ^ 32 + sint b) mod 2 ^ 64"
  by (simp only: mkkey_int uint_word_of_int) simp

lemma uint32_sint: "uint (a :: 32 word) = sint a mod 2 ^ 32"
  by (simp only: uint_sint take_bit_eq_mod) simp

lemma sint_mod_inj: "sint a mod 2 ^ 32 = sint b mod 2 ^ 32 \<Longrightarrow> a = (b :: 32 word)"
  by (metis uint32_sint word_uint_eq_iff)

lemma mkkey_low: "uint (mkkey a b) mod 2 ^ 32 = sint b mod 2 ^ 32"
proof -
  have "(2::int) ^ 32 dvd 2 ^ 64" by (rule le_imp_power_dvd) simp
  then have "uint (mkkey a b) mod 2 ^ 32 = (sint a * 2 ^ 32 + sint b) mod 2 ^ 32"
    by (simp only: uint_mkkey mod_mod_cancel)
  then show ?thesis by (simp only: mod_mult_self3)
qed

lemma mkkey_inj [simp]: "mkkey a b = mkkey c d \<longleftrightarrow> a = c \<and> b = d"
proof
  assume h: "mkkey a b = mkkey c d"
  then have "sint b mod 2 ^ 32 = sint d mod 2 ^ 32" by (metis mkkey_low)
  then have b: "b = d" by (rule sint_mod_inj)
  from h have "(sint a * 2 ^ 32 + sint b) mod 2 ^ 64 = (sint c * 2 ^ 32 + sint d) mod 2 ^ 64"
    by (metis uint_mkkey)
  with b have "(2::int) ^ 64 dvd (sint a * 2 ^ 32 + sint b - (sint c * 2 ^ 32 + sint b))"
    by (simp only: mod_eq_dvd_iff)
  also have "sint a * 2 ^ 32 + sint b - (sint c * 2 ^ 32 + sint b) = (sint a - sint c) * 2 ^ 32"
    by (simp only: left_diff_distrib)
  finally have "(2::int) ^ 32 * 2 ^ 32 dvd (sint a - sint c) * 2 ^ 32"
    by (simp only: flip: power_add) simp
  then have "2 ^ 32 dvd (sint a - sint c)" by (subst (asm) dvd_mult_cancel_right) simp
  then have "a = c" by (intro sint_mod_inj) (simp only: mod_eq_dvd_iff)
  with b show "a = c \<and> b = d" by simp
qed simp

lemma key_lo_mkkey [simp]: "key_lo (mkkey a b) = b"
proof -
  have "uint (key_lo (mkkey a b)) = uint (mkkey a b) mod 2 ^ 32"
    by (simp only: key_lo_def unsigned_ucast_eq take_bit_eq_mod) simp
  then show ?thesis
    by (simp only: mkkey_low uint32_sint [symmetric] word_uint_eq_iff)
qed

lemma div32_mod64: "(x::int) mod 2 ^ 64 div 2 ^ 32 = x div 2 ^ 32 mod 2 ^ 32"
proof -
  have "x mod (2 ^ 32 * 2 ^ 32) = 2 ^ 32 * (x div 2 ^ 32 mod 2 ^ 32) + x mod 2 ^ 32"
    by (rule zmod_zmult2_eq) simp
  then have "x mod 2 ^ 64 div 2 ^ 32 = (2 ^ 32 * (x div 2 ^ 32 mod 2 ^ 32) + x mod 2 ^ 32) div 2 ^ 32"
    by simp
  also have "\<dots> = x div 2 ^ 32 mod 2 ^ 32" by simp
  finally show ?thesis .
qed

lemma uint_key_hi: "uint (key_hi k) = uint k div 2 ^ 32"
proof -
  have "uint (drop_bit 32 k) = uint k div 2 ^ 32"
    by (simp only: unsigned_drop_bit_eq drop_bit_eq_div take_bit_eq_mod) (simp add: uint_div)
  moreover have "uint k < 2 ^ 64" using uint_lt2p [of k] by simp
  ultimately have "uint (drop_bit 32 k) < 2 ^ 32" by simp
  then show ?thesis using \<open>uint (drop_bit 32 k) = _\<close>
    by (simp only: key_hi_def unsigned_ucast_eq take_bit_eq_mod)
      (simp add: mod_pos_pos_trivial pos_imp_zdiv_nonneg_iff)
qed

lemma sint32_div: "sint (b :: 32 word) div 2 ^ 32 = (if sint b < 0 then -1 else 0)"
  using sint_greater_eq [of b] sint_less [of b] by auto

text \<open>The high half is the first identifier, less one when the second is negative.\<close>

lemma key_hi_mkkey: "key_hi (mkkey a b) = (if sint b < 0 then a - 1 else a)"
proof -
  let ?d = "if sint b < 0 then - 1 else 0 :: int"
  have "uint (key_hi (mkkey a b)) = (sint a * 2 ^ 32 + sint b) div 2 ^ 32 mod 2 ^ 32"
    by (simp only: uint_key_hi uint_mkkey div32_mod64)
  also have "(sint a * 2 ^ 32 + sint b) div 2 ^ 32 = sint a + ?d"
    by (subst div_mult_self3) (simp_all only: sint32_div, simp)
  finally have "uint (key_hi (mkkey a b)) = (sint a + ?d) mod 2 ^ 32" .
  also have "\<dots> = uint (word_of_int (sint a + ?d) :: 32 word)"
    by (simp only: uint_word_of_int) simp
  also have "(word_of_int (sint a + ?d) :: 32 word) = (if sint b < 0 then a - 1 else a)"
    by simp
  finally show ?thesis by (simp only: word_uint_eq_iff)
qed

section \<open>Hash tables\<close>

text \<open>
  A \<open>hash_map\<close> is an association list with distinct keys: \<open>map_of\<close> is \<open>find\<close>,
  \<open>AList.update\<close> is \<open>m[k] = v\<close> and \<open>AList.delete\<close> is \<open>erase\<close>. The list order stands
  for the iteration order of the table, which the sources leave to the library;
  no property depends on it beyond listing every entry once.
\<close>

locale keyed_store =
  fixes find :: "'m \<Rightarrow> 'k \<Rightarrow> 'v option"
    and put :: "'k \<Rightarrow> 'v \<Rightarrow> 'm \<Rightarrow> 'm"
    and erase :: "'k \<Rightarrow> 'm \<Rightarrow> 'm"
    and ok :: "'m \<Rightarrow> bool"
  assumes find_put: "find (put k v m) = (find m)(k \<mapsto> v)"
    and find_erase: "find (erase k m) = (find m)(k := None)"
    and ok_put: "ok m \<Longrightarrow> ok (put k v m)"
    and ok_erase: "ok m \<Longrightarrow> ok (erase k m)"
begin

lemma find_put_same [simp]: "find (put k v m) k = Some v"
  by (simp add: find_put)

lemma find_put_other [simp]: "k \<noteq> k' \<Longrightarrow> find (put k v m) k' = find m k'"
  by (simp add: find_put)

lemma dom_put: "dom (find (put k v m)) = insert k (dom (find m))"
  by (simp add: find_put)

lemma dom_erase: "dom (find (erase k m)) = dom (find m) - {k}"
  by (simp add: find_erase)

lemma all_put:
  "(\<And>k' v'. find m k' = Some v' \<Longrightarrow> P k' v') \<Longrightarrow> P k v \<Longrightarrow>
   find (put k v m) k' = Some v' \<Longrightarrow> P k' v'"
  by (auto simp: find_put split: if_splits)

lemma all_erase:
  "(\<And>k' v'. find m k' = Some v' \<Longrightarrow> P k' v') \<Longrightarrow>
   find (erase k m) k' = Some v' \<Longrightarrow> P k' v'"
  by (auto simp: find_erase split: if_splits)

lemma find_erases: "find (fold erase ks m) k = (if k \<in> set ks then None else find m k)"
  by (induction ks arbitrary: m) (auto simp: find_erase)

lemma ok_erases: "ok m \<Longrightarrow> ok (fold erase ks m)"
  by (induction ks arbitrary: m) (auto simp: ok_erase)

end

interpretation hm: keyed_store map_of AList.update AList.delete "\<lambda>m. distinct (map fst m)"
  by unfold_locales
     (auto simp: update_conv' delete_conv' distinct_update AList.distinct_delete)

text \<open>Lookups stay lookups: proofs speak of \<open>map_of m k\<close>, not of \<open>(k, v) \<in> set m\<close>.\<close>

declare map_of_eq_Some_iff [simp del] Some_eq_map_of_iff [simp del]

definition keys_of :: "('k \<times> 'v) list \<Rightarrow> 'k set" where
  "keys_of m = fst ` set m"

lemma keys_of_update [simp]: "keys_of (AList.update k v m) = insert k (keys_of m)"
  by (simp add: keys_of_def flip: dom_map_of_conv_image_fst, simp add: hm.dom_put)

lemma keys_of_delete [simp]: "keys_of (AList.delete k m) = keys_of m - {k}"
  by (simp add: keys_of_def flip: dom_map_of_conv_image_fst, simp add: hm.dom_erase)

lemma map_of_eq_None_keys: "map_of m k = None \<longleftrightarrow> k \<notin> keys_of m"
  by (simp add: keys_of_def map_of_eq_None_iff)

lemma keys_of_dom: "keys_of m = dom (map_of m)"
  by (simp add: keys_of_def dom_map_of_conv_image_fst)

lemma keys_ofE: "k \<in> keys_of m \<Longrightarrow> (\<And>v. map_of m k = Some v \<Longrightarrow> Q) \<Longrightarrow> Q"
  by (metis map_of_eq_None_keys not_None_eq)

lemma map_of_keys_of: "map_of m k = Some v \<Longrightarrow> k \<in> keys_of m"
  by (metis map_of_eq_None_keys option.distinct(1))

lemma list_all_entries:
  "distinct (map fst m) \<Longrightarrow>
   list_all (\<lambda>(k, v). P k v) m \<longleftrightarrow> (\<forall>k v. map_of m k = Some v \<longrightarrow> P k v)"
  by (auto simp: list_all_iff map_of_eq_Some_iff)

section \<open>Serving a list in rotation\<close>

text \<open>
  \<open>front\<close>, \<open>pop_front\<close> and \<open>push_back\<close> of the element taken: the sources write these
  three calls in this order wherever a host is handed out. \<open>draws n serve q\<close> calls
  \<open>serve\<close> \<open>n\<close> times.
\<close>

definition take_front :: "'a list \<Rightarrow> ('a \<times> 'a list) res" where
  "take_front xs = (case xs of [] \<Rightarrow> Inl EmptyFront | x # ys \<Rightarrow> Inr (x, ys @ [x]))"

lemma take_front_simps [simp, res_simps]:
  "take_front [] = Inl EmptyFront"
  "take_front (x # xs) = Inr (x, xs @ [x])"
  by (simp_all add: take_front_def)

fun draws :: "nat \<Rightarrow> ('q \<Rightarrow> 'f + 'a \<times> 'q) \<Rightarrow> 'q \<Rightarrow> 'f + 'a list \<times> 'q" where
  "draws 0 serve q = Inr ([], q)"
| "draws (Suc n) serve q =
     (case serve q of
        Inl e \<Rightarrow> Inl e
      | Inr (x, q') \<Rightarrow>
          (case draws n serve q' of Inl e \<Rightarrow> Inl e | Inr (xs, q'') \<Rightarrow> Inr (x # xs, q'')))"

locale round_robin =
  fixes serve :: "'q \<Rightarrow> 'f + 'a \<times> 'q"
    and contents :: "'q \<Rightarrow> 'a list"
    and serving :: "'q \<Rightarrow> bool"
  assumes take_step:
    "serving q \<Longrightarrow> contents q = x # xs \<Longrightarrow>
     \<exists>q'. serve q = Inr (x, q') \<and> contents q' = xs @ [x] \<and> serving q'"
begin

lemma draws_prefix:
  assumes "serving q" and "contents q = xs @ ys"
  shows "\<exists>q'. draws (length xs) serve q = Inr (xs, q') \<and> contents q' = ys @ xs \<and> serving q'"
  using assms
proof (induction xs arbitrary: q ys)
  case Nil
  then show ?case by simp
next
  case (Cons x xs)
  then obtain q' where q': "serve q = Inr (x, q')" "contents q' = (xs @ ys) @ [x]" "serving q'"
    using take_step [of q x "xs @ ys"] by auto
  then have "\<exists>q''. draws (length xs) serve q' = Inr (xs, q'')
      \<and> contents q'' = (ys @ [x]) @ xs \<and> serving q''"
    by (intro Cons.IH) simp_all
  with q' show ?case by auto
qed

lemma draws_append:
  "draws m serve q = Inr (xs, q') \<Longrightarrow> draws n serve q' = Inr (ys, q'') \<Longrightarrow>
   draws (m + n) serve q = Inr (xs @ ys, q'')"
  by (induction m arbitrary: q xs) (auto split: sum.splits prod.splits)

text \<open>One full turn hands out every element once and restores the list.\<close>

lemma draws_turn:
  assumes "serving q"
  shows "\<exists>q'. draws (length (contents q)) serve q = Inr (contents q, q')
            \<and> contents q' = contents q \<and> serving q'"
  using draws_prefix [OF assms, of "contents q" "[]"] by simp

lemma draws_turns:
  assumes "serving q"
  shows "\<exists>q'. draws (n * length (contents q)) serve q
                = Inr (concat (replicate n (contents q)), q')
            \<and> contents q' = contents q \<and> serving q'"
  using assms
proof (induction n arbitrary: q)
  case 0
  then show ?case by simp
next
  case (Suc n)
  from draws_turn [OF Suc.prems] obtain q1 where q1:
    "draws (length (contents q)) serve q = Inr (contents q, q1)"
    "contents q1 = contents q" "serving q1" by auto
  from Suc.IH [OF q1(3)] obtain q2 where
    "draws (n * length (contents q)) serve q1 = Inr (concat (replicate n (contents q)), q2)"
    "contents q2 = contents q" "serving q2" by (auto simp: q1(2))
  with draws_append [OF q1(1)] show ?case by auto
qed

end

interpretation rr_list: round_robin take_front "\<lambda>xs. xs" "\<lambda>_. True"
  by unfold_locales simp

section \<open>Machines whose steps keep an invariant\<close>

text \<open>\<open>run step es s\<close> performs the events \<open>es\<close> one after the other and collects the outputs.\<close>

fun run :: "('e \<Rightarrow> 's \<Rightarrow> ('s \<times> 'o) res) \<Rightarrow> 'e list \<Rightarrow> 's \<Rightarrow> ('s \<times> 'o list) res" where
  "run step [] s = Inr (s, [])"
| "run step (e # es) s =
     rbind (step e s) (\<lambda>(s', out). rbind (run step es s') (\<lambda>(s'', outs). Inr (s'', out # outs)))"

lemma run_append:
  "run step (es @ es') s =
   rbind (run step es s) (\<lambda>(s', outs). rbind (run step es' s') (\<lambda>(s'', outs'). Inr (s'', outs @ outs')))"
  by (induction es arbitrary: s)
     (auto simp: rbind_def split: sum.splits prod.splits)

text \<open>
  \<open>inv\<close> is kept by every step that is \<open>good\<close>, and from a state with \<open>inv\<close> a good step
  ends in no fault but an \<open>allowed\<close> one.
\<close>

locale safe_machine =
  fixes step :: "'e \<Rightarrow> 's \<Rightarrow> ('s \<times> 'o) res"
    and inv :: "'s \<Rightarrow> bool"
    and good :: "'e \<Rightarrow> bool"
    and allowed :: "fault \<Rightarrow> bool"
  assumes step_inv: "inv s \<Longrightarrow> good e \<Longrightarrow> step e s = Inr (s', out) \<Longrightarrow> inv s'"
    and step_fault: "inv s \<Longrightarrow> good e \<Longrightarrow> step e s = Inl f \<Longrightarrow> allowed f"
begin

lemma run_inv:
  "run step es s = Inr (s', outs) \<Longrightarrow> inv s \<Longrightarrow> list_all good es \<Longrightarrow> inv s'"
  by (induction es arbitrary: s outs) (fastforce dest: step_inv)+

lemma run_outs:
  assumes "\<And>s e s' out. inv s \<Longrightarrow> good e \<Longrightarrow> step e s = Inr (s', out) \<Longrightarrow> R out"
  shows "run step es s = Inr (s', outs) \<Longrightarrow> inv s \<Longrightarrow> list_all good es \<Longrightarrow> list_all R outs"
  by (induction es arbitrary: s outs) (fastforce dest: step_inv intro: assms)+

lemma run_fault:
  "run step es s = Inl f \<Longrightarrow> inv s \<Longrightarrow> list_all good es \<Longrightarrow> allowed f"
  by (induction es arbitrary: s) (auto simp: rbind_eq_Inl dest: step_inv step_fault)

end

end
