(* ===== verification/IeeeFloat.thy ===== *)
theory IeeeFloat
  imports ElbPrelude
begin

text \<open>
  The floating-point arithmetic that the load balancer's thresholds use. A
  finite \<open>float\<close> or \<open>double\<close> is the rational number it stands for; an operation
  rounds the exact result to 24 or 53 significant bits, to nearest with ties to
  even (\<open>FLT_EVAL_METHOD\<close> 0, the default rounding mode). The values that occur
  stay far from the overflow and underflow ranges, so exponents are unbounded.
  Division by zero gives an infinity or a NaN. The lemmas show the rounding
  error, which values are not changed by rounding, and that comparing a rounded
  quotient of two counters with a threshold decides the exact comparison.
\<close>

section \<open>Rounding\<close>

definition rne :: "rat \<Rightarrow> int" where
  "rne x = (let n = \<lfloor>x\<rfloor>; d = x - of_int n in
     if d < 1 / 2 then n else if 1 / 2 < d then n + 1 else if even n then n else n + 1)"

definition exponent :: "rat \<Rightarrow> int" where
  "exponent x = (let (a, b) = quotient_of x;
       e = int (floorlog 2 (nat a)) - int (floorlog 2 (nat b))
     in if 2 powi e \<le> x then e else e - 1)"

definition ulp :: "nat \<Rightarrow> rat \<Rightarrow> rat" where
  "ulp p x = 2 powi (exponent \<bar>x\<bar> - int p + 1)"

definition rnd :: "nat \<Rightarrow> rat \<Rightarrow> rat" where
  "rnd p x = (if x = 0 then 0 else of_int (rne (x / ulp p x)) * ulp p x)"

abbreviation fl32 :: "rat \<Rightarrow> rat" where "fl32 \<equiv> rnd 24"
abbreviation fl64 :: "rat \<Rightarrow> rat" where "fl64 \<equiv> rnd 53"

lemma rne_error: "\<bar>of_int (rne x) - x\<bar> \<le> 1 / 2"
proof -
  have "of_int \<lfloor>x\<rfloor> \<le> x" "x < of_int \<lfloor>x\<rfloor> + 1" by linarith+
  then show ?thesis unfolding rne_def Let_def abs_le_iff by (simp split: if_split) linarith
qed

lemma rne_of_int [simp]: "rne (of_int n) = n"
  by (simp add: rne_def)

lemma floorlog2_bounds:
  assumes "0 < (a::int)"
  shows "(2::rat) powi (int (floorlog 2 (nat a)) - 1) \<le> of_int a"
    and "of_int a < (2::rat) powi int (floorlog 2 (nat a))"
proof -
  let ?n = "floorlog 2 (nat a)"
  have "1 \<le> ?n" using assms by (simp add: floorlog_def)
  then have b: "2 ^ (?n - 1) \<le> nat a \<and> nat a < 2 ^ ?n"
    using floorlog_bounds [of "nat a" 2] assms by auto
  have p: "(2::rat) powi (int ?n - 1) = of_nat (2 ^ (?n - 1))"
    using \<open>1 \<le> ?n\<close> by (simp add: of_nat_diff flip: power_int_of_nat)
  have "rat_of_nat (2 ^ (?n - 1)) \<le> of_nat (nat a)" using b by (simp only: of_nat_le_iff)
  then show "(2::rat) powi (int ?n - 1) \<le> of_int a" using assms p by simp
  have "rat_of_nat (nat a) < of_nat (2 ^ ?n)" using b by (simp only: of_nat_less_iff)
  then show "of_int a < (2::rat) powi int ?n" using assms by simp
qed

lemma exponent_bounds:
  assumes "0 < x"
  shows "2 powi exponent x \<le> x" and "x < 2 powi (exponent x + 1)"
proof -
  obtain a b where q: "quotient_of x = (a, b)" by fastforce
  then have x: "x = of_int a / of_int b" and b: "0 < b"
    by (auto simp: quotient_of_div quotient_of_denom_pos)
  with assms have a: "0 < a" by (simp add: zero_less_divide_iff)
  define m n where "m = int (floorlog 2 (nat a))" and "n = int (floorlog 2 (nat b))"
  note la = floorlog2_bounds [OF a, folded m_def] and lb = floorlog2_bounds [OF b, folded n_def]
  have "2 powi (m - 1) * of_int b \<le> (of_int a * 2 powi n :: rat)"
    
    using la(1) lb(2) a b by (intro mult_mono) auto
  then have lo: "2 powi (m - n - 1) \<le> x"
    using b by (simp add: x field_simps power_int_diff power_int_add)
  have "of_int a * 2 powi (n - 1) < 2 powi m * (of_int b :: rat)"
    using la(2) lb(1) a b by (intro mult_less_le_imp_less) auto
  then have hi: "x < 2 powi (m - n + 1)"
    using b by (simp add: x field_simps power_int_diff power_int_add)
  show "2 powi exponent x \<le> x" and "x < 2 powi (exponent x + 1)"
    using lo hi by (auto simp: exponent_def q Let_def simp flip: m_def n_def)
qed

lemma ulp_pos [simp]: "0 < ulp p x" and ulp_nonneg [simp]: "0 \<le> ulp p x"
    and ulp_nonzero [simp]: "ulp p x \<noteq> 0"
  by (simp_all add: ulp_def)

lemma rnd_error: "\<bar>rnd p x - x\<bar> \<le> ulp p x / 2"
proof (cases "x = 0")
  case False
  have "\<bar>of_int (rne (x / ulp p x)) - x / ulp p x\<bar> \<le> 1 / 2" by (rule rne_error)
  then have "\<bar>of_int (rne (x / ulp p x)) - x / ulp p x\<bar> * ulp p x \<le> 1 / 2 * ulp p x"
    by (intro mult_right_mono) (auto simp: less_imp_le)
  moreover have "\<bar>of_int (rne (x / ulp p x)) - x / ulp p x\<bar> * ulp p x
      = \<bar>of_int (rne (x / ulp p x)) * ulp p x - x\<bar>"
    by (subst abs_mult_pos) (simp_all add: left_diff_distrib)
  ultimately show ?thesis using False by (simp add: rnd_def)
qed (simp add: rnd_def less_imp_le)

lemma rnd_exact:
  assumes "x / ulp p x \<in> \<int>"
  shows "rnd p x = x"
proof -
  from assms obtain n where n: "x / ulp p x = of_int n" by (auto elim: Ints_cases)
  then have "x = of_int n * ulp p x" using ulp_pos [of p x] by (simp add: field_simps)
  then show ?thesis using n by (simp add: rnd_def)
qed


lemma exponent_less: "0 < x \<Longrightarrow> x < 2 powi k \<Longrightarrow> exponent x < k"
  using exponent_bounds(1) [of x] power_int_increasing [of k "exponent x" "2::rat"]
  by linarith

lemma ulp_le: "0 < \<bar>x\<bar> \<Longrightarrow> \<bar>x\<bar> < 2 powi k \<Longrightarrow> ulp p x \<le> 2 powi (k - int p)"
  using exponent_less [of "\<bar>x\<bar>" k] by (auto simp: ulp_def intro!: power_int_increasing)

lemma rnd_0 [simp]: "rnd p 0 = 0"
  by (simp add: rnd_def)

section \<open>Representable values\<close>

text \<open>\<open>dyadic q x\<close>: \<open>x\<close> has at most \<open>q\<close> binary digits after the point.\<close>

definition dyadic :: "nat \<Rightarrow> rat \<Rightarrow> bool" where
  "dyadic q x \<longleftrightarrow> x * 2 ^ q \<in> \<int>"

lemma rnd_dyadic:
  assumes "dyadic q x" and "\<bar>x\<bar> < 2 powi k" and "k + int q \<le> int p"
  shows "rnd p x = x"
proof (cases "x = 0")
  case False
  then have e: "exponent \<bar>x\<bar> < k" using assms(2) by (intro exponent_less) auto
  then have le: "int q \<le> int p - 1 - exponent \<bar>x\<bar>" using assms(3) by simp
  define d where "d = nat (int p - 1 - exponent \<bar>x\<bar> - int q)"
  have "int p - 1 - exponent \<bar>x\<bar> = int q + int d" using le by (simp add: d_def)
  then have "exponent \<bar>x\<bar> - int p + 1 = - int (q + d)" by simp
  then have "ulp p x = inverse (2 ^ (q + d))"
    by (simp only: ulp_def power_int_minus power_int_of_nat)
  then have "x / ulp p x = x * 2 ^ q * 2 ^ d"
    by (simp add: power_add divide_inverse)
  moreover have "x * 2 ^ q * 2 ^ d \<in> \<int>"
    using assms(1) unfolding dyadic_def by (rule Ints_mult) simp
  ultimately show ?thesis by (simp add: rnd_exact)
qed simp


section \<open>Quotients of counters\<close>

text \<open>A floating-point result: finite, or what division by zero gives.\<close>

datatype fp = Fin rat | PInf | NaN

text \<open>\<open>>\<close>, \<open>>=\<close> and \<open><\<close> against a finite threshold: every comparison with a NaN is false.\<close>

fun fp_gt :: "fp \<Rightarrow> rat \<Rightarrow> bool" where
  "fp_gt (Fin x) r \<longleftrightarrow> r < x"
| "fp_gt PInf r \<longleftrightarrow> True"
| "fp_gt NaN r \<longleftrightarrow> False"

fun fp_ge :: "fp \<Rightarrow> rat \<Rightarrow> bool" where
  "fp_ge (Fin x) r \<longleftrightarrow> r \<le> x"
| "fp_ge PInf r \<longleftrightarrow> True"
| "fp_ge NaN r \<longleftrightarrow> False"

fun fp_lt :: "fp \<Rightarrow> rat \<Rightarrow> bool" where
  "fp_lt (Fin x) r \<longleftrightarrow> x < r"
| "fp_lt PInf r \<longleftrightarrow> False"
| "fp_lt NaN r \<longleftrightarrow> False"

text \<open>\<open>a * 1.0 / b\<close> for \<open>uint32_t\<close> \<open>a\<close> and \<open>b\<close>: both convert to \<open>double\<close> without rounding.\<close>

definition ratio :: "u32 \<Rightarrow> u32 \<Rightarrow> fp" where
  "ratio a b = (if b = 0 then if a = 0 then NaN else PInf
                else Fin (fl64 (of_nat (unat a) / of_nat (unat b))))"

text \<open>\<open>float\<close> division, as in \<open>x / y\<close> for \<open>float\<close> \<open>x\<close> and \<open>y\<close> with \<open>x >= 0\<close>.\<close>

definition fdiv32 :: "rat \<Rightarrow> rat \<Rightarrow> fp" where
  "fdiv32 x y = (if y = 0 then if x = 0 then NaN else PInf else Fin (fl32 (x / y)))"

text \<open>Conversion to \<open>unsigned\<close> drops the fraction; a value out of range is undefined behaviour.\<close>

definition trunc :: "rat \<Rightarrow> int" where
  "trunc x = (if 0 \<le> x then \<lfloor>x\<rfloor> else - \<lfloor>- x\<rfloor>)"

definition to_u32 :: "fp \<Rightarrow> u32 res" where
  "to_u32 v = (case v of
      Fin x \<Rightarrow> if 0 \<le> trunc x \<and> trunc x < 2 ^ 32 then Inr (word_of_int (trunc x)) else Inl BadCast
    | _ \<Rightarrow> Inl BadCast)"

lemma to_u32_fault: "to_u32 v = Inl e \<Longrightarrow> e = BadCast"
  by (auto simp: to_u32_def split: fp.splits if_splits)

lemma rnd_error_unit:
  assumes "0 \<le> x" and "x \<le> 1"
  shows "\<bar>fl64 x - x\<bar> \<le> 1 / 2 ^ 54"
proof (cases "x = 0 \<or> x = 1")
  case True
  have "fl64 1 = 1" by (rule rnd_dyadic [of 0 _ 1]) (simp_all add: dyadic_def)
  with True show ?thesis by auto
next
  case False
  with assms have "ulp 53 x \<le> 2 powi (0 - int 53)" by (intro ulp_le) auto
  then have "ulp 53 x \<le> 1 / 2 ^ 53" by (simp add: power_int_minus field_simps)
  then show ?thesis using rnd_error [of 53 x] by simp
qed

lemma dyadic_separation:
  assumes r: "dyadic q r" and b: "0 < b" and ne: "of_int a / of_int b \<noteq> r"
  shows "1 / (of_int b * 2 ^ q) \<le> \<bar>of_int a / of_int b - r\<bar>"
proof -
  from r obtain n where n: "r * 2 ^ q = of_int n" by (auto simp: dyadic_def elim: Ints_cases)
  have "of_int a / of_int b - r = of_int (a * 2 ^ q - n * b) / (of_int b * 2 ^ q)"
    using b by (simp add: field_simps flip: n)
  moreover have "a * 2 ^ q - n * b \<noteq> 0"
  proof
    assume "a * 2 ^ q - n * b = 0"
    then have "of_int a / of_int b - r = 0" by (simp only: calculation of_int_0 div_0)
    with ne show False by simp
  qed
  then have "(1::rat) \<le> \<bar>of_int (a * 2 ^ q - n * b)\<bar>"
    by (metis Ints_nonzero_abs_ge1 Ints_of_int of_int_eq_0_iff)
  ultimately show ?thesis using b by (simp add: abs_divide abs_mult divide_right_mono)
qed

text \<open>
  A quotient of two counters compares with a threshold of \<open>q\<close> binary digits as the
  exact quotient does, as long as the divisor is small enough for \<open>q\<close>.
\<close>

lemma ratio_cases:
  assumes r: "dyadic q r" "0 \<le> r" "r < 1" and ab: "unat a \<le> unat b" "b \<noteq> 0"
    and size: "unat b * 2 ^ q < 2 ^ 53" "q \<le> 53"
  obtains x where "ratio a b = Fin x"
    and "r < x \<longleftrightarrow> r * of_nat (unat b) < of_nat (unat a)"
    and "x < r \<longleftrightarrow> of_nat (unat a) < r * of_nat (unat b)"
proof -
  define A B where "A = int (unat a)" and "B = int (unat b)"
  have B: "0 < B" and AB: "A \<le> B" "0 \<le> A"
    using ab unfolding A_def B_def by (simp_all only: of_nat_le_iff of_nat_0_less_iff unat_gt_0, simp_all)
  define x :: rat where "x = of_int A / of_int B"
  have x: "0 \<le> x" "x \<le> 1" using B AB by (auto simp: x_def field_simps)
  have err: "\<bar>fl64 x - x\<bar> \<le> 1 / 2 ^ 54" using x by (rule rnd_error_unit)
  have gap: "1 / 2 ^ 53 \<le> \<bar>x - r\<bar>" if "x \<noteq> r"
  proof -
    have "int (unat b * 2 ^ q) < int (2 ^ 53)" using size(1) by (simp only: of_nat_less_iff)
    then have "B * 2 ^ q < 2 ^ 53"
      by (simp only: B_def of_nat_mult of_nat_power of_nat_numeral)
    then have "(of_int (B * 2 ^ q) :: rat) \<le> of_int (2 ^ 53)"
      by (simp only: of_int_le_iff less_imp_le)
    then have le: "(of_int B * 2 ^ q :: rat) \<le> 2 ^ 53"
      by (simp only: of_int_mult of_int_power of_int_numeral)
    have "(0::rat) < of_int B * 2 ^ q" using B by simp
    from frac_le [OF _ _ this le, of 1 1]
    have "(1::rat) / 2 ^ 53 \<le> 1 / (of_int B * 2 ^ q)" by simp
    then show ?thesis using dyadic_separation [OF r(1) B, of A] that by (simp add: x_def)
  qed
  have eq: "fl64 x = r" if "x = r"
    using that r size(2) by (auto intro!: rnd_dyadic [of q _ 0])
  have "ratio a b = Fin (fl64 x)"
    using ab(2) by (simp add: ratio_def x_def A_def B_def)
  moreover have "r < fl64 x \<longleftrightarrow> r < x" and "fl64 x < r \<longleftrightarrow> x < r"
    using eq err gap by (cases x r rule: linorder_cases; auto simp: abs_if split: if_splits)+
  moreover have "r < x \<longleftrightarrow> r * of_nat (unat b) < of_nat (unat a)"
    and "x < r \<longleftrightarrow> of_nat (unat a) < r * of_nat (unat b)"
    using B unfolding x_def
    by (simp_all only: pos_less_divide_eq pos_divide_less_eq of_int_0_less_iff)
      (simp_all only: A_def B_def of_int_of_nat_eq)
  ultimately show ?thesis using that by blast
qed

lemma ratio_compare:
  assumes "dyadic q r" "0 \<le> r" "r < 1" "unat a \<le> unat b" "b \<noteq> 0"
    and "unat b * 2 ^ q < 2 ^ 53" "q \<le> 53"
  shows "fp_gt (ratio a b) r \<longleftrightarrow> r * of_nat (unat b) < of_nat (unat a)"
    and "fp_ge (ratio a b) r \<longleftrightarrow> r * of_nat (unat b) \<le> of_nat (unat a)"
    and "fp_lt (ratio a b) r \<longleftrightarrow> of_nat (unat a) < r * of_nat (unat b)"
  using assms by (auto elim!: ratio_cases [of q r a b] simp: not_less [symmetric])

section \<open>Rounding of particular values\<close>

lemma rnd_rel: "\<bar>rnd p x - x\<bar> \<le> \<bar>x\<bar> / 2 ^ p"
proof (cases "x = 0")
  case False
  have "ulp p x = 2 powi exponent \<bar>x\<bar> * 2 / 2 ^ p"
    unfolding ulp_def by (simp add: power_int_add power_int_diff)
  also have "\<dots> \<le> \<bar>x\<bar> * 2 / 2 ^ p"
    using exponent_bounds(1) [of "\<bar>x\<bar>"] False by (intro divide_right_mono mult_right_mono) auto
  also have "\<dots> = 2 * (\<bar>x\<bar> / 2 ^ p)" by simp
  finally show ?thesis using rnd_error [of p x] by linarith
qed simp

text \<open>Up to 24 digits of precision, a rounded value is within a hundredth of the exact one.\<close>

lemma fl32_near: "0 \<le> x \<Longrightarrow> 99 / 100 * x \<le> fl32 x \<and> fl32 x \<le> 101 / 100 * x"
proof -
  assume x: "0 \<le> x"
  have "\<bar>x\<bar> / 2 ^ 24 \<le> x / 100" using x by simp
  then have "\<bar>fl32 x - x\<bar> \<le> x / 100" using rnd_rel [of 24 x] by linarith
  then show ?thesis by (simp only: abs_le_iff) linarith
qed

lemma exponent_eqI: "2 powi e \<le> x \<Longrightarrow> x < 2 powi (e + 1) \<Longrightarrow> exponent x = e"
proof -
  assume a: "2 powi e \<le> x" "x < 2 powi (e + 1)"
  have x: "0 < x" using a(1) by (rule less_le_trans [rotated]) simp
  note b = exponent_bounds [OF x]
  have "e < exponent x + 1"
    using power_int_increasing [of "exponent x + 1" e "2::rat"] a(1) b(2) by linarith
  moreover have "exponent x < e + 1"
    using power_int_increasing [of "e + 1" "exponent x" "2::rat"] b(1) a(2) by linarith
  ultimately show ?thesis by simp
qed

lemma rne_eqI: "\<bar>x - of_int n\<bar> < 1 / 2 \<Longrightarrow> rne x = n"
  using rne_error [of x] by linarith

lemma rnd_eqI:
  assumes "2 powi e \<le> x" "x < 2 powi (e + 1)"
    and "\<bar>x / 2 powi (e - int p + 1) - of_int n\<bar> < 1 / 2"
  shows "rnd p x = of_int n * 2 powi (e - int p + 1)"
proof -
  have x: "0 < x" using assms(1) by (rule less_le_trans [rotated]) simp
  then have "ulp p x = 2 powi (e - int p + 1)" using exponent_eqI [OF assms(1,2)] by (simp add: ulp_def)
  then show ?thesis using x rne_eqI [OF assms(3)] by (simp add: rnd_def)
qed

lemma fl64_tenth: "fl64 (1 / 10) = 3602879701896397 / 36028797018963968"
  using rnd_eqI [of "- 4" "1 / 10" 53 7205759403792794] by simp

lemma fl32_tenth: "fl32 (fl64 (1 / 10)) = 13421773 / 134217728"
  using rnd_eqI [of "- 4" "fl64 (1 / 10)" 24 13421773] by (simp add: fl64_tenth)

lemma fl64_seven_tenths: "fl64 (7 / 10) = 6305039478318694 / 2 ^ 53"
  using rnd_eqI [of "- 1" "7 / 10" 53 6305039478318694] by simp

lemma fl64_92: "fl64 (92 / 100) = 8286623314361713 / 9007199254740992"
  using rnd_eqI [of "- 1" "92 / 100" 53 8286623314361713] by simp

lemma fl32_92: "fl32 (fl64 (92 / 100)) = 15435039 / 16777216"
  using rnd_eqI [of "- 1" "8286623314361713 / 9007199254740992" 24 15435039]
  by (simp only: fl64_92) simp

lemma to_u32_ok: "0 \<le> x \<Longrightarrow> x < 2 ^ 32 \<Longrightarrow> \<exists>n. to_u32 (Fin x) = Inr n"
proof -
  assume x: "0 \<le> x" "x < 2 ^ 32"
  then have "0 \<le> \<lfloor>x\<rfloor>" "\<lfloor>x\<rfloor> < 2 ^ 32" by (simp_all add: floor_less_iff)
  with x show ?thesis by (simp add: to_u32_def trunc_def)
qed

lemma fl32_nonneg: "0 \<le> x \<Longrightarrow> 0 \<le> fl32 x"
  using fl32_near [of x] by linarith

end
