(* ===== verification/LbHost.thy ===== *)
theory LbHost
  imports IeeeFloat
begin

text \<open>
  The configuration of the load balancer and the statistics of one node
  (\<open>struct LbConfigure\<close>, \<open>initLbEnviro\<close> and \<open>struct HI\<close> of lbagent). A
  node is \<^emph>\<open>idle\<close> or \<^emph>\<open>overloaded\<close>; its counters decide, with the thresholds of
  the configuration, when it changes sides.
\<close>

section \<open>Configuration\<close>

record LbConfigure =
  initSuccCnt :: int
  ovldErrCnt :: int
  continSuccLim :: int
  continErrLim :: int
  probeNum :: int
  updateTimo :: clong
  clearTimo :: clong
  reportTimo :: clong
  ovldWaitLim :: clong
  succRate :: rat
  errRate :: rat
  windErrRate :: rat
  windErrLim :: int

text \<open>
  \<open>config_reader\<close> belongs to the reactor library: \<open>getNumber section key default\<close> and
  \<open>getFloat\<close> are parameters. A number stored in an \<open>int\<close> keeps its low 32 bits. The
  last parameter is what \<open>gethostname\<close>/\<open>gethostbyname\<close> give, in host byte order
  (\<open>None\<close> when either fails); the second result is \<open>MyIp\<close>.
\<close>

definition to_cint :: "int \<Rightarrow> int" where
  "to_cint n = sint (word_of_int n :: i32)"

definition initLbEnviro ::
  "(string \<Rightarrow> string \<Rightarrow> int \<Rightarrow> int) \<Rightarrow> (string \<Rightarrow> string \<Rightarrow> rat \<Rightarrow> rat) \<Rightarrow> u32 option \<Rightarrow> LbConfigure \<times> u32"
where
  "initLbEnviro getNumber getFloat hostip =
    (\<lparr> initSuccCnt = to_cint (getNumber ''lb'' ''init_succ_cnt'' 270),
       ovldErrCnt = to_cint (getNumber ''lb'' ''ovld_err_cnt'' 5),
       continSuccLim = to_cint (getNumber ''lb'' ''contin_succ_lim'' 10),
       continErrLim = to_cint (getNumber ''lb'' ''contin_err_lim'' 10),
       probeNum = to_cint (getNumber ''lb'' ''probe_num'' 10),
       updateTimo = getNumber ''lb'' ''update_timeout'' 15,
       clearTimo = getNumber ''lb'' ''clear_timeout'' 15,
       reportTimo = getNumber ''lb'' ''report_timeout'' 15,
       ovldWaitLim = getNumber ''lb'' ''overload_wait_lim'' 300,
       succRate = fl32 (getFloat ''lb'' ''succ_rate'' (fl64 (92 / 100))),
       errRate = fl32 (getFloat ''lb'' ''err_rate'' (fl64 (1 / 10))),
       windErrRate = fl32 (getFloat ''lb'' ''wind_err_rate'' (fl64 (7 / 10))),
       windErrLim = to_cint (getNumber ''lb'' ''wind_err_limit'' 2) \<rparr>,
     (let MyIp = (case hostip of None \<Rightarrow> 0 | Some a \<Rightarrow> a)
      in if MyIp = 0 then 0x7F000001 else MyIp))"

section \<open>Node statistics\<close>

record HI =
  hi_ip :: u32
  hi_port :: i32
  hi_succ :: u32
  hi_err :: u32
  hi_rSucc :: u32
  hi_rErr :: u32
  hi_continSucc :: u32
  hi_continErr :: u32
  hi_overload :: bool
  hi_windowTs :: clong
  hi_overloadTs :: clong
  hi_windErrCnt :: u32

definition new_HI :: "clong \<Rightarrow> u32 \<Rightarrow> i32 \<Rightarrow> u32 \<Rightarrow> HI" where
  "new_HI now myIp myPort initSucc =
    \<lparr> hi_ip = myIp, hi_port = myPort, hi_succ = initSucc, hi_err = 0, hi_rSucc = 0, hi_rErr = 0,
      hi_continSucc = 0, hi_continErr = 0, hi_overload = False, hi_windowTs = now,
      hi_overloadTs = 0, hi_windErrCnt = 0 \<rparr>"

text \<open>Computes the real failure rate of the whole window and counts consecutive bad windows.\<close>

definition checkWindow :: "LbConfigure \<Rightarrow> HI \<Rightarrow> bool \<times> HI" where
  "checkWindow cfg h =
    (if hi_rSucc h + hi_rErr h = 0 then (False, h\<lparr>hi_windErrCnt := 0\<rparr>)
     else if fp_ge (ratio (hi_rErr h) (hi_rSucc h + hi_rErr h)) (windErrRate cfg)
     then (let n = hi_windErrCnt h + 1
           in (windErrLim cfg \<le> sint n, h\<lparr>hi_windErrCnt := n\<rparr>))
     else (False, h\<lparr>hi_windErrCnt := 0\<rparr>))"

definition resetIdle :: "clong \<Rightarrow> u32 \<Rightarrow> HI \<Rightarrow> HI" where
  "resetIdle now initSucc h =
    h\<lparr> hi_succ := initSucc, hi_err := 0, hi_rSucc := 0, hi_rErr := 0, hi_continSucc := 0,
       hi_continErr := 0, hi_overload := False, hi_windowTs := now, hi_overloadTs := 0 \<rparr>"

definition setOverload :: "clong \<Rightarrow> u32 \<Rightarrow> HI \<Rightarrow> HI" where
  "setOverload now overloadErr h =
    h\<lparr> hi_succ := 0, hi_err := overloadErr, hi_rSucc := 0, hi_rErr := 0, hi_continSucc := 0,
       hi_continErr := 0, hi_overload := True, hi_overloadTs := now, hi_windErrCnt := 0 \<rparr>"

text \<open>What the operations leave alone: the identity of the node.\<close>

lemma HI_frame [simp]:
  "hi_ip (snd (checkWindow cfg h)) = hi_ip h" "hi_port (snd (checkWindow cfg h)) = hi_port h"
  "hi_ip (resetIdle now n h) = hi_ip h" "hi_port (resetIdle now n h) = hi_port h"
  "hi_ip (setOverload now n h) = hi_ip h" "hi_port (setOverload now n h) = hi_port h"
  by (simp_all add: checkWindow_def resetIdle_def setOverload_def Let_def)

lemma HI_overload [simp]:
  "hi_overload (snd (checkWindow cfg h)) = hi_overload h"
  "\<not> hi_overload (resetIdle now n h)" "hi_overload (setOverload now n h)"
  by (simp_all add: checkWindow_def resetIdle_def setOverload_def Let_def)

lemma new_HI_simps [simp]:
  "hi_ip (new_HI now i p n) = i" "hi_port (new_HI now i p n) = p"
  "\<not> hi_overload (new_HI now i p n)" "hi_continErr (new_HI now i p n) = 0"
  by (simp_all add: new_HI_def)

section \<open>The two decisions\<close>

text \<open>
  A failed call can push an idle node out (\<open>suffers\<close>), a successful one can bring an
  overloaded node back (\<open>recovers\<close>): by the rate of the virtual counters or by a run
  of equal results.
\<close>

definition suffers :: "LbConfigure \<Rightarrow> HI \<Rightarrow> bool" where
  "suffers cfg h \<longleftrightarrow>
     fp_gt (ratio (hi_err h) (hi_succ h + hi_err h)) (errRate cfg)
     \<or> word_of_int (continErrLim cfg) \<le> hi_continErr h"

definition recovers :: "LbConfigure \<Rightarrow> HI \<Rightarrow> bool" where
  "recovers cfg h \<longleftrightarrow>
     fp_gt (ratio (hi_succ h) (hi_succ h + hi_err h)) (succRate cfg)
     \<or> word_of_int (continSuccLim cfg) \<le> hi_continSucc h"

text \<open>
  How many equal results in one batch are enough, from the rate \<open>r\<close> and the opposite
  counter \<open>c\<close>: \<open>unsigned need = r * c / (1 - r)\<close> in \<open>float\<close>, plus one when the quotient
  still falls short.
\<close>

definition need_count :: "rat \<Rightarrow> u32 \<Rightarrow> u32 res" where
  "need_count r c =
     rbind (to_u32 (fdiv32 (fl32 (r * fl32 (of_nat (unat c)))) (fl32 (1 - r))))
       (\<lambda>need. Inr (if fp_lt (ratio need (need + c)) r then need + 1 else need))"

lemma need_count_fault: "need_count r c = Inl e \<Longrightarrow> e = BadCast"
  by (auto simp: need_count_def rbind_eq_Inl dest: to_u32_fault)

text \<open>The conversion is in range whenever the exact quotient is by a tenth.\<close>

lemma need_count_total:
  assumes r: "0 \<le> r" "r < 1" and c: "11 / 10 * (r * of_nat (unat c)) < (1 - r) * 2 ^ 32"
  shows "\<exists>n. need_count r c = Inr n"
proof -
  define C :: rat where "C = of_nat (unat c)"
  have C: "0 \<le> C" unfolding C_def by (rule of_nat_0_le_iff)
  have n1: "fl32 C \<le> 101 / 100 * C" "0 \<le> fl32 C" using fl32_near [OF C] fl32_nonneg [OF C] by auto
  then have m: "r * fl32 C \<le> 101 / 100 * (r * C)" "0 \<le> r * fl32 C"
    using mult_left_mono [OF n1(1) r(1)] r(1) by (simp_all add: mult.assoc mult.left_commute)
  then have num: "fl32 (r * fl32 C) \<le> 101 / 100 * (101 / 100 * (r * C))" "0 \<le> fl32 (r * fl32 C)"
    using fl32_near [OF m(2)] fl32_nonneg [OF m(2)] by linarith+
  have den: "99 / 100 * (1 - r) \<le> fl32 (1 - r)" "0 < fl32 (1 - r)"
    using fl32_near [of "1 - r"] r(2) by auto
  let ?q = "fl32 (r * fl32 C) / fl32 (1 - r)"
  have q0: "0 \<le> ?q" using num(2) den(2) by simp
  have "101 / 100 * (101 / 100 * (101 / 100 * (r * C))) < 99 / 100 * ((1 - r) * 2 ^ 32)"
    using c [folded C_def] r C by (simp add: field_simps)
  then have "101 / 100 * fl32 (r * fl32 C) < 2 ^ 32 * fl32 (1 - r)"
    using num(1) den(1) by (simp add: field_simps)
  then have "101 / 100 * ?q < 2 ^ 32" using den(2) by (simp add: field_simps)
  then have "fl32 ?q < 2 ^ 32" "0 \<le> fl32 ?q"
    using fl32_near [OF q0] fl32_nonneg [OF q0] by linarith+
  then obtain n where "to_u32 (Fin (fl32 ?q)) = Inr n" using to_u32_ok by blast
  then show ?thesis using den(2) by (simp add: need_count_def fdiv32_def C_def)
qed
text \<open>No counter of consecutive results ever stays at its limit.\<close>

definition host_ok :: "LbConfigure \<Rightarrow> HI \<Rightarrow> bool" where
  "host_ok cfg h \<longleftrightarrow>
     (if hi_overload h then hi_continSucc h < word_of_int (continSuccLim cfg)
      else hi_continErr h < word_of_int (continErrLim cfg))"

definition config_ok :: "LbConfigure \<Rightarrow> bool" where
  "config_ok cfg \<longleftrightarrow>
     0 < continSuccLim cfg \<and> continSuccLim cfg < 2 ^ 31 \<and>
     0 < continErrLim cfg \<and> continErrLim cfg < 2 ^ 31 \<and> 0 \<le> probeNum cfg"

end
