(* ===== verification/ElbProto.thy ===== *)
theory ElbProto
  imports ElbPrelude
begin

text \<open>
  The messages the processes exchange, as the classes generated from
  \<open>common/proto/elb.proto\<close> present them to the code: one record per message, a
  required field as a value, an \<open>optional\<close> field as an \<open>option\<close> (\<open>None\<close> is
  \<open>!has_x()\<close>), a \<open>repeated\<close> field as a list in the order of the \<open>add_x()\<close> calls.
\<close>

section \<open>Message identifiers\<close>

datatype MsgTypeId =
    GetHostReqId | GetHostRspId | ReportReqId | GetRouteByToolReqId | GetRouteByToolRspId
  | GetRouteByAgentReqId | GetRouteByAgentRspId | ReportStatusReqId
  | CacheGetRouteReqId | CacheGetRouteRspId | CacheBatchRptReqId

primrec msg_value :: "MsgTypeId \<Rightarrow> nat" where
  "msg_value GetHostReqId = 1"
| "msg_value GetHostRspId = 2"
| "msg_value ReportReqId = 3"
| "msg_value GetRouteByToolReqId = 4"
| "msg_value GetRouteByToolRspId = 5"
| "msg_value GetRouteByAgentReqId = 6"
| "msg_value GetRouteByAgentRspId = 7"
| "msg_value ReportStatusReqId = 8"
| "msg_value CacheGetRouteReqId = 9"
| "msg_value CacheGetRouteRspId = 10"
| "msg_value CacheBatchRptReqId = 11"

lemma msg_value_inj: "msg_value x = msg_value y \<Longrightarrow> x = y"
  by (cases x; cases y) simp_all

instantiation MsgTypeId :: linorder
begin

definition less_eq_MsgTypeId :: "MsgTypeId \<Rightarrow> MsgTypeId \<Rightarrow> bool" where
  "less_eq_MsgTypeId x y \<longleftrightarrow> msg_value x \<le> msg_value y"

definition less_MsgTypeId :: "MsgTypeId \<Rightarrow> MsgTypeId \<Rightarrow> bool" where
  "less_MsgTypeId x y \<longleftrightarrow> msg_value x < msg_value y"

instance
  by standard (auto simp: less_eq_MsgTypeId_def less_MsgTypeId_def intro: msg_value_inj)

end

section \<open>Messages\<close>

record HostAddr =
  ha_ip :: i32
  ha_port :: i32

record GetHostReq =
  ghq_seq :: u32
  ghq_modid :: i32
  ghq_cmdid :: i32

record GetHostRsp =
  ghr_seq :: u32
  ghr_modid :: i32
  ghr_cmdid :: i32
  ghr_retcode :: int
  ghr_host :: "HostAddr option"

record ReportReq =
  rq_modid :: i32
  rq_cmdid :: i32
  rq_host :: HostAddr
  rq_retcode :: i32
  rq_tcost :: "u32 option"

record GetRouteReq =
  grq_modid :: i32
  grq_cmdid :: i32

record GetRouteRsp =
  grs_modid :: i32
  grs_cmdid :: i32
  grs_hosts :: "HostAddr list"

record HostCallResult =
  hcr_ip :: i32
  hcr_port :: i32
  hcr_succ :: u32
  hcr_err :: u32
  hcr_overload :: bool

record ReportStatusReq =
  rsr_modid :: i32
  rsr_cmdid :: i32
  rsr_caller :: i32
  rsr_results :: "HostCallResult list"
  rsr_ts :: u32

record CacheGetRouteReq =
  cgq_modid :: i32
  cgq_cmdid :: i32
  cgq_version :: clong

record CacheGetRouteRsp =
  cgr_modid :: i32
  cgr_cmdid :: i32
  cgr_version :: clong
  cgr_overload :: "bool option"
  cgr_route :: "HostAddr list"

record HostBatchCallRes =
  hbc_ip :: i32
  hbc_port :: i32
  hbc_succcnt :: u32

record CacheBatchRptReq =
  cbr_modid :: i32
  cbr_cmdid :: i32
  cbr_results :: "HostBatchCallRes list"

text \<open>The key a node is stored under.\<close>

definition addr_key :: "HostAddr \<Rightarrow> u64" where
  "addr_key h = mkkey (ha_ip h) (ha_port h)"

lemma addr_key_inj [simp]: "addr_key h = addr_key h' \<longleftrightarrow> h = h'"
  by (cases h; cases h') (simp add: addr_key_def)

end
