(* ===== verification/LbModule.thy ===== *)
theory LbModule
  imports LbHost ElbProto
begin

text \<open>
  One module \<open>[modid, cmdid]\<close> of lbagent (\<open>class LB\<close>): its table of nodes, the
  running and the down list, and every operation on them. A list element is the
  key of the node it points to (the table holds one \<open>HI\<close> per key, so a pointer and
  its key determine each other); following a pointer whose node has been deleted
  is \<^const>\<open>DanglingPtr\<close>. \<open>time(NULL)\<close> is the argument \<open>now\<close>: the several calls of
  one operation read the same second. Logging is not modelled. The lemmas show the
  invariant that ties the table to the two lists, and that every operation keeps it
  and meets no fault but a failed \<open>assert\<close> or a conversion out of range.
\<close>

section \<open>State\<close>

definition OVERLOAD :: int where "OVERLOAD = - 10000"
definition SYSERR :: int where "SYSERR = - 9999"
definition NOEXIST :: int where "NOEXIST = - 9998"
definition SUCCESS :: int where "SUCCESS = 0"

datatype STATUS = ISPULLING | ISNEW

text \<open>\<open>version\<close> is not written by the constructor: \<open>None\<close> until the first update.\<close>

record LB =
  effectData :: clong
  lstRptTime :: clong
  status :: STATUS
  version :: "clong option"
  lb_modid :: i32
  lb_cmdid :: i32
  accessCnt :: int
  hostMap :: "(u64 \<times> HI) list"
  runningList :: "u64 list"
  downList :: "u64 list"

definition new_LB :: "i32 \<Rightarrow> i32 \<Rightarrow> LB" where
  "new_LB modid cmdid =
    \<lparr> effectData = 0, lstRptTime = 0, status = ISPULLING, version = None,
      lb_modid = modid, lb_cmdid = cmdid, accessCnt = 0,
      hostMap = [], runningList = [], downList = [] \<rparr>"

definition LB_empty :: "LB \<Rightarrow> bool" where
  "LB_empty lb \<longleftrightarrow> hostMap lb = []"

definition hasOvHost :: "LB \<Rightarrow> bool" where
  "hasOvHost lb \<longleftrightarrow> downList lb \<noteq> []"

text \<open>Following a pointer.\<close>

definition deref :: "LB \<Rightarrow> u64 \<Rightarrow> HI res" where
  "deref lb k = (case map_of (hostMap lb) k of None \<Rightarrow> Inl DanglingPtr | Some h \<Rightarrow> Inr h)"

definition host_addr :: "HI \<Rightarrow> HostAddr" where
  "host_addr h = \<lparr> ha_ip = hi_ip h, ha_port = hi_port h \<rparr>"

section \<open>Choosing a node\<close>

definition serve_running :: "LB \<Rightarrow> (HostAddr \<times> LB) res" where
  "serve_running lb =
    rbind (take_front (runningList lb)) (\<lambda>(k, ks).
      rbind (deref lb k) (\<lambda>h. Inr (host_addr h, lb\<lparr>runningList := ks\<rparr>)))"

definition serve_down :: "LB \<Rightarrow> (HostAddr \<times> LB) res" where
  "serve_down lb =
    rbind (take_front (downList lb)) (\<lambda>(k, ks).
      rbind (deref lb k) (\<lambda>h. Inr (host_addr h, lb\<lparr>downList := ks\<rparr>)))"

definition LB_getHost :: "LbConfigure \<Rightarrow> LB \<Rightarrow> (int \<times> HostAddr option \<times> LB) res" where
  "LB_getHost cfg lb =
    (if runningList lb = [] then
       (if probeNum cfg \<le> accessCnt lb then
          rbind (serve_down (lb\<lparr>accessCnt := 0\<rparr>)) (\<lambda>(a, lb'). Inr (SUCCESS, Some a, lb'))
        else Inr (OVERLOAD, None, lb\<lparr>accessCnt := accessCnt lb + 1\<rparr>))
     else if downList lb = [] then
       rbind (serve_running (lb\<lparr>accessCnt := 0\<rparr>)) (\<lambda>(a, lb'). Inr (SUCCESS, Some a, lb'))
     else if probeNum cfg \<le> accessCnt lb then
       rbind (serve_down (lb\<lparr>accessCnt := 0\<rparr>)) (\<lambda>(a, lb'). Inr (SUCCESS, Some a, lb'))
     else
       rbind (serve_running (lb\<lparr>accessCnt := accessCnt lb + 1\<rparr>))
         (\<lambda>(a, lb'). Inr (SUCCESS, Some a, lb')))"

section \<open>Listing the nodes\<close>

definition LB_getRoute :: "LB \<Rightarrow> u64 list" where
  "LB_getRoute lb = map fst (hostMap lb)"

text \<open>One line \<open>"%d %d %d %d"\<close> of the backup file per node.\<close>

definition LB_persist :: "LB \<Rightarrow> (int \<times> int \<times> int \<times> int) list" where
  "LB_persist lb =
    map (\<lambda>(k, h). (sint (lb_modid lb), sint (lb_cmdid lb), sint (hi_ip h), sint (hi_port h)))
      (hostMap lb)"

section \<open>Reported results\<close>

definition set_hi :: "u64 \<Rightarrow> HI \<Rightarrow> LB \<Rightarrow> LB" where
  "set_hi k h lb = lb\<lparr>hostMap := AList.update k h (hostMap lb)\<rparr>"

definition to_down :: "u64 \<Rightarrow> HI \<Rightarrow> LB \<Rightarrow> LB" where
  "to_down k h lb = set_hi k h
     (lb\<lparr>runningList := removeAll k (runningList lb), downList := downList lb @ [k]\<rparr>)"

definition to_running :: "u64 \<Rightarrow> HI \<Rightarrow> LB \<Rightarrow> LB" where
  "to_running k h lb = set_hi k h
     (lb\<lparr>downList := removeAll k (downList lb), runningList := runningList lb @ [k]\<rparr>)"

text \<open>\<open>hi->resetIdle(LbConfig.initSuccCnt)\<close>, \<open>hi->setOverload(LbConfig.ovldErrCnt)\<close>.\<close>

definition make_idle :: "LbConfigure \<Rightarrow> clong \<Rightarrow> HI \<Rightarrow> HI" where
  "make_idle cfg now h = resetIdle now (word_of_int (initSuccCnt cfg)) h"

definition make_overload :: "LbConfigure \<Rightarrow> clong \<Rightarrow> HI \<Rightarrow> HI" where
  "make_overload cfg now h = setOverload now (word_of_int (ovldErrCnt cfg)) h"

text \<open>
  The end of the three report functions: an idle node whose window is over starts a
  new one or, after too many bad windows, goes down; an overloaded node that has
  waited long enough comes back.
\<close>

definition check_timers :: "LbConfigure \<Rightarrow> clong \<Rightarrow> u64 \<Rightarrow> HI \<Rightarrow> LB \<Rightarrow> LB" where
  "check_timers cfg now k h lb =
    (if \<not> hi_overload h then
       (if clearTimo cfg \<le> now - hi_windowTs h then
          (let (bad, h') = checkWindow cfg h
           in if bad then to_down k (make_overload cfg now h') lb
              else set_hi k (make_idle cfg now h') lb)
        else set_hi k h lb)
     else if ovldWaitLim cfg \<le> now - hi_overloadTs h then to_running k (make_idle cfg now h) lb
     else set_hi k h lb)"

text \<open>The counters of one reported call.\<close>

definition count_succ :: "HI \<Rightarrow> HI" where
  "count_succ h = h\<lparr> hi_succ := hi_succ h + 1, hi_rSucc := hi_rSucc h + 1,
     hi_continSucc := hi_continSucc h + 1, hi_continErr := 0 \<rparr>"

definition count_err :: "HI \<Rightarrow> HI" where
  "count_err h = h\<lparr> hi_err := hi_err h + 1, hi_rErr := hi_rErr h + 1,
     hi_continSucc := 0, hi_continErr := hi_continErr h + 1 \<rparr>"

definition LB_report :: "LbConfigure \<Rightarrow> clong \<Rightarrow> i32 \<Rightarrow> i32 \<Rightarrow> i32 \<Rightarrow> LB \<Rightarrow> LB" where
  "LB_report cfg now ip port retcode lb =
    (let key = mkkey ip port in
     case map_of (hostMap lb) key of
       None \<Rightarrow> lb
     | Some h0 \<Rightarrow>
        (let h = (if retcode = 0 then count_succ h0 else count_err h0) in
         if \<not> hi_overload h \<and> retcode \<noteq> 0 \<and> suffers cfg h
         then to_down key (make_overload cfg now h) lb
         else if hi_overload h \<and> retcode = 0 \<and> recovers cfg h
         then to_running key (make_idle cfg now h) lb
         else check_timers cfg now key h lb))"

text \<open>
  A batch of \<open>n\<close> successes. The result of the inner decision is whether the node
  becomes idle and how many of the \<open>n\<close> are left to count for its new life.
\<close>

definition succ_batch :: "LbConfigure \<Rightarrow> u32 \<Rightarrow> HI \<Rightarrow> (bool \<times> u32) res" where
  "succ_batch cfg n h =
    (if word_of_int (continSuccLim cfg) \<le> hi_continSucc h
     then Inr (True, hi_continSucc h - word_of_int (continSuccLim cfg))
     else rbind (need_count (succRate cfg) (hi_err h))
            (\<lambda>need. Inr (if need \<le> n then (True, n - need) else (False, n))))"

definition LB_reportSomeSucc :: "LbConfigure \<Rightarrow> clong \<Rightarrow> i32 \<Rightarrow> i32 \<Rightarrow> u32 \<Rightarrow> LB \<Rightarrow> LB res" where
  "LB_reportSomeSucc cfg now ip port n lb =
    (let key = mkkey ip port in
     case map_of (hostMap lb) key of
       None \<Rightarrow> Inr lb
     | Some h0 \<Rightarrow>
        (let h = h0\<lparr> hi_rSucc := hi_rSucc h0 + n, hi_continSucc := hi_continSucc h0 + n,
                      hi_continErr := 0 \<rparr> in
         if \<not> hi_overload h
         then Inr (check_timers cfg now key (h\<lparr>hi_succ := hi_succ h + n\<rparr>) lb)
         else rbind (succ_batch cfg n h) (\<lambda>(ifIdle, left).
           (let h1 = h\<lparr>hi_succ := hi_succ h + (n - left)\<rparr>;
                h2 = (if ifIdle then make_idle cfg now h1 else h1);
                lb1 = (if ifIdle then to_running key h2 lb else lb);
                h3 = h2\<lparr>hi_succ := hi_succ h2 + left\<rparr>
            in Inr (check_timers cfg now key h3 lb1)))))"

definition err_batch :: "LbConfigure \<Rightarrow> u32 \<Rightarrow> HI \<Rightarrow> (bool \<times> u32) res" where
  "err_batch cfg n h =
    (if word_of_int (continErrLim cfg) \<le> hi_continErr h
     then Inr (True, hi_continErr h - word_of_int (continErrLim cfg))
     else rbind (need_count (errRate cfg) (hi_succ h))
            (\<lambda>need. Inr (if need \<le> n then (True, n - need) else (False, n))))"

definition LB_reportSomeErr :: "LbConfigure \<Rightarrow> clong \<Rightarrow> i32 \<Rightarrow> i32 \<Rightarrow> u32 \<Rightarrow> LB \<Rightarrow> LB res" where
  "LB_reportSomeErr cfg now ip port n lb =
    (let key = mkkey ip port in
     case map_of (hostMap lb) key of
       None \<Rightarrow> Inr lb
     | Some h0 \<Rightarrow>
        (let h = h0\<lparr> hi_rErr := hi_rErr h0 + n, hi_continSucc := 0,
                      hi_continErr := hi_continErr h0 + n \<rparr> in
         if hi_overload h
         then Inr (check_timers cfg now key (h\<lparr>hi_err := hi_err h + n\<rparr>) lb)
         else rbind (err_batch cfg n h) (\<lambda>(ifOverload, left).
           (let h1 = h\<lparr>hi_err := hi_err h + (n - left)\<rparr>;
                h2 = (if ifOverload then make_overload cfg now h1 else h1);
                lb1 = (if ifOverload then to_down key h2 lb else lb);
                h3 = h2\<lparr>hi_err := hi_err h2 + left\<rparr>
            in Inr (check_timers cfg now key h3 lb1)))))"

section \<open>A new route\<close>

text \<open>The first loop of \<open>update\<close>: a host that is not in the table is added as idle.\<close>

definition add_host :: "LbConfigure \<Rightarrow> clong \<Rightarrow> HostAddr \<Rightarrow> LB \<times> bool \<Rightarrow> LB \<times> bool" where
  "add_host cfg now a s =
    (let (lb, updated) = s; key = addr_key a in
     case map_of (hostMap lb) key of
       None \<Rightarrow> (lb\<lparr> hostMap := AList.update key
                       (new_HI now (ha_ip a) (ha_port a) (word_of_int (initSuccCnt cfg))) (hostMap lb),
                     runningList := runningList lb @ [key] \<rparr>, True)
     | Some _ \<Rightarrow> (lb, updated))"

text \<open>The last loop: a host that the new route lacks is taken off its list and deleted.\<close>

definition del_host :: "LB \<Rightarrow> u64 \<Rightarrow> LB res" where
  "del_host lb key =
    rbind (deref lb key) (\<lambda>hi.
      (let lb1 = (if hi_overload hi then lb\<lparr>downList := removeAll key (downList lb)\<rparr>
                  else lb\<lparr>runningList := removeAll key (runningList lb)\<rparr>)
       in Inr (lb1\<lparr>hostMap := AList.delete key (hostMap lb1)\<rparr>)))"

definition LB_update :: "LbConfigure \<Rightarrow> clong \<Rightarrow> HostAddr list \<Rightarrow> LB \<Rightarrow> LB res" where
  "LB_update cfg now hosts lb =
    (if hosts = [] then Inl AssertFail
     else
       (let resetRptTime = LB_empty lb;
            (lb1, added) = fold (add_host cfg now) hosts (lb, False);
            remote = map addr_key hosts;
            todel = sort (filter (\<lambda>k. k \<notin> set remote) (map fst (hostMap lb1)));
            updated = (added \<or> todel \<noteq> [])
        in rbind (foldM del_host lb1 todel) (\<lambda>lb2.
             Inr (lb2\<lparr> effectData := now, status := ISNEW,
                        lstRptTime := (if resetRptTime then now else lstRptTime lb2),
                        version := (if updated then Some now else version lb2) \<rparr>))))"

section \<open>Messages to the other threads\<close>

definition LB_pull :: "LB \<Rightarrow> LB \<times> GetRouteReq" where
  "LB_pull lb = (lb\<lparr>status := ISPULLING\<rparr>, \<lparr> grq_modid = lb_modid lb, grq_cmdid = lb_cmdid lb \<rparr>)"

definition call_result :: "LB \<Rightarrow> bool \<Rightarrow> u64 \<Rightarrow> HostCallResult res" where
  "call_result lb ov k =
    rbind (deref lb k) (\<lambda>h. Inr \<lparr> hcr_ip = hi_ip h, hcr_port = hi_port h, hcr_succ = hi_rSucc h,
                                   hcr_err = hi_rErr h, hcr_overload = ov \<rparr>)"

definition LB_report2Rpter ::
  "LbConfigure \<Rightarrow> u32 \<Rightarrow> clong \<Rightarrow> LB \<Rightarrow> (LB \<times> ReportStatusReq option) res" where
  "LB_report2Rpter cfg MyIp now lb =
    (if LB_empty lb then Inr (lb, None)
     else if now - lstRptTime lb < reportTimo cfg then Inr (lb, None)
     else
       rbind (traverse (call_result lb False) (runningList lb)) (\<lambda>rs.
       rbind (traverse (call_result lb True) (downList lb)) (\<lambda>ds.
         Inr (lb\<lparr>lstRptTime := now\<rparr>,
              Some \<lparr> rsr_modid = lb_modid lb, rsr_cmdid = lb_cmdid lb, rsr_caller = MyIp,
                     rsr_results = rs @ ds, rsr_ts = word_of_int now \<rparr>))))"


section \<open>The invariant\<close>

text \<open>
  The table has one node per key, stored under its own key; the running list holds
  the idle nodes and the down list the overloaded ones, each exactly once; the
  access counter stays within \<open>probeNum\<close>; a module with nodes has a version.
\<close>

definition on_list :: "(u64 \<times> HI) list \<Rightarrow> bool \<Rightarrow> u64 \<Rightarrow> bool" where
  "on_list m ov k = (case map_of m k of None \<Rightarrow> False | Some h \<Rightarrow> hi_overload h = ov)"

lemma on_list_iff: "on_list m ov k \<longleftrightarrow> (\<exists>h. map_of m k = Some h \<and> hi_overload h = ov)"
  by (simp add: on_list_def split: option.splits)

definition wf_LB :: "LbConfigure \<Rightarrow> LB \<Rightarrow> bool" where
  "wf_LB cfg lb \<longleftrightarrow>
     distinct (map fst (hostMap lb)) \<and>
     list_all (\<lambda>(k, h). k = mkkey (hi_ip h) (hi_port h) \<and> host_ok cfg h
                 \<and> k \<in> set (if hi_overload h then downList lb else runningList lb)) (hostMap lb) \<and>
     distinct (runningList lb) \<and> list_all (on_list (hostMap lb) False) (runningList lb) \<and>
     distinct (downList lb) \<and> list_all (on_list (hostMap lb) True) (downList lb) \<and>
     0 \<le> accessCnt lb \<and> accessCnt lb \<le> probeNum cfg \<and>
     (hostMap lb \<noteq> [] \<longrightarrow> version lb \<noteq> None)"

text \<open>The table and the two lists apart from the rest, in a form for proofs.\<close>

definition wf_lists :: "LbConfigure \<Rightarrow> (u64 \<times> HI) list \<Rightarrow> u64 list \<Rightarrow> u64 list \<Rightarrow> bool" where
  "wf_lists cfg m rl dl \<longleftrightarrow>
     distinct (map fst m) \<and> distinct rl \<and> distinct dl \<and>
     (\<forall>k h. map_of m k = Some h \<longrightarrow> k = mkkey (hi_ip h) (hi_port h) \<and> host_ok cfg h) \<and>
     (\<forall>k. k \<in> set rl \<longleftrightarrow> (\<exists>h. map_of m k = Some h \<and> \<not> hi_overload h)) \<and>
     (\<forall>k. k \<in> set dl \<longleftrightarrow> (\<exists>h. map_of m k = Some h \<and> hi_overload h))"

lemma wf_LB_alt:
  "wf_LB cfg lb \<longleftrightarrow>
     wf_lists cfg (hostMap lb) (runningList lb) (downList lb) \<and>
     0 \<le> accessCnt lb \<and> accessCnt lb \<le> probeNum cfg \<and> (hostMap lb \<noteq> [] \<longrightarrow> version lb \<noteq> None)"
proof (cases "distinct (map fst (hostMap lb))")
  case True
  then show ?thesis
    unfolding wf_LB_def wf_lists_def list_all_entries [OF True]
    by (auto simp: list_all_iff on_list_iff)
qed (simp add: wf_LB_def wf_lists_def)

lemma wf_lists_keys: "wf_lists cfg m rl dl \<Longrightarrow> set rl \<union> set dl = keys_of m"
  unfolding wf_lists_def by (auto elim: keys_ofE intro: map_of_keys_of)

lemma wf_lists_disjoint: "wf_lists cfg m rl dl \<Longrightarrow> set rl \<inter> set dl = {}"
  unfolding wf_lists_def by auto

lemma wf_LB_new: "0 \<le> probeNum cfg \<Longrightarrow> wf_LB cfg (new_LB modid cmdid)"
  by (simp add: wf_LB_def new_LB_def)

section \<open>Changes of one node\<close>

lemma wf_listsD:
  assumes "wf_lists cfg m rl dl"
  shows "distinct (map fst m)" "distinct rl" "distinct dl"
    and "map_of m k = Some h \<Longrightarrow> k = mkkey (hi_ip h) (hi_port h)"
    and "map_of m k = Some h \<Longrightarrow> host_ok cfg h"
    and "k \<in> set rl \<longleftrightarrow> (\<exists>h. map_of m k = Some h \<and> \<not> hi_overload h)"
    and "k \<in> set dl \<longleftrightarrow> (\<exists>h. map_of m k = Some h \<and> hi_overload h)"
  using assms unfolding wf_lists_def by blast+

lemma wf_lists_update:
  assumes w: "wf_lists cfg m rl dl" and k: "map_of m k = Some h0"
    and h: "hi_ip h = hi_ip h0" "hi_port h = hi_port h0" "host_ok cfg h"
    and rl: "distinct rl'" "set rl' = (if hi_overload h then set rl - {k} else insert k (set rl))"
    and dl: "distinct dl'" "set dl' = (if hi_overload h then insert k (set dl) else set dl - {k})"
  shows "wf_lists cfg (AList.update k h m) rl' dl'"
  unfolding wf_lists_def
proof (intro conjI allI impI)
  show "distinct (map fst (AList.update k h m))"
    using wf_listsD(1) [OF w] by (rule hm.ok_put)
  show "distinct rl'" "distinct dl'" using rl dl by auto
next
  fix k' h' assume "map_of (AList.update k h m) k' = Some h'"
  then show "k' = mkkey (hi_ip h') (hi_port h')" and "host_ok cfg h'"
    using wf_listsD(4,5) [OF w] k h by (auto simp: hm.find_put split: if_splits)
next
  fix k'
  show "k' \<in> set rl' \<longleftrightarrow> (\<exists>h'. map_of (AList.update k h m) k' = Some h' \<and> \<not> hi_overload h')"
    and "k' \<in> set dl' \<longleftrightarrow> (\<exists>h'. map_of (AList.update k h m) k' = Some h' \<and> hi_overload h')"
    using rl(2) dl(2) by (auto simp: hm.find_put wf_listsD(6,7) [OF w] split: if_splits)
qed

lemma wf_LB_set_hi:
  assumes "wf_LB cfg lb" "map_of (hostMap lb) k = Some h0"
    and "hi_ip h = hi_ip h0" "hi_port h = hi_port h0" "hi_overload h = hi_overload h0" "host_ok cfg h"
  shows "wf_LB cfg (set_hi k h lb)"
  using assms wf_lists_update [of cfg "hostMap lb" "runningList lb" "downList lb" k h0 h
      "runningList lb" "downList lb"]
  by (auto simp: wf_LB_alt set_hi_def insert_absorb wf_listsD(2,3) wf_listsD(6,7)
      split: if_splits)

lemma wf_LB_to_down:
  assumes "wf_LB cfg lb" "map_of (hostMap lb) k = Some h0" "\<not> hi_overload h0"
    and "hi_ip h = hi_ip h0" "hi_port h = hi_port h0" "hi_overload h" "host_ok cfg h"
  shows "wf_LB cfg (to_down k h lb)"
  using assms wf_lists_update [of cfg "hostMap lb" "runningList lb" "downList lb" k h0 h
      "removeAll k (runningList lb)" "downList lb @ [k]"]
  by (auto simp: wf_LB_alt to_down_def set_hi_def wf_listsD(2,3) wf_listsD(7) distinct_removeAll)

lemma wf_LB_to_running:
  assumes "wf_LB cfg lb" "map_of (hostMap lb) k = Some h0" "hi_overload h0"
    and "hi_ip h = hi_ip h0" "hi_port h = hi_port h0" "\<not> hi_overload h" "host_ok cfg h"
  shows "wf_LB cfg (to_running k h lb)"
  using assms wf_lists_update [of cfg "hostMap lb" "runningList lb" "downList lb" k h0 h
      "runningList lb @ [k]" "removeAll k (downList lb)"]
  by (auto simp: wf_LB_alt to_running_def set_hi_def wf_listsD(2,3) wf_listsD(6) distinct_removeAll)

section \<open>Reports keep the invariant\<close>

lemma limit_pos: "0 < n \<Longrightarrow> n < 2 ^ 31 \<Longrightarrow> (0::u32) < word_of_int n"
proof -
  assume "0 < n" "n < 2 ^ 31"
  then have "uint (word_of_int n :: u32) = n"
    by (simp add: uint_word_of_int)
  with \<open>0 < n\<close> show ?thesis by (simp add: word_less_def)
qed

lemma host_ok_states [simp]:
  assumes "config_ok cfg"
  shows "host_ok cfg (make_idle cfg now h)" "host_ok cfg (make_overload cfg now h)"
    "host_ok cfg (new_HI now i p n)"
  using assms limit_pos
  by (simp_all add: host_ok_def config_ok_def make_idle_def make_overload_def resetIdle_def
      setOverload_def)

lemma make_state_simps [simp]:
  "hi_ip (make_idle cfg now h) = hi_ip h" "hi_port (make_idle cfg now h) = hi_port h"
  "\<not> hi_overload (make_idle cfg now h)"
  "hi_ip (make_overload cfg now h) = hi_ip h" "hi_port (make_overload cfg now h) = hi_port h"
  "hi_overload (make_overload cfg now h)"
  by (simp_all add: make_idle_def make_overload_def)

lemma list_state_simps [simp]:
  "hostMap (set_hi k h lb) = AList.update k h (hostMap lb)"
  "hostMap (to_down k h lb) = AList.update k h (hostMap lb)"
  "hostMap (to_running k h lb) = AList.update k h (hostMap lb)"
  by (simp_all add: set_hi_def to_down_def to_running_def)

lemma wf_LB_check_timers:
  assumes "wf_LB cfg lb" "map_of (hostMap lb) k = Some h0" "config_ok cfg"
    and "hi_ip h = hi_ip h0" "hi_port h = hi_port h0" "hi_overload h = hi_overload h0" "host_ok cfg h"
  shows "wf_LB cfg (check_timers cfg now k h lb)"
proof -
  obtain bad h' where c: "checkWindow cfg h = (bad, h')" by fastforce
  then have "hi_ip h' = hi_ip h" "hi_port h' = hi_port h"
    using HI_frame(1,2) [of cfg h] by simp_all
  then show ?thesis using assms
    by (auto simp: check_timers_def c
        intro: wf_LB_set_hi wf_LB_to_down wf_LB_to_running)
qed

lemma count_simps [simp]:
  "hi_ip (count_succ h) = hi_ip h" "hi_port (count_succ h) = hi_port h"
  "hi_overload (count_succ h) = hi_overload h" "hi_continErr (count_succ h) = 0"
  "hi_ip (count_err h) = hi_ip h" "hi_port (count_err h) = hi_port h"
  "hi_overload (count_err h) = hi_overload h" "hi_continSucc (count_err h) = 0"
  by (simp_all add: count_succ_def count_err_def)

lemma config_ok_limits:
  "config_ok cfg \<Longrightarrow> (0::u32) < word_of_int (continSuccLim cfg)"
  "config_ok cfg \<Longrightarrow> (0::u32) < word_of_int (continErrLim cfg)"
  by (simp_all add: config_ok_def limit_pos)

lemma wf_LB_report:
  assumes w: "wf_LB cfg lb" and c: "config_ok cfg"
  shows "wf_LB cfg (LB_report cfg now ip port retcode lb)"
proof (cases "map_of (hostMap lb) (mkkey ip port)")
  case None
  with w show ?thesis by (simp add: LB_report_def)
next
  case (Some h0)
  define h where "h = (if retcode = 0 then count_succ h0 else count_err h0)"
  have id: "hi_ip h = hi_ip h0" "hi_port h = hi_port h0" "hi_overload h = hi_overload h0"
    by (simp_all add: h_def)
  have ok: "host_ok cfg h"
    if "\<not> (\<not> hi_overload h \<and> retcode \<noteq> 0 \<and> suffers cfg h)"
       "\<not> (hi_overload h \<and> retcode = 0 \<and> recovers cfg h)"
    using that config_ok_limits [OF c]
    by (auto simp: host_ok_def h_def suffers_def recovers_def)
  show ?thesis
    using w c Some id ok
    by (auto simp: LB_report_def Let_def h_def [symmetric]
        intro: wf_LB_to_down wf_LB_to_running wf_LB_check_timers)
qed


lemma succ_batch_stays:
  "succ_batch cfg n h = Inr (False, left) \<Longrightarrow>
   hi_continSucc h < word_of_int (continSuccLim cfg) \<and> left = n"
  by (auto simp: succ_batch_def not_le split: if_splits)

lemma err_batch_stays:
  "err_batch cfg n h = Inr (False, left) \<Longrightarrow>
   hi_continErr h < word_of_int (continErrLim cfg) \<and> left = n"
  by (auto simp: err_batch_def not_le split: if_splits)

lemma batch_fault:
  "succ_batch cfg n h = Inl e \<Longrightarrow> e = BadCast" "err_batch cfg n h = Inl e \<Longrightarrow> e = BadCast"
  by (auto simp: succ_batch_def err_batch_def rbind_eq_Inl dest: need_count_fault split: if_splits)

lemma host_ok_upd [simp]:
  "host_ok cfg (h\<lparr>hi_succ := a\<rparr>) = host_ok cfg h" "host_ok cfg (h\<lparr>hi_err := a\<rparr>) = host_ok cfg h"
  by (simp_all add: host_ok_def)

lemma wf_LB_reportSomeSucc:
  assumes w: "wf_LB cfg lb" and c: "config_ok cfg"
    and r: "LB_reportSomeSucc cfg now ip port n lb = Inr lb'"
  shows "wf_LB cfg lb'"
proof (cases "map_of (hostMap lb) (mkkey ip port)")
  case None
  with w r show ?thesis by (simp add: LB_reportSomeSucc_def)
next
  case (Some h0)
  define h where "h = h0\<lparr> hi_rSucc := hi_rSucc h0 + n, hi_continSucc := hi_continSucc h0 + n,
                            hi_continErr := 0 \<rparr>"
  have id: "hi_ip h = hi_ip h0" "hi_port h = hi_port h0" "hi_overload h = hi_overload h0"
    by (simp_all add: h_def)
  show ?thesis
  proof (cases "hi_overload h")
    case False
    then have "host_ok cfg h" using config_ok_limits [OF c] by (simp add: host_ok_def h_def)
    with False w c Some id r show ?thesis
      by (auto simp: LB_reportSomeSucc_def Let_def h_def [symmetric] intro!: wf_LB_check_timers)
  next
    case True
    with r Some obtain idle left where b: "succ_batch cfg n h = Inr (idle, left)"
      by (auto simp: LB_reportSomeSucc_def Let_def h_def [symmetric] split: prod.splits)
    show ?thesis
    proof (cases idle)
      case True
      let ?h2 = "make_idle cfg now (h\<lparr>hi_succ := hi_succ h + (n - left)\<rparr>)"
      have "wf_LB cfg (to_running (mkkey ip port) ?h2 lb)"
        using w Some \<open>hi_overload h\<close> id c by (intro wf_LB_to_running) auto
      with True b r c \<open>hi_overload h\<close> Some show ?thesis
        by (auto simp: LB_reportSomeSucc_def Let_def h_def [symmetric] id
            intro!: wf_LB_check_timers)
    next
      case False
      with b have "host_ok cfg h"
        using succ_batch_stays \<open>hi_overload h\<close> by (auto simp: host_ok_def)
      with False b r w c \<open>hi_overload h\<close> Some id show ?thesis
        by (auto simp: LB_reportSomeSucc_def Let_def h_def [symmetric] intro!: wf_LB_check_timers)
    qed
  qed
qed

lemma wf_LB_reportSomeErr:
  assumes w: "wf_LB cfg lb" and c: "config_ok cfg"
    and r: "LB_reportSomeErr cfg now ip port n lb = Inr lb'"
  shows "wf_LB cfg lb'"
proof (cases "map_of (hostMap lb) (mkkey ip port)")
  case None
  with w r show ?thesis by (simp add: LB_reportSomeErr_def)
next
  case (Some h0)
  define h where "h = h0\<lparr> hi_rErr := hi_rErr h0 + n, hi_continSucc := 0,
                            hi_continErr := hi_continErr h0 + n \<rparr>"
  have id: "hi_ip h = hi_ip h0" "hi_port h = hi_port h0" "hi_overload h = hi_overload h0"
    by (simp_all add: h_def)
  show ?thesis
  proof (cases "hi_overload h")
    case True
    then have "host_ok cfg h" using config_ok_limits [OF c] by (simp add: host_ok_def h_def)
    with True w c Some id r show ?thesis
      by (auto simp: LB_reportSomeErr_def Let_def h_def [symmetric] intro!: wf_LB_check_timers)
  next
    case False
    with r Some obtain ov left where b: "err_batch cfg n h = Inr (ov, left)"
      by (auto simp: LB_reportSomeErr_def Let_def h_def [symmetric] split: prod.splits)
    show ?thesis
    proof (cases ov)
      case True
      let ?h2 = "make_overload cfg now (h\<lparr>hi_err := hi_err h + (n - left)\<rparr>)"
      have "wf_LB cfg (to_down (mkkey ip port) ?h2 lb)"
        using w Some False id c by (intro wf_LB_to_down) auto
      with True b r c False Some show ?thesis
        by (auto simp: LB_reportSomeErr_def Let_def h_def [symmetric] id
            intro!: wf_LB_check_timers)
    next
      case nov: False
      with b have "host_ok cfg h" using err_batch_stays False by (auto simp: host_ok_def)
      with nov b r w c False Some id show ?thesis
        by (auto simp: LB_reportSomeErr_def Let_def h_def [symmetric] intro!: wf_LB_check_timers)
    qed
  qed
qed

lemma LB_reportSome_fault:
  "LB_reportSomeSucc cfg now ip port n lb = Inl e \<Longrightarrow> e = BadCast"
  "LB_reportSomeErr cfg now ip port n lb = Inl e \<Longrightarrow> e = BadCast"
  by (auto simp: LB_reportSomeSucc_def LB_reportSomeErr_def Let_def rbind_eq_Inl
      split: option.splits if_splits dest: batch_fault)

section \<open>Choosing a node keeps the invariant\<close>

lemma wf_LB_deref:
  "wf_LB cfg lb \<Longrightarrow> k \<in> set (runningList lb) \<union> set (downList lb) \<Longrightarrow> \<exists>h. deref lb k = Inr h"
  by (auto simp: wf_LB_alt deref_def wf_listsD(6,7))

lemma serve_running_Cons:
  assumes "wf_LB cfg lb" "runningList lb = k # ks"
  obtains h where "map_of (hostMap lb) k = Some h" "\<not> hi_overload h"
    "serve_running lb = Inr (host_addr h, lb\<lparr>runningList := ks @ [k]\<rparr>)"
  using assms wf_listsD(6) [of cfg "hostMap lb" "runningList lb" "downList lb" k]
  by (auto simp: wf_LB_alt serve_running_def deref_def)

lemma serve_down_Cons:
  assumes "wf_LB cfg lb" "downList lb = k # ks"
  obtains h where "map_of (hostMap lb) k = Some h" "hi_overload h"
    "serve_down lb = Inr (host_addr h, lb\<lparr>downList := ks @ [k]\<rparr>)"
  using assms wf_listsD(7) [of cfg "hostMap lb" "runningList lb" "downList lb" k]
  by (auto simp: wf_LB_alt serve_down_def deref_def)

lemma wf_lists_rotate:
  "wf_lists cfg m (k # ks) dl \<Longrightarrow> wf_lists cfg m (ks @ [k]) dl"
  "wf_lists cfg m rl (k # ks) \<Longrightarrow> wf_lists cfg m rl (ks @ [k])"
  by (auto simp: wf_lists_def)

lemma wf_LB_accessCnt:
  "wf_LB cfg lb \<Longrightarrow> 0 \<le> n \<Longrightarrow> n \<le> probeNum cfg \<Longrightarrow> wf_LB cfg (lb\<lparr>accessCnt := n\<rparr>)"
  by (simp add: wf_LB_alt)

lemma wf_LB_counter: "wf_LB cfg lb \<Longrightarrow> 0 \<le> accessCnt lb \<and> 0 \<le> probeNum cfg"
  by (auto simp: wf_LB_alt)

lemma wf_LB_nonempty:
  "wf_LB cfg lb \<Longrightarrow> LB_empty lb \<longleftrightarrow> runningList lb = [] \<and> downList lb = []"
  using wf_lists_keys [of cfg "hostMap lb" "runningList lb" "downList lb"]
  by (auto simp: wf_LB_alt LB_empty_def keys_of_def)

definition addr_of :: "LB \<Rightarrow> u64 \<Rightarrow> HostAddr" where
  "addr_of lb k = (case map_of (hostMap lb) k of
      None \<Rightarrow> \<lparr> ha_ip = 0, ha_port = 0 \<rparr> | Some h \<Rightarrow> host_addr h)"

lemma LB_getHost_probe:
  assumes w: "wf_LB cfg lb" and d: "downList lb = k # ks" and p: "probeNum cfg \<le> accessCnt lb"
  shows "LB_getHost cfg lb = Inr (SUCCESS, Some (addr_of lb k), lb\<lparr>accessCnt := 0, downList := ks @ [k]\<rparr>)"
proof -
  have "wf_LB cfg (lb\<lparr>accessCnt := 0\<rparr>)" using w wf_LB_counter [OF w] by (intro wf_LB_accessCnt) auto
  from serve_down_Cons [OF this, of k ks] d obtain h where
    "map_of (hostMap lb) k = Some h"
    "serve_down (lb\<lparr>accessCnt := 0\<rparr>) = Inr (host_addr h, lb\<lparr>accessCnt := 0, downList := ks @ [k]\<rparr>)"
    by auto
  with d p show ?thesis by (simp add: LB_getHost_def addr_of_def)
qed

lemma LB_getHost_idle:
  assumes w: "wf_LB cfg lb" and r: "runningList lb = k # ks"
    and p: "downList lb = [] \<or> accessCnt lb < probeNum cfg"
  shows "LB_getHost cfg lb = Inr (SUCCESS, Some (addr_of lb k),
     lb\<lparr>accessCnt := (if downList lb = [] then 0 else accessCnt lb + 1), runningList := ks @ [k]\<rparr>)"
proof -
  let ?n = "if downList lb = [] then 0 else accessCnt lb + 1"
  have "wf_LB cfg (lb\<lparr>accessCnt := ?n\<rparr>)"
    using w p wf_LB_counter [OF w] by (intro wf_LB_accessCnt) auto
  from serve_running_Cons [OF this, of k ks] r obtain h where
    "map_of (hostMap lb) k = Some h"
    "serve_running (lb\<lparr>accessCnt := ?n\<rparr>) = Inr (host_addr h, lb\<lparr>accessCnt := ?n, runningList := ks @ [k]\<rparr>)"
    by auto
  with r p show ?thesis by (auto simp: LB_getHost_def addr_of_def)
qed

lemma LB_getHost_overload:
  "runningList lb = [] \<Longrightarrow> accessCnt lb < probeNum cfg \<Longrightarrow>
   LB_getHost cfg lb = Inr (OVERLOAD, None, lb\<lparr>accessCnt := accessCnt lb + 1\<rparr>)"
  by (simp add: LB_getHost_def)

lemma LB_getHost_cases:
  assumes w: "wf_LB cfg lb" and ne: "\<not> LB_empty lb"
  obtains (probe) k ks where "downList lb = k # ks" "probeNum cfg \<le> accessCnt lb"
  | (idle) k ks where "runningList lb = k # ks" "downList lb = [] \<or> accessCnt lb < probeNum cfg"
  | (full) "runningList lb = []" "downList lb \<noteq> []" "accessCnt lb < probeNum cfg"
  using ne wf_LB_nonempty [OF w]
  by (cases "runningList lb"; cases "downList lb"; cases "probeNum cfg \<le> accessCnt lb") auto

lemma LB_getHost_wf:
  assumes w: "wf_LB cfg lb" and ne: "\<not> LB_empty lb"
  obtains ret a lb' where "LB_getHost cfg lb = Inr (ret, a, lb')" "wf_LB cfg lb'"
    "hostMap lb' = hostMap lb" "status lb' = status lb" "effectData lb' = effectData lb"
    "lb_modid lb' = lb_modid lb" "lb_cmdid lb' = lb_cmdid lb" "version lb' = version lb"
  using assms
proof (cases rule: LB_getHost_cases)
  case (probe k ks)
  with w show ?thesis
    by (intro that [OF LB_getHost_probe [OF w probe]])
       (auto simp: wf_LB_alt intro: wf_lists_rotate)
next
  case (idle k ks)
  with w show ?thesis
    by (intro that [OF LB_getHost_idle [OF w idle]])
       (auto simp: wf_LB_alt intro: wf_lists_rotate)
next
  case full
  with w show ?thesis
    by (intro that [OF LB_getHost_overload]) (auto simp: wf_LB_alt)
qed

section \<open>Updates of the route\<close>

definition wf_tab :: "LbConfigure \<Rightarrow> LB \<Rightarrow> bool" where
  "wf_tab cfg lb \<longleftrightarrow> wf_lists cfg (hostMap lb) (runningList lb) (downList lb)"

text \<open>The members that changes of the table leave alone.\<close>

definition LB_rest :: "LB \<Rightarrow> clong \<times> clong \<times> STATUS \<times> clong option \<times> i32 \<times> i32 \<times> int" where
  "LB_rest lb = (effectData lb, lstRptTime lb, status lb, version lb, lb_modid lb, lb_cmdid lb,
     accessCnt lb)"

lemma add_host_known:
  "addr_key a \<in> keys_of (hostMap lb) \<Longrightarrow> add_host cfg now a (lb, u) = (lb, u)"
  by (auto simp: add_host_def elim: keys_ofE)

lemma add_host_new:
  assumes "wf_tab cfg lb" "config_ok cfg" "addr_key a \<notin> keys_of (hostMap lb)"
  obtains lb' where "add_host cfg now a (lb, u) = (lb', True)" "wf_tab cfg lb'"
    "hostMap lb' = AList.update (addr_key a)
        (new_HI now (ha_ip a) (ha_port a) (word_of_int (initSuccCnt cfg))) (hostMap lb)"
    "runningList lb' = runningList lb @ [addr_key a]" "downList lb' = downList lb"
    "LB_rest lb' = LB_rest lb"
proof -
  let ?h = "new_HI now (ha_ip a) (ha_port a) (word_of_int (initSuccCnt cfg))"
  let ?m = "AList.update (addr_key a) ?h (hostMap lb)"
  have n: "map_of (hostMap lb) (addr_key a) = None" using assms(3) by (simp add: map_of_eq_None_keys)
  note w = assms(1) [unfolded wf_tab_def]
  have "wf_lists cfg ?m (runningList lb @ [addr_key a]) (downList lb)"
    using n assms(2) wf_listsD(1,2,3) [OF w]
    by (auto simp: wf_lists_def hm.find_put hm.ok_put addr_key_def wf_listsD(6,7) [OF w]
        dest: wf_listsD(4,5) [OF w] split: if_splits)
  with n show ?thesis
    by (intro that [of "lb\<lparr>hostMap := ?m, runningList := runningList lb @ [addr_key a]\<rparr>"])
       (auto simp: add_host_def Let_def wf_tab_def LB_rest_def)
qed

definition fresh_HI :: "LbConfigure \<Rightarrow> clong \<Rightarrow> HostAddr \<Rightarrow> HI" where
  "fresh_HI cfg now a = new_HI now (ha_ip a) (ha_port a) (word_of_int (initSuccCnt cfg))"

lemma add_hosts:
  assumes "wf_tab cfg lb" "config_ok cfg"
  shows "\<exists>lb' new. fold (add_host cfg now) as (lb, u) = (lb', u \<or> new \<noteq> []) \<and> wf_tab cfg lb'
    \<and> runningList lb' = runningList lb @ new \<and> downList lb' = downList lb \<and> LB_rest lb' = LB_rest lb
    \<and> set new = addr_key ` set as - keys_of (hostMap lb)
    \<and> (\<forall>k. k \<notin> set new \<longrightarrow> map_of (hostMap lb') k = map_of (hostMap lb) k)
    \<and> (\<forall>a \<in> set as. addr_key a \<notin> keys_of (hostMap lb) \<longrightarrow>
           map_of (hostMap lb') (addr_key a) = Some (fresh_HI cfg now a))"
  using assms(1)
proof (induction as arbitrary: lb u)
  case Nil
  then show ?case by (intro exI [of _ lb] exI [of _ "[]"]) simp
next
  case (Cons a as)
  show ?case
  proof (cases "addr_key a \<in> keys_of (hostMap lb)")
    case True
    with Cons.IH [OF Cons.prems, of u] show ?thesis
      by (auto simp: add_host_known insert_absorb)
  next
    case False
    from add_host_new [OF Cons.prems assms(2) False, of now u] obtain lb1 where lb1:
      "add_host cfg now a (lb, u) = (lb1, True)" "wf_tab cfg lb1"
      "hostMap lb1 = AList.update (addr_key a) (fresh_HI cfg now a) (hostMap lb)"
      "runningList lb1 = runningList lb @ [addr_key a]" "downList lb1 = downList lb"
      "LB_rest lb1 = LB_rest lb"
      unfolding fresh_HI_def by metis
    from Cons.IH [OF lb1(2), of True] obtain lb' new where IH:
      "fold (add_host cfg now) as (lb1, True) = (lb', True)" "wf_tab cfg lb'"
      "runningList lb' = runningList lb1 @ new" "downList lb' = downList lb1"
      "LB_rest lb' = LB_rest lb1" "set new = addr_key ` set as - keys_of (hostMap lb1)"
      "\<And>k. k \<notin> set new \<Longrightarrow> map_of (hostMap lb') k = map_of (hostMap lb1) k"
      "\<And>a. a \<in> set as \<Longrightarrow> addr_key a \<notin> keys_of (hostMap lb1) \<Longrightarrow>
         map_of (hostMap lb') (addr_key a) = Some (fresh_HI cfg now a)"
      by auto
    have "addr_key a \<notin> set new" using IH(6) lb1(3) by simp
    then have a: "map_of (hostMap lb') (addr_key a) = Some (fresh_HI cfg now a)"
      using IH(7) lb1(3) by (simp add: hm.find_put)
    have new: "map_of (hostMap lb') (addr_key x) = Some (fresh_HI cfg now x)"
      if "x \<in> set (a # as)" "addr_key x \<notin> keys_of (hostMap lb)" for x
      using that a IH(8) [of x] lb1(3) by (cases "x = a") auto
    have old: "map_of (hostMap lb') k = map_of (hostMap lb) k" if "k \<notin> set (addr_key a # new)" for k
      using that IH(7) [of k] lb1(3) by (simp add: hm.find_put)
    show ?thesis
      using lb1(1,4,5,6) IH(1-6) lb1(3) new old False
      by (intro exI [of _ lb'] exI [of _ "addr_key a # new"]) auto
  qed
qed

lemma del_host_ok:
  assumes "wf_tab cfg lb" "k \<in> keys_of (hostMap lb)"
  obtains lb' where "del_host lb k = Inr lb'" "wf_tab cfg lb'"
    "hostMap lb' = AList.delete k (hostMap lb)" "runningList lb' = removeAll k (runningList lb)"
    "downList lb' = removeAll k (downList lb)" "LB_rest lb' = LB_rest lb"
proof -
  note w = assms(1) [unfolded wf_tab_def]
  from assms(2) obtain h where h: "map_of (hostMap lb) k = Some h" by (rule keys_ofE)
  let ?lb = "lb\<lparr>hostMap := AList.delete k (hostMap lb),
    runningList := removeAll k (runningList lb), downList := removeAll k (downList lb)\<rparr>"
  have "removeAll k (downList lb) = downList lb" if "\<not> hi_overload h"
    using that h by (auto simp: removeAll_id wf_listsD(7) [OF w])
  moreover have "removeAll k (runningList lb) = runningList lb" if "hi_overload h"
    using that h by (auto simp: removeAll_id wf_listsD(6) [OF w])
  ultimately have "del_host lb k = Inr ?lb"
    using h by (auto simp: del_host_def deref_def Let_def)
  moreover have "wf_tab cfg ?lb"
    using wf_listsD(1,2,3) [OF w]
    by (auto simp: wf_tab_def wf_lists_def hm.find_erase hm.ok_erase distinct_removeAll
        wf_listsD(6,7) [OF w] dest: wf_listsD(4,5) [OF w] split: if_splits)
  ultimately show ?thesis by (intro that [of ?lb]) (auto simp: LB_rest_def)
qed

lemma del_hosts:
  assumes "wf_tab cfg lb" "distinct ks" "set ks \<subseteq> keys_of (hostMap lb)"
  shows "\<exists>lb'. foldM del_host lb ks = Inr lb' \<and> wf_tab cfg lb'
    \<and> (\<forall>k. map_of (hostMap lb') k = (if k \<in> set ks then None else map_of (hostMap lb) k))
    \<and> runningList lb' = filter (\<lambda>k. k \<notin> set ks) (runningList lb)
    \<and> downList lb' = filter (\<lambda>k. k \<notin> set ks) (downList lb) \<and> LB_rest lb' = LB_rest lb"
  using assms
proof (induction ks arbitrary: lb)
  case Nil
  then show ?case by simp
next
  case (Cons k ks)
  from Cons.prems(1,3) obtain lb1 where lb1: "del_host lb k = Inr lb1" "wf_tab cfg lb1"
    "hostMap lb1 = AList.delete k (hostMap lb)" "runningList lb1 = removeAll k (runningList lb)"
    "downList lb1 = removeAll k (downList lb)" "LB_rest lb1 = LB_rest lb"
    by (auto elim: del_host_ok)
  have "set ks \<subseteq> keys_of (hostMap lb1)" using Cons.prems(2,3) lb1(3) by auto
  from Cons.IH [OF lb1(2) _ this] Cons.prems(2) lb1 show ?case
    by (auto simp: hm.find_erase removeAll_filter_not_eq intro!: filter_cong)
qed


definition route_keys :: "HostAddr list \<Rightarrow> u64 set" where
  "route_keys hosts = addr_key ` set hosts"

text \<open>The two loops of \<open>update\<close> together: what the table and the lists are after them.\<close>

definition obsolete :: "HostAddr list \<Rightarrow> LB \<Rightarrow> u64 list" where
  "obsolete hosts lb = sort (filter (\<lambda>k. k \<notin> set (map addr_key hosts)) (map fst (hostMap lb)))"

lemma obsolete_deleted:
  assumes w: "wf_tab cfg lb" and k: "keys_of (hostMap lb) = K \<union> route_keys hosts"
  obtains lb2 where "foldM del_host lb (obsolete hosts lb) = Inr lb2" "wf_tab cfg lb2" "LB_rest lb2 = LB_rest lb"
    "set (obsolete hosts lb) = K - route_keys hosts" "keys_of (hostMap lb2) = route_keys hosts"
    "\<And>k. k \<in> route_keys hosts \<Longrightarrow> map_of (hostMap lb2) k = map_of (hostMap lb) k"
    "runningList lb2 = filter (\<lambda>k. k \<in> route_keys hosts) (runningList lb)"
    "downList lb2 = filter (\<lambda>k. k \<in> route_keys hosts) (downList lb)"
proof -
  let ?del = "obsolete hosts lb"
  have sd: "set ?del = K - route_keys hosts" using k by (auto simp: obsolete_def route_keys_def keys_of_def)
  have "distinct ?del" "set ?del \<subseteq> keys_of (hostMap lb)"
    using w sd k by (auto simp: obsolete_def wf_tab_def wf_lists_def)
  from del_hosts [OF w this] obtain lb2 where lb2: "foldM del_host lb ?del = Inr lb2" "wf_tab cfg lb2"
    "\<And>k. map_of (hostMap lb2) k = (if k \<in> set ?del then None else map_of (hostMap lb) k)"
    "runningList lb2 = filter (\<lambda>k. k \<notin> set ?del) (runningList lb)"
    "downList lb2 = filter (\<lambda>k. k \<notin> set ?del) (downList lb)" "LB_rest lb2 = LB_rest lb"
    by auto
  have "filter (\<lambda>k. k \<notin> set ?del) xs = filter (\<lambda>k. k \<in> route_keys hosts) xs" if "set xs \<subseteq> keys_of (hostMap lb)" for xs
    using that sd k by (intro filter_cong) auto
  moreover have "set (runningList lb) \<subseteq> keys_of (hostMap lb)" "set (downList lb) \<subseteq> keys_of (hostMap lb)"
    using wf_lists_keys [OF w [unfolded wf_tab_def]] by auto
  moreover have "keys_of (hostMap lb2) = keys_of (hostMap lb) - set ?del"
    by (auto simp: keys_of_dom lb2(3) split: if_splits)
  ultimately show ?thesis using lb2 sd k by (intro that [of lb2]) auto
qed

lemma update_loops:
  assumes w: "wf_tab cfg lb" and c: "config_ok cfg"
  obtains lb1 lb2 new where
    "fold (add_host cfg now) hosts (lb, False) = (lb1, new \<noteq> [])"
    "foldM del_host lb1 (obsolete hosts lb1) = Inr lb2" "wf_tab cfg lb2" "LB_rest lb2 = LB_rest lb"
    "set (obsolete hosts lb1) = keys_of (hostMap lb) - route_keys hosts"
    "set new = route_keys hosts - keys_of (hostMap lb)" "keys_of (hostMap lb2) = route_keys hosts"
    "\<And>a. a \<in> set hosts \<Longrightarrow> map_of (hostMap lb2) (addr_key a) =
       Some (case map_of (hostMap lb) (addr_key a) of None \<Rightarrow> fresh_HI cfg now a | Some h \<Rightarrow> h)"
    "runningList lb2 = filter (\<lambda>k. k \<in> route_keys hosts) (runningList lb) @ new"
    "downList lb2 = filter (\<lambda>k. k \<in> route_keys hosts) (downList lb)"
proof -
  from add_hosts [OF w c, of now hosts False] obtain lb1 new where lb1:
    "fold (add_host cfg now) hosts (lb, False) = (lb1, new \<noteq> [])" "wf_tab cfg lb1"
    "runningList lb1 = runningList lb @ new" "downList lb1 = downList lb"
    "LB_rest lb1 = LB_rest lb" "set new = route_keys hosts - keys_of (hostMap lb)"
    "\<And>k. k \<notin> set new \<Longrightarrow> map_of (hostMap lb1) k = map_of (hostMap lb) k"
    "\<And>a. a \<in> set hosts \<Longrightarrow> addr_key a \<notin> keys_of (hostMap lb) \<Longrightarrow>
         map_of (hostMap lb1) (addr_key a) = Some (fresh_HI cfg now a)"
    unfolding route_keys_def by auto
  note k = wf_lists_keys [OF w [unfolded wf_tab_def]]
  have "keys_of (hostMap lb1) = keys_of (hostMap lb) \<union> route_keys hosts"
    using wf_lists_keys [OF lb1(2) [unfolded wf_tab_def]] k by (auto simp: lb1(3,4,6))
  from obsolete_deleted [OF lb1(2) this] obtain lb2 where lb2:
    "foldM del_host lb1 (obsolete hosts lb1) = Inr lb2" "wf_tab cfg lb2" "LB_rest lb2 = LB_rest lb1"
    "set (obsolete hosts lb1) = keys_of (hostMap lb) - route_keys hosts" "keys_of (hostMap lb2) = route_keys hosts"
    "\<And>k. k \<in> route_keys hosts \<Longrightarrow> map_of (hostMap lb2) k = map_of (hostMap lb1) k"
    "runningList lb2 = filter (\<lambda>k. k \<in> route_keys hosts) (runningList lb1)"
    "downList lb2 = filter (\<lambda>k. k \<in> route_keys hosts) (downList lb1)" by metis
  have ent: "map_of (hostMap lb2) (addr_key a) =
       Some (case map_of (hostMap lb) (addr_key a) of None \<Rightarrow> fresh_HI cfg now a | Some h \<Rightarrow> h)"
    if "a \<in> set hosts" for a
  proof -
    have r: "addr_key a \<in> route_keys hosts" using that by (simp add: route_keys_def)
    then have "addr_key a \<in> set new \<longleftrightarrow> map_of (hostMap lb) (addr_key a) = None"
      using lb1(6) by (auto simp: map_of_eq_None_keys)
    then show ?thesis
      using lb1(7) [of "addr_key a"] lb1(8) [OF that] lb2(6) [OF r]
      by (cases "map_of (hostMap lb) (addr_key a)") (auto simp: map_of_eq_None_keys [symmetric])
  qed
  have "filter (\<lambda>k. k \<in> route_keys hosts) new = new" using lb1(6) by (auto simp: filter_id_conv)
  with lb1 lb2 ent show ?thesis by (intro that) auto
qed

lemma LB_update_spec:
  assumes w: "wf_LB cfg lb" and c: "config_ok cfg" and ne: "hosts \<noteq> []"
  obtains lb' new where "LB_update cfg now hosts lb = Inr lb'" "wf_LB cfg lb'"
    "keys_of (hostMap lb') = route_keys hosts"
    "\<And>a. a \<in> set hosts \<Longrightarrow> map_of (hostMap lb') (addr_key a) =
       Some (case map_of (hostMap lb) (addr_key a) of None \<Rightarrow> fresh_HI cfg now a | Some h \<Rightarrow> h)"
    "version lb' = (if keys_of (hostMap lb) = route_keys hosts then version lb else Some now)"
    "effectData lb' = now" "status lb' = ISNEW"
    "lstRptTime lb' = (if LB_empty lb then now else lstRptTime lb)"
    "lb_modid lb' = lb_modid lb" "lb_cmdid lb' = lb_cmdid lb" "accessCnt lb' = accessCnt lb"
    "runningList lb' = filter (\<lambda>k. k \<in> route_keys hosts) (runningList lb) @ new"
    "set new = route_keys hosts - keys_of (hostMap lb)"
    "downList lb' = filter (\<lambda>k. k \<in> route_keys hosts) (downList lb)"
proof -
  have "wf_tab cfg lb" using w by (simp add: wf_LB_alt wf_tab_def)
  from update_loops [OF this c, of now hosts] obtain lb1 lb2 new where l:
    "fold (add_host cfg now) hosts (lb, False) = (lb1, new \<noteq> [])"
    "foldM del_host lb1 (obsolete hosts lb1) = Inr lb2" "wf_tab cfg lb2" "LB_rest lb2 = LB_rest lb"
    "set (obsolete hosts lb1) = keys_of (hostMap lb) - route_keys hosts"
    "set new = route_keys hosts - keys_of (hostMap lb)" "keys_of (hostMap lb2) = route_keys hosts"
    "\<And>a. a \<in> set hosts \<Longrightarrow> map_of (hostMap lb2) (addr_key a) =
       Some (case map_of (hostMap lb) (addr_key a) of None \<Rightarrow> fresh_HI cfg now a | Some h \<Rightarrow> h)"
    "runningList lb2 = filter (\<lambda>k. k \<in> route_keys hosts) (runningList lb) @ new"
    "downList lb2 = filter (\<lambda>k. k \<in> route_keys hosts) (downList lb)"
    by metis
  let ?upd = "new \<noteq> [] \<or> obsolete hosts lb1 \<noteq> []"
  define lb' where "lb' = lb2\<lparr> effectData := now, status := ISNEW,
      lstRptTime := (if LB_empty lb then now else lstRptTime lb2),
      version := (if ?upd then Some now else version lb2) \<rparr>"
  have eq: "LB_update cfg now hosts lb = Inr lb'"
    using ne l(1,2) by (simp add: LB_update_def Let_def lb'_def obsolete_def)
  have "?upd \<longleftrightarrow> keys_of (hostMap lb) \<noteq> route_keys hosts"
    using l(5,6) by (metis Diff_eq_empty_iff set_empty subset_antisym subset_refl)
  then have ver: "version lb' = (if keys_of (hostMap lb) = route_keys hosts then version lb else Some now)"
    using l(4) by (auto simp: lb'_def LB_rest_def)
  have "hostMap lb \<noteq> []" if "keys_of (hostMap lb) = route_keys hosts"
    using that ne by (auto simp: route_keys_def keys_of_def)
  then have "version lb' \<noteq> None" using w ver by (auto simp: wf_LB_alt)
  then have "wf_LB cfg lb'"
    using l(3,4) w by (simp add: wf_LB_alt wf_tab_def lb'_def LB_rest_def)
  then show ?thesis
    using eq ver l by (intro that [of lb' new]) (auto simp: lb'_def LB_rest_def)
qed

lemma traverse_call_result:
  assumes "wf_LB cfg lb" "set ks \<subseteq> set (runningList lb) \<union> set (downList lb)"
  shows "\<exists>rs. traverse (call_result lb ov) ks = Inr rs \<and> length rs = length ks"
  using assms(2)
proof (induction ks)
  case (Cons k ks)
  with wf_LB_deref [OF assms(1), of k] obtain h where "deref lb k = Inr h" by auto
  with Cons show ?case by (auto simp: call_result_def)
qed simp

lemma LB_report2Rpter_wf:
  assumes w: "wf_LB cfg lb"
  obtains lb' m where "LB_report2Rpter cfg MyIp now lb = Inr (lb', m)" "wf_LB cfg lb'"
    "hostMap lb' = hostMap lb" "lb_modid lb' = lb_modid lb" "lb_cmdid lb' = lb_cmdid lb"
    "status lb' = status lb" "version lb' = version lb" "effectData lb' = effectData lb"
proof -
  from traverse_call_result [OF w] obtain rs ds where
    "traverse (call_result lb False) (runningList lb) = Inr rs"
    "traverse (call_result lb True) (downList lb) = Inr ds"
    by (metis le_sup_iff subset_refl sup_commute)
  then show ?thesis using w
    by (cases "LB_empty lb \<or> now - lstRptTime lb < reportTimo cfg")
       (auto simp: LB_report2Rpter_def wf_LB_alt intro!: that)
qed

end
