(* ===== verification/RouteLb.thy ===== *)
theory RouteLb
  imports LbModule
begin

text \<open>
  The routes of one of lbagent's three UDP threads (\<open>class RouteLB\<close>): its table of
  modules and the handlers that run under its mutex. Each handler is one step, since
  the mutex is held throughout; the two that follow node pointers after releasing it
  (\<open>getRoute\<close> and \<open>cacheGetRoute\<close>) are split at the release, so that another thread's
  step can come between. What a handler puts on the queues of the dnsserver client
  and of the reporter client is its output. The lemmas show the invariant of all
  modules and which faults a run can end in.
\<close>

section \<open>State and outputs\<close>

record RouteLB =
  routeMap :: "(u64 \<times> LB) list"
  rl_id :: int

datatype qmsg = Pull GetRouteReq | Rept ReportStatusReq

definition new_RouteLB :: "int \<Rightarrow> RouteLB" where
  "new_RouteLB i = \<lparr> routeMap = [], rl_id = i \<rparr>"

definition put_lb :: "u64 \<Rightarrow> LB \<Rightarrow> RouteLB \<Rightarrow> RouteLB" where
  "put_lb key lb rl = rl\<lparr>routeMap := AList.update key lb (routeMap rl)\<rparr>"

text \<open>A module seen for the first time: a new \<open>LB\<close>, and its route is pulled.\<close>

definition first_pull :: "i32 \<Rightarrow> i32 \<Rightarrow> RouteLB \<Rightarrow> RouteLB \<times> qmsg list" where
  "first_pull modid cmdid rl =
    (let (lb, req) = LB_pull (new_LB modid cmdid)
     in (put_lb (mkkey modid cmdid) lb rl, [Pull req]))"

text \<open>Pull again when the route is not being pulled and has been valid for too long.\<close>

definition repull :: "LbConfigure \<Rightarrow> clong \<Rightarrow> LB \<Rightarrow> LB \<times> qmsg list" where
  "repull cfg now lb =
    (if status lb = ISNEW \<and> updateTimo cfg < now - effectData lb
     then (let (lb', req) = LB_pull lb in (lb', [Pull req]))
     else (lb, []))"

section \<open>Handlers\<close>

definition RouteLB_getHost ::
  "LbConfigure \<Rightarrow> clong \<Rightarrow> i32 \<Rightarrow> i32 \<Rightarrow> RouteLB \<Rightarrow> (RouteLB \<times> (int \<times> HostAddr option) \<times> qmsg list) res"
where
  "RouteLB_getHost cfg now modid cmdid rl =
    (let key = mkkey modid cmdid in
     case map_of (routeMap rl) key of
       Some lb \<Rightarrow>
         (if LB_empty lb then
            (if status lb = ISPULLING then Inr (rl, (NOEXIST, None), []) else Inl AssertFail)
          else
            rbind (LB_getHost cfg lb) (\<lambda>(ret, host, lb1).
              (let (lb2, out) = repull cfg now lb1
               in Inr (put_lb key lb2 rl, (ret, host), out))))
     | None \<Rightarrow> (let (rl', out) = first_pull modid cmdid rl in Inr (rl', (NOEXIST, None), out)))"

text \<open>One error per 100 ms of a failed call, between 1 and 50.\<close>

definition err_weight :: "u32 option \<Rightarrow> u32" where
  "err_weight tcost =
    (case tcost of
       None \<Rightarrow> 1
     | Some t \<Rightarrow> (let errcnt = t div 100 in
                   if errcnt = 0 then 1 else if 50 < errcnt then 50 else errcnt))"

text \<open>The end of both report handlers: \<open>lb->report2Rpter()\<close>.\<close>

definition report_out ::
  "LbConfigure \<Rightarrow> u32 \<Rightarrow> clong \<Rightarrow> u64 \<Rightarrow> LB \<Rightarrow> RouteLB \<Rightarrow> (RouteLB \<times> qmsg list) res" where
  "report_out cfg MyIp now key lb rl =
    rbind (LB_report2Rpter cfg MyIp now lb) (\<lambda>(lb', msg).
      Inr (put_lb key lb' rl, (case msg of None \<Rightarrow> [] | Some m \<Rightarrow> [Rept m])))"

definition RouteLB_report ::
  "LbConfigure \<Rightarrow> u32 \<Rightarrow> clong \<Rightarrow> ReportReq \<Rightarrow> RouteLB \<Rightarrow> (RouteLB \<times> qmsg list) res" where
  "RouteLB_report cfg MyIp now req rl =
    (if rq_tcost req \<noteq> None \<and> rq_retcode req = 0 then Inl AssertFail
     else
       (let errcnt = err_weight (rq_tcost req);
            ip = ha_ip (rq_host req); port = ha_port (rq_host req);
            key = mkkey (rq_modid req) (rq_cmdid req) in
        case map_of (routeMap rl) key of
          None \<Rightarrow> Inr (rl, [])
        | Some lb \<Rightarrow>
            rbind (if errcnt = 1 then Inr (LB_report cfg now ip port (rq_retcode req) lb)
                   else LB_reportSomeErr cfg now ip port errcnt lb)
              (\<lambda>lb'. report_out cfg MyIp now key lb' rl)))"

definition RouteLB_batchReport ::
  "LbConfigure \<Rightarrow> u32 \<Rightarrow> clong \<Rightarrow> CacheBatchRptReq \<Rightarrow> RouteLB \<Rightarrow> (RouteLB \<times> qmsg list) res" where
  "RouteLB_batchReport cfg MyIp now req rl =
    (let key = mkkey (cbr_modid req) (cbr_cmdid req) in
     case map_of (routeMap rl) key of
       None \<Rightarrow> Inr (rl, [])
     | Some lb \<Rightarrow>
         rbind (foldM (\<lambda>lb cr. LB_reportSomeSucc cfg now (hbc_ip cr) (hbc_port cr) (hbc_succcnt cr) lb)
                  lb (cbr_results req))
           (\<lambda>lb'. report_out cfg MyIp now key lb' rl))"

text \<open>
  \<open>getRoute\<close> under the mutex collects node pointers (the keys of the module's nodes) and
  may pull; after the mutex is released \<open>fill_hosts\<close> follows them, in the state the
  table has by then.
\<close>

definition getRoute_locked ::
  "LbConfigure \<Rightarrow> clong \<Rightarrow> i32 \<Rightarrow> i32 \<Rightarrow> RouteLB \<Rightarrow> RouteLB \<times> u64 list \<times> qmsg list" where
  "getRoute_locked cfg now modid cmdid rl =
    (let key = mkkey modid cmdid in
     case map_of (routeMap rl) key of
       Some lb \<Rightarrow> (let vec = LB_getRoute lb; (lb', out) = repull cfg now lb
                   in (put_lb key lb' rl, vec, out))
     | None \<Rightarrow> (let (rl', out) = first_pull modid cmdid rl in (rl', [], out)))"

definition fill_hosts :: "i32 \<Rightarrow> i32 \<Rightarrow> u64 list \<Rightarrow> RouteLB \<Rightarrow> HostAddr list res" where
  "fill_hosts modid cmdid vec rl =
    traverse (\<lambda>k. case map_of (routeMap rl) (mkkey modid cmdid) of
                None \<Rightarrow> Inl DanglingPtr
              | Some lb \<Rightarrow> rbind (deref lb k) (\<lambda>h. Inr (host_addr h))) vec"

definition RouteLB_getRoute ::
  "LbConfigure \<Rightarrow> clong \<Rightarrow> i32 \<Rightarrow> i32 \<Rightarrow> RouteLB \<Rightarrow> (RouteLB \<times> HostAddr list \<times> qmsg list) res" where
  "RouteLB_getRoute cfg now modid cmdid rl =
    (let (rl', vec, out) = getRoute_locked cfg now modid cmdid rl
     in rbind (fill_hosts modid cmdid vec rl') (\<lambda>hosts. Inr (rl', hosts, out)))"

text \<open>
  \<open>cacheGetRoute\<close>: the version and the overload flag, and the nodes only when the version
  differs from the caller's; version \<open>-1\<close> when there is no route. Reading the version
  of a module that has none is \<^const>\<open>UninitRead\<close>.
\<close>

definition cacheGetRoute_locked ::
  "LbConfigure \<Rightarrow> clong \<Rightarrow> i32 \<Rightarrow> i32 \<Rightarrow> clong \<Rightarrow> RouteLB \<Rightarrow>
   (RouteLB \<times> (clong \<times> bool option) \<times> u64 list \<times> qmsg list) res" where
  "cacheGetRoute_locked cfg now modid cmdid ver rl =
    (let key = mkkey modid cmdid in
     case map_of (routeMap rl) key of
       Some lb \<Rightarrow>
         (if LB_empty lb then
            (if status lb = ISPULLING then Inr (rl, (- 1, None), [], []) else Inl AssertFail)
          else
            (case version lb of
               None \<Rightarrow> Inl UninitRead
             | Some v \<Rightarrow>
                (let vec = (if v \<noteq> ver then LB_getRoute lb else []);
                     (lb', out) = repull cfg now lb
                 in Inr (put_lb key lb' rl, (v, Some (hasOvHost lb)), vec, out))))
     | None \<Rightarrow> (let (rl', out) = first_pull modid cmdid rl in Inr (rl', (- 1, None), [], out)))"

definition RouteLB_cacheGetRoute ::
  "LbConfigure \<Rightarrow> clong \<Rightarrow> i32 \<Rightarrow> i32 \<Rightarrow> clong \<Rightarrow> RouteLB \<Rightarrow>
   (RouteLB \<times> CacheGetRouteRsp \<times> qmsg list) res" where
  "RouteLB_cacheGetRoute cfg now modid cmdid ver rl =
    rbind (cacheGetRoute_locked cfg now modid cmdid ver rl) (\<lambda>(rl', (v, ov), vec, out).
      rbind (fill_hosts modid cmdid vec rl') (\<lambda>hosts.
        Inr (rl', \<lparr> cgr_modid = modid, cgr_cmdid = cmdid, cgr_version = v, cgr_overload = ov,
                    cgr_route = hosts \<rparr>, out)))"

text \<open>The answer of the dnsserver: an empty route deletes the module.\<close>

definition RouteLB_update ::
  "LbConfigure \<Rightarrow> clong \<Rightarrow> i32 \<Rightarrow> i32 \<Rightarrow> HostAddr list \<Rightarrow> RouteLB \<Rightarrow> RouteLB res" where
  "RouteLB_update cfg now modid cmdid hosts rl =
    (let key = mkkey modid cmdid in
     case map_of (routeMap rl) key of
       None \<Rightarrow> Inr rl
     | Some lb \<Rightarrow>
         (if hosts = [] then Inr (rl\<lparr>routeMap := AList.delete key (routeMap rl)\<rparr>)
          else rbind (LB_update cfg now hosts lb) (\<lambda>lb'. Inr (put_lb key lb' rl))))"

definition clear_lb :: "LB \<Rightarrow> LB" where
  "clear_lb lb = (if status lb = ISPULLING then lb\<lparr>status := ISNEW\<rparr> else lb)"

definition RouteLB_clearPulling :: "RouteLB \<Rightarrow> RouteLB" where
  "RouteLB_clearPulling rl = rl\<lparr>routeMap := map (\<lambda>(k, lb). (k, clear_lb lb)) (routeMap rl)\<rparr>"

text \<open>The file and the lines written to it; \<open>None\<close> when there is no file or it can't be opened.\<close>

definition backup_file :: "int \<Rightarrow> string option" where
  "backup_file i =
    (if i = 1 then Some ''/tmp/backupRoute.dat.1''
     else if i = 2 then Some ''/tmp/backupRoute.dat.2''
     else if i = 3 then Some ''/tmp/backupRoute.dat.3'' else None)"

definition RouteLB_persistRoute ::
  "(string \<Rightarrow> bool) \<Rightarrow> RouteLB \<Rightarrow> (string \<times> (int \<times> int \<times> int \<times> int) list) option" where
  "RouteLB_persistRoute can_open rl =
    (case backup_file (rl_id rl) of
       None \<Rightarrow> None
     | Some f \<Rightarrow> if can_open f then Some (f, concat (map (\<lambda>(k, lb). LB_persist lb) (routeMap rl)))
                 else None)"

section \<open>The handlers as one machine\<close>

datatype event =
    EvGetHost clong i32 i32
  | EvReport clong ReportReq
  | EvBatch clong CacheBatchRptReq
  | EvGetRoute clong i32 i32
  | EvCacheGetRoute clong i32 i32 clong
  | EvUpdate clong i32 i32 "HostAddr list"
  | EvClear

datatype reply =
    HostReply int "HostAddr option"
  | RouteReply "HostAddr list"
  | CacheReply CacheGetRouteRsp
  | NoReply

fun rl_step :: "LbConfigure \<Rightarrow> u32 \<Rightarrow> event \<Rightarrow> RouteLB \<Rightarrow> (RouteLB \<times> (reply \<times> qmsg list)) res" where
  "rl_step cfg MyIp (EvGetHost now modid cmdid) rl =
     rbind (RouteLB_getHost cfg now modid cmdid rl) (\<lambda>(rl', (ret, host), out).
       Inr (rl', HostReply ret host, out))"
| "rl_step cfg MyIp (EvReport now req) rl =
     rbind (RouteLB_report cfg MyIp now req rl) (\<lambda>(rl', out). Inr (rl', NoReply, out))"
| "rl_step cfg MyIp (EvBatch now req) rl =
     rbind (RouteLB_batchReport cfg MyIp now req rl) (\<lambda>(rl', out). Inr (rl', NoReply, out))"
| "rl_step cfg MyIp (EvGetRoute now modid cmdid) rl =
     rbind (RouteLB_getRoute cfg now modid cmdid rl) (\<lambda>(rl', hosts, out).
       Inr (rl', RouteReply hosts, out))"
| "rl_step cfg MyIp (EvCacheGetRoute now modid cmdid ver) rl =
     rbind (RouteLB_cacheGetRoute cfg now modid cmdid ver rl) (\<lambda>(rl', rsp, out).
       Inr (rl', CacheReply rsp, out))"
| "rl_step cfg MyIp (EvUpdate now modid cmdid hosts) rl =
     rbind (RouteLB_update cfg now modid cmdid hosts rl) (\<lambda>rl'. Inr (rl', NoReply, []))"
| "rl_step cfg MyIp EvClear rl = Inr (RouteLB_clearPulling rl, NoReply, [])"

section \<open>The invariant\<close>

definition mod_ok :: "LbConfigure \<Rightarrow> u64 \<Rightarrow> LB \<Rightarrow> bool" where
  "mod_ok cfg k lb \<longleftrightarrow> k = mkkey (lb_modid lb) (lb_cmdid lb) \<and> wf_LB cfg lb"

definition wf_RouteLB :: "LbConfigure \<Rightarrow> RouteLB \<Rightarrow> bool" where
  "wf_RouteLB cfg rl \<longleftrightarrow>
     distinct (map fst (routeMap rl)) \<and> list_all (\<lambda>(k, lb). mod_ok cfg k lb) (routeMap rl)"

text \<open>A property of every single module, as the handlers' invariants are.\<close>

definition all_mods :: "(u64 \<Rightarrow> LB \<Rightarrow> bool) \<Rightarrow> RouteLB \<Rightarrow> bool" where
  "all_mods P rl \<longleftrightarrow>
     distinct (map fst (routeMap rl)) \<and> (\<forall>k lb. map_of (routeMap rl) k = Some lb \<longrightarrow> P k lb)"

lemma wf_RouteLB_all: "wf_RouteLB cfg rl \<longleftrightarrow> all_mods (mod_ok cfg) rl"
  unfolding wf_RouteLB_def all_mods_def by (metis list_all_entries)

lemma all_modsD: "all_mods P rl \<Longrightarrow> map_of (routeMap rl) k = Some lb \<Longrightarrow> P k lb"
  by (simp add: all_mods_def)

lemma all_mods_put: "all_mods P rl \<Longrightarrow> P k lb \<Longrightarrow> all_mods P (put_lb k lb rl)"
  by (auto simp: all_mods_def put_lb_def hm.ok_put hm.find_put split: if_splits)

lemma all_mods_erase:
  "all_mods P rl \<Longrightarrow> all_mods P (rl\<lparr>routeMap := AList.delete k (routeMap rl)\<rparr>)"
  by (auto simp: all_mods_def hm.ok_erase hm.find_erase split: if_splits)

lemma map_fst_clear: "map fst (map (\<lambda>(k, lb). (k, clear_lb lb)) m) = map fst m"
  by (induction m) auto

lemma all_mods_clear:
  assumes "all_mods P rl" "\<And>k lb. P k lb \<Longrightarrow> P k (clear_lb lb)"
  shows "all_mods P (RouteLB_clearPulling rl)"
  using assms unfolding all_mods_def RouteLB_clearPulling_def
  by (auto simp: map_fst_clear map_of_map simp del: map_map)

lemma first_pull_eq:
  "first_pull m c rl = (put_lb (mkkey m c) ((new_LB m c)\<lparr>status := ISPULLING\<rparr>) rl,
     [Pull \<lparr> grq_modid = m, grq_cmdid = c \<rparr>])"
  by (simp add: first_pull_def LB_pull_def new_LB_def Let_def)

lemma fill_hosts_ok:
  assumes "map_of (routeMap rl) (mkkey m c) = Some lb" "set vec \<subseteq> keys_of (hostMap lb)"
  shows "fill_hosts m c vec rl = Inr (map (addr_of lb) vec)"
  unfolding fill_hosts_def
proof (rule traverse_Inr_map)
  fix k assume "k \<in> set vec"
  with assms(2) obtain h where "map_of (hostMap lb) k = Some h" by (auto elim: keys_ofE)
  with assms(1) show "(case map_of (routeMap rl) (mkkey m c) of None \<Rightarrow> Inl DanglingPtr
      | Some lb \<Rightarrow> rbind (deref lb k) (\<lambda>h. Inr (host_addr h))) = Inr (addr_of lb k)"
    by (simp add: deref_def addr_of_def)
qed

lemma LB_getRoute_keys [simp]: "set (LB_getRoute lb) = keys_of (hostMap lb)"
  by (simp add: LB_getRoute_def keys_of_def)

lemma put_lb_same [simp]: "map_of (routeMap (put_lb k lb rl)) k = Some lb"
  by (simp add: put_lb_def hm.find_put)

text \<open>The event in which a route arrives.\<close>

definition is_update :: "event \<Rightarrow> bool" where
  "is_update e = (case e of EvUpdate _ _ _ _ \<Rightarrow> True | _ \<Rightarrow> False)"

text \<open>
  The contract between the handlers and the modules: a property \<open>P\<close> of a module that
  holds for a new one and is kept by every operation of \<open>LB\<close> but \<open>update\<close>, which meets no
  fault but a conversion out of range in the two batch operations.
\<close>

locale module_ops =
  fixes cfg :: LbConfigure and P :: "u64 \<Rightarrow> LB \<Rightarrow> bool"
  assumes P_new: "config_ok cfg \<Longrightarrow> P (mkkey m c) ((new_LB m c)\<lparr>status := ISPULLING\<rparr>)"
    and P_pulling: "P k lb \<Longrightarrow> P k (lb\<lparr>status := ISPULLING\<rparr>)"
    and P_getHost: "P k lb \<Longrightarrow> \<not> LB_empty lb \<Longrightarrow>
       ends (\<lambda>_. False) (\<lambda>(r, a, lb'). P k lb') (LB_getHost cfg lb)"
    and P_report: "P k lb \<Longrightarrow> P k (LB_report cfg now ip port rc lb)"
    and P_someSucc: "P k lb \<Longrightarrow>
       ends (\<lambda>e. e = BadCast) (P k) (LB_reportSomeSucc cfg now ip port n lb)"
    and P_someErr: "P k lb \<Longrightarrow>
       ends (\<lambda>e. e = BadCast) (P k) (LB_reportSomeErr cfg now ip port n lb)"
    and P_rpter: "P k lb \<Longrightarrow>
       ends (\<lambda>_. False) (\<lambda>(lb', m). P k lb') (LB_report2Rpter cfg MyIp now lb)"
    and P_version: "P k lb \<Longrightarrow> \<not> LB_empty lb \<Longrightarrow> version lb \<noteq> None"
begin

lemma repull_keeps:
  "P k lb \<Longrightarrow> repull cfg now lb = (lb', out) \<Longrightarrow> P k lb' \<and> hostMap lb' = hostMap lb"
  by (auto simp: repull_def LB_pull_def Let_def P_pulling split: if_splits)

lemma repull_P: "P k lb \<Longrightarrow> P k (fst (repull cfg now lb))"
  using repull_keeps [of k lb now] by (cases "repull cfg now lb") auto

lemma first_pull_keeps:
  "config_ok cfg \<Longrightarrow> all_mods P rl \<Longrightarrow> all_mods P (fst (first_pull m c rl))"
  by (simp add: first_pull_eq all_mods_put P_new)

lemma getHost_keeps:
  assumes "config_ok cfg" "all_mods P rl"
  shows "ends (\<lambda>e. e = AssertFail) (\<lambda>(rl', _). all_mods P rl') (RouteLB_getHost cfg now m c rl)"
proof (cases "map_of (routeMap rl) (mkkey m c)")
  case None
  with assms show ?thesis
    by (simp add: RouteLB_getHost_def first_pull_eq all_mods_put P_new)
next
  case (Some lb)
  note P = all_modsD [OF assms(2) Some]
  show ?thesis
  proof (cases "LB_empty lb")
    case False
    have "ends (\<lambda>e. e = AssertFail) (\<lambda>(r, a, lb'). P (mkkey m c) lb') (LB_getHost cfg lb)"
      using P_getHost [OF P False] by (rule ends_mono) auto
    with False Some assms(2) show ?thesis
      by (auto simp: RouteLB_getHost_def Let_def split_beta
          intro!: ends_rbind all_mods_put repull_P)
  qed (use Some assms in \<open>simp add: RouteLB_getHost_def\<close>)
qed

lemma report_out_keeps:
  assumes "all_mods P rl" "P k lb"
  shows "ends (\<lambda>_. False) (\<lambda>(rl', _). all_mods P rl') (report_out cfg MyIp now k lb rl)"
  unfolding report_out_def
  by (rule ends_rbind [OF P_rpter [OF assms(2)]]) (auto intro: all_mods_put [OF assms(1)])

lemma report_keeps:
  assumes "all_mods P rl"
  shows "ends (\<lambda>e. e = BadCast \<or> e = AssertFail \<and> rq_tcost req \<noteq> None \<and> rq_retcode req = 0)
     (\<lambda>(rl', _). all_mods P rl') (RouteLB_report cfg MyIp now req rl)"
    (is "ends ?F ?Q _")
proof (cases "map_of (routeMap rl) (mkkey (rq_modid req) (rq_cmdid req))")
  case (Some lb)
  note P = all_modsD [OF assms Some]
  let ?ip = "ha_ip (rq_host req)" and ?port = "ha_port (rq_host req)"
  let ?n = "err_weight (rq_tcost req)"
  have "ends ?F (P (mkkey (rq_modid req) (rq_cmdid req)))
     (if ?n = 1 then Inr (LB_report cfg now ?ip ?port (rq_retcode req) lb)
      else LB_reportSomeErr cfg now ?ip ?port ?n lb)"
    using P_report [OF P] by (auto intro: ends_mono [OF P_someErr [OF P]])
  moreover have "ends ?F ?Q (report_out cfg MyIp now k lb' rl)" if "P k lb'" for k lb'
    using report_out_keeps [OF assms that] by (rule ends_mono) auto
  ultimately show ?thesis using Some
    by (auto simp: RouteLB_report_def Let_def intro: ends_rbind)
qed (use assms in \<open>auto simp: RouteLB_report_def\<close>)

lemma batch_keeps:
  assumes "all_mods P rl"
  shows "ends (\<lambda>e. e = BadCast) (\<lambda>(rl', _). all_mods P rl') (RouteLB_batchReport cfg MyIp now req rl)"
    (is "ends ?F ?Q _")
proof (cases "map_of (routeMap rl) (mkkey (cbr_modid req) (cbr_cmdid req))")
  case (Some lb)
  let ?k = "mkkey (cbr_modid req) (cbr_cmdid req)"
  from assms Some have P: "P ?k lb" by (rule all_modsD)
  have "ends ?F (P ?k) (foldM (\<lambda>lb cr. LB_reportSomeSucc cfg now (hbc_ip cr) (hbc_port cr)
      (hbc_succcnt cr) lb) lb (cbr_results req))"
    by (rule ends_foldM) (auto intro: P_someSucc P)
  moreover have "ends ?F ?Q (report_out cfg MyIp now k lb' rl)" if "P k lb'" for k lb'
    using report_out_keeps [OF assms that] by (rule ends_mono) auto
  ultimately show ?thesis using Some
    by (auto simp: RouteLB_batchReport_def Let_def intro: ends_rbind)
qed (use assms in \<open>auto simp: RouteLB_batchReport_def\<close>)

lemma getRoute_keeps:
  assumes "config_ok cfg" "all_mods P rl"
  shows "ends (\<lambda>_. False) (\<lambda>(rl', _). all_mods P rl') (RouteLB_getRoute cfg now m c rl)"
proof (cases "map_of (routeMap rl) (mkkey m c)")
  case None
  with assms show ?thesis
    by (simp add: RouteLB_getRoute_def getRoute_locked_def first_pull_eq all_mods_put P_new fill_hosts_def)
next
  case (Some lb)
  obtain lb' out where r: "repull cfg now lb = (lb', out)" by fastforce
  with repull_keeps [OF all_modsD [OF assms(2) Some] r]
  have "all_mods P (put_lb (mkkey m c) lb' rl)" "hostMap lb' = hostMap lb"
    by (auto intro: all_mods_put [OF assms(2)])
  with Some r fill_hosts_ok [of "put_lb (mkkey m c) lb' rl" m c lb' "LB_getRoute lb"] show ?thesis
    by (simp add: RouteLB_getRoute_def getRoute_locked_def Let_def)
qed

lemma cacheGetRoute_keeps:
  assumes "config_ok cfg" "all_mods P rl"
  shows "ends (\<lambda>e. e = AssertFail) (\<lambda>(rl', _). all_mods P rl') (RouteLB_cacheGetRoute cfg now m c ver rl)"
proof (cases "map_of (routeMap rl) (mkkey m c)")
  case None
  with assms show ?thesis
    by (simp add: RouteLB_cacheGetRoute_def cacheGetRoute_locked_def first_pull_eq all_mods_put P_new
        fill_hosts_def)
next
  case (Some lb)
  note P = all_modsD [OF assms(2) Some]
  show ?thesis
  proof (cases "LB_empty lb")
    case True
    with Some assms(2) show ?thesis
      by (simp add: RouteLB_cacheGetRoute_def cacheGetRoute_locked_def fill_hosts_def)
  next
    case False
    from P_version [OF P False] obtain v where v: "version lb = Some v" by auto
    obtain lb' out where r: "repull cfg now lb = (lb', out)" by fastforce
    with repull_keeps [OF P r]
    have "all_mods P (put_lb (mkkey m c) lb' rl)" "hostMap lb' = hostMap lb"
      by (auto intro: all_mods_put [OF assms(2)])
    with Some False v r fill_hosts_ok [of "put_lb (mkkey m c) lb' rl" m c lb'] show ?thesis
      by (simp add: RouteLB_cacheGetRoute_def cacheGetRoute_locked_def Let_def)
  qed
qed

text \<open>Every handler but \<open>clearPulling\<close> and \<open>update\<close>, as a step of the machine.\<close>

lemma ops_keep:
  assumes "config_ok cfg" "all_mods P rl" "e \<noteq> EvClear" "\<not> is_update e"
  shows "ends (\<lambda>f. f = AssertFail \<or> f = BadCast) (\<lambda>(rl', _). all_mods P rl') (rl_step cfg MyIp e rl)"
proof (cases e)
  case (EvGetHost now m c)
  then show ?thesis
    by (auto intro!: ends_rbindI [OF getHost_keeps [OF assms(1,2)]])
next
  case (EvReport now req)
  then show ?thesis
    by (auto intro!: ends_rbindI [OF report_keeps [OF assms(2)]])
next
  case (EvBatch now req)
  then show ?thesis
    by (auto intro!: ends_rbindI [OF batch_keeps [OF assms(2)]])
next
  case (EvGetRoute now m c)
  then show ?thesis
    by (auto intro!: ends_rbindI [OF getRoute_keeps [OF assms(1,2)]])
next
  case (EvCacheGetRoute now m c ver)
  then show ?thesis
    by (auto intro!: ends_rbindI [OF cacheGetRoute_keeps [OF assms(1,2)]])
qed (use assms(3,4) in \<open>simp_all add: is_update_def\<close>)

text \<open>One update, for the time and the route it is called with.\<close>

lemma update_keeps_at:
  assumes "all_mods P rl"
    and "\<And>lb. P (mkkey m c) lb \<Longrightarrow> hosts \<noteq> [] \<Longrightarrow> ends (\<lambda>_. False) (P (mkkey m c)) (LB_update cfg now hosts lb)"
  shows "ends (\<lambda>_. False) (all_mods P) (RouteLB_update cfg now m c hosts rl)"
proof (cases "map_of (routeMap rl) (mkkey m c)")
  case (Some lb)
  note P = all_modsD [OF assms(1) Some]
  show ?thesis
  proof (cases "hosts = []")
    case False
    with Some assms(2) [OF P False] show ?thesis
      by (auto simp: RouteLB_update_def intro!: ends_rbind all_mods_put [OF assms(1)])
  qed (use Some assms in \<open>simp add: RouteLB_update_def all_mods_erase\<close>)
qed (use assms in \<open>simp add: RouteLB_update_def\<close>)

end

text \<open>With \<open>update\<close>, whatever route arrives.\<close>

locale module_safe = module_ops +
  assumes P_update: "P k lb \<Longrightarrow> hosts \<noteq> [] \<Longrightarrow>
       ends (\<lambda>_. False) (P k) (LB_update cfg now hosts lb)"
begin

lemma update_keeps:
  "all_mods P rl \<Longrightarrow> ends (\<lambda>_. False) (all_mods P) (RouteLB_update cfg now m c hosts rl)"
  by (rule update_keeps_at [OF _ P_update])

lemma step_keeps:
  assumes "config_ok cfg" "all_mods P rl" "e \<noteq> EvClear"
  shows "ends (\<lambda>f. f = AssertFail \<or> f = BadCast) (\<lambda>(rl', _). all_mods P rl') (rl_step cfg MyIp e rl)"
proof (cases "is_update e")
  case True
  then show ?thesis
    by (cases e) (auto simp: is_update_def intro!: ends_rbindI [OF update_keeps [OF assms(2)]])
qed (use assms in \<open>simp add: ops_keep\<close>)

end


text \<open>With the pull of an empty module always pending, the two assertions hold.\<close>

locale module_pulled = module_safe +
  assumes P_pending: "P k lb \<Longrightarrow> LB_empty lb \<Longrightarrow> status lb = ISPULLING"
begin

lemma getHost_no_assert:
  assumes "config_ok cfg" "all_mods P rl"
  shows "ends (\<lambda>_. False) (\<lambda>(rl', _). all_mods P rl') (RouteLB_getHost cfg now m c rl)"
proof (cases "RouteLB_getHost cfg now m c rl")
  case (Inl e)
  then obtain lb where lb: "map_of (routeMap rl) (mkkey m c) = Some lb"
    by (cases "map_of (routeMap rl) (mkkey m c)") (auto simp: RouteLB_getHost_def first_pull_eq)
  note P = all_modsD [OF assms(2) lb]
  have "ends (\<lambda>_. False) (\<lambda>(r, a, lb'). P (mkkey m c) lb') (LB_getHost cfg lb)" if "\<not> LB_empty lb"
    using P that by (rule P_getHost)
  with Inl lb P_pending [OF P] show ?thesis
    by (auto simp: RouteLB_getHost_def Let_def split_beta rbind_eq_Inl split: if_splits)
qed (use getHost_keeps [OF assms, of now m c] in \<open>auto\<close>)

lemma cacheGetRoute_no_assert:
  assumes "config_ok cfg" "all_mods P rl"
  shows "ends (\<lambda>_. False) (\<lambda>(rl', _). all_mods P rl') (RouteLB_cacheGetRoute cfg now m c ver rl)"
proof (cases "RouteLB_cacheGetRoute cfg now m c ver rl")
  case (Inl e)
  then have e: "e = AssertFail" using cacheGetRoute_keeps [OF assms, of now m c ver] by simp
  show ?thesis
  proof (cases "map_of (routeMap rl) (mkkey m c)")
    case None
    with Inl show ?thesis
      by (simp add: RouteLB_cacheGetRoute_def cacheGetRoute_locked_def first_pull_eq fill_hosts_def)
  next
    case (Some lb)
    have "fill_hosts m c vec rl' \<noteq> Inl AssertFail" for vec rl'
      by (induction vec) (auto simp: fill_hosts_def rbind_eq_Inl deref_def split: option.splits)
    with Inl e Some P_pending [OF all_modsD [OF assms(2) Some]] show ?thesis
      by (auto simp: RouteLB_cacheGetRoute_def cacheGetRoute_locked_def rbind_eq_Inl Let_def split_beta
          split: if_splits option.splits)
  qed
qed (use cacheGetRoute_keeps [OF assms, of now m c ver] in \<open>auto\<close>)

lemma step_no_assert:
  assumes "config_ok cfg" "all_mods P rl" "e \<noteq> EvClear"
    and "\<And>now req. e = EvReport now req \<Longrightarrow> rq_tcost req \<noteq> None \<Longrightarrow> rq_retcode req \<noteq> 0"
  shows "ends (\<lambda>f. f = BadCast) (\<lambda>(rl', _). all_mods P rl') (rl_step cfg MyIp e rl)"
proof (cases e)
  case (EvGetHost now m c)
  then show ?thesis
    by (auto intro!: ends_rbindI [OF getHost_no_assert [OF assms(1,2)]])
next
  case (EvReport now req)
  then show ?thesis
    using assms(4) by (auto intro!: ends_rbindI [OF report_keeps [OF assms(2)]])
next
  case (EvBatch now req)
  then show ?thesis
    by (auto intro!: ends_rbindI [OF batch_keeps [OF assms(2)]])
next
  case (EvGetRoute now m c)
  then show ?thesis
    by (auto intro!: ends_rbindI [OF getRoute_keeps [OF assms(1,2)]])
next
  case (EvCacheGetRoute now m c ver)
  then show ?thesis
    by (auto intro!: ends_rbindI [OF cacheGetRoute_no_assert [OF assms(1,2)]])
next
  case (EvUpdate now m c hosts)
  then show ?thesis
    by (auto intro!: ends_rbindI [OF update_keeps [OF assms(2)]])
qed (use assms(3) in simp)

end

section \<open>The modules fulfil the contract\<close>

text \<open>What reports leave alone: all but the statistics and the sides of the nodes.\<close>

definition LB_ident :: "LB \<Rightarrow> i32 \<times> i32 \<times> STATUS \<times> clong option \<times> clong \<times> u64 set" where
  "LB_ident lb =
     (lb_modid lb, lb_cmdid lb, status lb, version lb, effectData lb, keys_of (hostMap lb))"

lemma LB_empty_keys: "LB_empty lb \<longleftrightarrow> keys_of (hostMap lb) = {}"
  by (simp add: LB_empty_def keys_of_def)

lemma LB_ident_set:
  assumes "map_of (hostMap lb) k = Some h0"
  shows "LB_ident (set_hi k h lb) = LB_ident lb" "LB_ident (to_down k h lb) = LB_ident lb"
    "LB_ident (to_running k h lb) = LB_ident lb"
  using map_of_keys_of [OF assms]
  by (simp_all add: LB_ident_def set_hi_def to_down_def to_running_def insert_absorb)

lemma LB_ident_check_timers:
  assumes "map_of (hostMap lb) k = Some h0"
  shows "LB_ident (check_timers cfg now k h lb) = LB_ident lb"
  by (simp add: check_timers_def LB_ident_set [OF assms] split: prod.splits)

lemma LB_ident_report: "LB_ident (LB_report cfg now ip port rc lb) = LB_ident lb"
  by (simp add: LB_report_def Let_def LB_ident_set LB_ident_check_timers split: option.splits)

lemma to_side_lookup:
  "map_of (hostMap (to_down k h lb)) k = Some h" "map_of (hostMap (to_running k h lb)) k = Some h"
  by (simp_all add: hm.find_put)

lemma LB_ident_someSucc:
  "LB_reportSomeSucc cfg now ip port n lb = Inr lb' \<Longrightarrow> LB_ident lb' = LB_ident lb"
  by (auto simp: LB_reportSomeSucc_def Let_def LB_ident_check_timers LB_ident_set
        LB_ident_check_timers [OF to_side_lookup(2)] split: option.splits if_splits)

lemma LB_ident_someErr:
  "LB_reportSomeErr cfg now ip port n lb = Inr lb' \<Longrightarrow> LB_ident lb' = LB_ident lb"
  by (auto simp: LB_reportSomeErr_def Let_def LB_ident_check_timers LB_ident_set
        LB_ident_check_timers [OF to_side_lookup(1)] split: option.splits if_splits)

lemma LB_ident_getHost:
  assumes "wf_LB cfg lb" "\<not> LB_empty lb"
  shows "ends (\<lambda>_. False) (\<lambda>(r, a, lb'). wf_LB cfg lb' \<and> LB_ident lb' = LB_ident lb) (LB_getHost cfg lb)"
  by (rule LB_getHost_wf [OF assms]) (simp add: LB_ident_def)

lemma LB_ident_rpter:
  assumes "wf_LB cfg lb"
  shows "ends (\<lambda>_. False) (\<lambda>(lb', m). wf_LB cfg lb' \<and> LB_ident lb' = LB_ident lb)
     (LB_report2Rpter cfg MyIp now lb)"
  by (rule LB_report2Rpter_wf [OF assms, of MyIp now]) (simp add: LB_ident_def)

text \<open>Every operation but \<open>update\<close> and \<open>pull\<close> keeps whatever the identity decides.\<close>

definition ident_ok ::
  "LbConfigure \<Rightarrow> (i32 \<times> i32 \<times> STATUS \<times> clong option \<times> clong \<times> u64 set \<Rightarrow> bool) \<Rightarrow> u64 \<Rightarrow> LB \<Rightarrow> bool" where
  "ident_ok cfg I k lb \<longleftrightarrow> config_ok cfg \<and> mod_ok cfg k lb \<and> I (LB_ident lb)"

lemma mod_ok_ident:
  "LB_ident lb' = LB_ident lb \<Longrightarrow> wf_LB cfg lb' \<Longrightarrow> mod_ok cfg k lb \<Longrightarrow> mod_ok cfg k lb'"
  by (simp add: mod_ok_def LB_ident_def)

lemma ident_ok_ops:
  assumes "ident_ok cfg I k lb"
  shows "ident_ok cfg I k (LB_report cfg now ip port rc lb)"
    and "ends (\<lambda>e. e = BadCast) (ident_ok cfg I k) (LB_reportSomeSucc cfg now ip port n lb)"
    and "ends (\<lambda>e. e = BadCast) (ident_ok cfg I k) (LB_reportSomeErr cfg now ip port n lb)"
    and "ends (\<lambda>_. False) (\<lambda>(lb', m). ident_ok cfg I k lb') (LB_report2Rpter cfg MyIp now lb)"
    and "\<not> LB_empty lb \<Longrightarrow> ends (\<lambda>_. False) (\<lambda>(r, a, lb'). ident_ok cfg I k lb') (LB_getHost cfg lb)"
    and "\<not> LB_empty lb \<Longrightarrow> version lb \<noteq> None"
proof -
  note i = assms [unfolded ident_ok_def]
  have w: "wf_LB cfg lb" and c: "config_ok cfg" using i by (auto simp: mod_ok_def)
  have keep: "ident_ok cfg I k lb'" if "LB_ident lb' = LB_ident lb" "wf_LB cfg lb'" for lb'
    using that i mod_ok_ident [OF that] by (simp add: ident_ok_def)
  show "ident_ok cfg I k (LB_report cfg now ip port rc lb)"
    by (intro keep LB_ident_report wf_LB_report w c)
  show "ends (\<lambda>e. e = BadCast) (ident_ok cfg I k) (LB_reportSomeSucc cfg now ip port n lb)"
    by (cases "LB_reportSomeSucc cfg now ip port n lb")
       (auto intro: keep LB_ident_someSucc wf_LB_reportSomeSucc w c LB_reportSome_fault)
  show "ends (\<lambda>e. e = BadCast) (ident_ok cfg I k) (LB_reportSomeErr cfg now ip port n lb)"
    by (cases "LB_reportSomeErr cfg now ip port n lb")
       (auto intro: keep LB_ident_someErr wf_LB_reportSomeErr w c LB_reportSome_fault)
  show "ends (\<lambda>_. False) (\<lambda>(lb', m). ident_ok cfg I k lb') (LB_report2Rpter cfg MyIp now lb)"
    by (rule ends_mono [OF LB_ident_rpter [OF w]]) (auto intro: keep)
  show "ends (\<lambda>_. False) (\<lambda>(r, a, lb'). ident_ok cfg I k lb') (LB_getHost cfg lb)" if "\<not> LB_empty lb"
    by (rule ends_mono [OF LB_ident_getHost [OF w that]]) (auto intro: keep)
  show "version lb \<noteq> None" if "\<not> LB_empty lb"
    using w that by (simp add: wf_LB_alt LB_empty_def)
qed

lemma ident_ok_update:
  assumes "ident_ok cfg I k lb" "hosts \<noteq> []"
    and "\<And>m c v ks. ks \<noteq> {} \<Longrightarrow> I (m, c, ISNEW, v, now, ks)"
  shows "ends (\<lambda>_. False) (ident_ok cfg I k) (LB_update cfg now hosts lb)"
proof -
  from assms(1) have "wf_LB cfg lb" "config_ok cfg" and k: "k = mkkey (lb_modid lb) (lb_cmdid lb)"
    by (auto simp: ident_ok_def mod_ok_def)
  from LB_update_spec [OF this(1,2) assms(2), of now] obtain lb' where
    "LB_update cfg now hosts lb = Inr lb'" "wf_LB cfg lb'" "keys_of (hostMap lb') = route_keys hosts"
    "effectData lb' = now" "status lb' = ISNEW" "lb_modid lb' = lb_modid lb" "lb_cmdid lb' = lb_cmdid lb"
    by metis
  with k \<open>config_ok cfg\<close> assms(2,3) show ?thesis
    by (simp add: ident_ok_def mod_ok_def LB_ident_def route_keys_def)
qed

interpretation mi: module_safe cfg "ident_ok cfg (\<lambda>_. True)"
  by unfold_locales
     (auto simp: ident_ok_ops(6) intro: ident_ok_ops ident_ok_update, 
      auto simp: ident_ok_def mod_ok_def wf_LB_alt new_LB_def wf_lists_def config_ok_def)

text \<open>Without \<open>clearPulling\<close>, a module without nodes has a pull under way.\<close>

definition awaited :: "i32 \<times> i32 \<times> STATUS \<times> clong option \<times> clong \<times> u64 set \<Rightarrow> bool" where
  "awaited i = (case i of (m, c, st, v, t, ks) \<Rightarrow> ks = {} \<longrightarrow> st = ISPULLING)"

interpretation mp: module_pulled cfg "ident_ok cfg awaited"
  by unfold_locales
     (auto simp: ident_ok_ops(6) awaited_def intro: ident_ok_ops ident_ok_update, 
      auto simp: ident_ok_def mod_ok_def wf_LB_alt new_LB_def wf_lists_def config_ok_def awaited_def
        LB_ident_def LB_empty_keys)

lemma wf_RouteLB_ident: "config_ok cfg \<Longrightarrow> wf_RouteLB cfg rl \<longleftrightarrow> all_mods (ident_ok cfg (\<lambda>_. True)) rl"
  unfolding wf_RouteLB_all all_mods_def ident_ok_def by blast

lemma mod_ok_clear: "mod_ok cfg k lb \<Longrightarrow> mod_ok cfg k (clear_lb lb)"
  by (auto simp: mod_ok_def clear_lb_def wf_LB_alt)

lemma wf_new_RouteLB: "wf_RouteLB cfg (new_RouteLB i)" "all_mods P (new_RouteLB i)"
  by (simp_all add: wf_RouteLB_def new_RouteLB_def all_mods_def)

interpretation rlm: safe_machine "rl_step cfg MyIp" "\<lambda>rl. config_ok cfg \<and> wf_RouteLB cfg rl"
  "\<lambda>_. True" "\<lambda>f. f = AssertFail \<or> f = BadCast"
proof unfold_locales
  fix e rl rl' out assume i: "config_ok cfg \<and> wf_RouteLB cfg rl" and s: "rl_step cfg MyIp e rl = Inr (rl', out)"
  show "config_ok cfg \<and> wf_RouteLB cfg rl'"
  proof (cases "e = EvClear")
    case True
    with i s show ?thesis by (auto simp: wf_RouteLB_all intro: all_mods_clear mod_ok_clear)
  next
    case False
    with i s mi.step_keeps [of cfg rl e MyIp] show ?thesis by (auto simp: wf_RouteLB_ident)
  qed
next
  fix e rl f assume i: "config_ok cfg \<and> wf_RouteLB cfg rl" and s: "rl_step cfg MyIp e rl = Inl f"
  then have "e \<noteq> EvClear" by auto
  with i s mi.step_keeps [of cfg rl e MyIp] show "f = AssertFail \<or> f = BadCast"
    by (auto simp: wf_RouteLB_ident)
qed

text \<open>No reset of pulls, and the cost of a call is reported with failed calls only.\<close>

definition orderly :: "event \<Rightarrow> bool" where
  "orderly e = (case e of
      EvClear \<Rightarrow> False
    | EvReport now req \<Rightarrow> rq_tcost req = None \<or> rq_retcode req \<noteq> 0
    | _ \<Rightarrow> True)"

interpretation rlp: safe_machine "rl_step cfg MyIp"
  "\<lambda>rl. config_ok cfg \<and> all_mods (ident_ok cfg awaited) rl" orderly "\<lambda>f. f = BadCast"
proof unfold_locales
  fix e rl rl' out
  assume "config_ok cfg \<and> all_mods (ident_ok cfg awaited) rl" "orderly e"
    and "rl_step cfg MyIp e rl = Inr (rl', out)"
  then show "config_ok cfg \<and> all_mods (ident_ok cfg awaited) rl'"
    using mp.step_no_assert [of cfg rl e MyIp] by (auto simp: orderly_def split: event.splits)
next
  fix e rl f
  assume "config_ok cfg \<and> all_mods (ident_ok cfg awaited) rl" "orderly e"
    and "rl_step cfg MyIp e rl = Inl f"
  then show "f = BadCast"
    using mp.step_no_assert [of cfg rl e MyIp] by (auto simp: orderly_def split: event.splits)
qed

end
