(* ===== verification/LbSchedule.thy ===== *)
theory LbSchedule
  imports RouteLb
begin

text \<open>
  Which node a module hands out: the abstract scheduler that \<open>LB::getHost\<close> implements,
  the rotation of the idle nodes and the probing of the overloaded ones.
\<close>

section \<open>The scheduling of a module\<close>

text \<open>
  What a module promises, on addresses alone: two queues and a counter. With both
  queues non-empty, or with overloaded nodes only, every \<open>n\<close>-th request goes to an
  overloaded node.
\<close>

record sched =
  idleq :: "HostAddr list"
  ovldq :: "HostAddr list"
  since :: int

definition next_host :: "int \<Rightarrow> sched \<Rightarrow> HostAddr option \<times> sched" where
  "next_host n s =
    (case (idleq s, ovldq s) of
       ([], []) \<Rightarrow> (None, s)
     | (a # as, []) \<Rightarrow> (Some a, s\<lparr>idleq := as @ [a], since := 0\<rparr>)
     | (as, b # bs) \<Rightarrow>
         if n \<le> since s then (Some b, s\<lparr>ovldq := bs @ [b], since := 0\<rparr>)
         else (case as of [] \<Rightarrow> (None, s\<lparr>since := since s + 1\<rparr>)
               | a # as' \<Rightarrow> (Some a, s\<lparr>idleq := as' @ [a], since := since s + 1\<rparr>)))"

definition sched_of :: "LB \<Rightarrow> sched" where
  "sched_of lb = \<lparr> idleq = map (addr_of lb) (runningList lb), ovldq = map (addr_of lb) (downList lb),
     since = accessCnt lb \<rparr>"

lemma addr_of_frame [simp]:
  "addr_of (lb\<lparr>accessCnt := n\<rparr>) = addr_of lb" "addr_of (lb\<lparr>runningList := ks\<rparr>) = addr_of lb"
  "addr_of (lb\<lparr>downList := ks\<rparr>) = addr_of lb"
  by (simp_all add: addr_of_def fun_eq_iff)

lemma LB_getHost_next:
  assumes "wf_LB cfg lb" "\<not> LB_empty lb"
  shows "\<exists>lb'. LB_getHost cfg lb =
     Inr (case next_host (probeNum cfg) (sched_of lb) of
            (Some a, _) \<Rightarrow> (SUCCESS, Some a, lb') | (None, _) \<Rightarrow> (OVERLOAD, None, lb'))
   \<and> sched_of lb' = snd (next_host (probeNum cfg) (sched_of lb))
   \<and> wf_LB cfg lb' \<and> LB_ident lb' = LB_ident lb"
proof -
  have fr: "\<And>lb'. \<lbrakk>LB_getHost cfg lb = Inr x; x = (r, a, lb')\<rbrakk> \<Longrightarrow> wf_LB cfg lb' \<and> LB_ident lb' = LB_ident lb" for x r a
    using LB_ident_getHost [OF assms] by auto
  show ?thesis
    using assms
  proof (cases rule: LB_getHost_cases)
    case (probe k ks)
    with LB_getHost_probe [OF assms(1) probe] fr [OF LB_getHost_probe [OF assms(1) probe] refl]
    show ?thesis
      by (cases "runningList lb") (auto simp: next_host_def sched_of_def)
  next
    case (idle k ks)
    with LB_getHost_idle [OF assms(1) idle] fr [OF LB_getHost_idle [OF assms(1) idle] refl]
    show ?thesis
      by (cases "downList lb") (auto simp: next_host_def sched_of_def)
  next
    case full
    with LB_getHost_overload [of lb cfg] fr [of "(OVERLOAD, None, lb\<lparr>accessCnt := accessCnt lb + 1\<rparr>)"]
    show ?thesis
      by (cases "downList lb") (auto simp: next_host_def sched_of_def)
  qed
qed

text \<open>Drawing from the scheduler, with a fault or the refusal as the error.\<close>

definition LB_serve :: "LbConfigure \<Rightarrow> LB \<Rightarrow> (fault + int) + HostAddr \<times> LB" where
  "LB_serve cfg lb =
    (case LB_getHost cfg lb of
       Inl e \<Rightarrow> Inl (Inl e)
     | Inr (r, None, lb') \<Rightarrow> Inl (Inr r)
     | Inr (r, Some a, lb') \<Rightarrow> Inr (a, lb'))"

definition all_idle :: "LbConfigure \<Rightarrow> LB \<Rightarrow> bool" where
  "all_idle cfg lb \<longleftrightarrow> wf_LB cfg lb \<and> downList lb = []"

interpretation rr_lb: round_robin "LB_serve cfg" "\<lambda>lb. map (addr_of lb) (runningList lb)" "all_idle cfg"
proof unfold_locales
  fix lb x xs
  assume s: "all_idle cfg lb" and x: "map (addr_of lb) (runningList lb) = x # xs"
  then obtain k ks where k: "runningList lb = k # ks" "x = addr_of lb k" "xs = map (addr_of lb) ks"
    by auto
  from s have w: "wf_LB cfg lb" "downList lb = []" by (auto simp: all_idle_def)
  with k(1) have "LB_getHost cfg lb = Inr (SUCCESS, Some (addr_of lb k), lb\<lparr>accessCnt := 0, runningList := ks @ [k]\<rparr>)"
    by (simp add: LB_getHost_idle)
  moreover have "wf_LB cfg (lb\<lparr>accessCnt := 0, runningList := ks @ [k]\<rparr>)"
    using w k(1) wf_LB_counter [OF w(1)] by (auto simp: wf_LB_alt intro: wf_lists_rotate)
  ultimately show "\<exists>q'. LB_serve cfg lb = Inr (x, q') \<and>
      map (addr_of q') (runningList q') = xs @ [x] \<and> all_idle cfg q'"
    using w(2) k(2,3) by (auto simp: LB_serve_def all_idle_def)
qed


text \<open>\<open>n\<close> requests in a row, with their answers.\<close>

fun getHosts :: "nat \<Rightarrow> LbConfigure \<Rightarrow> LB \<Rightarrow> ((int \<times> HostAddr option) list \<times> LB) res" where
  "getHosts 0 cfg lb = Inr ([], lb)"
| "getHosts (Suc n) cfg lb =
     rbind (LB_getHost cfg lb) (\<lambda>(r, a, lb1).
       rbind (getHosts n cfg lb1) (\<lambda>(ras, lb2). Inr ((r, a) # ras, lb2)))"

lemma LB_ident_nonempty: "LB_ident lb' = LB_ident lb \<Longrightarrow> LB_empty lb' = LB_empty lb"
  by (simp add: LB_ident_def LB_empty_keys)

lemma probe_turn:
  assumes "wf_LB cfg lb" "downList lb = k # ks"
  shows "\<exists>ras lb'. getHosts (Suc (nat (probeNum cfg - accessCnt lb))) cfg lb
             = Inr (ras @ [(SUCCESS, Some (addr_of lb k))], lb')
          \<and> set ras \<subseteq> {(OVERLOAD, None)} \<union> (\<lambda>k. (SUCCESS, Some (addr_of lb k))) ` set (runningList lb)
          \<and> wf_LB cfg lb' \<and> hostMap lb' = hostMap lb \<and> downList lb' = ks @ [k]
          \<and> set (runningList lb') = set (runningList lb) \<and> accessCnt lb' = 0"
  using assms
proof (induction "nat (probeNum cfg - accessCnt lb)" arbitrary: lb)
  case 0
  then have p: "probeNum cfg \<le> accessCnt lb" by simp
  have "wf_LB cfg (lb\<lparr>accessCnt := 0, downList := ks @ [k]\<rparr>)"
    using 0 wf_LB_counter [of cfg lb] by (auto simp: wf_LB_alt intro: wf_lists_rotate)
  with 0 p LB_getHost_probe [OF 0(2,3) p] show ?case by simp
next
  case (Suc n)
  then have p: "accessCnt lb < probeNum cfg" by simp
  define lb1 where "lb1 = (case runningList lb of
      [] \<Rightarrow> lb\<lparr>accessCnt := accessCnt lb + 1\<rparr>
    | k # ks \<Rightarrow> lb\<lparr>accessCnt := accessCnt lb + 1, runningList := ks @ [k]\<rparr>)"
  define ra where "ra = (case runningList lb of
      [] \<Rightarrow> (OVERLOAD, None) | k # ks \<Rightarrow> (SUCCESS, Some (addr_of lb k)))"
  have g: "LB_getHost cfg lb = Inr (fst ra, snd ra, lb1)"
    using p Suc.prems LB_getHost_idle [OF Suc.prems(1)] LB_getHost_overload [of lb cfg]
    by (auto simp: lb1_def ra_def split: list.splits)
  have l: "downList lb1 = k # ks" "accessCnt lb1 = accessCnt lb + 1" "hostMap lb1 = hostMap lb"
    "set (runningList lb1) = set (runningList lb)" "addr_of lb1 = addr_of lb"
    using Suc.prems by (auto simp: lb1_def split: list.splits)
  have "wf_LB cfg lb1"
    using p Suc.prems wf_LB_counter [of cfg lb]
    by (auto simp: lb1_def wf_LB_alt split: list.splits intro: wf_lists_rotate)
  moreover have "n = nat (probeNum cfg - accessCnt lb1)" using Suc.hyps(2) by (simp add: l)
  moreover have "nat (probeNum cfg - accessCnt lb) = Suc (nat (probeNum cfg - accessCnt lb1))"
    using p by (simp add: l)
  moreover have "ra \<in> {(OVERLOAD, None)} \<union> (\<lambda>k. (SUCCESS, Some (addr_of lb k))) ` set (runningList lb)"
    by (auto simp: ra_def split: list.splits)
  ultimately show ?case using Suc.hyps(1) [of lb1] l g
    by (auto simp del: getHosts.simps(2) simp: getHosts.simps(2) [of "Suc _"] append_Cons [symmetric]
        simp del: append_Cons)
qed


section \<open>Example modules\<close>

definition ex_cfg :: LbConfigure where
  "ex_cfg = fst (initLbEnviro (\<lambda>_ _ d. d) (\<lambda>_ _ d. d) None)\<lparr>probeNum := 2\<rparr>"

definition ex_addr :: "nat \<Rightarrow> HostAddr" where
  "ex_addr n = \<lparr> ha_ip = 167772160 + word_of_nat n, ha_port = 8080 \<rparr>"

definition ex_lb :: "nat \<Rightarrow> nat \<Rightarrow> LB" where
  "ex_lb n d = (new_LB 1 2)\<lparr> version := Some 100, status := ISNEW,
     hostMap := map (\<lambda>i. (addr_key (ex_addr i),
        (fresh_HI ex_cfg 100 (ex_addr i))\<lparr>hi_overload := n \<le> i\<rparr>)) [0..<n + d],
     runningList := map (addr_key \<circ> ex_addr) [0..<n],
     downList := map (addr_key \<circ> ex_addr) [n..<n + d] \<rparr>"

lemma ex_cfg_simps [simp]:
  "initSuccCnt ex_cfg = 270" "ovldErrCnt ex_cfg = 5" "continSuccLim ex_cfg = 10"
  "continErrLim ex_cfg = 10" "probeNum ex_cfg = 2" "updateTimo ex_cfg = 15"
  "clearTimo ex_cfg = 15" "reportTimo ex_cfg = 15" "ovldWaitLim ex_cfg = 300" "windErrLim ex_cfg = 2"
  by (simp_all add: ex_cfg_def initLbEnviro_def to_cint_def)

lemma ex_cfg_ok: "config_ok ex_cfg"
  by (simp add: config_ok_def)

lemma ex_lb_wf: "wf_LB ex_cfg (ex_lb 2 1)" "wf_LB ex_cfg (ex_lb 2 0)"
  by (simp_all add: wf_LB_def ex_lb_def new_LB_def upt_rec on_list_def host_ok_def fresh_HI_def
      new_HI_def addr_key_def ex_addr_def)

section \<open>Properties\<close>

text \<open>
  C4. Refinement: on a well-formed module with nodes, \<open>LB::getHost\<close> never faults and is
  the abstract scheduler on addresses: it hands out the node the scheduler hands out,
  answers \<open>OVERLOAD\<close> exactly when the scheduler has none, leaves the queues and the
  counter the scheduler leaves, and keeps the invariant.
\<close>

theorem getHost_refines_scheduler:
  assumes "wf_LB cfg lb" and "\<not> LB_empty lb"
  shows "\<exists>lb'. LB_getHost cfg lb =
           Inr (case next_host (probeNum cfg) (sched_of lb) of
                  (Some a, _) \<Rightarrow> (SUCCESS, Some a, lb')
                | (None, _) \<Rightarrow> (OVERLOAD, None, lb'))
         \<and> sched_of lb' = snd (next_host (probeNum cfg) (sched_of lb))
         \<and> wf_LB cfg lb'"
  using LB_getHost_next [OF assms] by blast

theorem getHost_refines_scheduler_witness:
  "\<exists>lb'. LB_getHost ex_cfg (ex_lb 2 1) =
           Inr (case next_host 2 (sched_of (ex_lb 2 1)) of
                  (Some a, _) \<Rightarrow> (SUCCESS, Some a, lb')
                | (None, _) \<Rightarrow> (OVERLOAD, None, lb'))
         \<and> sched_of lb' = snd (next_host 2 (sched_of (ex_lb 2 1)))
         \<and> wf_LB ex_cfg lb'"
  using getHost_refines_scheduler [OF ex_lb_wf(1)] by (simp add: LB_empty_def ex_lb_def)

text \<open>
  C16. Fairness: while no node of the module is overloaded, \<open>n\<close> times as many requests as
  there are nodes hand out every node exactly \<open>n\<close> times, in the order of the running
  list, none of them is refused, and the list is then as it was.
\<close>

theorem getHost_fair:
  assumes "wf_LB cfg lb" and "downList lb = []"
  shows "\<exists>lb'. draws (n * length (runningList lb)) (LB_serve cfg) lb
            = Inr (concat (replicate n (map (addr_of lb) (runningList lb))), lb')
         \<and> map (addr_of lb') (runningList lb') = map (addr_of lb) (runningList lb)
         \<and> wf_LB cfg lb' \<and> downList lb' = []"
  using rr_lb.draws_turns [of cfg lb n] assms by (auto simp: all_idle_def)

theorem getHost_fair_witness:
  "\<exists>lb'. draws 6 (LB_serve ex_cfg) (ex_lb 2 0)
            = Inr (concat (replicate 3 [ex_addr 0, ex_addr 1]), lb')
         \<and> map (addr_of lb') (runningList lb') = [ex_addr 0, ex_addr 1]
         \<and> wf_LB ex_cfg lb' \<and> downList lb' = []"
proof -
  have "length (runningList (ex_lb 2 0)) = 2" "downList (ex_lb 2 0) = []"
    "map (addr_of (ex_lb 2 0)) (runningList (ex_lb 2 0)) = [ex_addr 0, ex_addr 1]"
    by (simp_all add: ex_lb_def upt_rec addr_of_def host_addr_def fresh_HI_def new_HI_def ex_addr_def)
  with getHost_fair [OF ex_lb_wf(2), of 3] show ?thesis by simp
qed

text \<open>
  Probing: whatever the load, a module with an overloaded node hands out the one at
  the head of its down list at the latest \<open>probeNum + 1\<close> requests on, exactly when the
  access counter has run up; the requests before it are served by idle nodes or
  refused with \<open>OVERLOAD\<close>, the node then goes to the end of its list and the counter
  restarts at 0.
\<close>

theorem getHost_probes:
  assumes "wf_LB cfg lb" and "downList lb = k # ks"
  shows "\<exists>ras lb'. getHosts (Suc (nat (probeNum cfg - accessCnt lb))) cfg lb
             = Inr (ras @ [(SUCCESS, Some (addr_of lb k))], lb')
          \<and> set ras \<subseteq> {(OVERLOAD, None)} \<union> (\<lambda>k. (SUCCESS, Some (addr_of lb k))) ` set (runningList lb)
          \<and> downList lb' = ks @ [k] \<and> accessCnt lb' = 0 \<and> wf_LB cfg lb'"
  using probe_turn [OF assms] by blast

theorem getHost_probes_witness:
  "\<exists>ras lb'. getHosts 3 ex_cfg (ex_lb 2 1) = Inr (ras @ [(SUCCESS, Some (ex_addr 2))], lb')
          \<and> set ras \<subseteq> {(OVERLOAD, None), (SUCCESS, Some (ex_addr 0)), (SUCCESS, Some (ex_addr 1))}
          \<and> downList lb' = [addr_key (ex_addr 2)] \<and> accessCnt lb' = 0 \<and> wf_LB ex_cfg lb'"
proof -
  have "downList (ex_lb 2 1) = [addr_key (ex_addr 2)]"
    "runningList (ex_lb 2 1) = [addr_key (ex_addr 0), addr_key (ex_addr 1)]"
    by (simp_all add: ex_lb_def upt_rec)
  moreover have "addr_of (ex_lb 2 1) (addr_key (ex_addr 0)) = ex_addr 0"
    "addr_of (ex_lb 2 1) (addr_key (ex_addr 1)) = ex_addr 1"
    "addr_of (ex_lb 2 1) (addr_key (ex_addr 2)) = ex_addr 2"
    by (simp_all add: ex_lb_def upt_rec addr_of_def host_addr_def fresh_HI_def new_HI_def ex_addr_def)
  moreover have "Suc (nat (probeNum ex_cfg - accessCnt (ex_lb 2 1))) = 3"
    by (simp add: ex_lb_def new_LB_def)
  ultimately show ?thesis using getHost_probes [OF ex_lb_wf(1)] by auto
qed

end
