(* ===== verification/LbDecide.thy ===== *)
theory LbDecide
  imports LbSchedule
begin

text \<open>
  When a node changes sides: what the floating-point tests on its counters decide, and
  where a report leaves the node; with the two places where the batch arithmetic and
  the worked example of the documentation disagree with them.
\<close>

section \<open>The thresholds\<close>

lemma word_add_no_wrap: "unat a + unat b < 2 ^ 32 \<Longrightarrow> unat ((a::u32) + b) = unat a + unat b"
  by (simp add: unat_word_ariths)

lemma limit_le:
  "0 < n \<Longrightarrow> n < 2 ^ 31 \<Longrightarrow> (word_of_int n :: u32) \<le> c \<longleftrightarrow> n \<le> int (unat c)"
  by (simp add: word_le_def uint_word_of_int)

lemma ratio_exact:
  assumes q: "dyadic q r" "0 \<le> r" "r < 1" and s: "(unat a + unat b) * 2 ^ q < 2 ^ 53" "q \<le> 53"
    and w: "unat a + unat b < 2 ^ 32" and nz: "unat a + unat b \<noteq> 0"
  shows "fp_gt (ratio a (a + b)) r \<longleftrightarrow> r * of_nat (unat a + unat b) < of_nat (unat a)"
    and "fp_ge (ratio a (a + b)) r \<longleftrightarrow> r * of_nat (unat a + unat b) \<le> of_nat (unat a)"
proof -
  have u: "unat (a + b) = unat a + unat b" by (rule word_add_no_wrap [OF w])
  with nz have "a + b \<noteq> 0" by (metis unat_0)
  with ratio_compare(1,2) [of q r a "a + b"] q s u
  show "fp_gt (ratio a (a + b)) r \<longleftrightarrow> r * of_nat (unat a + unat b) < of_nat (unat a)"
    and "fp_ge (ratio a (a + b)) r \<longleftrightarrow> r * of_nat (unat a + unat b) \<le> of_nat (unat a)"
    by (simp_all only: u le_add1 simp_thms not_False_eq_True)
qed

definition rate_ok :: "nat \<Rightarrow> rat \<Rightarrow> HI \<Rightarrow> bool" where
  "rate_ok q r h \<longleftrightarrow> dyadic q r \<and> 0 \<le> r \<and> r < 1 \<and> q \<le> 53 \<and>
     (unat (hi_succ h) + unat (hi_err h)) * 2 ^ q < 2 ^ 53 \<and>
     unat (hi_succ h) + unat (hi_err h) < 2 ^ 32 \<and> unat (hi_succ h) + unat (hi_err h) \<noteq> 0"

lemma suffers_iff:
  assumes "rate_ok q (errRate cfg) h" "config_ok cfg"
  shows "suffers cfg h \<longleftrightarrow>
     errRate cfg * of_nat (unat (hi_succ h) + unat (hi_err h)) < of_nat (unat (hi_err h))
     \<or> continErrLim cfg \<le> int (unat (hi_continErr h))"
proof -
  have "fp_gt (ratio (hi_err h) (hi_err h + hi_succ h)) (errRate cfg) \<longleftrightarrow>
      errRate cfg * of_nat (unat (hi_err h) + unat (hi_succ h)) < of_nat (unat (hi_err h))"
    using assms(1) by (intro ratio_exact) (auto simp: rate_ok_def add.commute)
  then show ?thesis using assms(2)
    by (simp add: suffers_def limit_le config_ok_def add.commute)
qed

lemma recovers_iff:
  assumes "rate_ok q (succRate cfg) h" "config_ok cfg"
  shows "recovers cfg h \<longleftrightarrow>
     succRate cfg * of_nat (unat (hi_succ h) + unat (hi_err h)) < of_nat (unat (hi_succ h))
     \<or> continSuccLim cfg \<le> int (unat (hi_continSucc h))"
proof -
  have "fp_gt (ratio (hi_succ h) (hi_succ h + hi_err h)) (succRate cfg) \<longleftrightarrow>
      succRate cfg * of_nat (unat (hi_succ h) + unat (hi_err h)) < of_nat (unat (hi_succ h))"
    using assms(1) by (intro ratio_exact) (auto simp: rate_ok_def)
  then show ?thesis using assms(2)
    by (simp add: recovers_def limit_le config_ok_def)
qed

section \<open>Where a report leaves a node\<close>

definition counted :: "i32 \<Rightarrow> HI \<Rightarrow> HI" where
  "counted rc h = (if rc = 0 then count_succ h else count_err h)"

text \<open>The node ends on the down list.\<close>

definition ends_down :: "LbConfigure \<Rightarrow> clong \<Rightarrow> i32 \<Rightarrow> HI \<Rightarrow> bool" where
  "ends_down cfg now rc h0 \<longleftrightarrow>
     (let h = counted rc h0 in
      if hi_overload h0 then \<not> (rc = 0 \<and> recovers cfg h) \<and> now - hi_overloadTs h0 < ovldWaitLim cfg
      else rc \<noteq> 0 \<and> suffers cfg h
           \<or> clearTimo cfg \<le> now - hi_windowTs h0 \<and> fst (checkWindow cfg h))"

lemma counted_frame [simp]:
  "hi_overload (counted rc h) = hi_overload h" "hi_windowTs (counted rc h) = hi_windowTs h"
  "hi_overloadTs (counted rc h) = hi_overloadTs h"
  by (simp_all add: counted_def count_succ_def count_err_def)

lemma sides_set:
  "set (downList (to_down k h lb)) = insert k (set (downList lb))"
  "set (runningList (to_down k h lb)) = set (runningList lb) - {k}"
  "set (downList (to_running k h lb)) = set (downList lb) - {k}"
  "set (runningList (to_running k h lb)) = insert k (set (runningList lb))"
  "downList (set_hi k h lb) = downList lb" "runningList (set_hi k h lb) = runningList lb"
  by (auto simp: to_down_def to_running_def set_hi_def)

lemma report_sides:
  fixes rc :: i32 and now :: clong
  assumes w: "wf_LB cfg lb" and k: "map_of (hostMap lb) (mkkey ip port) = Some h0"
  defines "lb' \<equiv> LB_report cfg now ip port rc lb" and "key \<equiv> mkkey ip port"
  shows "set (downList lb') = (if ends_down cfg now rc h0 then insert key (set (downList lb))
            else set (downList lb) - {key})"
    and "set (runningList lb') = (if ends_down cfg now rc h0 then set (runningList lb) - {key}
            else insert key (set (runningList lb)))"
proof -
  have s: "key \<in> set (runningList lb) \<longleftrightarrow> \<not> hi_overload h0" "key \<in> set (downList lb) \<longleftrightarrow> hi_overload h0"
    using w k unfolding key_def by (auto simp: wf_LB_alt wf_listsD(6,7))
  have "set (downList lb') = (if ends_down cfg now rc h0 then insert key (set (downList lb))
            else set (downList lb) - {key}) \<and>
        set (runningList lb') = (if ends_down cfg now rc h0 then set (runningList lb) - {key}
            else insert key (set (runningList lb)))"
    unfolding lb'_def LB_report_def ends_down_def check_timers_def Let_def
      counted_def [symmetric] key_def [symmetric]
    using k [folded key_def] s
    by (auto simp: sides_set insert_absorb not_le split: prod.splits)
  then show "set (downList lb') = (if ends_down cfg now rc h0 then insert key (set (downList lb))
            else set (downList lb) - {key})"
    and "set (runningList lb') = (if ends_down cfg now rc h0 then set (runningList lb) - {key}
            else insert key (set (runningList lb)))"
    by auto
qed

section \<open>A node at the edge\<close>

text \<open>The module of one idle node with the given counters, under the thresholds of lbagent.ini.\<close>

definition ini_cfg :: LbConfigure where
  "ini_cfg = ex_cfg\<lparr>initSuccCnt := 180, continSuccLim := 15, continErrLim := 15\<rparr>"

definition edge_lb :: "u32 \<Rightarrow> u32 \<Rightarrow> LB" where
  "edge_lb s e = (ex_lb 1 0)\<lparr>hostMap := [(addr_key (ex_addr 0),
     (fresh_HI ini_cfg 100 (ex_addr 0))\<lparr>hi_succ := s, hi_err := e\<rparr>)]\<rparr>"

lemma ini_cfg_simps [simp]:
  "initSuccCnt ini_cfg = 180" "continSuccLim ini_cfg = 15" "continErrLim ini_cfg = 15"
  "probeNum ini_cfg = 2" "clearTimo ini_cfg = 15" "ovldWaitLim ini_cfg = 300" "ovldErrCnt ini_cfg = 5"
  by (simp_all add: ini_cfg_def)

lemma ini_cfg_err: "errRate ini_cfg = 13421773 / 134217728"
  using fl32_tenth by (simp add: ini_cfg_def ex_cfg_def initLbEnviro_def)

lemma ini_suffers:
  "hi_succ h = word_of_nat s \<Longrightarrow> hi_err h = word_of_nat e \<Longrightarrow> 0 < s + e \<Longrightarrow> s + e < 2 ^ 20 \<Longrightarrow>
   suffers ini_cfg h \<longleftrightarrow>
     13421773 * of_nat (s + e) < 134217728 * (of_nat e :: rat) \<or> 15 \<le> int (unat (hi_continErr h))"
proof -
  assume a: "hi_succ h = word_of_nat s" "hi_err h = word_of_nat e" "0 < s + e" "s + e < 2 ^ 20"
  then have u: "unat (hi_succ h) = s" "unat (hi_err h) = e"
    by (simp_all add: unat_of_nat)
  have "rate_ok 27 (errRate ini_cfg) h"
    using a(3,4) by (simp add: rate_ok_def u ini_cfg_err dyadic_def)
  moreover have "config_ok ini_cfg" by (simp add: config_ok_def)
  ultimately show ?thesis by (simp add: suffers_iff u ini_cfg_err field_simps)
qed

lemma need_count_180: "need_count (13421773 / 134217728) 180 = Inr 21"
proof -
  let ?r = "13421773 / 134217728 :: rat"
  have c: "fl32 (of_nat (unat (180::u32))) = 180"
    using rnd_dyadic [of 0 180 8 24] by (simp add: dyadic_def)
  have n: "fl32 (?r * 180) = 18"
    using rnd_eqI [of 4 "?r * 180" 24 9437184] by simp
  have d: "fl32 (1 - ?r) = 15099494 / 16777216"
    using rnd_eqI [of "- 1" "1 - ?r" 24 15099494] by simp
  have q: "fl32 (18 / (15099494 / 16777216)) = 20"
    using rnd_eqI [of 4 "18 / (15099494 / 16777216)" 24 10485760] by simp
  have "fdiv32 (fl32 (?r * fl32 (of_nat (unat (180::u32))))) (fl32 (1 - ?r)) = Fin 20"
    unfolding c n d fdiv32_def q by simp
  moreover have "fp_lt (ratio 20 200) ?r"
    using fl64_tenth by (simp add: ratio_def)
  ultimately show ?thesis
    unfolding need_count_def by (simp add: to_u32_def trunc_def)
qed

section \<open>Properties\<close>

text \<open>
  C15. The floating-point tests decide the exact rates: with thresholds of \<open>q\<close> binary
  digits (27 for \<open>0.1f\<close>, 24 for \<open>0.92f\<close>) and counters small enough for \<open>q\<close>, an idle
  node suffers overload exactly when its virtual failure rate is above \<open>errRate\<close> or its
  consecutive failures reach \<open>continErrLim\<close>; an overloaded one recovers exactly when
  its virtual success rate is above \<open>succRate\<close> or its consecutive successes reach
  \<open>continSuccLim\<close>.
\<close>

theorem thresholds_exact:
  assumes "config_ok cfg" and "rate_ok p (errRate cfg) h" and "rate_ok q (succRate cfg) h"
  shows "(suffers cfg h \<longleftrightarrow>
      errRate cfg * of_nat (unat (hi_succ h) + unat (hi_err h)) < of_nat (unat (hi_err h))
      \<or> continErrLim cfg \<le> int (unat (hi_continErr h)))
    \<and> (recovers cfg h \<longleftrightarrow>
      succRate cfg * of_nat (unat (hi_succ h) + unat (hi_err h)) < of_nat (unat (hi_succ h))
      \<or> continSuccLim cfg \<le> int (unat (hi_continSucc h)))"
  using suffers_iff [OF assms(2,1)] recovers_iff [OF assms(3,1)] by blast

theorem thresholds_exact_witness:
  "(suffers ex_cfg (fresh_HI ex_cfg 0 (ex_addr 0)) \<longleftrightarrow>
      errRate ex_cfg * of_nat (270 + 0) < of_nat 0 \<or> 10 \<le> (0::int))"
proof -
  let ?h = "fresh_HI ex_cfg 0 (ex_addr 0)"
  have u: "unat (hi_succ ?h) = 270" "unat (hi_err ?h) = 0" "unat (hi_continErr ?h) = 0"
    by (simp_all add: fresh_HI_def new_HI_def)
  have r: "errRate ex_cfg = 13421773 / 134217728" "succRate ex_cfg = 15435039 / 16777216"
    using fl32_tenth fl32_92 by (simp_all add: ex_cfg_def initLbEnviro_def)
  then have "rate_ok 27 (errRate ex_cfg) ?h" "rate_ok 24 (succRate ex_cfg) ?h"
    by (simp_all add: rate_ok_def u dyadic_def)
  from thresholds_exact [OF ex_cfg_ok this] show ?thesis by (simp add: u)
qed

text \<open>
  C14. A reported call moves the node exactly when it should: after the report the node is
  on the down list if and only if it was overloaded, has neither recovered nor waited
  \<open>ovldWaitLim\<close>, or it was idle and either a failed call made it suffer or its window
  ended as one bad window too many. Otherwise it is on the running list, and every
  other node stays on its side.
\<close>

theorem report_moves_node:
  assumes "wf_LB cfg lb" and "map_of (hostMap lb) (mkkey ip port) = Some h0"
  shows "set (downList (LB_report cfg now ip port rc lb)) =
           (if ends_down cfg now rc h0 then insert (mkkey ip port) (set (downList lb))
            else set (downList lb) - {mkkey ip port})
       \<and> set (runningList (LB_report cfg now ip port rc lb)) =
           (if ends_down cfg now rc h0 then set (runningList lb) - {mkkey ip port}
            else insert (mkkey ip port) (set (runningList lb)))"
  using report_sides [OF assms] by blast

theorem report_moves_node_witness:
  "set (downList (LB_report ex_cfg 105 (ha_ip (ex_addr 1)) (ha_port (ex_addr 1)) 0 (ex_lb 2 1)))
     = {addr_key (ex_addr 2)}"
proof -
  let ?h = "fresh_HI ex_cfg 100 (ex_addr 1)"
  have l: "map_of (hostMap (ex_lb 2 1)) (mkkey (ha_ip (ex_addr 1)) (ha_port (ex_addr 1))) = Some ?h"
    by (simp add: ex_lb_def upt_rec flip: addr_key_def) (simp add: fresh_HI_def new_HI_def ex_addr_def)
  have "\<not> ends_down ex_cfg 105 0 ?h"
    by (simp add: ends_down_def Let_def fresh_HI_def new_HI_def)
  with report_moves_node [OF ex_lb_wf(1) l, of 105 0] show ?thesis
    by (simp add: ex_lb_def upt_rec flip: addr_key_def) (simp add: ex_addr_def)
qed


text \<open>
  The worked example of lbagent's README (\<open>init_succ_cnt\<close> 180, \<open>err_rate\<close> 0.1: "10 succ +
  21 err is overload", "20 succ + 22 err is overload") is off by one: with 190 successes
  and 21 failures on the virtual counters the node does not suffer, with 22 failures it
  does; with 200 successes it takes 23.
\<close>

theorem readme_example_needs_one_more:
  "\<not> suffers ini_cfg (h\<lparr>hi_succ := 190, hi_err := 21, hi_continErr := 1\<rparr>)
 \<and> suffers ini_cfg (h\<lparr>hi_succ := 190, hi_err := 22, hi_continErr := 1\<rparr>)
 \<and> \<not> suffers ini_cfg (h\<lparr>hi_succ := 200, hi_err := 22, hi_continErr := 1\<rparr>)
 \<and> suffers ini_cfg (h\<lparr>hi_succ := 200, hi_err := 23, hi_continErr := 1\<rparr>)"
  using ini_suffers [of "h\<lparr>hi_succ := 190, hi_err := 21, hi_continErr := 1\<rparr>" 190 21]
    ini_suffers [of "h\<lparr>hi_succ := 190, hi_err := 22, hi_continErr := 1\<rparr>" 190 22]
    ini_suffers [of "h\<lparr>hi_succ := 200, hi_err := 22, hi_continErr := 1\<rparr>" 200 22]
    ini_suffers [of "h\<lparr>hi_succ := 200, hi_err := 23, hi_continErr := 1\<rparr>" 200 23]
  by simp

text \<open>
  A batch of failures ignores the failures counted before: a node with 180 virtual
  successes and 20 failures goes down at the next single failure (21 of 201 is above
  10%), but stays idle when five failures arrive as one batch, as the report of one slow
  failed call does, although 25 of 205 failed.
\<close>

theorem batch_of_errors_misses_overload:
  "downList (LB_report ini_cfg 101 (ha_ip (ex_addr 0)) (ha_port (ex_addr 0)) 1 (edge_lb 180 20))
     = [addr_key (ex_addr 0)]
 \<and> (\<exists>lb' h. LB_reportSomeErr ini_cfg 101 (ha_ip (ex_addr 0)) (ha_port (ex_addr 0)) 5 (edge_lb 180 20)
        = Inr lb' \<and> downList lb' = [] \<and> runningList lb' = [addr_key (ex_addr 0)]
      \<and> map_of (hostMap lb') (addr_key (ex_addr 0)) = Some h \<and> hi_succ h = 180 \<and> hi_err h = 25)"
proof -
  let ?h = "(fresh_HI ini_cfg 100 (ex_addr 0))\<lparr>hi_succ := 180, hi_err := 20\<rparr>"
  have "suffers ini_cfg (count_err ?h)"
    using ini_suffers [of "count_err ?h" 180 21] by (simp add: count_err_def)
  then have "LB_report ini_cfg 101 (ha_ip (ex_addr 0)) (ha_port (ex_addr 0)) 1 (edge_lb 180 20)
      = to_down (addr_key (ex_addr 0)) (make_overload ini_cfg 101 (count_err ?h)) (edge_lb 180 20)"
    by (simp add: LB_report_def edge_lb_def addr_key_def Let_def fresh_HI_def new_HI_def)
  moreover have "err_batch ini_cfg 5 (?h\<lparr>hi_rErr := 5, hi_continSucc := 0, hi_continErr := 5\<rparr>)
      = Inr (False, 5)"
    by (simp add: err_batch_def ini_cfg_err need_count_180)
  then have "LB_reportSomeErr ini_cfg 101 (ha_ip (ex_addr 0)) (ha_port (ex_addr 0)) 5 (edge_lb 180 20)
      = Inr (set_hi (addr_key (ex_addr 0))
          (?h\<lparr>hi_rErr := 5, hi_continSucc := 0, hi_continErr := 5, hi_err := 25\<rparr>) (edge_lb 180 20))"
    by (simp add: LB_reportSomeErr_def edge_lb_def addr_key_def Let_def fresh_HI_def new_HI_def
        check_timers_def)
  ultimately show ?thesis
    by (simp add: to_down_def set_hi_def edge_lb_def ex_lb_def new_LB_def)
qed

end
