(* ===== verification/RouteSafety.thy ===== *)
theory RouteSafety
  imports LbDecide
begin

text \<open>
  What an agent thread guarantees over whole runs: which faults can end a run and which
  cannot, that a module is never pulled twice at a time, that routes, statistics and
  versions survive updates as they should, and the two ways in which the handlers break
  (a reconnection before the first route, and node pointers used after the mutex is
  released).
\<close>

section \<open>Faults of single reports\<close>

lemma need_count_third:
  assumes "0 \<le> r" "r \<le> 1 / 3"
  shows "\<exists>n. need_count r c = Inr n"
proof (rule need_count_total)
  have "unat c < 2 ^ 32" using unsigned_less [where 'a = nat, of c] by simp
  then have c: "(of_nat (unat c) :: rat) < 2 ^ 32"
    by (metis of_nat_less_iff of_nat_numeral of_nat_power)
  have "r * of_nat (unat c) \<le> 1 / 3 * of_nat (unat c)"
    using assms(2) by (intro mult_right_mono of_nat_0_le_iff)
  moreover have "2 / 3 * 2 ^ 32 \<le> (1 - r) * 2 ^ 32" using assms by (intro mult_right_mono) auto
  ultimately show "11 / 10 * (r * of_nat (unat c)) < (1 - r) * 2 ^ 32" using c by simp
qed (use assms in auto)

lemma LB_reportSomeErr_total:
  assumes "0 \<le> errRate cfg" "errRate cfg \<le> 1 / 3"
  shows "\<exists>lb'. LB_reportSomeErr cfg now ip port n lb = Inr lb'"
proof (cases "LB_reportSomeErr cfg now ip port n lb")
  case (Inl e)
  then obtain h where "err_batch cfg n h = Inl e"
    by (auto simp: LB_reportSomeErr_def Let_def rbind_eq_Inl split: option.splits if_splits)
  with need_count_third [OF assms, of "hi_succ h"] show ?thesis
    by (auto simp: err_batch_def split: if_splits)
qed simp

lemma report_total:
  assumes "config_ok cfg" "0 \<le> errRate cfg" "errRate cfg \<le> 1 / 3" "all_mods (ident_ok cfg I) rl"
    and "rq_tcost req = None \<or> rq_retcode req \<noteq> 0"
  shows "RouteLB_report cfg MyIp now req rl \<noteq> Inl e"
proof (cases "map_of (routeMap rl) (mkkey (rq_modid req) (rq_cmdid req))")
  case (Some lb)
  then have "ident_ok cfg I (mkkey (rq_modid req) (rq_cmdid req)) lb" using assms(4) by (auto dest: all_modsD)
  then have i: "ident_ok cfg (\<lambda>_. True) (mkkey (rq_modid req) (rq_cmdid req)) lb" by (simp add: ident_ok_def)
  have f: "report_out cfg MyIp now (mkkey (rq_modid req) (rq_cmdid req)) lb' rl \<noteq> Inl e"
    if "wf_LB cfg lb'" for lb'
    by (rule LB_report2Rpter_wf [OF that, of MyIp now]) (simp add: report_out_def)
  have "wf_LB cfg lb" using i by (simp add: ident_ok_def mod_ok_def)
  moreover obtain lb' where "LB_reportSomeErr cfg now (ha_ip (rq_host req)) (ha_port (rq_host req))
      (err_weight (rq_tcost req)) lb = Inr lb'"
    using LB_reportSomeErr_total [OF assms(2,3)] by blast
  ultimately show ?thesis using Some assms(1,5) f
    by (auto simp: RouteLB_report_def Let_def rbind_eq_Inl wf_LB_report wf_LB_reportSomeErr)
qed (use assms(5) in \<open>auto simp: RouteLB_report_def\<close>)

text \<open>Events that never end in a fault.\<close>

definition harmless :: "event \<Rightarrow> bool" where
  "harmless e \<longleftrightarrow> orderly e \<and> (case e of EvBatch _ _ \<Rightarrow> False | _ \<Rightarrow> True)"

definition err_third :: "LbConfigure \<Rightarrow> bool" where
  "err_third cfg \<longleftrightarrow> 0 \<le> errRate cfg \<and> errRate cfg \<le> 1 / 3"

lemma harmless_step:
  assumes "config_ok cfg" "err_third cfg" "all_mods (ident_ok cfg awaited) rl" "harmless e"
  shows "rl_step cfg MyIp e rl \<noteq> Inl f"
proof (cases e)
  case (EvGetHost now m c)
  with mp.getHost_no_assert [OF assms(1,3), of now m c] show ?thesis
    by (auto simp: rbind_eq_Inl split: prod.splits)
next
  case (EvReport now req)
  with report_total [OF assms(1) _ _ assms(3), of req] assms(2,4) show ?thesis
    by (auto simp: rbind_eq_Inl harmless_def orderly_def err_third_def split: prod.splits)
next
  case (EvGetRoute now m c)
  with mp.getRoute_keeps [OF assms(1,3), of now m c] show ?thesis
    by (auto simp: rbind_eq_Inl split: prod.splits)
next
  case (EvCacheGetRoute now m c ver)
  with mp.cacheGetRoute_no_assert [OF assms(1,3), of now m c ver] show ?thesis
    by (auto simp: rbind_eq_Inl split: prod.splits)
next
  case (EvUpdate now m c hosts)
  with mp.update_keeps [OF assms(3), of now m c hosts] show ?thesis
    by (auto simp: rbind_eq_Inl split: prod.splits)
qed (use assms(4) in \<open>simp_all add: harmless_def orderly_def\<close>)

interpretation rlh: safe_machine "rl_step cfg MyIp"
  "\<lambda>rl. config_ok cfg \<and> err_third cfg \<and> all_mods (ident_ok cfg awaited) rl" harmless "\<lambda>f. False"
proof unfold_locales
  fix e rl rl' out
  assume "config_ok cfg \<and> err_third cfg \<and> all_mods (ident_ok cfg awaited) rl" "harmless e"
    and "rl_step cfg MyIp e rl = Inr (rl', out)"
  then show "config_ok cfg \<and> err_third cfg \<and> all_mods (ident_ok cfg awaited) rl'"
    using rlp.step_inv [of cfg rl e MyIp rl' out] by (simp add: harmless_def)
next
  fix e rl f
  assume "config_ok cfg \<and> err_third cfg \<and> all_mods (ident_ok cfg awaited) rl" "harmless e"
    and "rl_step cfg MyIp e rl = Inl f"
  then show False using harmless_step by blast
qed

section \<open>At most one pull under way\<close>

definition pulls_of :: "u64 \<Rightarrow> qmsg list \<Rightarrow> nat" where
  "pulls_of k out = length (filter (\<lambda>m. case m of Pull r \<Rightarrow> mkkey (grq_modid r) (grq_cmdid r) = k | _ \<Rightarrow> False) out)"

definition may_pull :: "u64 \<Rightarrow> RouteLB \<Rightarrow> nat" where
  "may_pull k rl = (case map_of (routeMap rl) k of
      None \<Rightarrow> 1 | Some lb \<Rightarrow> if status lb = ISPULLING then 0 else 1)"

lemma pulls_of_simps [simp]:
  "pulls_of k [] = 0" "pulls_of k [Rept q] = 0"
  "pulls_of k [Pull r] = (if mkkey (grq_modid r) (grq_cmdid r) = k then 1 else 0)"
  by (simp_all add: pulls_of_def)

lemma may_pull_put:
  "may_pull k (put_lb k' lb rl) =
     (if k = k' then if status lb = ISPULLING then 0 else 1 else may_pull k rl)"
  by (simp add: may_pull_def put_lb_def hm.find_put)

lemma may_pull_Some:
  "map_of (routeMap rl) k = Some lb \<Longrightarrow> may_pull k rl = (if status lb = ISPULLING then 0 else 1)"
  by (simp add: may_pull_def)

lemma repull_pulls:
  assumes "mod_ok cfg k' lb0" "LB_ident lb = LB_ident lb0" "repull cfg now lb = (lb', out)"
    "map_of (routeMap rl) k' = Some lb0"
  shows "pulls_of k out + may_pull k (put_lb k' lb' rl) \<le> may_pull k rl"
  using assms
  by (auto simp: repull_def LB_pull_def Let_def mod_ok_def LB_ident_def may_pull_put may_pull_Some
      split: if_splits)

lemma first_pull_pulls:
  "map_of (routeMap rl) (mkkey m c) = None \<Longrightarrow> first_pull m c rl = (rl', out) \<Longrightarrow>
   pulls_of k out + may_pull k rl' \<le> may_pull k rl"
  by (auto simp: first_pull_eq may_pull_put) (simp add: may_pull_def)

lemma report_out_pulls:
  assumes "report_out cfg MyIp now k' lb rl = Inr (rl', out)" "map_of (routeMap rl) k' = Some lb0"
    "wf_LB cfg lb" "status lb = status lb0"
  shows "pulls_of k out + may_pull k rl' \<le> may_pull k rl"
proof -
  from LB_report2Rpter_wf [OF assms(3), of MyIp now] obtain lb' m where
    r: "LB_report2Rpter cfg MyIp now lb = Inr (lb', m)" "status lb' = status lb" by metis
  with assms(1) have "rl' = put_lb k' lb' rl" "out = (case m of None \<Rightarrow> [] | Some m \<Rightarrow> [Rept m])"
    by (auto simp: report_out_def)
  then show ?thesis using assms(2,4) r(2)
    by (cases m) (auto simp: may_pull_put may_pull_Some)
qed

lemma LB_ident_status: "LB_ident lb' = LB_ident lb \<Longrightarrow> status lb' = status lb"
  by (simp add: LB_ident_def)

lemma foldM_someSucc:
  assumes "foldM (\<lambda>lb cr. LB_reportSomeSucc cfg now (hbc_ip cr) (hbc_port cr) (hbc_succcnt cr) lb) lb rs
     = Inr lb'" "wf_LB cfg lb" "config_ok cfg"
  shows "wf_LB cfg lb' \<and> LB_ident lb' = LB_ident lb"
  using assms
proof (induction rs arbitrary: lb)
  case (Cons r rs)
  then obtain lb1 where lb1:
    "LB_reportSomeSucc cfg now (hbc_ip r) (hbc_port r) (hbc_succcnt r) lb = Inr lb1" by auto
  with Cons.prems have "wf_LB cfg lb1" "LB_ident lb1 = LB_ident lb"
    by (auto dest: wf_LB_reportSomeSucc LB_ident_someSucc)
  with Cons lb1 show ?case by simp
qed simp

definition pull_kept :: "event \<Rightarrow> bool" where
  "pull_kept e = (case e of EvUpdate _ _ _ _ \<Rightarrow> False | EvClear \<Rightarrow> False | _ \<Rightarrow> True)"

lemma ident_okD:
  assumes "all_mods (ident_ok cfg Q) rl" "map_of (routeMap rl) k = Some lb"
  shows "mod_ok cfg k lb" "wf_LB cfg lb"
  using all_modsD [OF assms] by (auto simp: ident_ok_def mod_ok_def)

lemma getHost_pulls:
  assumes "config_ok cfg" "all_mods (ident_ok cfg (\<lambda>_. True)) rl"
    and "RouteLB_getHost cfg now m c rl = Inr (rl', rep, out)"
  shows "pulls_of k out + may_pull k rl' \<le> may_pull k rl"
proof (cases "map_of (routeMap rl) (mkkey m c)")
  case None
  with assms(3) show ?thesis
    by (auto simp: RouteLB_getHost_def split: prod.splits intro: first_pull_pulls)
next
  case (Some lb)
  note w = ident_okD [OF assms(2) Some]
  have "pulls_of k out + may_pull k rl' \<le> may_pull k rl" if "\<not> LB_empty lb"
  proof -
    from LB_ident_getHost [OF w(2) that] obtain r a lb1 where
      g: "LB_getHost cfg lb = Inr (r, a, lb1)" "LB_ident lb1 = LB_ident lb"
      by (cases "LB_getHost cfg lb") auto
    with assms(3) Some that obtain lb2 where
      "repull cfg now lb1 = (lb2, out)" "rl' = put_lb (mkkey m c) lb2 rl"
      by (auto simp: RouteLB_getHost_def Let_def split: prod.splits)
    with repull_pulls [OF w(1) g(2) _ Some] show ?thesis by simp
  qed
  with assms(3) Some show ?thesis by (auto simp: RouteLB_getHost_def split: if_splits)
qed

lemma report_pulls:
  assumes "config_ok cfg" "all_mods (ident_ok cfg (\<lambda>_. True)) rl"
    and "RouteLB_report cfg MyIp now req rl = Inr (rl', out)"
  shows "pulls_of k out + may_pull k rl' \<le> may_pull k rl"
proof (cases "map_of (routeMap rl) (mkkey (rq_modid req) (rq_cmdid req))")
  case None
  with assms(3) show ?thesis by (auto simp: RouteLB_report_def split: if_splits)
next
  case (Some lb)
  with assms(3) obtain lb1 where
    o: "report_out cfg MyIp now (mkkey (rq_modid req) (rq_cmdid req)) lb1 rl = Inr (rl', out)"
    and "lb1 = LB_report cfg now (ha_ip (rq_host req)) (ha_port (rq_host req)) (rq_retcode req) lb
      \<or> LB_reportSomeErr cfg now (ha_ip (rq_host req)) (ha_port (rq_host req))
           (err_weight (rq_tcost req)) lb = Inr lb1"
    by (auto simp: RouteLB_report_def Let_def split: if_splits)
  then have "wf_LB cfg lb1 \<and> LB_ident lb1 = LB_ident lb"
    using ident_okD [OF assms(2) Some] assms(1) by (auto intro: wf_LB_report LB_ident_report
        dest: wf_LB_reportSomeErr LB_ident_someErr)
  with report_out_pulls [OF o Some] show ?thesis by (auto dest: LB_ident_status)
qed

lemma batchReport_pulls:
  assumes "config_ok cfg" "all_mods (ident_ok cfg (\<lambda>_. True)) rl"
    and "RouteLB_batchReport cfg MyIp now req rl = Inr (rl', out)"
  shows "pulls_of k out + may_pull k rl' \<le> may_pull k rl"
proof (cases "map_of (routeMap rl) (mkkey (cbr_modid req) (cbr_cmdid req))")
  case None
  with assms(3) show ?thesis by (auto simp: RouteLB_batchReport_def)
next
  case (Some lb)
  with assms(3) obtain lb1 where
    o: "report_out cfg MyIp now (mkkey (cbr_modid req) (cbr_cmdid req)) lb1 rl = Inr (rl', out)"
    and "foldM (\<lambda>lb cr. LB_reportSomeSucc cfg now (hbc_ip cr) (hbc_port cr) (hbc_succcnt cr) lb)
           lb (cbr_results req) = Inr lb1"
    by (auto simp: RouteLB_batchReport_def Let_def)
  with foldM_someSucc ident_okD [OF assms(2) Some] assms(1) have "wf_LB cfg lb1 \<and> LB_ident lb1 = LB_ident lb"
    by blast
  with report_out_pulls [OF o Some] show ?thesis by (auto dest: LB_ident_status)
qed

lemma getRoute_pulls:
  assumes "all_mods (ident_ok cfg (\<lambda>_. True)) rl" and "getRoute_locked cfg now m c rl = (rl', vec, out)"
  shows "pulls_of k out + may_pull k rl' \<le> may_pull k rl"
proof (cases "map_of (routeMap rl) (mkkey m c)")
  case None
  with assms(2) show ?thesis
    by (auto simp: getRoute_locked_def split: prod.splits intro: first_pull_pulls)
next
  case (Some lb)
  with assms(2) show ?thesis
    by (auto simp: getRoute_locked_def Let_def split: prod.splits
        intro: repull_pulls [OF ident_okD(1) [OF assms(1) Some] refl _ Some])
qed

lemma cacheGetRoute_pulls:
  assumes "all_mods (ident_ok cfg (\<lambda>_. True)) rl"
    and "cacheGetRoute_locked cfg now m c ver rl = Inr (rl', v, vec, out)"
  shows "pulls_of k out + may_pull k rl' \<le> may_pull k rl"
proof (cases "map_of (routeMap rl) (mkkey m c)")
  case None
  with assms(2) show ?thesis
    by (auto simp: cacheGetRoute_locked_def split: prod.splits intro: first_pull_pulls)
next
  case (Some lb)
  with assms(2) show ?thesis
    by (auto simp: cacheGetRoute_locked_def Let_def split: prod.splits if_splits option.splits
        intro: repull_pulls [OF ident_okD(1) [OF assms(1) Some] refl _ Some])
qed

lemma step_pulls:
  assumes "config_ok cfg" "all_mods (ident_ok cfg (\<lambda>_. True)) rl" "pull_kept e"
    and "rl_step cfg MyIp e rl = Inr (rl', rep, out)"
  shows "pulls_of k out + may_pull k rl' \<le> may_pull k rl"
proof (cases e)
  case (EvGetHost now m c)
  with assms(4) show ?thesis by (auto intro: getHost_pulls [OF assms(1,2)])
next
  case (EvReport now req)
  with assms(4) show ?thesis by (auto intro: report_pulls [OF assms(1,2)])
next
  case (EvBatch now req)
  with assms(4) show ?thesis by (auto intro: batchReport_pulls [OF assms(1,2)])
next
  case (EvGetRoute now m c)
  with assms(4) obtain vec where "getRoute_locked cfg now m c rl = (rl', vec, out)"
    by (auto simp: RouteLB_getRoute_def split: prod.splits)
  then show ?thesis by (rule getRoute_pulls [OF assms(2)])
next
  case (EvCacheGetRoute now m c ver)
  with assms(4) obtain v vec where "cacheGetRoute_locked cfg now m c ver rl = Inr (rl', v, vec, out)"
    by (auto simp: RouteLB_cacheGetRoute_def split: prod.splits)
  then show ?thesis by (rule cacheGetRoute_pulls [OF assms(2)])
qed (use assms(3) in \<open>simp_all add: pull_kept_def\<close>)

lemma run_pulls:
  assumes "run (rl_step cfg MyIp) es rl = Inr (rl', outs)" "list_all pull_kept es"
    "config_ok cfg" "wf_RouteLB cfg rl"
  shows "pulls_of k (concat (map snd outs)) + may_pull k rl' \<le> may_pull k rl"
  using assms
proof (induction es arbitrary: rl outs)
  case Nil
  then show ?case by simp
next
  case (Cons e es)
  then obtain rl1 rep out outs' where s: "rl_step cfg MyIp e rl = Inr (rl1, rep, out)"
    "run (rl_step cfg MyIp) es rl1 = Inr (rl', outs')" "outs = (rep, out) # outs'" by auto
  have "pulls_of k out + may_pull k rl1 \<le> may_pull k rl"
    using Cons.prems(2-4) s(1) by (intro step_pulls) (auto simp: wf_RouteLB_ident)
  moreover have "wf_RouteLB cfg rl1" using rlm.step_inv [OF _ _ s(1)] Cons.prems(3,4) by simp
  then have "pulls_of k (concat (map snd outs')) + may_pull k rl' \<le> may_pull k rl1"
    using Cons.IH [OF s(2)] Cons.prems(2,3) by simp
  ultimately show ?case by (simp add: s(3) pulls_of_def)
qed


section \<open>Routes as addresses\<close>

lemma traverse_if:
  "(\<And>x. x \<in> set xs \<Longrightarrow> f x = (if P x then Inr (g x) else Inl e)) \<Longrightarrow>
   traverse f xs = (if \<forall>x \<in> set xs. P x then Inr (map g xs) else Inl e)"
  by (induction xs) auto

definition route_of :: "LB \<Rightarrow> HostAddr list" where
  "route_of lb = map (\<lambda>(k, h). host_addr h) (hostMap lb)"

lemma route_of_keys:
  assumes "wf_LB cfg lb"
  shows "map (addr_of lb) (LB_getRoute lb) = route_of lb"
proof -
  have d: "distinct (map fst (hostMap lb))" using assms by (simp add: wf_LB_def)
  show ?thesis
    by (auto simp: LB_getRoute_def route_of_def addr_of_def map_of_is_SomeI [OF d])
qed

lemma route_of_spec:
  assumes "wf_LB cfg lb"
  shows "addr_key ` set (route_of lb) = keys_of (hostMap lb)" "distinct (route_of lb)"
proof -
  have d: "distinct (map fst (hostMap lb))" using assms by (simp add: wf_LB_def)
  have k: "addr_key (host_addr h) = k" if "(k, h) \<in> set (hostMap lb)" for k h
    using that assms by (auto simp: wf_LB_def list_all_iff addr_key_def host_addr_def)
  then have m: "map addr_key (route_of lb) = map fst (hostMap lb)"
    by (auto simp: route_of_def)
  then show "addr_key ` set (route_of lb) = keys_of (hostMap lb)"
    by (metis keys_of_def list.set_map)
  from m d show "distinct (route_of lb)" by (metis distinct_map)
qed

lemma route_of_update:
  assumes "wf_LB cfg lb" "keys_of (hostMap lb) = route_keys hosts"
  shows "set (route_of lb) = set hosts"
proof -
  have "addr_key ` set (route_of lb) = addr_key ` set hosts"
    using route_of_spec(1) [OF assms(1)] assms(2) by (simp add: route_keys_def)
  moreover have "inj addr_key" by (simp add: inj_def)
  ultimately show ?thesis by (simp add: inj_image_eq_iff)
qed

lemma wf_RouteLB_lookup:
  "wf_RouteLB cfg rl \<Longrightarrow> map_of (routeMap rl) k = Some lb \<Longrightarrow> mod_ok cfg k lb"
  by (auto simp: wf_RouteLB_all dest: all_modsD)

lemma repull_frame:
  "repull cfg now lb = (lb', out) \<Longrightarrow> hostMap lb' = hostMap lb \<and> wf_LB cfg lb' = wf_LB cfg lb"
  by (auto simp: repull_def LB_pull_def wf_LB_alt split: if_splits)

lemma addr_of_hostMap: "hostMap lb' = hostMap lb \<Longrightarrow> addr_of lb' = addr_of lb"
  by (simp add: addr_of_def fun_eq_iff)

lemma repull_out:
  "snd (repull cfg now lb) =
     (if status lb = ISNEW \<and> updateTimo cfg < now - effectData lb
      then [Pull \<lparr> grq_modid = lb_modid lb, grq_cmdid = lb_cmdid lb \<rparr>] else [])"
  by (simp add: repull_def LB_pull_def)

lemma getRoute_spec:
  assumes "wf_LB cfg lb" "map_of (routeMap rl) (mkkey m c) = Some lb"
  shows "RouteLB_getRoute cfg now m c rl =
     Inr (put_lb (mkkey m c) (fst (repull cfg now lb)) rl, route_of lb, snd (repull cfg now lb))"
proof -
  obtain lb' out where r: "repull cfg now lb = (lb', out)" by fastforce
  from repull_frame [OF r] have h: "hostMap lb' = hostMap lb" ..
  have "fill_hosts m c (LB_getRoute lb) (put_lb (mkkey m c) lb' rl) = Inr (map (addr_of lb') (LB_getRoute lb))"
    by (rule fill_hosts_ok) (simp_all add: h)
  then show ?thesis using assms
    by (simp add: RouteLB_getRoute_def getRoute_locked_def r addr_of_hostMap [OF h] route_of_keys)
qed

lemma cacheGetRoute_spec:
  assumes "wf_LB cfg lb" "map_of (routeMap rl) (mkkey m c) = Some lb" "\<not> LB_empty lb" "version lb = Some v"
  shows "RouteLB_cacheGetRoute cfg now m c ver rl =
     Inr (put_lb (mkkey m c) (fst (repull cfg now lb)) rl,
          \<lparr> cgr_modid = m, cgr_cmdid = c, cgr_version = v, cgr_overload = Some (downList lb \<noteq> []),
            cgr_route = (if v = ver then [] else route_of lb) \<rparr>,
          snd (repull cfg now lb))"
proof -
  obtain lb' out where r: "repull cfg now lb = (lb', out)" by fastforce
  from repull_frame [OF r] have h: "hostMap lb' = hostMap lb" ..
  have "fill_hosts m c ks (put_lb (mkkey m c) lb' rl) = Inr (map (addr_of lb') ks)"
    if "set ks \<subseteq> keys_of (hostMap lb)" for ks
    using that by (intro fill_hosts_ok) (simp_all add: h)
  then show ?thesis using assms
    by (simp add: RouteLB_cacheGetRoute_def cacheGetRoute_locked_def r addr_of_hostMap [OF h]
        route_of_keys hasOvHost_def)
qed

section \<open>Messages to the reporter\<close>

definition result_of :: "LB \<Rightarrow> u64 \<Rightarrow> HostCallResult" where
  "result_of lb k = (case map_of (hostMap lb) k of
      None \<Rightarrow> \<lparr> hcr_ip = 0, hcr_port = 0, hcr_succ = 0, hcr_err = 0, hcr_overload = False \<rparr>
    | Some h \<Rightarrow> \<lparr> hcr_ip = hi_ip h, hcr_port = hi_port h, hcr_succ = hi_rSucc h, hcr_err = hi_rErr h,
                   hcr_overload = hi_overload h \<rparr>)"

lemma report2Rpter_due:
  assumes w: "wf_LB cfg lb" and "\<not> LB_empty lb" "reportTimo cfg \<le> now - lstRptTime lb"
  shows "LB_report2Rpter cfg MyIp now lb =
     Inr (lb\<lparr>lstRptTime := now\<rparr>,
       Some \<lparr> rsr_modid = lb_modid lb, rsr_cmdid = lb_cmdid lb, rsr_caller = MyIp,
              rsr_results = map (result_of lb) (runningList lb @ downList lb), rsr_ts = word_of_int now \<rparr>)"
proof -
  note s = wf_listsD(6,7) [of cfg "hostMap lb" "runningList lb" "downList lb"]
  have "traverse (call_result lb False) (runningList lb) = Inr (map (result_of lb) (runningList lb))"
    using w by (intro traverse_Inr_map) (auto simp: wf_LB_alt s call_result_def deref_def result_of_def)
  moreover have "traverse (call_result lb True) (downList lb) = Inr (map (result_of lb) (downList lb))"
    using w by (intro traverse_Inr_map) (auto simp: wf_LB_alt s call_result_def deref_def result_of_def)
  ultimately show ?thesis using assms by (simp add: LB_report2Rpter_def)
qed


section \<open>Properties\<close>

text \<open>A table with the example module, and a day in the life of an agent.\<close>

definition ex_rl :: "nat \<Rightarrow> nat \<Rightarrow> RouteLB" where
  "ex_rl n d = put_lb (mkkey 1 2) (ex_lb n d) (new_RouteLB 1)"

lemma ex_rl_lookup: "map_of (routeMap (ex_rl n d)) (mkkey 1 2) = Some (ex_lb n d)"
  by (simp add: ex_rl_def)

lemma ex_rl_wf: "wf_RouteLB ex_cfg (ex_rl 2 1)" "wf_RouteLB ex_cfg (ex_rl 2 0)"
  using ex_lb_wf by (auto simp: ex_rl_def put_lb_def new_RouteLB_def wf_RouteLB_def mod_ok_def
      ex_lb_def new_LB_def)

definition ex_events :: "event list" where
  "ex_events =
    [EvGetHost 100 1 2, EvUpdate 101 1 2 [ex_addr 0, ex_addr 1], EvGetHost 102 1 2,
     EvReport 103 \<lparr> rq_modid = 1, rq_cmdid = 2, rq_host = ex_addr 0, rq_retcode = 1, rq_tcost = Some 700 \<rparr>,
     EvCacheGetRoute 104 1 2 (- 1), EvGetRoute 120 1 2, EvGetHost 121 1 2]"





text \<open>
  C21. The reset of pulls on a reconnection breaks the agent: after the first request for a
  module, a reconnection to the dnsserver before its route arrives makes the next request
  for the same module fail the assertion that the pull is under way, so the process
  aborts.
\<close>

theorem reconnect_before_route_aborts:
  "run (rl_step cfg MyIp) [EvGetHost t1 m c, EvClear, EvGetHost t2 m c] (new_RouteLB i) = Inl AssertFail
 \<and> run (rl_step cfg MyIp) [EvCacheGetRoute t1 m c v, EvClear, EvCacheGetRoute t2 m c v] (new_RouteLB i)
     = Inl AssertFail"
  by (simp add: RouteLB_getHost_def RouteLB_cacheGetRoute_def cacheGetRoute_locked_def first_pull_eq
      fill_hosts_def new_RouteLB_def put_lb_def RouteLB_clearPulling_def clear_lb_def new_LB_def
      LB_empty_def)

text \<open>
  C19. At most one pull of a module is under way: between two answers of the dnsserver and
  without a reconnection, the handlers together ask for the route of a module at most
  once, and not at all while it is being pulled.
\<close>

theorem one_pull_at_a_time:
  assumes "config_ok cfg" and "wf_RouteLB cfg rl" and "list_all pull_kept es"
    and "run (rl_step cfg MyIp) es rl = Inr (rl', outs)"
  shows "pulls_of k (concat (map snd outs)) \<le> 1
     \<and> (\<forall>lb. map_of (routeMap rl) k = Some lb \<longrightarrow> status lb = ISPULLING
          \<longrightarrow> pulls_of k (concat (map snd outs)) = 0)"
proof -
  have "may_pull k rl \<le> 1" by (simp add: may_pull_def split: option.splits)
  then show ?thesis
    using run_pulls [OF assms(4,3,1,2), of k] by (auto simp: may_pull_Some)
qed

theorem one_pull_at_a_time_witness:
  "\<exists>rl' outs. run (rl_step ex_cfg 0) [EvGetRoute 200 1 2, EvGetRoute 201 1 2] (ex_rl 2 1) = Inr (rl', outs)
     \<and> pulls_of (mkkey 1 2) (concat (map snd outs)) \<le> 1"
proof -
  have "\<exists>rl' outs. run (rl_step ex_cfg 0) [EvGetRoute 200 1 2, EvGetRoute 201 1 2] (ex_rl 2 1)
     = Inr (rl', outs)"
  proof -
    let ?rl = "put_lb (mkkey 1 2) (fst (repull ex_cfg 200 (ex_lb 2 1))) (ex_rl 2 1)"
    have "wf_LB ex_cfg (fst (repull ex_cfg 200 (ex_lb 2 1)))"
      using repull_frame [of ex_cfg 200 "ex_lb 2 1"] ex_lb_wf(1)
      by (cases "repull ex_cfg 200 (ex_lb 2 1)") auto
    from getRoute_spec [OF this, of ?rl 1 2 201] getRoute_spec [OF ex_lb_wf(1) ex_rl_lookup, of 200]
    show ?thesis by simp
  qed
  then obtain rl' outs where
    r: "run (rl_step ex_cfg 0) [EvGetRoute 200 1 2, EvGetRoute 201 1 2] (ex_rl 2 1) = Inr (rl', outs)"
    by blast
  from one_pull_at_a_time [OF ex_cfg_ok ex_rl_wf(1) _ r] r show ?thesis
    by (auto simp: pull_kept_def)
qed

text \<open>
  A new route takes effect completely: after \<open>update\<close> with a non-empty route, \<open>getRoute\<close>
  lists exactly the hosts of that route, each once, whatever the module held before.
\<close>

theorem getRoute_after_update:
  assumes "config_ok cfg" and "wf_RouteLB cfg rl"
    and "map_of (routeMap rl) (mkkey m c) = Some lb" and "hosts \<noteq> []"
    and "RouteLB_update cfg now m c hosts rl = Inr rl1"
  shows "\<exists>rl2 as out. RouteLB_getRoute cfg now' m c rl1 = Inr (rl2, as, out)
     \<and> set as = set hosts \<and> distinct as"
proof -
  have w: "wf_LB cfg lb" using wf_RouteLB_lookup [OF assms(2,3)] by (simp add: mod_ok_def)
  from LB_update_spec [OF w assms(1,4), of now] obtain lb1 where lb1:
    "LB_update cfg now hosts lb = Inr lb1" "wf_LB cfg lb1" "keys_of (hostMap lb1) = route_keys hosts"
    by metis
  with assms(3-5) have "rl1 = put_lb (mkkey m c) lb1 rl" by (simp add: RouteLB_update_def)
  then have "map_of (routeMap rl1) (mkkey m c) = Some lb1" by simp
  from getRoute_spec [OF lb1(2) this, of now'] show ?thesis
    using route_of_update [OF lb1(2,3)] route_of_spec(2) [OF lb1(2)] by auto
qed

theorem getRoute_after_update_witness:
  "\<exists>rl1 rl2 as out. RouteLB_update ex_cfg 105 1 2 [ex_addr 1, ex_addr 3, ex_addr 1] (ex_rl 2 1) = Inr rl1
     \<and> RouteLB_getRoute ex_cfg 106 1 2 rl1 = Inr (rl2, as, out)
     \<and> set as = {ex_addr 1, ex_addr 3} \<and> distinct as"
proof -
  obtain rl1 where "RouteLB_update ex_cfg 105 1 2 [ex_addr 1, ex_addr 3, ex_addr 1] (ex_rl 2 1) = Inr rl1"
    by (rule LB_update_spec [OF ex_lb_wf(1) ex_cfg_ok, of "[ex_addr 1, ex_addr 3, ex_addr 1]" 105])
       (simp_all add: RouteLB_update_def ex_rl_lookup)
  with getRoute_after_update [OF ex_cfg_ok ex_rl_wf(1) ex_rl_lookup _ this, of 106] show ?thesis
    by auto
qed


text \<open>
  C17. A new route keeps what is known of the nodes that stay: \<open>LB::update\<close> with a non-empty
  route never faults and keeps the invariant; the table then holds exactly the hosts of
  the route; a node that was there keeps its statistics and its side and the order of its
  list, a new one starts idle at the end of the running list; and the version changes to
  the current second exactly when the set of hosts changed.
\<close>

theorem update_keeps_statistics:
  assumes "config_ok cfg" and "wf_LB cfg lb" and "hosts \<noteq> []"
  shows "\<exists>lb' new. LB_update cfg now hosts lb = Inr lb' \<and> wf_LB cfg lb'
     \<and> keys_of (hostMap lb') = addr_key ` set hosts
     \<and> list_all (\<lambda>a. map_of (hostMap lb') (addr_key a) =
          Some (case map_of (hostMap lb) (addr_key a) of
                  None \<Rightarrow> new_HI now (ha_ip a) (ha_port a) (word_of_int (initSuccCnt cfg))
                | Some h \<Rightarrow> h)) hosts
     \<and> runningList lb' = filter (\<lambda>k. k \<in> addr_key ` set hosts) (runningList lb) @ new
     \<and> set new = addr_key ` set hosts - keys_of (hostMap lb)
     \<and> downList lb' = filter (\<lambda>k. k \<in> addr_key ` set hosts) (downList lb)
     \<and> version lb' = (if keys_of (hostMap lb) = addr_key ` set hosts then version lb else Some now)
     \<and> status lb' = ISNEW \<and> effectData lb' = now"
proof -
  from LB_update_spec [OF assms(2,1,3), of now] obtain lb' new where
    "LB_update cfg now hosts lb = Inr lb'" "wf_LB cfg lb'" "keys_of (hostMap lb') = route_keys hosts"
    "\<And>a. a \<in> set hosts \<Longrightarrow> map_of (hostMap lb') (addr_key a) =
       Some (case map_of (hostMap lb) (addr_key a) of None \<Rightarrow> fresh_HI cfg now a | Some h \<Rightarrow> h)"
    "version lb' = (if keys_of (hostMap lb) = route_keys hosts then version lb else Some now)"
    "effectData lb' = now" "status lb' = ISNEW"
    "runningList lb' = filter (\<lambda>k. k \<in> route_keys hosts) (runningList lb) @ new"
    "set new = route_keys hosts - keys_of (hostMap lb)"
    "downList lb' = filter (\<lambda>k. k \<in> route_keys hosts) (downList lb)"
    by metis
  then show ?thesis unfolding route_keys_def fresh_HI_def list_all_iff
    by (intro exI [of _ lb'] exI [of _ new] conjI ballI) assumption+
qed

theorem update_keeps_statistics_witness:
  "\<exists>lb'. LB_update ex_cfg 105 [ex_addr 1, ex_addr 2, ex_addr 5] (ex_lb 2 1) = Inr lb'
     \<and> version lb' = Some 105 \<and> downList lb' = [addr_key (ex_addr 2)]
     \<and> map_of (hostMap lb') (addr_key (ex_addr 1)) = map_of (hostMap (ex_lb 2 1)) (addr_key (ex_addr 1))"
proof -
  have k: "keys_of (hostMap (ex_lb 2 1)) = {addr_key (ex_addr 0), addr_key (ex_addr 1), addr_key (ex_addr 2)}"
    "map_of (hostMap (ex_lb 2 1)) (addr_key (ex_addr 1)) = Some (fresh_HI ex_cfg 100 (ex_addr 1))"
    "downList (ex_lb 2 1) = [addr_key (ex_addr 2)]"
    by (auto simp: ex_lb_def upt_rec keys_of_def fresh_HI_def new_HI_def ex_addr_def)
  have "ex_addr 5 \<noteq> ex_addr 0" "ex_addr 5 \<noteq> ex_addr 1" "ex_addr 5 \<noteq> ex_addr 2"
    by (simp_all add: ex_addr_def)
  then have "addr_key (ex_addr 5) \<notin> keys_of (hostMap (ex_lb 2 1))"
    by (simp only: k(1)) simp
  then have "keys_of (hostMap (ex_lb 2 1)) \<noteq> addr_key ` set [ex_addr 1, ex_addr 2, ex_addr 5]"
    by auto
  with update_keeps_statistics [OF ex_cfg_ok ex_lb_wf(1), of "[ex_addr 1, ex_addr 2, ex_addr 5]" 105]
  show ?thesis by (auto simp: k(2,3) simp del: One_nat_def)
qed

text \<open>
  C18. What a caching client is told: with a route in the table, \<open>cacheGetRoute\<close> answers the
  module's version and whether any node is overloaded, lists every node when the
  client's version differs and none when it is the same, and asks for the route again
  exactly when it is not being pulled and older than \<open>updateTimo\<close>.
\<close>

theorem cacheGetRoute_protocol:
  assumes "wf_RouteLB cfg rl" and "map_of (routeMap rl) (mkkey m c) = Some lb" and "\<not> LB_empty lb"
  shows "\<exists>rl' v. version lb = Some v \<and> RouteLB_cacheGetRoute cfg now m c ver rl =
     Inr (rl',
          \<lparr> cgr_modid = m, cgr_cmdid = c, cgr_version = v, cgr_overload = Some (downList lb \<noteq> []),
            cgr_route = (if v = ver then [] else map (\<lambda>(k, h). host_addr h) (hostMap lb)) \<rparr>,
          (if status lb = ISNEW \<and> updateTimo cfg < now - effectData lb
           then [Pull \<lparr> grq_modid = m, grq_cmdid = c \<rparr>] else []))"
proof -
  have i: "wf_LB cfg lb" "lb_modid lb = m" "lb_cmdid lb = c"
    using wf_RouteLB_lookup [OF assms(1,2)] by (simp_all add: mod_ok_def)
  then obtain v where "version lb = Some v"
    using assms(3) by (auto simp: wf_LB_alt LB_empty_def)
  with cacheGetRoute_spec [OF i(1) assms(2,3) this, of now ver] show ?thesis
    by (simp add: repull_out i(2,3) route_of_def)
qed

theorem cacheGetRoute_protocol_witness:
  "\<exists>rl'. RouteLB_cacheGetRoute ex_cfg 101 1 2 (- 1) (ex_rl 2 1) =
     Inr (rl', \<lparr> cgr_modid = 1, cgr_cmdid = 2, cgr_version = 100, cgr_overload = Some True,
                 cgr_route = [ex_addr 0, ex_addr 1, ex_addr 2] \<rparr>,
          [Pull \<lparr> grq_modid = 1, grq_cmdid = 2 \<rparr>])"
proof -
  have "\<not> LB_empty (ex_lb 2 1)" "version (ex_lb 2 1) = Some 100" "downList (ex_lb 2 1) \<noteq> []"
    "status (ex_lb 2 1) = ISNEW" "effectData (ex_lb 2 1) = 0"
    "map (\<lambda>(k, h). host_addr h) (hostMap (ex_lb 2 1)) = [ex_addr 0, ex_addr 1, ex_addr 2]"
    by (simp_all add: ex_lb_def LB_empty_def upt_rec new_LB_def host_addr_def fresh_HI_def new_HI_def ex_addr_def)
  with cacheGetRoute_protocol [OF ex_rl_wf(1) ex_rl_lookup, of 101 "- 1"] show ?thesis by simp
qed

text \<open>
  C23. A version is a second, so two different routes that arrive within one second share it:
  a client that fetched the first of them, with its version, is told by \<open>cacheGetRoute\<close>
  after the second that nothing has changed, and gets no hosts.
\<close>

theorem routes_of_one_second_share_version:
  assumes "config_ok cfg" and "wf_RouteLB cfg rl" and "map_of (routeMap rl) (mkkey m c) = Some lb"
    and "hosts1 \<noteq> []" and "hosts2 \<noteq> []" and "keys_of (hostMap lb) \<noteq> addr_key ` set hosts1"
    and "RouteLB_update cfg now m c hosts1 rl = Inr rl1"
    and "RouteLB_update cfg now m c hosts2 rl1 = Inr rl2"
  shows "(\<exists>rl1' rsp1 out1. RouteLB_cacheGetRoute cfg t m c ver rl1 = Inr (rl1', rsp1, out1)
            \<and> cgr_version rsp1 = now)
       \<and> (\<exists>rl2' rsp2 out2. RouteLB_cacheGetRoute cfg t' m c now rl2 = Inr (rl2', rsp2, out2)
            \<and> cgr_version rsp2 = now \<and> cgr_route rsp2 = [])"
proof -
  have w: "wf_LB cfg lb" using wf_RouteLB_lookup [OF assms(2,3)] by (simp add: mod_ok_def)
  from LB_update_spec [OF w assms(1,4), of now] obtain lb1 where lb1:
    "LB_update cfg now hosts1 lb = Inr lb1" "wf_LB cfg lb1" "keys_of (hostMap lb1) = route_keys hosts1"
    "version lb1 = (if keys_of (hostMap lb) = route_keys hosts1 then version lb else Some now)"
    by metis
  from LB_update_spec [OF lb1(2) assms(1,5), of now] obtain lb2 where lb2:
    "LB_update cfg now hosts2 lb1 = Inr lb2" "wf_LB cfg lb2" "keys_of (hostMap lb2) = route_keys hosts2"
    "version lb2 = (if keys_of (hostMap lb1) = route_keys hosts2 then version lb1 else Some now)"
    by metis
  have v: "version lb1 = Some now" "version lb2 = Some now"
    using lb1(4) lb2(4) assms(6) by (auto simp: route_keys_def)
  have ne: "\<not> LB_empty lb1" "\<not> LB_empty lb2"
    using lb1(3) lb2(3) assms(4,5) by (auto simp: LB_empty_keys route_keys_def)
  have rl1: "rl1 = put_lb (mkkey m c) lb1 rl" using assms(3,4,7) lb1(1) by (simp add: RouteLB_update_def Let_def)
  then have rl2: "rl2 = put_lb (mkkey m c) lb2 rl1" using assms(5,8) lb2(1) by (simp add: RouteLB_update_def Let_def)
  show ?thesis
    using cacheGetRoute_spec [OF lb1(2) _ ne(1) v(1), of rl1 m c t ver]
      cacheGetRoute_spec [OF lb2(2) _ ne(2) v(2), of rl2 m c t' now] by (simp add: rl1 rl2)
qed

theorem routes_of_one_second_share_version_witness:
  "\<exists>rl1 rl2 rl2' rsp2 out2. RouteLB_update ex_cfg 105 1 2 [ex_addr 1] (ex_rl 2 1) = Inr rl1
     \<and> RouteLB_update ex_cfg 105 1 2 [ex_addr 4] rl1 = Inr rl2
     \<and> RouteLB_cacheGetRoute ex_cfg 106 1 2 105 rl2 = Inr (rl2', rsp2, out2)
     \<and> cgr_version rsp2 = 105 \<and> cgr_route rsp2 = []"
proof -
  obtain lb1 where lb1: "LB_update ex_cfg 105 [ex_addr 1] (ex_lb 2 1) = Inr lb1" "wf_LB ex_cfg lb1"
    by (rule LB_update_spec [OF ex_lb_wf(1) ex_cfg_ok, of "[ex_addr 1]" 105]) simp
  obtain lb2 where lb2: "LB_update ex_cfg 105 [ex_addr 4] lb1 = Inr lb2"
    by (rule LB_update_spec [OF lb1(2) ex_cfg_ok, of "[ex_addr 4]" 105]) simp
  have u: "RouteLB_update ex_cfg 105 1 2 [ex_addr 1] (ex_rl 2 1) = Inr (put_lb (mkkey 1 2) lb1 (ex_rl 2 1))"
    "RouteLB_update ex_cfg 105 1 2 [ex_addr 4] (put_lb (mkkey 1 2) lb1 (ex_rl 2 1))
       = Inr (put_lb (mkkey 1 2) lb2 (put_lb (mkkey 1 2) lb1 (ex_rl 2 1)))"
    using lb1(1) lb2 by (simp_all add: RouteLB_update_def ex_rl_lookup Let_def)
  have "addr_key (ex_addr 0) \<in> keys_of (hostMap (ex_lb 2 1))"
    by (simp add: ex_lb_def upt_rec keys_of_def)
  moreover have "ex_addr 0 \<noteq> ex_addr 1" by (simp add: ex_addr_def)
  ultimately have "keys_of (hostMap (ex_lb 2 1)) \<noteq> addr_key ` set [ex_addr 1]" by auto
  from routes_of_one_second_share_version [OF ex_cfg_ok ex_rl_wf(1) ex_rl_lookup _ _ this u, of 106 0 106]
  show ?thesis using u by auto
qed

text \<open>
  C20. A report that is due lists every node once: the idle ones in the order of the running
  list, then the overloaded ones in the order of the down list, each with its counters
  and its side; the module is not changed but for the time of the report, and nothing
  is sent again before \<open>reportTimo\<close> seconds have passed.
\<close>

theorem report_lists_every_node:
  assumes "wf_LB cfg lb" and "\<not> LB_empty lb" and "reportTimo cfg \<le> now - lstRptTime lb"
  shows "LB_report2Rpter cfg MyIp now lb =
     Inr (lb\<lparr>lstRptTime := now\<rparr>,
       Some \<lparr> rsr_modid = lb_modid lb, rsr_cmdid = lb_cmdid lb, rsr_caller = MyIp,
              rsr_results = map (result_of lb) (runningList lb @ downList lb), rsr_ts = word_of_int now \<rparr>)
   \<and> distinct (runningList lb @ downList lb) \<and> set (runningList lb @ downList lb) = keys_of (hostMap lb)
   \<and> (now' < now + reportTimo cfg \<longrightarrow>
        LB_report2Rpter cfg MyIp now' (lb\<lparr>lstRptTime := now\<rparr>) = Inr (lb\<lparr>lstRptTime := now\<rparr>, None))"
  using report2Rpter_due [OF assms] assms(1) wf_lists_keys [of cfg "hostMap lb" "runningList lb" "downList lb"]
    wf_lists_disjoint [of cfg "hostMap lb" "runningList lb" "downList lb"] wf_listsD(2,3)
  by (auto simp: wf_LB_alt LB_report2Rpter_def LB_empty_def)

theorem report_lists_every_node_witness:
  "\<exists>m. LB_report2Rpter ex_cfg 7 120 (ex_lb 2 1) = Inr ((ex_lb 2 1)\<lparr>lstRptTime := 120\<rparr>, Some m)
     \<and> length (rsr_results m) = 3 \<and> rsr_ts m = 120"
proof -
  have "\<not> LB_empty (ex_lb 2 1)" "reportTimo ex_cfg \<le> 120 - lstRptTime (ex_lb 2 1)"
    "length (runningList (ex_lb 2 1) @ downList (ex_lb 2 1)) = 3"
    by (simp_all add: ex_lb_def LB_empty_def upt_rec new_LB_def)
  with report_lists_every_node [OF ex_lb_wf(1), of 120 7 0] show ?thesis by simp
qed

text \<open>
  The errors one failed call counts for: one per full 100 ms, at least 1 and at most 50,
  and exactly 1 when no cost is reported.
\<close>

theorem err_weight_clamped:
  "unat (err_weight (Some t)) = max 1 (min 50 (unat t div 100)) \<and> err_weight None = 1"
proof -
  have "unat (t div 100) = unat t div 100" by (simp add: unat_div_distrib)
  moreover have "t div 100 = 0 \<longleftrightarrow> unat (t div 100) = 0" "50 < t div 100 \<longleftrightarrow> 50 < unat (t div 100)"
    by (simp_all add: unat_eq_0 word_less_nat_alt)
  ultimately show ?thesis by (auto simp: err_weight_def Let_def)
qed

lemma node_after_update:
  assumes "config_ok cfg" and "wf_LB cfg lb" and "map_of (hostMap lb) k = Some h"
    and "map_of (routeMap rl) key = Some lb" and "key = mkkey m c"
    and "RouteLB_update cfg now m c hosts rl = Inr rl'"
  shows "(case map_of (routeMap rl') key of None \<Rightarrow> Inl DanglingPtr
        | Some lb' \<Rightarrow> rbind (deref lb' k) (\<lambda>h. Inr (host_addr h))) =
     (if k \<in> route_keys hosts then Inr (host_addr h) else Inl DanglingPtr)"
proof (cases "hosts = []")
  case True
  with assms have "map_of (routeMap rl') key = None"
    by (auto simp: RouteLB_update_def Let_def hm.find_erase)
  then show ?thesis by (simp add: True route_keys_def)
next
  case False
  from LB_update_spec [OF assms(2,1) False, of now] obtain lb' where lb':
    "LB_update cfg now hosts lb = Inr lb'" "keys_of (hostMap lb') = route_keys hosts"
    "\<And>a. a \<in> set hosts \<Longrightarrow> map_of (hostMap lb') (addr_key a) =
       Some (case map_of (hostMap lb) (addr_key a) of None \<Rightarrow> fresh_HI cfg now a | Some h \<Rightarrow> h)"
    by metis
  have rl': "map_of (routeMap rl') key = Some lb'"
    using assms(4,5,6) False lb'(1) by (auto simp: RouteLB_update_def Let_def)
  show ?thesis
  proof (cases "k \<in> route_keys hosts")
    case True
    then obtain a where "a \<in> set hosts" "k = addr_key a" by (auto simp: route_keys_def)
    with lb'(3) [OF this(1)] assms(3) True show ?thesis by (simp add: rl' deref_def)
  next
    case nk: False
    with lb'(2) have "map_of (hostMap lb') k = None" by (simp add: map_of_eq_None_keys)
    then show ?thesis by (simp add: rl' deref_def nk)
  qed
qed

text \<open>
  C22. \<open>getRoute\<close> follows node pointers after releasing the mutex. When the answer of the
  dnsserver is handled in between, the copy succeeds if every node stays in the new
  route; if one of them is gone (or the whole module is), a dangling pointer is followed.
\<close>

theorem getRoute_race:
  assumes "config_ok cfg" and "wf_RouteLB cfg rl" and "map_of (routeMap rl) (mkkey m c) = Some lb"
    and "getRoute_locked cfg now m c rl = (rl1, vec, out)"
    and "RouteLB_update cfg now' m c hosts rl1 = Inr rl2"
  shows "fill_hosts m c vec rl2 =
     (if set (route_of lb) \<subseteq> set hosts then Inr (route_of lb) else Inl DanglingPtr)"
proof -
  have w: "wf_LB cfg lb" using wf_RouteLB_lookup [OF assms(2,3)] by (simp add: mod_ok_def)
  obtain lb1 o1 where r: "repull cfg now lb = (lb1, o1)" by fastforce
  note f = repull_frame [OF r]
  have rl1: "rl1 = put_lb (mkkey m c) lb1 rl" and vec: "vec = LB_getRoute lb"
    using assms(3,4) r by (auto simp: getRoute_locked_def Let_def)
  have "(\<forall>k \<in> set vec. k \<in> route_keys hosts) \<longleftrightarrow> addr_key ` set (route_of lb) \<subseteq> addr_key ` set hosts"
    by (auto simp: vec route_of_spec(1) [OF w] route_keys_def)
  also have "\<dots> \<longleftrightarrow> set (route_of lb) \<subseteq> set hosts"
    by (rule inj_image_subset_iff) (simp add: inj_def)
  finally have sub: "(\<forall>k \<in> set vec. k \<in> route_keys hosts) \<longleftrightarrow> set (route_of lb) \<subseteq> set hosts" .
  have "fill_hosts m c vec rl2 =
     (if \<forall>k \<in> set vec. k \<in> route_keys hosts then Inr (map (addr_of lb) vec) else Inl DanglingPtr)"
    unfolding fill_hosts_def
  proof (rule traverse_if)
    fix k assume k: "k \<in> set vec"
    from k vec obtain h where h: "map_of (hostMap lb) k = Some h" by (auto elim: keys_ofE)
    have "map_of (hostMap lb1) k = Some h" "wf_LB cfg lb1" "map_of (routeMap rl1) (mkkey m c) = Some lb1"
      using w f h by (simp_all add: rl1)
    from node_after_update [OF assms(1) this(2,1,3) refl assms(5)] h
    show "(case map_of (routeMap rl2) (mkkey m c) of None \<Rightarrow> Inl DanglingPtr
        | Some lb \<Rightarrow> rbind (deref lb k) (\<lambda>h. Inr (host_addr h))) =
        (if k \<in> route_keys hosts then Inr (addr_of lb k) else Inl DanglingPtr)"
      by (simp add: addr_of_def)
  qed
  then show ?thesis by (simp only: sub) (simp add: vec route_of_keys [OF w])
qed

theorem getRoute_race_witness:
  "\<exists>rl1 vec out rl2. getRoute_locked ex_cfg 101 1 2 (ex_rl 2 1) = (rl1, vec, out)
     \<and> RouteLB_update ex_cfg 101 1 2 [ex_addr 1] rl1 = Inr rl2
     \<and> fill_hosts 1 2 vec rl2 = Inl DanglingPtr"
proof -
  obtain rl1 vec out where l: "getRoute_locked ex_cfg 101 1 2 (ex_rl 2 1) = (rl1, vec, out)"
    by (cases "getRoute_locked ex_cfg 101 1 2 (ex_rl 2 1)") auto
  obtain lb1 o1 where r: "repull ex_cfg 101 (ex_lb 2 1) = (lb1, o1)" by fastforce
  then have "rl1 = put_lb (mkkey 1 2) lb1 (ex_rl 2 1)" "wf_LB ex_cfg lb1"
    using l ex_lb_wf(1) repull_frame [OF r]
    by (auto simp: getRoute_locked_def Let_def ex_rl_lookup)
  moreover obtain lb2 where "LB_update ex_cfg 101 [ex_addr 1] lb1 = Inr lb2"
    by (rule LB_update_spec [OF \<open>wf_LB ex_cfg lb1\<close> ex_cfg_ok, of "[ex_addr 1]" 101]) simp
  ultimately have u: "RouteLB_update ex_cfg 101 1 2 [ex_addr 1] rl1 = Inr (put_lb (mkkey 1 2) lb2 rl1)"
    by (simp add: RouteLB_update_def Let_def)
  have "ex_addr 0 \<in> set (route_of (ex_lb 2 1))" "ex_addr 0 \<noteq> ex_addr 1"
    by (simp_all add: route_of_def ex_lb_def upt_rec host_addr_def fresh_HI_def new_HI_def ex_addr_def)
  with getRoute_race [OF ex_cfg_ok ex_rl_wf(1) ex_rl_lookup l u] l u show ?thesis by auto
qed

end
