(* ===== verification/LbAgent.thy ===== *)
theory LbAgent
  imports RouteSafety
begin

text \<open>
  The lbagent process: three UDP threads with a route table each, the client of the
  dnsserver, the client of the reporter and the heartbeat. Messages arrive decoded and are
  answered as records; the two queues between the threads (\<open>thread_queue\<close> of the reactor
  library) are lists, oldest first.
\<close>

section \<open>Which table serves a module\<close>

text \<open>\<open>%\<close> of C: the remainder has the sign of the dividend. The sum wraps as compiled.\<close>

definition c_rem :: "int \<Rightarrow> int \<Rightarrow> int" where
  "c_rem a b = (if a < 0 then - (- a mod b) else a mod b)"

definition shard :: "i32 \<Rightarrow> i32 \<Rightarrow> int" where
  "shard modid cmdid = c_rem (sint (modid + cmdid)) 3"

lemma shard_nonneg: "0 \<le> sint (m + c) \<Longrightarrow> 0 \<le> shard m c \<and> shard m c < 3"
  by (simp add: shard_def c_rem_def)

lemma shard_bad: "shard m c < 0 \<longleftrightarrow> sint (m + c) < 0 \<and> sint (m + c) mod 3 \<noteq> 0"
  by (auto simp: shard_def c_rem_def) presburger+

section \<open>State\<close>

record Agent =
  ag_routes :: "RouteLB list"
  ag_pullq :: "GetRouteReq list"
  ag_reptq :: "ReportStatusReq list"

definition new_Agent :: Agent where
  "new_Agent = \<lparr> ag_routes = [new_RouteLB 1, new_RouteLB 2, new_RouteLB 3], ag_pullq = [], ag_reptq = [] \<rparr>"

datatype agent_req =
    GetHost GetHostReq | Report ReportReq | GetRoute GetRouteReq
  | CacheGetRoute CacheGetRouteReq | BatchReport CacheBatchRptReq

datatype agent_rsp = HostRsp GetHostRsp | RouteRsp GetRouteRsp | CacheRsp CacheGetRouteRsp

section \<open>Callbacks of the UDP threads\<close>

definition getHost_cb ::
  "LbConfigure \<Rightarrow> clong \<Rightarrow> GetHostReq \<Rightarrow> RouteLB \<Rightarrow> (RouteLB \<times> agent_rsp option \<times> qmsg list) res" where
  "getHost_cb cfg now req rl =
    rbind (RouteLB_getHost cfg now (ghq_modid req) (ghq_cmdid req) rl) (\<lambda>(rl', (ret, host), out).
      Inr (rl', Some (HostRsp \<lparr> ghr_seq = ghq_seq req, ghr_modid = ghq_modid req,
                                ghr_cmdid = ghq_cmdid req, ghr_retcode = ret, ghr_host = host \<rparr>), out))"

definition reportStatus_cb ::
  "LbConfigure \<Rightarrow> u32 \<Rightarrow> clong \<Rightarrow> ReportReq \<Rightarrow> RouteLB \<Rightarrow> (RouteLB \<times> agent_rsp option \<times> qmsg list) res" where
  "reportStatus_cb cfg MyIp now req rl =
    rbind (RouteLB_report cfg MyIp now req rl) (\<lambda>(rl', out). Inr (rl', None, out))"

definition getRouteByTool_cb ::
  "LbConfigure \<Rightarrow> clong \<Rightarrow> GetRouteReq \<Rightarrow> RouteLB \<Rightarrow> (RouteLB \<times> agent_rsp option \<times> qmsg list) res" where
  "getRouteByTool_cb cfg now req rl =
    rbind (RouteLB_getRoute cfg now (grq_modid req) (grq_cmdid req) rl) (\<lambda>(rl', hosts, out).
      Inr (rl', Some (RouteRsp \<lparr> grs_modid = grq_modid req, grs_cmdid = grq_cmdid req,
                                 grs_hosts = hosts \<rparr>), out))"

definition cacheGetRoute_cb ::
  "LbConfigure \<Rightarrow> clong \<Rightarrow> CacheGetRouteReq \<Rightarrow> RouteLB \<Rightarrow> (RouteLB \<times> agent_rsp option \<times> qmsg list) res" where
  "cacheGetRoute_cb cfg now req rl =
    rbind (RouteLB_cacheGetRoute cfg now (cgq_modid req) (cgq_cmdid req) (cgq_version req) rl)
      (\<lambda>(rl', rsp, out). Inr (rl', Some (CacheRsp rsp), out))"

definition batchReport_cb ::
  "LbConfigure \<Rightarrow> u32 \<Rightarrow> clong \<Rightarrow> CacheBatchRptReq \<Rightarrow> RouteLB \<Rightarrow>
   (RouteLB \<times> agent_rsp option \<times> qmsg list) res" where
  "batchReport_cb cfg MyIp now req rl =
    rbind (RouteLB_batchReport cfg MyIp now req rl) (\<lambda>(rl', out). Inr (rl', None, out))"

text \<open>The callbacks installed by \<open>initUDPServerIns\<close>, by message identifier.\<close>

fun agent_handle ::
  "LbConfigure \<Rightarrow> u32 \<Rightarrow> clong \<Rightarrow> agent_req \<Rightarrow> RouteLB \<Rightarrow> (RouteLB \<times> agent_rsp option \<times> qmsg list) res" where
  "agent_handle cfg MyIp now (GetHost req) rl = getHost_cb cfg now req rl"
| "agent_handle cfg MyIp now (Report req) rl = reportStatus_cb cfg MyIp now req rl"
| "agent_handle cfg MyIp now (GetRoute req) rl = getRouteByTool_cb cfg now req rl"
| "agent_handle cfg MyIp now (CacheGetRoute req) rl = cacheGetRoute_cb cfg now req rl"
| "agent_handle cfg MyIp now (BatchReport req) rl = batchReport_cb cfg MyIp now req rl"

section \<open>The threads together\<close>

definition nth_table :: "int \<Rightarrow> Agent \<Rightarrow> RouteLB res" where
  "nth_table i ag = (if 0 \<le> i \<and> i < 3 then Inr (ag_routes ag ! nat i) else Inl BadIndex)"

definition set_table :: "int \<Rightarrow> RouteLB \<Rightarrow> Agent \<Rightarrow> Agent" where
  "set_table i rl ag = ag\<lparr>ag_routes := (ag_routes ag)[nat i := rl]\<rparr>"

definition pulls_in :: "qmsg list \<Rightarrow> GetRouteReq list" where
  "pulls_in out = concat (map (\<lambda>m. case m of Pull r \<Rightarrow> [r] | Rept _ \<Rightarrow> []) out)"

definition repts_in :: "qmsg list \<Rightarrow> ReportStatusReq list" where
  "repts_in out = concat (map (\<lambda>m. case m of Rept r \<Rightarrow> [r] | Pull _ \<Rightarrow> []) out)"

text \<open>A datagram on port 8888 + i.\<close>

definition agent_udp ::
  "LbConfigure \<Rightarrow> u32 \<Rightarrow> clong \<Rightarrow> int \<Rightarrow> agent_req \<Rightarrow> Agent \<Rightarrow> (Agent \<times> agent_rsp option) res" where
  "agent_udp cfg MyIp now i req ag =
    rbind (nth_table i ag) (\<lambda>rl.
    rbind (agent_handle cfg MyIp now req rl) (\<lambda>(rl', rsp, out).
      Inr ((set_table i rl' ag)\<lparr> ag_pullq := ag_pullq ag @ pulls_in out,
                                 ag_reptq := ag_reptq ag @ repts_in out \<rparr>, rsp)))"

text \<open>The client of the dnsserver.\<close>

definition recvRoute :: "LbConfigure \<Rightarrow> clong \<Rightarrow> GetRouteRsp \<Rightarrow> Agent \<Rightarrow> Agent res" where
  "recvRoute cfg now rsp ag =
    (let index = shard (grs_modid rsp) (grs_cmdid rsp) in
     rbind (nth_table index ag) (\<lambda>rl.
     rbind (RouteLB_update cfg now (grs_modid rsp) (grs_cmdid rsp) (grs_hosts rsp) rl) (\<lambda>rl'.
       Inr (set_table index rl' ag))))"

definition newPullReq :: "Agent \<Rightarrow> Agent \<times> GetRouteReq list" where
  "newPullReq ag = (ag\<lparr>ag_pullq := []\<rparr>, ag_pullq ag)"

definition whenConnected :: "Agent \<Rightarrow> Agent" where
  "whenConnected ag = ag\<lparr>ag_routes := map RouteLB_clearPulling (ag_routes ag)\<rparr>"

text \<open>The client of the reporter.\<close>

definition newReportReq :: "Agent \<Rightarrow> Agent \<times> ReportStatusReq list" where
  "newReportReq ag = (ag\<lparr>ag_reptq := []\<rparr>, ag_reptq ag)"

section \<open>Heartbeat\<close>

text \<open>\<open>time(NULL) - *_hb > 2\<close>: the subtraction is that of \<open>uint64_t\<close>.\<close>

definition hb_record :: "clong \<Rightarrow> u64" where
  "hb_record now = word_of_int now"

definition hb_die :: "clong \<Rightarrow> u64 \<Rightarrow> bool" where
  "hb_die now hb \<longleftrightarrow> 2 < (word_of_int now :: u64) - hb"

lemma hb_die_iff:
  assumes "0 \<le> now" "now < 2 ^ 63" "0 \<le> t" "t < 2 ^ 63"
  shows "hb_die now (hb_record t) \<longleftrightarrow> now < t \<or> t + 2 < now"
proof -
  have "uint ((word_of_int now :: u64) - word_of_int t) = uint (word_of_int (now - t) :: u64)"
    by (simp only: of_int_diff)
  also have "\<dots> = (now - t) mod 2 ^ 64" by (simp only: uint_word_of_int) simp
  finally have "uint ((word_of_int now :: u64) - word_of_int t) = (now - t) mod 2 ^ 64" .
  moreover have "(now - t) mod 2 ^ 64 = (if now < t then now - t + 2 ^ 64 else now - t)"
  proof (cases "now < t")
    case True
    have "(now - t) mod 2 ^ 64 = (now - t + 2 ^ 64) mod 2 ^ 64" by (rule mod_add_self2 [symmetric])
    also have "\<dots> = now - t + 2 ^ 64" by (rule mod_pos_pos_trivial) (use True assms in simp_all)
    finally show ?thesis using True by simp
  qed (use assms in \<open>simp add: mod_pos_pos_trivial\<close>)
  ultimately show ?thesis using assms
    by (auto simp: hb_die_def hb_record_def word_less_def)
qed


section \<open>The process as one machine\<close>

datatype agent_event =
    Udp int clong agent_req
  | DssRoute clong GetRouteRsp
  | DssConnected
  | DrainPulls
  | DrainReports

datatype agent_out = Answer agent_rsp | ToDns "GetRouteReq list" | ToReporter "ReportStatusReq list" | Quiet

fun agent_step :: "LbConfigure \<Rightarrow> u32 \<Rightarrow> agent_event \<Rightarrow> Agent \<Rightarrow> (Agent \<times> agent_out) res" where
  "agent_step cfg MyIp (Udp i now req) ag =
     rbind (agent_udp cfg MyIp now i req ag) (\<lambda>(ag', rsp).
       Inr (ag', case rsp of None \<Rightarrow> Quiet | Some r \<Rightarrow> Answer r))"
| "agent_step cfg MyIp (DssRoute now rsp) ag = rbind (recvRoute cfg now rsp ag) (\<lambda>ag'. Inr (ag', Quiet))"
| "agent_step cfg MyIp DssConnected ag = Inr (whenConnected ag, Quiet)"
| "agent_step cfg MyIp DrainPulls ag = (let (ag', ms) = newPullReq ag in Inr (ag', ToDns ms))"
| "agent_step cfg MyIp DrainReports ag = (let (ag', ms) = newReportReq ag in Inr (ag', ToReporter ms))"

definition agent_ok :: "LbConfigure \<Rightarrow> Agent \<Rightarrow> bool" where
  "agent_ok cfg ag \<longleftrightarrow> config_ok cfg \<and> length (ag_routes ag) = 3 \<and> list_all (wf_RouteLB cfg) (ag_routes ag)"

text \<open>Each callback is a step of the table's machine.\<close>

fun event_of :: "clong \<Rightarrow> agent_req \<Rightarrow> event" where
  "event_of now (GetHost req) = EvGetHost now (ghq_modid req) (ghq_cmdid req)"
| "event_of now (Report req) = EvReport now req"
| "event_of now (GetRoute req) = EvGetRoute now (grq_modid req) (grq_cmdid req)"
| "event_of now (CacheGetRoute req) = EvCacheGetRoute now (cgq_modid req) (cgq_cmdid req) (cgq_version req)"
| "event_of now (BatchReport req) = EvBatch now req"

lemma handle_is_step:
  "agent_handle cfg MyIp now req rl = Inl e \<longleftrightarrow> rl_step cfg MyIp (event_of now req) rl = Inl e"
  "agent_handle cfg MyIp now req rl = Inr (rl', rsp, out) \<Longrightarrow>
   \<exists>rep. rl_step cfg MyIp (event_of now req) rl = Inr (rl', rep, out)"
  by (cases req; auto simp: getHost_cb_def reportStatus_cb_def getRouteByTool_cb_def
      cacheGetRoute_cb_def batchReport_cb_def rbind_eq_Inl split: prod.splits)+

lemma handle_safe:
  assumes "config_ok cfg" "wf_RouteLB cfg rl"
  shows "ends (\<lambda>f. f = AssertFail \<or> f = BadCast) (\<lambda>(rl', rsp, out). wf_RouteLB cfg rl')
     (agent_handle cfg MyIp now req rl)"
proof (cases "agent_handle cfg MyIp now req rl")
  case (Inl e)
  then have "rl_step cfg MyIp (event_of now req) rl = Inl e" by (simp add: handle_is_step(1))
  with rlm.step_fault [where cfg = cfg and MyIp = MyIp and s = rl and e = "event_of now req" and f = e] assms Inl show ?thesis by simp
next
  case (Inr r)
  then obtain rl' rsp out where r: "r = (rl', rsp, out)" by (cases r) auto
  with Inr handle_is_step(2) obtain rep where
    "rl_step cfg MyIp (event_of now req) rl = Inr (rl', rep, out)" by blast
  with rlm.step_inv [where cfg = cfg and MyIp = MyIp and s = rl and e = "event_of now req" and s' = rl'] assms Inr r
  show ?thesis by simp
qed

lemma agent_ok_nth: "agent_ok cfg ag \<Longrightarrow> nth_table i ag = Inr rl \<Longrightarrow> config_ok cfg \<and> wf_RouteLB cfg rl"
  by (auto simp: agent_ok_def nth_table_def list_all_length split: if_splits)

lemma agent_ok_set:
  assumes "agent_ok cfg ag" "wf_RouteLB cfg rl" "nth_table i ag = Inr rl0"
  shows "agent_ok cfg (set_table i rl ag)"
  using assms
  by (auto simp: agent_ok_def set_table_def list_all_iff dest!: subsetD [OF set_update_subset_insert])

lemma agent_ok_queues [simp]:
  "agent_ok cfg (ag\<lparr>ag_pullq := p\<rparr>) = agent_ok cfg ag" "agent_ok cfg (ag\<lparr>ag_reptq := r\<rparr>) = agent_ok cfg ag"
  by (simp_all add: agent_ok_def)

lemma udp_safe:
  assumes "agent_ok cfg ag"
  shows "ends (\<lambda>f. f = AssertFail \<or> f = BadCast \<or> f = BadIndex) (\<lambda>(ag', r). agent_ok cfg ag')
     (agent_udp cfg MyIp now i req ag)"
proof (cases "nth_table i ag")
  case (Inl e)
  then have "e = BadIndex" by (auto simp: nth_table_def split: if_splits)
  with Inl show ?thesis by (simp add: agent_udp_def)
next
  case (Inr rl)
  note s = handle_safe [where MyIp = MyIp and now = now and req = req and cfg = cfg and rl = rl]
  have "ends (\<lambda>f. f = AssertFail \<or> f = BadCast \<or> f = BadIndex)
     (\<lambda>(rl', rsp, out). agent_ok cfg (set_table i rl' ag)) (agent_handle cfg MyIp now req rl)"
    by (rule ends_mono [OF s]) (use assms agent_ok_nth [OF assms Inr] agent_ok_set [OF assms _ Inr] in auto)
  with Inr show ?thesis by (auto simp: agent_udp_def intro!: ends_rbind)
qed

lemma recvRoute_safe:
  assumes "agent_ok cfg ag"
  shows "ends (\<lambda>f. f = BadIndex) (agent_ok cfg) (recvRoute cfg now rsp ag)"
proof (cases "nth_table (shard (grs_modid rsp) (grs_cmdid rsp)) ag")
  case (Inl e)
  then have "e = BadIndex" by (auto simp: nth_table_def split: if_splits)
  with Inl show ?thesis by (simp add: recvRoute_def)
next
  case (Inr rl)
  from agent_ok_nth [OF assms Inr] have w: "config_ok cfg" "wf_RouteLB cfg rl" by auto
  then have "ends (\<lambda>_. False) (\<lambda>rl'. wf_RouteLB cfg rl')
      (RouteLB_update cfg now (grs_modid rsp) (grs_cmdid rsp) (grs_hosts rsp) rl)"
    using mi.update_keeps [of cfg rl now "grs_modid rsp" "grs_cmdid rsp" "grs_hosts rsp"]
    by (simp add: wf_RouteLB_ident [OF w(1)])
  with Inr show ?thesis
    by (auto simp: recvRoute_def intro!: ends_rbindI agent_ok_set [OF assms _ Inr])
qed

interpretation ag: safe_machine "agent_step cfg MyIp" "agent_ok cfg" "\<lambda>_. True"
  "\<lambda>f. f = AssertFail \<or> f = BadCast \<or> f = BadIndex"
proof unfold_locales
  fix e ag ag' out assume a: "agent_ok cfg ag" "agent_step cfg MyIp e ag = Inr (ag', out)"
  show "agent_ok cfg ag'"
  proof (cases e)
    case (Udp i now req)
    with a udp_safe [OF a(1), of MyIp now i req] show ?thesis by auto
  next
    case (DssRoute now rsp)
    with a recvRoute_safe [OF a(1), of now rsp] show ?thesis by auto
  next
    case DssConnected
    with a show ?thesis
      by (auto simp: agent_ok_def whenConnected_def list_all_iff wf_RouteLB_all
          intro!: all_mods_clear mod_ok_clear)
  qed (use a in \<open>auto simp: newPullReq_def newReportReq_def\<close>)
next
  fix e ag f assume a: "agent_ok cfg ag" "agent_step cfg MyIp e ag = Inl f"
  show "f = AssertFail \<or> f = BadCast \<or> f = BadIndex"
  proof (cases e)
    case (Udp i now req)
    with a udp_safe [OF a(1), of MyIp now i req] show ?thesis by (auto simp: rbind_eq_Inl split: prod.splits)
  next
    case (DssRoute now rsp)
    with a recvRoute_safe [OF a(1), of now rsp] show ?thesis by (auto simp: rbind_eq_Inl)
  qed (use a in \<open>auto simp: newPullReq_def newReportReq_def\<close>)
qed


section \<open>From the first request to the first host\<close>

lemma getHost_after_first_route:
  assumes "config_ok cfg" "hosts \<noteq> []"
    and lb: "map_of (routeMap rl) (mkkey m c) = Some ((new_LB m c)\<lparr>status := ISPULLING\<rparr>)"
  shows "\<exists>rl1 rl2 a out. RouteLB_update cfg t1 m c hosts rl = Inr rl1
     \<and> RouteLB_getHost cfg t2 m c rl1 = Inr (rl2, (SUCCESS, Some a), out) \<and> a \<in> set hosts"
proof -
  let ?lb = "(new_LB m c)\<lparr>status := ISPULLING\<rparr>"
  have w: "wf_LB cfg ?lb" using assms(1) by (simp add: wf_LB_def new_LB_def config_ok_def)
  from LB_update_spec [OF w assms(1,2), of t1] obtain lb1 new where u:
    "LB_update cfg t1 hosts ?lb = Inr lb1" "wf_LB cfg lb1" "keys_of (hostMap lb1) = route_keys hosts"
    "\<And>a. a \<in> set hosts \<Longrightarrow> map_of (hostMap lb1) (addr_key a) =
       Some (case map_of (hostMap ?lb) (addr_key a) of None \<Rightarrow> fresh_HI cfg t1 a | Some h \<Rightarrow> h)"
    "runningList lb1 = filter (\<lambda>k. k \<in> route_keys hosts) (runningList ?lb) @ new"
    "set new = route_keys hosts - keys_of (hostMap ?lb)"
    "downList lb1 = filter (\<lambda>k. k \<in> route_keys hosts) (downList ?lb)"
    by metis
  have r: "runningList lb1 = new" "set new = route_keys hosts" "downList lb1 = []"
    using u(5,6,7) by (simp_all add: new_LB_def keys_of_def)
  then obtain k ks where k: "runningList lb1 = k # ks" "k \<in> route_keys hosts"
    using assms(2) by (cases new) (auto simp: route_keys_def)
  then obtain a where a: "a \<in> set hosts" "k = addr_key a" by (auto simp: route_keys_def)
  then have "addr_of lb1 k = a"
    using u(4) [OF a(1)] by (simp add: addr_of_def new_LB_def fresh_HI_def host_addr_def)
  with LB_getHost_idle [OF u(2) k(1)] r(3) obtain lb2 where
    g: "LB_getHost cfg lb1 = Inr (SUCCESS, Some a, lb2)" by auto
  have "\<not> LB_empty lb1" using u(3) assms(2) by (auto simp: LB_empty_keys route_keys_def)
  with u(1) g a(1) lb assms(2) show ?thesis
    by (simp add: RouteLB_update_def RouteLB_getHost_def Let_def split_beta)
qed

section \<open>Properties\<close>


definition ex_agent_events :: "agent_event list" where
  "ex_agent_events =
    [Udp 0 100 (GetHost \<lparr> ghq_seq = 0, ghq_modid = 1, ghq_cmdid = 2 \<rparr>), DrainPulls,
     DssRoute 101 \<lparr> grs_modid = 1, grs_cmdid = 2, grs_hosts = [ex_addr 0, ex_addr 1] \<rparr>,
     Udp 0 102 (GetHost \<lparr> ghq_seq = 1, ghq_modid = 1, ghq_cmdid = 2 \<rparr>), DssConnected, DrainReports]"




text \<open>
  The shard of a module whose identifiers have a negative sum, not a multiple of three,
  is negative: when the dnsserver's answer for it arrives, the client thread indexes the
  array of tables out of bounds.
\<close>

theorem negative_module_out_of_bounds:
  assumes "sint (m + c) < 0" and "sint (m + c) mod 3 \<noteq> 0"
  shows "agent_step cfg MyIp (DssRoute now \<lparr> grs_modid = m, grs_cmdid = c, grs_hosts = hosts \<rparr>) ag
    = Inl BadIndex"
  using assms shard_bad [of m c] by (simp add: recvRoute_def nth_table_def Let_def)

theorem negative_module_out_of_bounds_witness:
  "agent_step ex_cfg 7 (DssRoute 100 \<lparr> grs_modid = - 5, grs_cmdid = 1, grs_hosts = [] \<rparr>) new_Agent = Inl BadIndex"
proof -
  have "sint (- 5 + 1 :: i32) = - 4" by simp
  then show ?thesis by (intro negative_module_out_of_bounds) simp_all
qed

text \<open>
  The liveness test of the API: with the last heartbeat at \<open>t\<close>, the agent counts as dead
  when more than two seconds have passed, but also whenever the heartbeat is ahead of the
  reader's clock, since the difference is unsigned.
\<close>

theorem heartbeat_dead_iff:
  assumes "0 \<le> now" and "now < 2 ^ 63" and "0 \<le> t" and "t < 2 ^ 63"
  shows "hb_die now (hb_record t) \<longleftrightarrow> now < t \<or> t + 2 < now"
  using hb_die_iff [OF assms] .

theorem heartbeat_dead_iff_witness:
  "hb_die 1700000000 (hb_record 1700000001) \<and> \<not> hb_die 1700000002 (hb_record 1700000000)"
  using heartbeat_dead_iff [of 1700000000 1700000001] heartbeat_dead_iff [of 1700000002 1700000000]
  by simp

end
