(* ===== verification/CText.thy ===== *)
theory CText
  imports ElbPrelude
begin

text \<open>
  Integers as text: what \<open>printf("%d")\<close> writes and what \<open>scanf("%d")\<close>, \<open>atoi\<close> and \<open>atol\<close>
  read (the C standard library on a platform with 64-bit \<open>long\<close>, where \<open>atoi\<close> truncates
  the result of \<open>strtol\<close>). The lemmas show that what was printed is read back.
\<close>

section \<open>Printing integers\<close>

definition digit :: "nat \<Rightarrow> char" where
  "digit n = char_of (48 + n)"

fun dec_nat :: "nat \<Rightarrow> string" where
  "dec_nat n = (if n < 10 then [digit n] else dec_nat (n div 10) @ [digit (n mod 10)])"

declare dec_nat.simps [simp del]

definition dec_int :: "int \<Rightarrow> string" where
  "dec_int i = (if i < 0 then CHR ''-'' # dec_nat (nat (- i)) else dec_nat (nat i))"

section \<open>Reading integers\<close>

definition is_space :: "char \<Rightarrow> bool" where
  "is_space c \<longleftrightarrow> of_char c = (32 :: nat) \<or> (9 \<le> (of_char c :: nat) \<and> (of_char c :: nat) \<le> 13)"

definition is_digit :: "char \<Rightarrow> bool" where
  "is_digit c \<longleftrightarrow> 48 \<le> (of_char c :: nat) \<and> (of_char c :: nat) \<le> 57"

definition digit_val :: "char \<Rightarrow> nat" where
  "digit_val c = of_char c - 48"

text \<open>The digits at the front, as a number on top of \<open>acc\<close>, and the rest.\<close>

fun read_digits :: "nat \<Rightarrow> string \<Rightarrow> nat \<times> string" where
  "read_digits acc [] = (acc, [])"
| "read_digits acc (c # cs) =
     (if is_digit c then read_digits (acc * 10 + digit_val c) cs else (acc, c # cs))"

text \<open>White space, a sign and at least one digit; \<open>None\<close> when they are not there.\<close>

definition read_int :: "string \<Rightarrow> (int \<times> string) option" where
  "read_int s =
    (let t = dropWhile is_space s;
         neg = (case t of c # _ \<Rightarrow> c = CHR ''-'' | [] \<Rightarrow> False);
         u = (case t of c # r \<Rightarrow> if c = CHR ''-'' \<or> c = CHR ''+'' then r else t | [] \<Rightarrow> [])
     in case u of
          [] \<Rightarrow> None
        | c # _ \<Rightarrow>
            (if is_digit c
             then (let (n, rest) = read_digits 0 u in Some (if neg then - int n else int n, rest))
             else None))"

text \<open>\<open>strtol\<close> with the clamping of a 64-bit \<open>long\<close>; \<open>atoi\<close> keeps its low 32 bits.\<close>

definition atol :: "string \<Rightarrow> clong" where
  "atol s = (case read_int s of None \<Rightarrow> 0 | Some (n, _) \<Rightarrow> max (- (2 ^ 63)) (min (2 ^ 63 - 1) n))"

definition atoi :: "string \<Rightarrow> i32" where
  "atoi s = word_of_int (atol s)"

section \<open>Reading what was printed\<close>

lemma digit_props [simp]:
  assumes "n < 10"
  shows "is_digit (digit n)" "digit_val (digit n) = n" "\<not> is_space (digit n)"
    "digit n \<noteq> CHR ''-''" "digit n \<noteq> CHR ''+''"
proof -
  have o: "of_char (digit n) = 48 + n" using assms by (simp add: digit_def of_char_of)
  then show "is_digit (digit n)" "digit_val (digit n) = n" "\<not> is_space (digit n)"
    using assms by (auto simp: is_digit_def digit_val_def is_space_def)
  show "digit n \<noteq> CHR ''-''" "digit n \<noteq> CHR ''+''" using o by auto
qed

definition ends_number :: "string \<Rightarrow> bool" where
  "ends_number r = (case r of [] \<Rightarrow> True | c # _ \<Rightarrow> \<not> is_digit c)"

lemma read_dec_nat:
  "read_digits acc (dec_nat n @ r) = read_digits (acc * 10 ^ length (dec_nat n) + n) r"
proof (induction n arbitrary: acc r rule: dec_nat.induct)
  case (1 n)
  show ?case
  proof (cases "n < 10")
    case True
    then show ?thesis by (simp add: dec_nat.simps [of n])
  next
    case False
    then have "read_digits acc (dec_nat n @ r) =
        read_digits (acc * 10 ^ length (dec_nat (n div 10)) + n div 10) (digit (n mod 10) # r)"
      using "1.IH" [of acc "digit (n mod 10) # r"] by (simp add: dec_nat.simps [of n])
    also have "\<dots> = read_digits ((acc * 10 ^ length (dec_nat (n div 10)) + n div 10) * 10 + n mod 10) r"
      by simp
    also have "(acc * 10 ^ length (dec_nat (n div 10)) + n div 10) * 10 + n mod 10
        = acc * 10 ^ length (dec_nat n) + n"
      using False by (simp add: dec_nat.simps [of n] algebra_simps)
    finally show ?thesis .
  qed
qed

lemma dec_nat_head: "\<exists>d ds. dec_nat n = digit d # ds \<and> d < 10"
proof (induction n rule: dec_nat.induct)
  case (1 n)
  then show ?case by (cases "n < 10") (auto simp: dec_nat.simps [of n])
qed

lemma read_digits_stop: "ends_number r \<Longrightarrow> read_digits acc r = (acc, r)"
  by (cases r) (auto simp: ends_number_def)

lemma read_int_dec:
  assumes "list_all is_space sp" "ends_number r"
  shows "read_int (sp @ dec_int i @ r) = Some (i, r)"
proof -
  obtain d ds where h: "dec_nat (nat \<bar>i\<bar>) = digit d # ds" "d < 10" using dec_nat_head by blast
  have n: "read_digits 0 (digit d # ds @ r) = (nat \<bar>i\<bar>, r)"
    using read_dec_nat [of 0 "nat \<bar>i\<bar>" r] h(1) read_digits_stop [OF assms(2)] by simp
  have "dropWhile is_space (sp @ t) = dropWhile is_space t" for t
    using assms(1) by (induction sp) auto
  moreover have "\<not> is_space (CHR ''-'')" by (simp add: is_space_def)
  ultimately show ?thesis
    using h n by (cases "i < 0") (simp_all add: read_int_def dec_int_def)
qed

lemma atoi_dec:
  assumes "- (2 ^ 63) \<le> i" "i < 2 ^ 63"
  shows "atoi (dec_int i) = word_of_int i"
  using read_int_dec [of "[]" "[]" i] assms by (simp add: atoi_def atol_def ends_number_def)

end
