(* ===== verification/DnsRoute.thy ===== *)
theory DnsRoute
  imports CText
begin

text \<open>
  The routing data of the dnsserver (\<open>class Route\<close> and its loader thread). MySQL is not
  part of the sources: what a query answers is an argument (\<open>None\<close> when
  \<open>mysql_real_query\<close> or \<open>mysql_store_result\<close> fails, otherwise the rows, fields as text),
  the text of every statement sent is an output. \<open>unfreed\<close> counts the result sets that
  were stored and not freed.
\<close>

section \<open>State\<close>

record Route =
  routeVersion :: clong
  rt_data :: "(u64 \<times> u64 list) list"
  rt_tmp :: "(u64 \<times> u64 list) list"
  unfreed :: nat

record route_row =
  rr_id :: string
  rr_modid :: string
  rr_cmdid :: string
  rr_ip :: string
  rr_port :: string

text \<open>\<open>(*m)[key].insert(value)\<close> for a row of \<open>DnsServerRoute\<close>.\<close>

definition row_key :: "route_row \<Rightarrow> u64" where
  "row_key r = mkkey (atoi (rr_modid r)) (atoi (rr_cmdid r))"

definition row_value :: "route_row \<Rightarrow> u64" where
  "row_value r = mkukey (atoi (rr_ip r)) (atoi (rr_port r))"

definition insert_row :: "route_row \<Rightarrow> (u64 \<times> u64 list) list \<Rightarrow> (u64 \<times> u64 list) list" where
  "insert_row r m =
    (let hs = (case map_of m (row_key r) of None \<Rightarrow> [] | Some hs \<Rightarrow> hs)
     in AList.update (row_key r) (List.insert (row_value r) hs) m)"

section \<open>Operations\<close>

definition Route_getHosts :: "i32 \<Rightarrow> i32 \<Rightarrow> Route \<Rightarrow> u64 list" where
  "Route_getHosts modid cmdid rt =
    (case map_of (rt_data rt) (mkkey modid cmdid) of None \<Rightarrow> [] | Some hs \<Rightarrow> hs)"

text \<open>\<open>reload\<close>: the second result is its return value.\<close>

definition Route_reload :: "route_row list option \<Rightarrow> Route \<Rightarrow> Route \<times> int" where
  "Route_reload ans rt =
    (let rt0 = rt\<lparr>rt_tmp := []\<rparr> in
     case ans of
       None \<Rightarrow> (rt0, - 1)
     | Some rows \<Rightarrow> (rt0\<lparr>rt_tmp := fold insert_row rows []\<rparr>, 0))"

definition Route_swap :: "Route \<Rightarrow> Route" where
  "Route_swap rt = rt\<lparr>rt_data := rt_tmp rt, rt_tmp := rt_data rt\<rparr>"

text \<open>\<open>loadVersion\<close>: the answer is the first column of every row of the table of versions.\<close>

definition Route_loadVersion :: "string list option \<Rightarrow> Route \<Rightarrow> Route \<times> int" where
  "Route_loadVersion ans rt =
    (case ans of
       None \<Rightarrow> (rt, - 1)
     | Some [] \<Rightarrow> (rt\<lparr>unfreed := unfreed rt + 1\<rparr>, - 1)
     | Some (v # _) \<Rightarrow>
         (let newVersion = atol v in
          if newVersion = routeVersion rt then (rt\<lparr>unfreed := unfreed rt + 1\<rparr>, 0)
          else (rt\<lparr>routeVersion := newVersion\<rparr>, 1)))"

definition Route_loadChanges :: "(string \<times> string) list option \<Rightarrow> Route \<Rightarrow> Route \<times> u64 list" where
  "Route_loadChanges ans rt =
    (case ans of
       None \<Rightarrow> (rt, [])
     | Some [] \<Rightarrow> (rt\<lparr>unfreed := unfreed rt + 1\<rparr>, [])
     | Some rows \<Rightarrow> (rt, map (\<lambda>(m, c). mkkey (atoi m) (atoi c)) rows))"

text \<open>The statements.\<close>

definition sql_routes :: string where
  "sql_routes = ''SELECT * FROM DnsServerRoute;''"

definition sql_version :: string where
  "sql_version = ''SELECT version from RouteVersion WHERE id = 1;''"

definition sql_changes :: "Route \<Rightarrow> string" where
  "sql_changes rt =
    ''SELECT modid,cmdid FROM ChangeLog WHERE version <= '' @ dec_int (routeVersion rt) @ '';''"

definition sql_rmChanges :: "bool \<Rightarrow> Route \<Rightarrow> string" where
  "sql_rmChanges recent rt =
    (if recent then ''DELETE FROM ChangeLog WHERE version <= '' @ dec_int (routeVersion rt) @ '';''
     else ''DELETE FROM ChangeLog;'')"

text \<open>The constructor: \<open>None\<close> when it exits.\<close>

definition new_Route :: "string list option \<Rightarrow> route_row list option \<Rightarrow> Route option" where
  "new_Route vers ans =
    (let (rt, ret) = Route_loadVersion vers
           \<lparr> routeVersion = 0, rt_data = [], rt_tmp = [], unfreed = 0 \<rparr>
     in if ret = - 1 then None
        else (case ans of
                None \<Rightarrow> None
              | Some rows \<Rightarrow> Some (rt\<lparr>rt_data := fold insert_row rows []\<rparr>)))"

section \<open>What the table holds\<close>

definition row_in :: "u64 \<Rightarrow> u64 \<Rightarrow> route_row list \<Rightarrow> bool" where
  "row_in k v rows \<longleftrightarrow> list_ex (\<lambda>r. row_key r = k \<and> row_value r = v) rows"

definition hosts_at :: "(u64 \<times> u64 list) list \<Rightarrow> u64 \<Rightarrow> u64 list" where
  "hosts_at m k = (case map_of m k of None \<Rightarrow> [] | Some hs \<Rightarrow> hs)"

lemma hosts_at_Nil [simp]: "hosts_at [] k = []"
  by (simp add: hosts_at_def)

lemma insert_row_at:
  "hosts_at (insert_row r m) k =
     (if k = row_key r then List.insert (row_value r) (hosts_at m k) else hosts_at m k)"
  by (simp add: hosts_at_def insert_row_def Let_def hm.find_put)

lemma fold_insert_row:
  "set (hosts_at (fold insert_row rows m) k) = set (hosts_at m k) \<union> {v. row_in k v rows}"
  by (induction rows arbitrary: m) (auto simp: insert_row_at row_in_def)

lemma insert_row_distinct: "distinct (hosts_at m k) \<Longrightarrow> distinct (hosts_at (insert_row r m) k)"
  by (auto simp: insert_row_at)

lemma fold_insert_row_distinct:
  "distinct (hosts_at m k) \<Longrightarrow> distinct (hosts_at (fold insert_row rows m) k)"
  by (induction rows arbitrary: m) (simp_all add: insert_row_distinct)

lemma table_of_rows:
  "set (hosts_at (fold insert_row rows []) k) = {v. row_in k v rows}"
  "distinct (hosts_at (fold insert_row rows []) k)"
  by (simp_all add: fold_insert_row fold_insert_row_distinct)

lemma getHosts_at: "Route_getHosts m c rt = hosts_at (rt_data rt) (mkkey m c)"
  by (simp add: Route_getHosts_def hosts_at_def)

end
