(* ===== verification/DnsSubscribe.thy ===== *)
theory DnsSubscribe
  imports ElbPrelude
begin

text \<open>
  The subscription list of the dnsserver (\<open>class SubscribeList\<close>): which connections want
  to hear of which modules, and what is waiting to be pushed to each connection. A
  connection is its descriptor. Each operation is one step under its mutexes. The lemmas
  show that the two nested tables implement two relations.
\<close>

section \<open>State\<close>

type_synonym cfd = int

record SubscribeList =
  bookl :: "(u64 \<times> cfd list) list"
  pushl :: "(cfd \<times> u64 list) list"

definition new_SubscribeList :: SubscribeList where
  "new_SubscribeList = \<lparr> bookl = [], pushl = [] \<rparr>"

text \<open>\<open>m[k]\<close> of a table of sets, and \<open>m[k].insert(x)\<close>; a set is a list of distinct elements.\<close>

definition entry :: "('k \<times> 'v list) list \<Rightarrow> 'k \<Rightarrow> 'v list" where
  "entry m k = (case map_of m k of None \<Rightarrow> [] | Some xs \<Rightarrow> xs)"

definition insert_at :: "'k \<Rightarrow> 'v \<Rightarrow> ('k \<times> 'v list) list \<Rightarrow> ('k \<times> 'v list) list" where
  "insert_at k x m = AList.update k (List.insert x (entry m k)) m"

section \<open>Operations\<close>

definition sl_subscribe :: "u64 \<Rightarrow> cfd \<Rightarrow> SubscribeList \<Rightarrow> SubscribeList" where
  "sl_subscribe m fd sl = sl\<lparr>bookl := insert_at m fd (bookl sl)\<rparr>"

definition sl_unsubscribe :: "u64 \<Rightarrow> cfd \<Rightarrow> SubscribeList \<Rightarrow> SubscribeList" where
  "sl_unsubscribe m fd sl =
    (case map_of (bookl sl) m of
       None \<Rightarrow> sl
     | Some fds \<Rightarrow>
        (let fds' = removeAll fd fds in
         if fds' = [] then sl\<lparr>bookl := AList.delete m (bookl sl)\<rparr>
         else sl\<lparr>bookl := AList.update m fds' (bookl sl)\<rparr>))"

definition sl_push :: "u64 list \<Rightarrow> SubscribeList \<Rightarrow> SubscribeList" where
  "sl_push changes sl =
    sl\<lparr>pushl := fold (\<lambda>m. case map_of (bookl sl) m of
                          None \<Rightarrow> (\<lambda>pl. pl)
                        | Some fds \<Rightarrow> fold (\<lambda>fd. insert_at fd m) fds) changes (pushl sl)\<rparr>"

definition sl_fetchPush :: "cfd list \<Rightarrow> SubscribeList \<Rightarrow> SubscribeList \<times> (cfd \<times> u64 list) list" where
  "sl_fetchPush subscribers sl =
    (sl\<lparr>pushl := filter (\<lambda>(fd, ms). fd \<notin> set subscribers) (pushl sl)\<rparr>,
     filter (\<lambda>(fd, ms). fd \<in> set subscribers) (pushl sl))"

section \<open>The relations it stands for\<close>

definition related :: "('k \<times> 'v list) list \<Rightarrow> ('k \<times> 'v) set" where
  "related m = {(k, x). x \<in> set (entry m k)}"

definition booked :: "SubscribeList \<Rightarrow> (u64 \<times> cfd) set" where
  "booked sl = related (bookl sl)"

definition waiting :: "SubscribeList \<Rightarrow> (cfd \<times> u64) set" where
  "waiting sl = related (pushl sl)"

definition sl_ok :: "SubscribeList \<Rightarrow> bool" where
  "sl_ok sl \<longleftrightarrow> distinct (map fst (bookl sl)) \<and> distinct (map fst (pushl sl))"

lemma related_iff: "(k, x) \<in> related m \<longleftrightarrow> x \<in> set (entry m k)"
  by (simp add: related_def)

lemma entry_update: "entry (AList.update k xs m) k' = (if k' = k then xs else entry m k')"
  by (simp add: entry_def hm.find_put)

lemma entry_delete: "entry (AList.delete k m) k' = (if k' = k then [] else entry m k')"
  by (simp add: entry_def hm.find_erase)

lemma related_insert_at: "related (insert_at k x m) = insert (k, x) (related m)"
  by (auto simp: related_iff insert_at_def entry_update split: if_splits)

lemma insert_at_ok: "distinct (map fst m) \<Longrightarrow> distinct (map fst (insert_at k x m))"
  by (simp add: insert_at_def hm.ok_put)

lemma booked_subscribe: "booked (sl_subscribe m fd sl) = insert (m, fd) (booked sl)"
  by (simp add: booked_def sl_subscribe_def related_insert_at)

lemma booked_unsubscribe: "booked (sl_unsubscribe m fd sl) = booked sl - {(m, fd)}"
proof (cases "map_of (bookl sl) m")
  case None
  then show ?thesis by (auto simp: booked_def sl_unsubscribe_def related_iff entry_def)
next
  case (Some fds)
  have r: "removeAll fd fds = [] \<longleftrightarrow> set fds \<subseteq> {fd}"
    by (auto simp flip: set_empty)
  have "entry (bookl sl) m = fds" using Some by (simp add: entry_def)
  with Some r show ?thesis
    by (auto simp: booked_def sl_unsubscribe_def Let_def related_iff entry_update entry_delete
        split: if_splits)
qed

lemma fold_insert_at:
  "related (fold (\<lambda>fd. insert_at fd m) fds pl) = related pl \<union> (\<lambda>fd. (fd, m)) ` set fds"
  by (induction fds arbitrary: pl) (auto simp: related_insert_at)

lemma fold_insert_at_ok:
  "distinct (map fst pl) \<Longrightarrow> distinct (map fst (fold (\<lambda>fd. insert_at fd m) fds pl))"
  by (induction fds arbitrary: pl) (simp_all add: insert_at_ok)

lemma waiting_push:
  "waiting (sl_push changes sl) = waiting sl \<union> {(fd, m). m \<in> set changes \<and> (m, fd) \<in> booked sl}"
proof -
  let ?f = "\<lambda>m. case map_of (bookl sl) m of None \<Rightarrow> (\<lambda>pl. pl) | Some fds \<Rightarrow> fold (\<lambda>fd. insert_at fd m) fds"
  have one: "related (?f m pl) = related pl \<union> {(fd, m') |fd m'. m' = m \<and> (m, fd) \<in> booked sl}" for m pl
    by (auto simp: fold_insert_at booked_def related_iff entry_def split: option.splits)
  have "related (fold ?f changes pl) = related pl \<union> {(fd, m). m \<in> set changes \<and> (m, fd) \<in> booked sl}" for pl
    by (induction changes arbitrary: pl) (auto simp: one)
  then show ?thesis by (simp add: waiting_def sl_push_def)
qed

lemma fetchPush_spec:
  assumes "sl_fetchPush fds sl = (sl', news)" "sl_ok sl"
  shows "waiting sl' = {(fd, m) \<in> waiting sl. fd \<notin> set fds}"
    and "related news = {(fd, m) \<in> waiting sl. fd \<in> set fds}"
    and "booked sl' = booked sl" "sl_ok sl'" "distinct (map fst news)"
proof -
  have m: "map_of (filter (\<lambda>(k, v). P k) xs) k = (if P k then map_of xs k else None)" for P k
    and xs :: "(cfd \<times> u64 list) list"
    by (induction xs) auto
  have d: "distinct (map fst xs) \<Longrightarrow> distinct (map fst (filter P xs))" for P
    and xs :: "(cfd \<times> u64 list) list"
    by (induction xs) auto
  show "waiting sl' = {(fd, m) \<in> waiting sl. fd \<notin> set fds}"
    and "related news = {(fd, m) \<in> waiting sl. fd \<in> set fds}"
    using assms(1) by (auto simp: sl_fetchPush_def waiting_def related_iff entry_def m split: if_splits)
  show "booked sl' = booked sl" "sl_ok sl'" "distinct (map fst news)"
    using assms by (auto simp: sl_fetchPush_def booked_def sl_ok_def d)
qed

lemma sl_ok_ops:
  "sl_ok new_SubscribeList" "sl_ok sl \<Longrightarrow> sl_ok (sl_subscribe m fd sl)"
  "sl_ok sl \<Longrightarrow> sl_ok (sl_unsubscribe m fd sl)" "sl_ok sl \<Longrightarrow> sl_ok (sl_push cs sl)"
proof -
  show "sl_ok new_SubscribeList" by (simp add: sl_ok_def new_SubscribeList_def)
  show "sl_ok sl \<Longrightarrow> sl_ok (sl_subscribe m fd sl)"
    by (simp add: sl_ok_def sl_subscribe_def insert_at_ok)
  show "sl_ok sl \<Longrightarrow> sl_ok (sl_unsubscribe m fd sl)"
    by (auto simp: sl_ok_def sl_unsubscribe_def Let_def hm.ok_put hm.ok_erase split: option.splits)
  have "distinct (map fst pl) \<Longrightarrow> distinct (map fst (fold (\<lambda>m. case map_of b m of None \<Rightarrow> (\<lambda>pl. pl)
      | Some fds \<Rightarrow> fold (\<lambda>fd. insert_at fd m) fds) cs pl))" for pl and b :: "(u64 \<times> cfd list) list"
    by (induction cs arbitrary: pl) (auto simp: fold_insert_at_ok split: option.splits)
  then show "sl_ok sl \<Longrightarrow> sl_ok (sl_push cs sl)" by (simp add: sl_ok_def sl_push_def)
qed

lemma waiting_frame [simp]:
  "waiting (sl_subscribe m fd sl) = waiting sl" "waiting (sl_unsubscribe m fd sl) = waiting sl"
  "booked (sl_push cs sl) = booked sl" "booked new_SubscribeList = {}" "waiting new_SubscribeList = {}"
  by (auto simp: waiting_def booked_def sl_subscribe_def sl_unsubscribe_def sl_push_def Let_def
      new_SubscribeList_def related_def entry_def split: option.splits)


section \<open>The contract with the server\<close>

text \<open>
  What the handlers and the loader rely on: two relations, who has booked what and what
  waits for whom, with the effect of the four operations on them.
\<close>

locale subscriptions =
  fixes sub :: "'m \<Rightarrow> 'c \<Rightarrow> 's \<Rightarrow> 's" and unsub :: "'m \<Rightarrow> 'c \<Rightarrow> 's \<Rightarrow> 's"
    and pushc :: "'m list \<Rightarrow> 's \<Rightarrow> 's" and fetch :: "'c list \<Rightarrow> 's \<Rightarrow> 's \<times> ('c \<times> 'm list) list"
    and bk :: "'s \<Rightarrow> ('m \<times> 'c) set" and wt :: "'s \<Rightarrow> ('c \<times> 'm) set" and ok :: "'s \<Rightarrow> bool"
  assumes bk_sub: "bk (sub m c s) = insert (m, c) (bk s)"
    and bk_unsub: "bk (unsub m c s) = bk s - {(m, c)}"
    and bk_pushc: "bk (pushc ms s) = bk s"
    and wt_sub: "wt (sub m c s) = wt s"
    and wt_unsub: "wt (unsub m c s) = wt s"
    and wt_pushc: "wt (pushc ms s) = wt s \<union> {(c, m). m \<in> set ms \<and> (m, c) \<in> bk s}"
    and fetch_wt: "ok s \<Longrightarrow> fetch cs s = (s', news) \<Longrightarrow> wt s' = {(c, m) \<in> wt s. c \<notin> set cs}"
    and fetch_news: "ok s \<Longrightarrow> fetch cs s = (s', news) \<Longrightarrow> related news = {(c, m) \<in> wt s. c \<in> set cs}"
    and fetch_bk: "ok s \<Longrightarrow> fetch cs s = (s', news) \<Longrightarrow> bk s' = bk s"
    and fetch_distinct: "ok s \<Longrightarrow> fetch cs s = (s', news) \<Longrightarrow> distinct (map fst news)"
    and ok_sub: "ok s \<Longrightarrow> ok (sub m c s)"
    and ok_unsub: "ok s \<Longrightarrow> ok (unsub m c s)"
    and ok_pushc: "ok s \<Longrightarrow> ok (pushc ms s)"
    and ok_fetch: "ok s \<Longrightarrow> fetch cs s = (s', news) \<Longrightarrow> ok s'"
begin

lemma unsub_all:
  "bk (fold (\<lambda>m. unsub m c) ms s) = bk s - {(m, c) |m. m \<in> set ms}"
  "wt (fold (\<lambda>m. unsub m c) ms s) = wt s"
  "ok s \<Longrightarrow> ok (fold (\<lambda>m. unsub m c) ms s)"
  by (induction ms arbitrary: s) (auto simp: bk_unsub wt_unsub ok_unsub)

text \<open>What is pushed is fetched, once, by whoever listens for the connection.\<close>

lemma push_fetch:
  assumes "ok s" "fetch cs (pushc ms s) = (s', news)" "m \<in> set ms" "(m, c) \<in> bk s" "c \<in> set cs"
  shows "m \<in> set (entry news c)" "(c, m) \<notin> wt s'"
proof -
  have ok: "ok (pushc ms s)" using assms(1) by (rule ok_pushc)
  have "(c, m) \<in> wt (pushc ms s)" using assms(3,4) by (simp add: wt_pushc)
  with fetch_news [OF ok assms(2)] assms(5) have "(c, m) \<in> related news" by simp
  then show "m \<in> set (entry news c)" by (simp add: related_iff)
  show "(c, m) \<notin> wt s'" using fetch_wt [OF ok assms(2)] assms(5) by simp
qed

text \<open>Nothing is fetched twice.\<close>

lemma fetch_again:
  assumes "ok s" "fetch cs s = (s', news)" "fetch cs s' = (s'', news')"
  shows "related news' = {}" "wt s'' = wt s'"
proof -
  have ok: "ok s'" using assms(1,2) by (rule ok_fetch)
  show "related news' = {}" "wt s'' = wt s'"
    using fetch_news [OF ok assms(3)] fetch_wt [OF ok assms(3)] fetch_wt [OF assms(1,2)] by auto
qed

end

interpretation sl: subscriptions sl_subscribe sl_unsubscribe sl_push sl_fetchPush booked waiting sl_ok
  by unfold_locales
     (auto simp: booked_subscribe booked_unsubscribe waiting_push sl_ok_ops fetchPush_spec)

end
