(* ===== verification/DnsServer.thy ===== *)
theory DnsServer
  imports DnsRoute DnsSubscribe ElbProto
begin

text \<open>
  The handlers of the dnsserver and its loader thread on one state: the subscription
  list, the routing data, and for every open connection the modules it has asked for
  (\<open>com->parameter\<close>). A request arrives decoded (\<open>None\<close> when \<open>ParseFromArray\<close> fails); what
  is sent is the output. The handler of a request and the loader are also given as the
  smaller steps that can interleave.
\<close>

section \<open>State and outputs\<close>

record DnsState =
  dn_sl :: SubscribeList
  dn_route :: Route
  dn_conns :: "(cfd \<times> u64 list) list"

datatype dns_out = Send cfd GetRouteRsp | Sql string | Notify

section \<open>Handlers\<close>

definition decode_host :: "u64 \<Rightarrow> HostAddr" where
  "decode_host key = \<lparr> ha_ip = key_hi key, ha_port = key_lo key \<rparr>"

definition dns_answer :: "i32 \<Rightarrow> i32 \<Rightarrow> Route \<Rightarrow> GetRouteRsp" where
  "dns_answer modid cmdid rt =
    \<lparr> grs_modid = modid, grs_cmdid = cmdid,
      grs_hosts = map decode_host (Route_getHosts modid cmdid rt) \<rparr>"

text \<open>The first half of \<open>getRoute\<close>: a module asked for the first time is subscribed.\<close>

definition book_module :: "cfd \<Rightarrow> GetRouteReq \<Rightarrow> DnsState \<Rightarrow> DnsState res" where
  "book_module fd req s =
    (let key = mkkey (grq_modid req) (grq_cmdid req) in
     case map_of (dn_conns s) fd of
       None \<Rightarrow> Inl DanglingPtr
     | Some book \<Rightarrow>
        (if key \<in> set book then Inr s
         else Inr (s\<lparr> dn_conns := AList.update fd (List.insert key book) (dn_conns s),
                      dn_sl := sl_subscribe key fd (dn_sl s) \<rparr>)))"

definition dns_getRoute :: "cfd \<Rightarrow> GetRouteReq option \<Rightarrow> DnsState \<Rightarrow> (DnsState \<times> dns_out list) res" where
  "dns_getRoute fd parsed s =
    (case parsed of
       None \<Rightarrow> Inr (s, [])
     | Some req \<Rightarrow>
         rbind (book_module fd req s) (\<lambda>s'.
           Inr (s', [Send fd (dns_answer (grq_modid req) (grq_cmdid req) (dn_route s'))])))"

definition dns_createSubscribe :: "cfd \<Rightarrow> DnsState \<Rightarrow> DnsState" where
  "dns_createSubscribe fd s = s\<lparr>dn_conns := AList.update fd [] (dn_conns s)\<rparr>"

definition dns_clearSubscribe :: "cfd \<Rightarrow> DnsState \<Rightarrow> DnsState res" where
  "dns_clearSubscribe fd s =
    (case map_of (dn_conns s) fd of
       None \<Rightarrow> Inl DanglingPtr
     | Some book \<Rightarrow>
         Inr (s\<lparr> dn_sl := fold (\<lambda>m. sl_unsubscribe m fd) (sort book) (dn_sl s),
                 dn_conns := AList.delete fd (dn_conns s) \<rparr>))"

definition dns_pushChange :: "cfd list \<Rightarrow> DnsState \<Rightarrow> DnsState \<times> dns_out list" where
  "dns_pushChange listening s =
    (let (sl', news) = sl_fetchPush listening (dn_sl s)
     in (s\<lparr>dn_sl := sl'\<rparr>,
         concat (map (\<lambda>(fd, ms). map (\<lambda>m. Send fd (dns_answer (key_hi m) (key_lo m) (dn_route s))) ms)
           news)))"

section \<open>The loader\<close>

text \<open>One turn of the loop of \<open>dataLoader\<close> (its state: the time of the last load).\<close>

definition dl_tick ::
  "int \<Rightarrow> clong \<Rightarrow> string list option \<Rightarrow> route_row list option \<Rightarrow> (string \<times> string) list option \<Rightarrow>
   clong \<times> DnsState \<Rightarrow> (clong \<times> DnsState) \<times> dns_out list"
where
  "dl_tick ws now vers rows chgs st =
    (let (lstLoadTs, s) = st;
         (rt1, ret) = Route_loadVersion vers (dn_route s)
     in if ret = 1 then
          (let (rt2, ok) = Route_reload rows rt1 in
           if ok = 0 then
             (let rt3 = Route_swap rt2;
                  (rt4, changes) = Route_loadChanges chgs rt3
              in ((now, s\<lparr>dn_route := rt4, dn_sl := sl_push changes (dn_sl s)\<rparr>),
                  [Sql sql_version, Sql sql_routes, Sql (sql_changes rt3), Notify,
                   Sql (sql_rmChanges True rt4)]))
           else ((lstLoadTs, s\<lparr>dn_route := rt2\<rparr>), [Sql sql_version, Sql sql_routes]))
        else if ws \<le> now - lstLoadTs then
          (let (rt2, ok) = Route_reload rows rt1 in
           if ok = 0 then ((now, s\<lparr>dn_route := Route_swap rt2\<rparr>), [Sql sql_version, Sql sql_routes])
           else ((lstLoadTs, s\<lparr>dn_route := rt2\<rparr>), [Sql sql_version, Sql sql_routes]))
        else ((lstLoadTs, s\<lparr>dn_route := rt1\<rparr>), [Sql sql_version]))"

text \<open>Before the loop: all recorded changes are removed.\<close>

definition dl_start :: "clong \<Rightarrow> DnsState \<Rightarrow> (clong \<times> DnsState) \<times> dns_out list" where
  "dl_start now s = ((now, s), [Sql (sql_rmChanges False (dn_route s))])"

section \<open>The server as one machine\<close>

datatype dns_event =
    Connect cfd
  | Close cfd
  | Request cfd "GetRouteReq option"
  | PushTask "cfd list"
  | Tick int clong "string list option" "route_row list option" "(string \<times> string) list option"

fun dns_step :: "dns_event \<Rightarrow> clong \<times> DnsState \<Rightarrow> ((clong \<times> DnsState) \<times> dns_out list) res" where
  "dns_step (Connect fd) (t, s) = Inr ((t, dns_createSubscribe fd s), [])"
| "dns_step (Close fd) (t, s) = rbind (dns_clearSubscribe fd s) (\<lambda>s'. Inr ((t, s'), []))"
| "dns_step (Request fd parsed) (t, s) =
     rbind (dns_getRoute fd parsed s) (\<lambda>(s', out). Inr ((t, s'), out))"
| "dns_step (PushTask fds) (t, s) = (let (s', out) = dns_pushChange fds s in Inr ((t, s'), out))"
| "dns_step (Tick ws now vers rows chgs) (t, s) = Inr (dl_tick ws now vers rows chgs (t, s))"

text \<open>A descriptor is handed out again only after its connection was closed.\<close>

definition fresh_connects :: "dns_event \<Rightarrow> DnsState \<Rightarrow> bool" where
  "fresh_connects e s = (case e of Connect fd \<Rightarrow> fd \<notin> keys_of (dn_conns s) | _ \<Rightarrow> True)"

text \<open>Who has booked what is exactly what the open connections have asked for.\<close>

definition interests :: "DnsState \<Rightarrow> (u64 \<times> cfd) set" where
  "interests s = {(m, fd). case map_of (dn_conns s) fd of None \<Rightarrow> False | Some book \<Rightarrow> m \<in> set book}"

definition dns_ok :: "DnsState \<Rightarrow> bool" where
  "dns_ok s \<longleftrightarrow> sl_ok (dn_sl s) \<and> distinct (map fst (dn_conns s)) \<and> booked (dn_sl s) = interests s"

lemma interests_iff:
  "(m, fd) \<in> interests s \<longleftrightarrow> (\<exists>book. map_of (dn_conns s) fd = Some book \<and> m \<in> set book)"
  by (simp add: interests_def split: option.splits)

lemma dns_ok_connect:
  "dns_ok s \<Longrightarrow> fd \<notin> keys_of (dn_conns s) \<Longrightarrow> dns_ok (dns_createSubscribe fd s)"
  by (auto simp: dns_ok_def dns_createSubscribe_def interests_iff hm.ok_put hm.find_put set_eq_iff
      map_of_eq_None_keys [symmetric] split: if_splits)

lemma dns_ok_clear:
  assumes "dns_ok s" "dns_clearSubscribe fd s = Inr s'"
  shows "dns_ok s'"
proof -
  from assms(2) obtain book where b: "map_of (dn_conns s) fd = Some book"
    "s' = s\<lparr> dn_sl := fold (\<lambda>m. sl_unsubscribe m fd) (sort book) (dn_sl s),
              dn_conns := AList.delete fd (dn_conns s) \<rparr>"
    by (auto simp: dns_clearSubscribe_def split: option.splits)
  have i: "booked (dn_sl s) = interests s" using assms(1) by (simp add: dns_ok_def)
  have "(m, c) \<in> booked (dn_sl s') \<longleftrightarrow> (m, c) \<in> interests s'" for m c
    using b(1) by (cases "c = fd") (simp_all add: b(2) sl.unsub_all(1) i interests_iff hm.find_erase)
  then have "booked (dn_sl s') = interests s'" by auto
  then show ?thesis using assms(1) by (simp add: dns_ok_def b(2) sl.unsub_all(3) hm.ok_erase)
qed

lemma dns_ok_book:
  assumes "dns_ok s" "book_module fd req s = Inr s'"
  shows "dns_ok s'" "(mkkey (grq_modid req) (grq_cmdid req), fd) \<in> booked (dn_sl s')"
    "dn_route s' = dn_route s" "waiting (dn_sl s') = waiting (dn_sl s)"
proof -
  let ?k = "mkkey (grq_modid req) (grq_cmdid req)"
  from assms(2) obtain book where b: "map_of (dn_conns s) fd = Some book"
    "s' = (if ?k \<in> set book then s
       else s\<lparr> dn_conns := AList.update fd (List.insert ?k book) (dn_conns s),
               dn_sl := sl_subscribe ?k fd (dn_sl s) \<rparr>)"
    by (auto simp: book_module_def Let_def split: option.splits if_splits)
  have i: "booked (dn_sl s) = interests s" using assms(1) by (simp add: dns_ok_def)
  show "dns_ok s'" using assms(1) b
    by (auto simp: dns_ok_def sl.ok_sub sl.bk_sub hm.ok_put interests_iff hm.find_put set_eq_iff
        split: if_splits)
  show "(?k, fd) \<in> booked (dn_sl s')" "dn_route s' = dn_route s" "waiting (dn_sl s') = waiting (dn_sl s)"
    using b i by (auto simp: sl.bk_sub interests_iff)
qed

lemma dns_ok_step:
  assumes "dns_ok s" "fresh_connects e s" "dns_step e (t, s) = Inr ((t', s'), out)"
  shows "dns_ok s'"
proof (cases e)
  case (PushTask fds)
  obtain sl' news where f: "sl_fetchPush fds (dn_sl s) = (sl', news)" by fastforce
  have "sl_ok (dn_sl s)" using assms(1) by (simp add: dns_ok_def)
  note f' = sl.ok_fetch [OF this f] sl.fetch_bk [OF this f]
  from PushTask f assms(3) have "s' = s\<lparr>dn_sl := sl'\<rparr>" by (auto simp: dns_pushChange_def)
  with f' assms(1) show ?thesis by (simp add: dns_ok_def interests_def)
next
  case (Tick ws now vers rows chgs)
  with assms(3) have "dn_conns s' = dn_conns s"
    "dn_sl s' = dn_sl s \<or> (\<exists>ch. dn_sl s' = sl_push ch (dn_sl s))"
    by (auto simp: dl_tick_def Let_def split: prod.splits if_splits)
  with assms(1) show ?thesis by (auto simp: dns_ok_def interests_def sl.ok_pushc sl.bk_pushc)
qed (use assms in \<open>auto simp: dns_getRoute_def fresh_connects_def dns_ok_connect
    intro: dns_ok_clear dns_ok_book split: option.splits\<close>)

lemma dns_step_fault: "dns_step e ts = Inl f \<Longrightarrow> f = DanglingPtr"
  by (cases "(e, ts)" rule: dns_step.cases)
     (auto simp: rbind_eq_Inl dns_clearSubscribe_def dns_getRoute_def book_module_def Let_def
       split: option.splits if_splits prod.splits)


section \<open>Reachable states\<close>

definition dns_start :: "Route \<Rightarrow> DnsState" where
  "dns_start rt = \<lparr> dn_sl = new_SubscribeList, dn_route = rt, dn_conns = [] \<rparr>"

inductive dns_reach :: "clong \<times> DnsState \<Rightarrow> bool" where
  start: "dns_reach (t, dns_start rt)"
| step: "dns_reach (t, s) \<Longrightarrow> fresh_connects e s \<Longrightarrow> dns_step e (t, s) = Inr ((t', s'), out) \<Longrightarrow>
         dns_reach (t', s')"

lemma dns_reach_ok: "dns_reach ts \<Longrightarrow> dns_ok (snd ts)"
proof (induction rule: dns_reach.induct)
  case (start t rt)
  then show ?case by (simp add: dns_ok_def dns_start_def sl_ok_ops interests_def)
next
  case (step t s e t' s' out)
  then show ?case using dns_ok_step by simp
qed

section \<open>Interleaving a request with the loader\<close>

text \<open>
  A request first subscribes and then reads the routes; the loader first swaps the new
  routes in and then pushes the changes. Each half holds its lock throughout.
\<close>

datatype half = Book | Reply | Swap | Push

definition request_halves :: "half list" where
  "request_halves = [Book, Reply]"

definition loader_halves :: "half list" where
  "loader_halves = [Swap, Push]"

fun half_step :: "cfd \<Rightarrow> GetRouteReq \<Rightarrow> u64 list \<Rightarrow> half \<Rightarrow> DnsState \<times> GetRouteRsp option \<Rightarrow>
    (DnsState \<times> GetRouteRsp option) res" where
  "half_step fd req ch Book (s, a) = rbind (book_module fd req s) (\<lambda>s'. Inr (s', a))"
| "half_step fd req ch Reply (s, a) = Inr (s, Some (dns_answer (grq_modid req) (grq_cmdid req) (dn_route s)))"
| "half_step fd req ch Swap (s, a) = Inr (s\<lparr>dn_route := Route_swap (dn_route s)\<rparr>, a)"
| "half_step fd req ch Push (s, a) = Inr (s\<lparr>dn_sl := sl_push ch (dn_sl s)\<rparr>, a)"

lemma request_halves_getRoute:
  "foldM (\<lambda>s h. half_step fd req ch h s) (s, None) request_halves =
     rbind (dns_getRoute fd (Some req) s) (\<lambda>(s', out).
       Inr (s', case out of [Send _ a] \<Rightarrow> Some a | _ \<Rightarrow> None))"
  by (simp add: request_halves_def dns_getRoute_def rbind_def split: sum.splits)

lemma book_module_frame:
  "book_module fd req (s\<lparr>dn_route := rt\<rparr>) = rbind (book_module fd req s) (\<lambda>s'. Inr (s'\<lparr>dn_route := rt\<rparr>))"
  "map_of (dn_conns s) fd = Some book \<Longrightarrow> \<exists>s'. book_module fd req s = Inr s'"
  by (auto simp: book_module_def Let_def split: option.splits)

lemma dns_ok_frame:
  "dns_ok (s\<lparr>dn_route := rt\<rparr>) = dns_ok s" "dns_ok s \<Longrightarrow> dns_ok (s\<lparr>dn_sl := sl_push ch (dn_sl s)\<rparr>)"
  by (auto simp: dns_ok_def interests_def sl.ok_pushc sl.bk_pushc)

section \<open>What an answer holds\<close>

lemma decode_row:
  "0 \<le> sint (atoi (rr_port r)) \<Longrightarrow>
   decode_host (row_value r) = \<lparr> ha_ip = atoi (rr_ip r), ha_port = atoi (rr_port r) \<rparr>"
  by (simp add: decode_host_def row_value_def mkukey_eq_mkkey key_hi_mkkey)

definition loaded :: "route_row list \<Rightarrow> Route \<Rightarrow> Route" where
  "loaded rows rt = Route_swap (fst (Route_reload (Some rows) rt))"

lemma loaded_hosts:
  "set (Route_getHosts m c (loaded rows rt)) = {v. row_in (mkkey m c) v rows}"
  "distinct (Route_getHosts m c (loaded rows rt))"
  by (simp_all add: getHosts_at loaded_def Route_swap_def Route_reload_def table_of_rows)

text \<open>What a waiting push sends: the key is taken apart without regard to a borrow.\<close>

lemma pushed_answer:
  assumes "sl_ok (dn_sl s)" and "(fd, mkkey m c) \<in> waiting (dn_sl s)" and "fd \<in> set listening"
  shows "Send fd (dns_answer (if sint c < 0 then m - 1 else m) c (dn_route s))
     \<in> set (snd (dns_pushChange listening s))"
proof -
  obtain sl' news where f: "sl_fetchPush listening (dn_sl s) = (sl', news)" by fastforce
  have "(fd, mkkey m c) \<in> related news" using sl.fetch_news [OF assms(1) f] assms(2,3) by simp
  then obtain ms where "(fd, ms) \<in> set news" "mkkey m c \<in> set ms"
    by (cases "map_of news fd") (auto simp: related_iff entry_def dest: map_of_SomeD)
  then show ?thesis
    by (auto simp: dns_pushChange_def f key_hi_mkkey intro!: bexI [of _ "(fd, ms)"] image_eqI [of _ _ "mkkey m c"])
qed

section \<open>Properties\<close>

text \<open>
  C26. In every state the server can reach, whatever connections come and go, modules are
  asked for and routes are loaded, the subscription list holds exactly the pairs of an
  open connection and a module that it has asked for.
\<close>

theorem subscriptions_are_interests:
  assumes "dns_reach (t, s)"
  shows "booked (dn_sl s) = {(m, fd). case map_of (dn_conns s) fd of None \<Rightarrow> False | Some book \<Rightarrow> m \<in> set book}"
  using dns_reach_ok [OF assms] by (simp add: dns_ok_def interests_def)

definition ex_req :: GetRouteReq where
  "ex_req = \<lparr> grq_modid = 1, grq_cmdid = 2 \<rparr>"

definition ex_route :: Route where
  "ex_route = \<lparr> routeVersion = 7, rt_data = [], rt_tmp = [], unfreed = 0 \<rparr>"

lemma ex_reach:
  "\<exists>s. dns_reach (0, s) \<and> dn_conns s = [(5, [mkkey 1 2])] \<and> dn_route s = ex_route
     \<and> dn_sl s = sl_subscribe (mkkey 1 2) 5 new_SubscribeList"
proof -
  let ?s1 = "dns_createSubscribe 5 (dns_start ex_route)"
  have "dns_reach (0, ?s1)"
    by (rule dns_reach.step [OF dns_reach.start, where e = "Connect 5"])
       (simp_all add: fresh_connects_def dns_start_def keys_of_def)
  moreover define s2 where "s2 = \<lparr> dn_sl = sl_subscribe (mkkey 1 2) 5 new_SubscribeList,
      dn_route = ex_route, dn_conns = [(5, [mkkey 1 2])] \<rparr>"
  have r: "dns_step (Request 5 (Some ex_req)) (0, ?s1) = Inr ((0, s2), [Send 5 (dns_answer 1 2 ex_route)])"
    by (simp add: s2_def dns_getRoute_def book_module_def dns_createSubscribe_def dns_start_def
        ex_req_def Let_def)
  ultimately have "dns_reach (0, s2)"
    by (intro dns_reach.step [OF _ _ r]) (simp_all add: fresh_connects_def)
  then show ?thesis by (intro exI [of _ s2]) (simp add: s2_def)
qed

theorem subscriptions_are_interests_witness:
  "\<exists>s :: DnsState. booked (dn_sl s) = {(m, fd). case map_of (dn_conns s) fd of None \<Rightarrow> False | Some book \<Rightarrow> m \<in> set book}
     \<and> dn_conns s = [(5, [mkkey 1 2])]"
proof -
  obtain s where s: "dns_reach (0, s)" "dn_conns s = [(5, [mkkey 1 2])]" using ex_reach by auto
  from subscriptions_are_interests [OF s(1)] s(2) show ?thesis by (intro exI [of _ s] conjI) assumption+
qed

text \<open>
  C28. What a connection is answered: after the table of routes has been loaded, a request is
  answered with exactly the hosts that the rows of its module name, each once (for rows
  whose port is not negative).
\<close>

theorem answer_is_table:
  assumes "list_all (\<lambda>r. 0 \<le> sint (atoi (rr_port r))) rows"
  shows "set (grs_hosts (dns_answer m c (loaded rows rt))) =
     set (map (\<lambda>r. \<lparr> ha_ip = atoi (rr_ip r), ha_port = atoi (rr_port r) \<rparr>)
            (filter (\<lambda>r. atoi (rr_modid r) = m \<and> atoi (rr_cmdid r) = c) rows))
   \<and> distinct (grs_hosts (dns_answer m c (loaded rows rt)))
   \<and> grs_modid (dns_answer m c (loaded rows rt)) = m \<and> grs_cmdid (dns_answer m c (loaded rows rt)) = c"
proof -
  have v: "set (Route_getHosts m c (loaded rows rt)) =
      row_value ` set (filter (\<lambda>r. atoi (rr_modid r) = m \<and> atoi (rr_cmdid r) = c) rows)"
    by (auto simp: loaded_hosts row_in_def row_key_def list_ex_iff)
  moreover have d: "decode_host (row_value r) = \<lparr> ha_ip = atoi (rr_ip r), ha_port = atoi (rr_port r) \<rparr>"
    if "r \<in> set rows" for r
    using assms that by (intro decode_row) (simp add: list_all_iff)
  moreover have "inj_on decode_host (set (Route_getHosts m c (loaded rows rt)))"
    unfolding v using d
    by (auto simp: inj_on_def row_value_def mkukey_eq_mkkey)
  ultimately show ?thesis
    by (auto simp: dns_answer_def distinct_map loaded_hosts(2) image_image intro!: image_cong)
qed


theorem answer_is_table_witness:
  "set (grs_hosts (dns_answer 1 2 (loaded
     [\<lparr> rr_id = ''1'', rr_modid = ''1'', rr_cmdid = ''2'', rr_ip = ''3232235777'', rr_port = ''80'' \<rparr>,
      \<lparr> rr_id = ''2'', rr_modid = ''1'', rr_cmdid = ''3'', rr_ip = ''167772161'', rr_port = ''81'' \<rparr>] ex_route)))
   = {\<lparr> ha_ip = 3232235777, ha_port = 80 \<rparr>}"
proof -
  have a: "atoi ''1'' = 1" "atoi ''2'' = 2" "atoi ''3'' = 3" "atoi ''80'' = 80" "atoi ''81'' = 81"
    "atoi ''3232235777'' = 3232235777"
    by (simp_all add: atoi_def atol_def read_int_def is_space_def is_digit_def digit_val_def)
  show ?thesis
    by (subst answer_is_table [THEN conjunct1]) (simp_all add: a)
qed

text \<open>
  C27. No change of a route is lost to a client that asks while the routes are being
  reloaded: however the two halves of its request (subscribe, then read) interleave with
  the two halves of the loader (swap the new routes in, then push the changed modules),
  either the answer already has the new route or a push of the module waits for the
  connection.
\<close>

theorem no_change_lost:
  assumes "dns_ok s" and "map_of (dn_conns s) fd = Some book"
    and "mkkey (grq_modid req) (grq_cmdid req) \<in> set ch"
    and "hs \<in> shuffles request_halves loader_halves"
  shows "\<exists>s' a. foldM (\<lambda>s h. half_step fd req ch h s) (s, None) hs = Inr (s', Some a)
     \<and> (grs_hosts a = map decode_host (hosts_at (rt_tmp (dn_route s)) (mkkey (grq_modid req) (grq_cmdid req)))
        \<or> (fd, mkkey (grq_modid req) (grq_cmdid req)) \<in> waiting (dn_sl s'))"
proof -
  let ?k = "mkkey (grq_modid req) (grq_cmdid req)"
  let ?swap = "\<lambda>s. s\<lparr>dn_route := Route_swap (dn_route s)\<rparr>" and ?push = "\<lambda>s. s\<lparr>dn_sl := sl_push ch (dn_sl s)\<rparr>"
  obtain s1 where s1: "book_module fd req s = Inr s1" using book_module_frame(2) [OF assms(2)] by blast
  note k1 = dns_ok_book [OF assms(1) s1]
  have new: "grs_hosts (dns_answer (grq_modid req) (grq_cmdid req) (Route_swap (dn_route s)))
      = map decode_host (hosts_at (rt_tmp (dn_route s)) ?k)"
    by (simp add: dns_answer_def getHosts_at Route_swap_def)
  have w: "(fd, ?k) \<in> waiting (sl_push ch (dn_sl s1))"
    using k1(2) assms(3) by (simp add: sl.wt_pushc)
  have p: "\<exists>s2. book_module fd req (?push s) = Inr s2 \<and> dn_route s2 = dn_route s"
    "\<exists>s2. book_module fd req (?push (?swap s)) = Inr s2 \<and> dn_route s2 = Route_swap (dn_route s)"
    "\<exists>s2. book_module fd req (?swap s) = Inr s2 \<and> dn_route s2 = Route_swap (dn_route s)"
    using assms(2) by (auto simp: book_module_def Let_def)
  from assms(4) have "hs = [Book, Reply, Swap, Push] \<or> hs = [Book, Swap, Reply, Push]
      \<or> hs = [Book, Swap, Push, Reply] \<or> hs = [Swap, Book, Reply, Push]
      \<or> hs = [Swap, Book, Push, Reply] \<or> hs = [Swap, Push, Book, Reply]"
    by (auto simp: request_halves_def loader_halves_def)
  then show ?thesis
    using s1 w new k1(3) p
    by (elim disjE) auto
qed

theorem no_change_lost_witness:
  "\<exists>s s' a. dn_conns s = [(5, [mkkey 1 2])]
     \<and> foldM (\<lambda>s h. half_step 5 ex_req [mkkey 1 2] h s) (s, None) [Book, Swap, Push, Reply] = Inr (s', Some a)
     \<and> (grs_hosts a = map decode_host (hosts_at (rt_tmp (dn_route s)) (mkkey 1 2))
        \<or> (5, mkkey 1 2) \<in> waiting (dn_sl s'))"
proof -
  obtain s where s: "dns_reach (0, s)" "dn_conns s = [(5, [mkkey 1 2])]" using ex_reach by auto
  have "[Book, Swap, Push, Reply] \<in> shuffles request_halves loader_halves"
    by (simp add: request_halves_def loader_halves_def)
  from no_change_lost [OF _ _ _ this, of s 5 "[mkkey 1 2]" ex_req "[mkkey 1 2]"] dns_reach_ok [OF s(1)] s(2)
  show ?thesis by (auto simp: ex_req_def)
qed

text \<open>
  A change of the routes reaches every subscriber: when the loader sees a new version
  and both tables can be read, then afterwards a push of every changed module waits for
  every connection that has booked it, the routes are those of the rows just read, the
  workers have been told, and only then the recorded changes are deleted.
\<close>

theorem tick_pushes_changes:
  assumes "atol v \<noteq> routeVersion (dn_route s)" and "chgs \<noteq> []"
  shows "\<exists>s' outs. dl_tick ws now (Some (v # vs)) (Some rows) (Some chgs) (t, s) =
       ((now, s'), outs @ [Notify, Sql (sql_rmChanges True (dn_route s'))])
     \<and> Notify \<notin> set outs \<and> routeVersion (dn_route s') = atol v
     \<and> rt_data (dn_route s') = fold insert_row rows []
     \<and> waiting (dn_sl s') = waiting (dn_sl s)
         \<union> {(fd, m). m \<in> (\<lambda>(a, b). mkkey (atoi a) (atoi b)) ` set chgs \<and> (m, fd) \<in> booked (dn_sl s)}"
  using assms
  by (cases chgs)
     (auto simp: dl_tick_def Route_loadVersion_def Route_reload_def Route_swap_def Route_loadChanges_def
       Let_def sl.wt_pushc)

theorem tick_pushes_changes_witness:
  "\<exists>s s' outs. dl_tick 10 50 (Some [''9'']) (Some []) (Some [(''1'', ''2'')]) (0, s) =
       ((50, s'), outs @ [Notify, Sql (sql_rmChanges True (dn_route s'))])
     \<and> (5, mkkey 1 2) \<in> waiting (dn_sl s')"
proof -
  obtain s :: DnsState where s: "dn_route s = ex_route" "dn_sl s = sl_subscribe (mkkey 1 2) 5 new_SubscribeList"
    using ex_reach by blast
  have a: "atol ''9'' \<noteq> routeVersion (dn_route s)" "atoi ''1'' = 1" "atoi ''2'' = 2"
    by (simp_all add: s(1) ex_route_def atoi_def atol_def read_int_def is_space_def is_digit_def digit_val_def)
  from tick_pushes_changes [OF a(1), of "[(''1'', ''2'')]" 10 50 "[]" "[]" 0] show ?thesis
    by (auto simp: a(2,3) s(2) sl.bk_sub)
qed

text \<open>
  C30. A failed reload swallows the announcement of a change: once a new version has been
  read and the routes could not be loaded, the next turn with the same version tells no
  subscriber anything, whatever the tables then answer.
\<close>

theorem failed_reload_delays_push:
  "Notify \<notin> set (snd (dl_tick ws now' (Some [v]) rows chgs' (fst (dl_tick ws now (Some [v]) None chgs (t, s)))))
   \<and> dn_sl (snd (fst (dl_tick ws now' (Some [v]) rows chgs' (fst (dl_tick ws now (Some [v]) None chgs (t, s))))))
     = dn_sl s"
  by (auto simp: dl_tick_def Route_loadVersion_def Route_reload_def Let_def split: prod.splits)

text \<open>
  C29. What is pushed for a changed module: the connection is sent the answer that a request
  for the module would get, as long as the second identifier is not negative; otherwise
  it is sent the route of the module one below, since the key is taken apart without
  regard to the borrow.
\<close>

theorem push_answers:
  assumes "sl_ok (dn_sl s)" and "(fd, mkkey m c) \<in> waiting (dn_sl s)" and "fd \<in> set listening"
  shows "Send fd (dns_answer (if sint c < 0 then m - 1 else m) c (dn_route s))
     \<in> set (snd (dns_pushChange listening s))"
  using pushed_answer [OF assms] .

theorem push_answers_witness:
  "\<exists>s. Send 5 (dns_answer 1 2 (dn_route s)) \<in> set (snd (dns_pushChange [5] s))"
proof -
  let ?s = "\<lparr> dn_sl = sl_push [mkkey 1 2] (sl_subscribe (mkkey 1 2) 5 new_SubscribeList),
              dn_route = ex_route, dn_conns = [] \<rparr>"
  have "(5, mkkey 1 2) \<in> waiting (dn_sl ?s)" by (simp add: sl.wt_pushc sl.bk_sub)
  from push_answers [OF _ this, of "[5]"] show ?thesis
    by (auto simp: sl_ok_ops intro: exI [of _ ?s])
qed

text \<open>
  A closed connection leaves its waiting pushes behind: a new connection that is given
  the same descriptor is sent the route of a module that only the old one had asked for.
\<close>

theorem stale_push_to_new_connection:
  "\<exists>s' outs. run dns_step [Connect 5, Request 5 (Some ex_req),
       Tick 10 50 (Some [''9'']) (Some []) (Some [(''1'', ''2'')]), Close 5, Connect 5, PushTask [5]]
       (0, dns_start ex_route) = Inr ((50, s'), outs)
     \<and> last outs = [Send 5 \<lparr> grs_modid = 1, grs_cmdid = 2, grs_hosts = [] \<rparr>] \<and> dn_conns s' = [(5, [])]"
proof -
  have a: "atol ''9'' = 9" "atoi ''1'' = 1" "atoi ''2'' = 2"
    by (simp_all add: atoi_def atol_def read_int_def is_space_def is_digit_def digit_val_def)
  have k: "key_hi (mkkey 1 2) = 1" by (simp add: key_hi_mkkey)
  show ?thesis
    by (simp add: dns_createSubscribe_def dns_getRoute_def book_module_def dns_start_def ex_req_def
        dl_tick_def Route_loadVersion_def Route_reload_def Route_swap_def Route_loadChanges_def
        ex_route_def new_SubscribeList_def sl_subscribe_def sl_push_def insert_at_def entry_def
        dns_clearSubscribe_def sl_unsubscribe_def dns_pushChange_def sl_fetchPush_def dns_answer_def
        Route_getHosts_def Let_def a k)
qed

end
