(* ===== verification/MurHash.thy ===== *)
theory MurHash
  imports ElbPrelude
begin

text \<open>
  The hash that spreads modules over the reporter's threads (\<open>common/base/include/util.h\<close>),
  on a little-endian machine. The lemmas show that none of its mixing steps loses
  anything, so that keys which differ in one of their two halves only never collide before
  the final remainder.
\<close>

unbundle bit_operations_syntax

section \<open>The hash\<close>

text \<open>\<open>*(unsigned int *)data\<close>.\<close>

definition load_le32 :: "8 word \<Rightarrow> 8 word \<Rightarrow> 8 word \<Rightarrow> 8 word \<Rightarrow> u32" where
  "load_le32 a b c d = ucast a OR push_bit 8 (ucast b) OR push_bit 16 (ucast c) OR push_bit 24 (ucast d)"

definition mur_m :: u32 where "mur_m = 0x5bd1e995"

definition mur_word :: "u32 \<Rightarrow> u32" where
  "mur_word k = (let k1 = k * mur_m; k2 = k1 XOR drop_bit 24 k1 in k2 * mur_m)"

text \<open>The loop over whole words; what it leaves is shorter than four bytes.\<close>

fun mur_loop :: "8 word list \<Rightarrow> u32 \<Rightarrow> u32 \<times> 8 word list" where
  "mur_loop (a # b # c # d # r) h = mur_loop r ((h * mur_m) XOR mur_word (load_le32 a b c d))"
| "mur_loop r h = (h, r)"

text \<open>The \<open>switch\<close>, every case of which runs into the next one.\<close>

definition mur_tail :: "8 word list \<Rightarrow> u32 \<Rightarrow> u32" where
  "mur_tail r h =
    (let h3 = (if length r = 3 then h XOR push_bit 16 (ucast (r ! 2)) else h);
         h2 = (if 2 \<le> length r then h3 XOR push_bit 8 (ucast (r ! 1)) else h3)
     in if 1 \<le> length r then (h2 XOR ucast (r ! 0)) * mur_m else h2)"

definition mur_final :: "u32 \<Rightarrow> u32" where
  "mur_final h = (let h1 = h XOR drop_bit 13 h; h2 = h1 * mur_m in h2 XOR drop_bit 15 h2)"

definition murMurHash :: "8 word list \<Rightarrow> u32" where
  "murMurHash bs =
    (let (h, r) = mur_loop bs (97 XOR of_nat (length bs)) in mur_final (mur_tail r h))"

text \<open>The bytes of a 64-bit key in memory, and \<open>HASHTO(&key, limit)\<close>: the remainder is that of
  \<open>unsigned int\<close>.\<close>

definition key_bytes :: "u64 \<Rightarrow> 8 word list" where
  "key_bytes k = map (\<lambda>i. ucast (drop_bit (8 * i) k)) [0..<8]"

definition HASHTO :: "u64 \<Rightarrow> i32 \<Rightarrow> i32 res" where
  "HASHTO key limit = (if limit = 0 then Inl DivZero else Inr (murMurHash (key_bytes key) mod limit))"

section \<open>Its steps are injective\<close>

lemma mur_m_inverse: "mur_m * 0xe59b19bd = 1"
  by (simp add: mur_m_def)

lemma mur_m_inj: "a * mur_m = b * mur_m \<longleftrightarrow> a = b"
proof
  assume "a * mur_m = b * mur_m"
  then have "a * (mur_m * 0xe59b19bd) = b * (mur_m * 0xe59b19bd)" by (simp only: mult.assoc [symmetric])
  then show "a = b" by (simp only: mur_m_inverse mult_1_right)
qed simp

lemma xor_shift_bit:
  fixes x y :: "'a::len word"
  assumes "x XOR drop_bit s x = y XOR drop_bit s y" "bit x (n + s) = bit y (n + s)"
  shows "bit x n = bit y n"
proof -
  have "bit (x XOR drop_bit s x) n = bit (y XOR drop_bit s y) n" by (simp only: assms(1))
  then have "(bit x n \<noteq> bit x (n + s)) = (bit y n \<noteq> bit y (n + s))"
    by (simp only: bit_xor_iff bit_drop_bit_eq comp_def add.commute [of n s])
  with assms(2) show ?thesis by blast
qed

lemma xor_shift_inj:
  fixes x y :: "'a::len word"
  assumes "0 < s" "x XOR drop_bit s x = y XOR drop_bit s y"
  shows "x = y"
proof (rule bit_word_eqI)
  have "bit x n = bit y n" if "LENGTH('a) \<le> n + k" for n k
    using that
  proof (induction k arbitrary: n)
    case 0
    then have "\<not> bit x n" "\<not> bit y n" using bit_imp_le_length [of x n] bit_imp_le_length [of y n] by auto
    then show ?case by simp
  next
    case (Suc k)
    have "bit x (n + s) = bit y (n + s)" using Suc.prems assms(1) by (intro Suc.IH) simp
    then show ?case by (rule xor_shift_bit [OF assms(2)])
  qed
  from this [OF le_add2] show "bit x n = bit y n" for n .
qed

lemma mur_word_inj: "mur_word a = mur_word b \<longleftrightarrow> a = b"
proof
  assume "mur_word a = mur_word b"
  then have "(a * mur_m) XOR drop_bit 24 (a * mur_m) = (b * mur_m) XOR drop_bit 24 (b * mur_m)"
    by (simp only: mur_word_def Let_def mur_m_inj)
  from xor_shift_inj [OF _ this] show "a = b" by (simp add: mur_m_inj)
qed simp

lemma mur_final_inj: "mur_final a = mur_final b \<longleftrightarrow> a = b"
proof
  assume "mur_final a = mur_final b"
  then have "(a XOR drop_bit 13 a) * mur_m = (b XOR drop_bit 13 b) * mur_m"
    unfolding mur_final_def Let_def by (rule xor_shift_inj [rotated]) simp
  then have "a XOR drop_bit 13 a = b XOR drop_bit 13 b" by (simp only: mur_m_inj)
  from xor_shift_inj [OF _ this] show "a = b" by simp
qed simp

section \<open>Keys\<close>

lemma uint_sint_pos: "0 \<le> sint w \<Longrightarrow> uint w = sint (w :: i32)"
  using uint32_sint [of w] sint_less [of w] by simp

lemma sint_uint_small: "uint w < 2 ^ 31 \<Longrightarrow> sint w = uint (w :: i32)"
  using signed_take_bit_int_eq_self [of 31 "uint w"] uint_ge_0 [of w] by (simp add: sint_uint)

text \<open>A key is hashed as its two halves, the low one first.\<close>

definition hash_step :: "u32 \<Rightarrow> u32 \<Rightarrow> u32" where
  "hash_step h k = (h * mur_m) XOR mur_word k"

lemma hash_step_inj: "hash_step h k = hash_step h k' \<longleftrightarrow> k = k'" "hash_step h k = hash_step h' k \<longleftrightarrow> h = h'"
proof -
  have x: "u XOR v = u XOR w \<longleftrightarrow> v = w" for u v w :: u32 by (metis xor.left_commute xor_self_eq xor.right_neutral)
  show "hash_step h k = hash_step h k' \<longleftrightarrow> k = k'" by (simp add: hash_step_def x mur_word_inj)
  show "hash_step h k = hash_step h' k \<longleftrightarrow> h = h'"
    by (simp add: hash_step_def xor.commute [of _ "mur_word k"] x mur_m_inj)
qed

lemma load_key:
  "load_le32 (ucast k) (ucast (drop_bit 8 k)) (ucast (drop_bit 16 k)) (ucast (drop_bit 24 k)) = ucast (k :: u64)"
proof (rule bit_word_eqI)
  fix n assume "n < LENGTH(32)"
  then have n: "n < 32" by simp
  have c: "n < 8 \<or> (8 \<le> n \<and> n < 16) \<or> (16 \<le> n \<and> n < 24) \<or> (24 \<le> n \<and> n < 32)" using n by linarith
  show "bit (load_le32 (ucast k) (ucast (drop_bit 8 k)) (ucast (drop_bit 16 k)) (ucast (drop_bit 24 k))) n = bit (ucast k :: u32) n"
    using n c by (auto simp: load_le32_def bit_simps)
qed

lemma load_key_high:
  "load_le32 (ucast (drop_bit 32 k)) (ucast (drop_bit 40 k)) (ucast (drop_bit 48 k)) (ucast (drop_bit 56 k)) = ucast (drop_bit 32 (k :: u64))"
  using load_key [of "drop_bit 32 k"] by (simp add: drop_bit_drop_bit)

lemma murMurHash_key:
  "murMurHash (key_bytes k) = mur_final (hash_step (hash_step 105 (ucast k)) (ucast (drop_bit 32 k)))"
proof -
  have "key_bytes k = [ucast k, ucast (drop_bit 8 k), ucast (drop_bit 16 k), ucast (drop_bit 24 k),
      ucast (drop_bit 32 k), ucast (drop_bit 40 k), ucast (drop_bit 48 k), ucast (drop_bit 56 k)]"
    by (simp add: key_bytes_def upt_rec)
  then show ?thesis by (simp add: murMurHash_def load_key load_key_high mur_tail_def flip: hash_step_def)
qed

lemma hash_halves:
  assumes "murMurHash (key_bytes k) = murMurHash (key_bytes k')"
  shows "(ucast k :: u32) = ucast k' \<longleftrightarrow> (ucast (drop_bit 32 k) :: u32) = ucast (drop_bit 32 k')"
  using assms by (auto simp: murMurHash_key mur_final_inj hash_step_inj)

section \<open>Properties\<close>

text \<open>
  The hash separates the commands of a module: two keys with the same module identifier and
  different command identifiers, neither negative, have different hashes, and so have two
  keys with the same command identifier and different module identifiers. Its remainder is
  a valid thread number whenever the number of threads is positive.
\<close>

theorem hash_separates:
  assumes "0 \<le> sint c" and "0 \<le> sint c'" and "m = m' \<longleftrightarrow> c \<noteq> c'"
  shows "murMurHash (key_bytes (mkkey m c)) \<noteq> murMurHash (key_bytes (mkkey m' c'))
    \<and> (0 < sint n \<longrightarrow> (\<exists>i. HASHTO (mkkey m c) n = Inr i \<and> 0 \<le> sint i \<and> sint i < sint n))"
proof
  have l: "(ucast (mkkey a b) :: u32) = b" for a b using key_lo_mkkey [of a b] by (simp add: key_lo_def)
  have h: "(ucast (drop_bit 32 (mkkey a b)) :: u32) = a" if "0 \<le> sint b" for a b
    using key_hi_mkkey [of a b] that by (simp add: key_hi_def)
  show "murMurHash (key_bytes (mkkey m c)) \<noteq> murMurHash (key_bytes (mkkey m' c'))"
    using hash_halves [of "mkkey m c" "mkkey m' c'"] assms h l by auto
  show "0 < sint n \<longrightarrow> (\<exists>i. HASHTO (mkkey m c) n = Inr i \<and> 0 \<le> sint i \<and> sint i < sint n)"
  proof
    assume n: "0 < sint n"
    let ?i = "murMurHash (key_bytes (mkkey m c)) mod n"
    have u: "uint n = sint n" "n \<noteq> 0" using n uint_sint_pos [of n] by auto
    have b: "uint ?i < uint n" using u(1) n by (simp only: uint_mod_distrib) (rule pos_mod_bound, simp)
    moreover have "uint n < 2 ^ 31" using u(1) sint_less [of n] by simp
    ultimately have "sint ?i = uint ?i" by (intro sint_uint_small) simp
    with b u show "\<exists>i. HASHTO (mkkey m c) n = Inr i \<and> 0 \<le> sint i \<and> sint i < sint n"
      by (simp add: HASHTO_def)
  qed
qed

theorem hash_separates_witness:
  "murMurHash (key_bytes (mkkey 10001 1001)) \<noteq> murMurHash (key_bytes (mkkey 10001 1002))
    \<and> (\<exists>i. HASHTO (mkkey 10001 1001) 3 = Inr i \<and> 0 \<le> sint i \<and> sint i < 3)"
  using hash_separates [of 1001 1002 10001 10001 3] by simp

end
