(* ===== verification/ElbWire.thy ===== *)
theory ElbWire
  imports ElbProto
begin

text \<open>
  What the generated message classes (\<open>common/proto/elb.pb.cc\<close>) do on top of the protobuf
  runtime. The runtime is not part of the repository: it is a parameter, the record
  \<open>wire\<close>, that takes a byte string apart into the fields of a message and puts one
  together, and converts the values of a field from and to 64-bit varints. \<open>wire_ok\<close>
  states what its documentation promises; \<open>std_wire\<close> is an encoder and decoder that
  meets these promises.
\<close>

section \<open>The protobuf runtime\<close>

type_synonym bytes = "8 word list"

text \<open>
  A field as it comes: a varint, a length-delimited string, a field of another wire type
  (with its bytes), or a tag that ends the message (zero, or the end of a group).
\<close>

datatype wval = Varint u64 | Bytes bytes | Other bytes | EndTag

type_synonym token = "nat \<times> wval"

text \<open>
  \<open>w_lex\<close> gives the fields of a byte string up to its end or the first malformed one, and
  whether the end was reached. \<open>w_enc\<close> writes fields. Then the conversions of the field
  types \<open>int32\<close>, \<open>uint32\<close>, \<open>int64\<close>, \<open>int32\<close> read as a C int, \<open>bool\<close>, and the sizes of a
  varint and of a field.
\<close>

record wire =
  w_lex :: "bytes \<Rightarrow> token list \<times> bool"
  w_enc :: "token list \<Rightarrow> bytes"
  w_puti :: "i32 \<Rightarrow> u64"
  w_geti :: "u64 \<Rightarrow> i32"
  w_putu :: "u32 \<Rightarrow> u64"
  w_getu :: "u64 \<Rightarrow> u32"
  w_putl :: "clong \<Rightarrow> u64"
  w_getl :: "u64 \<Rightarrow> clong"
  w_putn :: "int \<Rightarrow> u64"
  w_getn :: "u64 \<Rightarrow> int"
  w_putb :: "bool \<Rightarrow> u64"
  w_getb :: "u64 \<Rightarrow> bool"
  w_vsize :: "nat \<Rightarrow> nat"
  w_tsize :: "token \<Rightarrow> nat"

section \<open>What the generated code is made of\<close>

text \<open>The loop of \<open>MergePartialFromCodedStream\<close>, with the message's field step.\<close>

fun merge_toks :: "(token \<Rightarrow> 'm \<Rightarrow> 'm \<times> bool) \<Rightarrow> token list \<Rightarrow> 'm \<Rightarrow> 'm \<times> bool" where
  "merge_toks f [] m = (m, True)"
| "merge_toks f (t # ts) m =
    (if snd t = EndTag then (m, False)
     else (let (m', ok) = f t m in if ok then merge_toks f ts m' else (m', False)))"

text \<open>
  With the check that the whole input was consumed, as \<open>ParseFromArray\<close> and the reading
  of a nested message make it.
\<close>

definition merge_bytes ::
  "wire \<Rightarrow> (token \<Rightarrow> 'm \<Rightarrow> 'm \<times> bool) \<Rightarrow> bytes \<Rightarrow> 'm \<Rightarrow> 'm \<times> bool" where
  "merge_bytes w f b m =
    (let (ts, fin) = w_lex w b; (m', ok) = merge_toks f ts m in (m', ok \<and> fin))"

text \<open>A field that is written when it is set, its size, and what merging keeps of two.\<close>

definition opt_tok :: "('a \<Rightarrow> token) \<Rightarrow> 'a option \<Rightarrow> token list" where
  "opt_tok f v = (case v of None \<Rightarrow> [] | Some x \<Rightarrow> [f x])"

definition opt_size :: "('a \<Rightarrow> nat) \<Rightarrow> 'a option \<Rightarrow> nat" where
  "opt_size f v = (case v of None \<Rightarrow> 0 | Some x \<Rightarrow> f x)"

definition msg_size :: "wire \<Rightarrow> nat \<Rightarrow> nat" where
  "msg_size w n = w_vsize w n + n"

definition later :: "'a option \<Rightarrow> 'a option \<Rightarrow> 'a option" where
  "later src dst = (case src of None \<Rightarrow> dst | Some _ \<Rightarrow> src)"

section \<open>What the documentation of the runtime promises\<close>

text \<open>Fields that the generated code writes: one-byte tags.\<close>

definition plain :: "token \<Rightarrow> bool" where
  "plain t \<longleftrightarrow> 1 \<le> fst t \<and> fst t < 16 \<and> (case snd t of Varint _ \<Rightarrow> True | Bytes _ \<Rightarrow> True | _ \<Rightarrow> False)"

definition toks_size :: "wire \<Rightarrow> token list \<Rightarrow> nat" where
  "toks_size w ts = sum_list (map (w_tsize w) ts)"

text \<open>The default limit of the runtime on the size of a message: 64 MB.\<close>

definition total_bytes_limit :: nat where
  "total_bytes_limit = 2 ^ 26"

definition wire_ok :: "wire \<Rightarrow> bool" where
  "wire_ok w \<longleftrightarrow>
     (\<forall>ts. list_all plain ts \<and> toks_size w ts \<le> total_bytes_limit \<longrightarrow> w_lex w (w_enc w ts) = (ts, True))
   \<and> (\<forall>ts. length (w_enc w ts) = toks_size w ts)
   \<and> (\<forall>n v. 1 \<le> n \<and> n < 16 \<longrightarrow> w_tsize w (n, Varint v) = 1 + w_vsize w (unat v))
   \<and> (\<forall>n b. 1 \<le> n \<and> n < 16 \<longrightarrow> w_tsize w (n, Bytes b) = 1 + w_vsize w (length b) + length b)
   \<and> (\<forall>n. 1 \<le> w_vsize w n) \<and> (\<forall>n < 2 ^ 64. w_vsize w n \<le> 10) \<and> (\<forall>b. w_vsize w (unat (w_putb w b)) = 1)
   \<and> (\<forall>v. w_geti w (w_puti w v) = v) \<and> (\<forall>v. w_getu w (w_putu w v) = v)
   \<and> (\<forall>v. - (2 ^ 63) \<le> v \<and> v < 2 ^ 63 \<longrightarrow> w_getl w (w_putl w v) = v)
   \<and> (\<forall>v. - (2 ^ 31) \<le> v \<and> v < 2 ^ 31 \<longrightarrow> w_getn w (w_putn w v) = v)
   \<and> (\<forall>b. w_getb w (w_putb w b) = b)"

lemma wire_lex: "wire_ok w \<Longrightarrow> list_all plain ts \<Longrightarrow> toks_size w ts \<le> total_bytes_limit \<Longrightarrow> w_lex w (w_enc w ts) = (ts, True)"
  by (simp add: wire_ok_def)

lemma wire_len: "wire_ok w \<Longrightarrow> length (w_enc w ts) = toks_size w ts"
  by (simp add: wire_ok_def)

lemma wire_tsize:
  "wire_ok w \<Longrightarrow> 1 \<le> n \<Longrightarrow> n < 16 \<Longrightarrow> w_tsize w (n, Varint v) = 1 + w_vsize w (unat v)"
  "wire_ok w \<Longrightarrow> 1 \<le> n \<Longrightarrow> n < 16 \<Longrightarrow> w_tsize w (n, Bytes b) = 1 + w_vsize w (length b) + length b"
  by (simp_all add: wire_ok_def)

lemma wire_vsize: "wire_ok w \<Longrightarrow> 1 \<le> w_vsize w n" "wire_ok w \<Longrightarrow> n < 2 ^ 64 \<Longrightarrow> w_vsize w n \<le> 10"
  by (simp_all add: wire_ok_def)

lemma wire_get:
  "wire_ok w \<Longrightarrow> w_geti w (w_puti w i) = i" "wire_ok w \<Longrightarrow> w_getu w (w_putu w u) = u"
  "wire_ok w \<Longrightarrow> - (2 ^ 63) \<le> l \<Longrightarrow> l < 2 ^ 63 \<Longrightarrow> w_getl w (w_putl w l) = l"
  "wire_ok w \<Longrightarrow> - (2 ^ 31) \<le> n \<Longrightarrow> n < 2 ^ 31 \<Longrightarrow> w_getn w (w_putn w n) = n"
  "wire_ok w \<Longrightarrow> w_getb w (w_putb w b) = b" "wire_ok w \<Longrightarrow> w_vsize w (unat (w_putb w b)) = 1"
  by (simp_all add: wire_ok_def)

section \<open>Lemmas on the parts\<close>

lemma merge_toks_append:
  "merge_toks f (ts @ us) m =
    (let (m', ok) = merge_toks f ts m in if ok then merge_toks f us m' else (m', False))"
  by (induction f ts m rule: merge_toks.induct) (auto split: prod.splits)

lemma merge_toks_one:
  "snd t \<noteq> EndTag \<Longrightarrow> f t m = (m', True) \<Longrightarrow> merge_toks f (t # ts) m = merge_toks f ts m'"
  by simp

text \<open>A repeated field: each element steps the message on.\<close>

lemma merge_toks_map:
  assumes "\<And>h m. h \<in> set hs \<Longrightarrow> snd (t h) \<noteq> EndTag \<and> f (t h) m = (g h m, True)"
  shows "merge_toks f (map t hs @ ts) m = merge_toks f ts (fold g hs m)"
  using assms by (induction hs arbitrary: m) simp_all

lemma merge_bytes_enc:
  assumes "wire_ok w" "list_all plain ts" "toks_size w ts \<le> total_bytes_limit"
  shows "merge_bytes w f (w_enc w ts) m = merge_toks f ts m"
  by (simp add: merge_bytes_def wire_lex [OF assms] split: prod.splits)

lemma opt_simps [simp]:
  "opt_tok f None = []" "opt_tok f (Some x) = [f x]"
  "opt_size s None = 0" "opt_size s (Some x) = s x"
  by (simp_all add: opt_tok_def opt_size_def)

lemma plain_simps [simp]:
  "plain (n, Varint v) \<longleftrightarrow> 1 \<le> n \<and> n < 16" "plain (n, Bytes b) \<longleftrightarrow> 1 \<le> n \<and> n < 16"
  by (simp_all add: plain_def)

lemma plain_not [simp]: "\<not> plain (n, Other b)" "\<not> plain (n, EndTag)"
  by (simp_all add: plain_def)

lemma plain_opt: "list_all plain (opt_tok f v) \<longleftrightarrow> (\<forall>x. v = Some x \<longrightarrow> plain (f x))"
  by (cases v) simp_all

lemma toks_size_simps [simp]:
  "toks_size w [] = 0" "toks_size w (t # ts) = w_tsize w t + toks_size w ts"
  "toks_size w (ts @ us) = toks_size w ts + toks_size w us"
  by (simp_all add: toks_size_def)

lemma toks_size_opt: "toks_size w (opt_tok f v) = opt_size (\<lambda>x. w_tsize w (f x)) v"
  by (cases v) simp_all

lemma toks_size_elem: "t \<in> set ts \<Longrightarrow> w_tsize w t \<le> toks_size w ts"
  by (simp add: toks_size_def member_le_sum_list)

lemma toks_size_map: "toks_size w (map f hs) = sum_list (map (\<lambda>h. w_tsize w (f h)) hs)"
  by (simp add: toks_size_def comp_def)

lemma sum_list_Suc: "sum_list (map (\<lambda>h. Suc (f h)) hs) = length hs + sum_list (map f hs)"
  by (induction hs) simp_all

lemma nested_size:
  assumes "wire_ok w" "1 \<le> n" "n < 16"
  shows "w_tsize w (n, Bytes (w_enc w ts)) = 1 + msg_size w (toks_size w ts)"
  by (simp add: wire_tsize [OF assms] wire_len [OF assms(1)] msg_size_def)

lemma msg_size_ge: "n \<le> msg_size w n"
  by (simp add: msg_size_def)

lemma nested_size_le:
  "h \<in> set hs \<Longrightarrow> f h \<le> sum_list (map (\<lambda>h. msg_size w (f h)) hs)"
  by (rule order_trans [OF msg_size_ge member_le_sum_list]) auto

text \<open>Merging replaces what is set and keeps the rest.\<close>

lemma later_simps [simp]: "later None v = v" "later (Some x) v = Some x" "later v None = v"
  by (simp_all add: later_def split: option.split)

section \<open>A wire format that meets the promises\<close>

text \<open>
  Varints in base 128, least significant group first, the top bit of a byte set when
  another one follows; a field is its number times eight plus its wire type, then its value.
\<close>

function venc :: "nat \<Rightarrow> bytes" where
  "venc n = (if n < 128 then [of_nat n] else of_nat (n mod 128 + 128) # venc (n div 128))"
  by auto
termination by (relation "measure id") auto

declare venc.simps [simp del]

fun vdec :: "bytes \<Rightarrow> (nat \<times> bytes) option" where
  "vdec [] = None"
| "vdec (b # bs) =
    (if unat b < 128 then Some (unat b, bs)
     else (case vdec bs of None \<Rightarrow> None | Some (n, r) \<Rightarrow> Some (unat b - 128 + 128 * n, r)))"

lemma unat8: "n < 256 \<Longrightarrow> unat (of_nat n :: 8 word) = n"
  by (simp add: unat_of_nat)

lemma vdec_venc: "vdec (venc n @ bs) = Some (n, bs)"
proof (induction n rule: venc.induct)
  case (1 n)
  show ?case
  proof (cases "n < 128")
    case False
    have u: "unat (of_nat (n mod 128 + 128) :: 8 word) = n mod 128 + 128" by (rule unat8) simp
    have "vdec (venc n @ bs) = Some (n mod 128 + 128 - 128 + 128 * (n div 128), bs)"
      using False 1 u by (subst venc.simps) (simp only: vdec.simps append_Cons if_False if_True u, simp)
    then show ?thesis by simp
  qed (subst venc.simps, simp add: unat8)
qed

lemma venc_length:
  "n < 128 \<Longrightarrow> length (venc n) = 1"
  "128 \<le> n \<Longrightarrow> length (venc n) = 1 + length (venc (n div 128))"
  by (subst venc.simps, simp)+

lemma venc_pos: "1 \<le> length (venc n)"
  by (subst venc.simps) simp

lemma venc_bound: "n < 128 ^ Suc k \<Longrightarrow> length (venc n) \<le> Suc k"
proof (induction k arbitrary: n)
  case (Suc k)
  show ?case
  proof (cases "n < 128")
    case False
    have "n div 128 < 128 ^ Suc k" using Suc.prems by (simp add: less_mult_imp_div_less)
    from Suc.IH [OF this] False show ?thesis by (simp add: venc_length)
  qed (simp add: venc_length)
qed (simp add: venc_length)

fun tok_enc :: "token \<Rightarrow> bytes" where
  "tok_enc (n, Varint v) = venc (8 * n) @ venc (unat v)"
| "tok_enc (n, Bytes b) = venc (8 * n + 2) @ venc (length b) @ b"
| "tok_enc (n, Other b) = b"
| "tok_enc (n, EndTag) = venc (8 * n + 4)"

fun tok_dec :: "bytes \<Rightarrow> (token \<times> bytes) option" where
  "tok_dec bs =
    (case vdec bs of None \<Rightarrow> None
     | Some (tag, r) \<Rightarrow>
         if tag = 0 \<or> tag mod 8 = 4 then Some ((tag div 8, EndTag), r)
         else (case vdec r of None \<Rightarrow> None
           | Some (n, r') \<Rightarrow>
               if tag mod 8 = 0 then Some ((tag div 8, Varint (of_nat n)), r')
               else if tag mod 8 = 2 \<and> n \<le> length r' then Some ((tag div 8, Bytes (take n r')), drop n r')
               else None))"

primrec lex_fuel :: "nat \<Rightarrow> bytes \<Rightarrow> token list \<times> bool" where
  "lex_fuel 0 bs = ([], bs = [])"
| "lex_fuel (Suc k) bs =
    (if bs = [] then ([], True)
     else (case tok_dec bs of None \<Rightarrow> ([], False)
       | Some (t, r) \<Rightarrow> (let (ts, ok) = lex_fuel k r in (t # ts, ok))))"

definition std_wire :: wire where
  "std_wire = \<lparr>
     w_lex = (\<lambda>bs. lex_fuel (length bs) bs), w_enc = (\<lambda>ts. concat (map tok_enc ts)),
     w_puti = (\<lambda>v. word_of_int (sint v)), w_geti = (\<lambda>v. ucast v),
     w_putu = (\<lambda>v. ucast v), w_getu = (\<lambda>v. ucast v),
     w_putl = (\<lambda>v. word_of_int v), w_getl = (\<lambda>v. sint v),
     w_putn = (\<lambda>v. word_of_int v), w_getn = (\<lambda>v. sint (ucast v :: i32)),
     w_putb = (\<lambda>b. if b then 1 else 0), w_getb = (\<lambda>v. v \<noteq> 0),
     w_vsize = (\<lambda>n. length (venc n)), w_tsize = (\<lambda>t. length (tok_enc t)) \<rparr>"

lemma tok_dec_enc:
  assumes "plain t" "length (tok_enc t) \<le> total_bytes_limit"
  shows "tok_dec (tok_enc t @ bs) = Some (t, bs)"
proof -
  have "(8 * n + 2) mod 8 = 2" "(8 * n + 2) div 8 = n" for n :: nat by presburger+
  then show ?thesis using assms
    by (cases t; cases "snd t") (simp_all add: vdec_venc)
qed

lemma tok_enc_nonempty: "plain t \<Longrightarrow> tok_enc t \<noteq> []"
  using venc_pos by (cases t; cases "snd t") (auto simp: Suc_le_eq)

lemma lex_fuel_enc:
  "list_all plain ts \<Longrightarrow> length (concat (map tok_enc ts)) \<le> total_bytes_limit \<Longrightarrow>
   length ts \<le> k \<Longrightarrow> lex_fuel k (concat (map tok_enc ts)) = (ts, True)"
proof (induction ts arbitrary: k)
  case Nil
  then show ?case by (cases k) simp_all
next
  case (Cons t ts)
  then obtain k' where "k = Suc k'" by (cases k) auto
  with Cons show ?case
    by (simp del: tok_dec.simps add: tok_enc_nonempty tok_dec_enc)
qed

lemma length_le_enc: "list_all plain ts \<Longrightarrow> length ts \<le> length (concat (map tok_enc ts))"
proof (induction ts)
  case (Cons t ts)
  then have "1 \<le> length (tok_enc t)" using tok_enc_nonempty by (simp add: Suc_le_eq)
  with Cons show ?case by simp
qed simp

lemma std_get:
  "w_geti std_wire (w_puti std_wire i) = i" "w_getu std_wire (w_putu std_wire u) = u"
  "- (2 ^ 63) \<le> l \<Longrightarrow> l < 2 ^ 63 \<Longrightarrow> w_getl std_wire (w_putl std_wire l) = l"
  "- (2 ^ 31) \<le> n \<Longrightarrow> n < 2 ^ 31 \<Longrightarrow> w_getn std_wire (w_putn std_wire n) = n"
proof -
  show "w_geti std_wire (w_puti std_wire i) = i"
    by (simp add: std_wire_def) (rule bit_word_eqI, auto simp: bit_simps min_def intro!: arg_cong [where f = "bit i"])
  show "w_getu std_wire (w_putu std_wire u) = u"
    by (simp add: std_wire_def) (rule bit_word_eqI, simp add: bit_simps)
  show "w_getl std_wire (w_putl std_wire l) = l" if "- (2 ^ 63) \<le> l" "l < 2 ^ 63"
    using that by (simp add: std_wire_def sint_sbintrunc' signed_take_bit_int_eq_self)
  have "(ucast (word_of_int n :: u64) :: i32) = word_of_int n" by (rule bit_word_eqI) (auto simp: bit_simps)
  then show "w_getn std_wire (w_putn std_wire n) = n" if "- (2 ^ 31) \<le> n" "n < 2 ^ 31"
    using that by (simp add: std_wire_def sint_sbintrunc' signed_take_bit_int_eq_self)
qed

theorem std_wire_ok: "wire_ok std_wire"
proof -
  have b: "w_vsize std_wire n \<le> 10" if "n < 2 ^ 64" for n
    using venc_bound [of n 9] that by (simp add: std_wire_def)
  have l: "w_lex std_wire (w_enc std_wire ts) = (ts, True)"
    if "list_all plain ts" "toks_size std_wire ts \<le> total_bytes_limit" for ts
    using that lex_fuel_enc [of ts] length_le_enc [of ts]
    by (simp add: std_wire_def toks_size_def length_concat comp_def)
  show ?thesis unfolding wire_ok_def
    by (intro conjI allI impI b l std_get)
      (auto simp: std_wire_def toks_size_def length_concat comp_def venc_length venc_pos [simplified])
qed

end
