(* ===== verification/ElbCodec.thy ===== *)
theory ElbCodec
  imports ElbWire
begin

text \<open>
  The twelve message classes generated from \<open>elb.proto\<close>, one group of definitions each:
  the object (a field with its has-bit as an option, the fields of unknown number as they
  came), \<open>Clear\<close>, the step and the loop of \<open>MergePartialFromCodedStream\<close>,
  \<open>SerializeWithCachedSizes\<close>, \<open>ByteSize\<close>, \<open>IsInitialized\<close>, \<open>MergeFrom\<close>, \<open>CopyFrom\<close> and \<open>Swap\<close>,
  then what the accessors read of it and what the setters make. A field of a known number
  with another wire type than declared is kept as unknown, as the generated code does.
\<close>

section \<open>Message classes\<close>

subsection \<open>\<open>HostAddr\<close>\<close>

record HostAddr_m =
  mha_ip :: "i32 option"
  mha_port :: "i32 option"
  mha_unknown :: "token list"

definition HostAddr_Clear :: HostAddr_m where
  "HostAddr_Clear = \<lparr> mha_ip = None, mha_port = None, mha_unknown = [] \<rparr>"

definition HostAddr_field :: "wire \<Rightarrow> token \<Rightarrow> HostAddr_m \<Rightarrow> HostAddr_m \<times> bool" where
  "HostAddr_field w t m =
    (case t of
       (n, Varint v) \<Rightarrow>
         (if n = 1 then (m\<lparr>mha_ip := Some (w_geti w v)\<rparr>, True)
          else if n = 2 then (m\<lparr>mha_port := Some (w_geti w v)\<rparr>, True)
          else (m\<lparr>mha_unknown := mha_unknown m @ [t]\<rparr>, True))
     | _ \<Rightarrow> (m\<lparr>mha_unknown := mha_unknown m @ [t]\<rparr>, True))"

definition HostAddr_merge :: "wire \<Rightarrow> bytes \<Rightarrow> HostAddr_m \<Rightarrow> HostAddr_m \<times> bool" where
  "HostAddr_merge w = merge_bytes w (HostAddr_field w)"

definition HostAddr_ser :: "wire \<Rightarrow> HostAddr_m \<Rightarrow> token list" where
  "HostAddr_ser w m =
     opt_tok (\<lambda>v. (1, Varint (w_puti w v))) (mha_ip m)
     @ opt_tok (\<lambda>v. (2, Varint (w_puti w v))) (mha_port m)
     @ mha_unknown m"

definition HostAddr_size :: "wire \<Rightarrow> HostAddr_m \<Rightarrow> nat" where
  "HostAddr_size w m =
     opt_size (\<lambda>v. 1 + w_vsize w (unat (w_puti w v))) (mha_ip m)
     + opt_size (\<lambda>v. 1 + w_vsize w (unat (w_puti w v))) (mha_port m)
     + sum_list (map (w_tsize w) (mha_unknown m))"

definition HostAddr_init :: "HostAddr_m \<Rightarrow> bool" where
  "HostAddr_init m \<longleftrightarrow>
     mha_ip m \<noteq> None \<and>
     mha_port m \<noteq> None"

definition HostAddr_MergeFrom :: "HostAddr_m \<Rightarrow> HostAddr_m \<Rightarrow> HostAddr_m" where
  "HostAddr_MergeFrom src dst = dst\<lparr>
       mha_ip := later (mha_ip src) (mha_ip dst),
       mha_port := later (mha_port src) (mha_port dst),
       mha_unknown := mha_unknown dst @ mha_unknown src \<rparr>"

definition HostAddr_CopyFrom :: "HostAddr_m \<Rightarrow> HostAddr_m \<Rightarrow> HostAddr_m" where
  "HostAddr_CopyFrom src dst = HostAddr_MergeFrom src HostAddr_Clear"

definition HostAddr_Swap :: "HostAddr_m \<Rightarrow> HostAddr_m \<Rightarrow> HostAddr_m \<times> HostAddr_m" where
  "HostAddr_Swap this other =
    (this\<lparr> mha_ip := mha_ip other, mha_port := mha_port other, mha_unknown := mha_unknown other \<rparr>,
     other\<lparr> mha_ip := mha_ip this, mha_port := mha_port this, mha_unknown := mha_unknown this \<rparr>)"

lemma HostAddr_Swap [simp]: "HostAddr_Swap a b = (b, a)"
  by (simp add: HostAddr_Swap_def)

definition HostAddr_parse :: "wire \<Rightarrow> bytes \<Rightarrow> HostAddr_m \<times> bool" where
  "HostAddr_parse w b = (let (m, ok) = HostAddr_merge w b HostAddr_Clear in (m, ok \<and> HostAddr_init m))"

definition HostAddr_of :: "HostAddr_m \<Rightarrow> HostAddr" where
  "HostAddr_of m =
    \<lparr> ha_ip = (case mha_ip m of None \<Rightarrow> 0 | Some v \<Rightarrow> v),
      ha_port = (case mha_port m of None \<Rightarrow> 0 | Some v \<Rightarrow> v) \<rparr>"

definition HostAddr_to :: "HostAddr \<Rightarrow> HostAddr_m" where
  "HostAddr_to x =
    \<lparr> mha_ip = Some (ha_ip x),
      mha_port = Some (ha_port x), mha_unknown = [] \<rparr>"

definition HostAddr_bytes :: "wire \<Rightarrow> HostAddr \<Rightarrow> bytes" where
  "HostAddr_bytes w x = w_enc w (HostAddr_ser w (HostAddr_to x))"

lemma HostAddr_size_ok: "wire_ok w \<Longrightarrow> toks_size w (HostAddr_ser w m) = HostAddr_size w m"
  by (simp add: HostAddr_ser_def HostAddr_size_def toks_size_opt toks_size_map wire_tsize(1) wire_get nested_size
      sum_list_Suc flip: toks_size_def)

lemma HostAddr_to_simps [simp]: "HostAddr_of (HostAddr_to x) = x" "HostAddr_init (HostAddr_to x)"
  by (simp_all add: HostAddr_of_def HostAddr_to_def HostAddr_init_def list_all_iff comp_def option.map_comp option.map_ident
      split: option.split)

lemma HostAddr_plain [simp]: "list_all plain (HostAddr_ser w (HostAddr_to x))"
  by (simp add: HostAddr_to_def HostAddr_ser_def plain_opt list.pred_map comp_def list.pred_True)

lemma HostAddr_CopyFrom [simp]: "HostAddr_CopyFrom src dst = src"
  by (simp add: HostAddr_CopyFrom_def HostAddr_MergeFrom_def HostAddr_Clear_def split: option.split)

lemma HostAddr_parse_bytes:
  assumes "wire_ok w" "HostAddr_size w (HostAddr_to x) \<le> total_bytes_limit"
  shows "HostAddr_merge w (HostAddr_bytes w x) HostAddr_Clear = (HostAddr_to x, True)" "HostAddr_parse w (HostAddr_bytes w x) = (HostAddr_to x, True)"
proof -
  have "HostAddr_merge w (HostAddr_bytes w x) HostAddr_Clear = merge_toks (HostAddr_field w) (HostAddr_ser w (HostAddr_to x)) HostAddr_Clear"
    using assms by (simp add: HostAddr_merge_def HostAddr_bytes_def merge_bytes_enc HostAddr_size_ok)
  also have "\<dots> = (HostAddr_to x, True)"
    using assms by (simp_all add: HostAddr_ser_def HostAddr_to_def HostAddr_field_def HostAddr_Clear_def wire_get comp_def)
  finally show "HostAddr_merge w (HostAddr_bytes w x) HostAddr_Clear = (HostAddr_to x, True)" .
  then show "HostAddr_parse w (HostAddr_bytes w x) = (HostAddr_to x, True)" by (simp add: HostAddr_parse_def)
qed

subsection \<open>\<open>HostCallResult\<close>\<close>

record HostCallResult_m =
  mhc_ip :: "i32 option"
  mhc_port :: "i32 option"
  mhc_succ :: "u32 option"
  mhc_err :: "u32 option"
  mhc_overload :: "bool option"
  mhc_unknown :: "token list"

definition HostCallResult_Clear :: HostCallResult_m where
  "HostCallResult_Clear = \<lparr> mhc_ip = None, mhc_port = None, mhc_succ = None, mhc_err = None, mhc_overload = None, mhc_unknown = [] \<rparr>"

definition HostCallResult_field :: "wire \<Rightarrow> token \<Rightarrow> HostCallResult_m \<Rightarrow> HostCallResult_m \<times> bool" where
  "HostCallResult_field w t m =
    (case t of
       (n, Varint v) \<Rightarrow>
         (if n = 1 then (m\<lparr>mhc_ip := Some (w_geti w v)\<rparr>, True)
          else if n = 2 then (m\<lparr>mhc_port := Some (w_geti w v)\<rparr>, True)
          else if n = 3 then (m\<lparr>mhc_succ := Some (w_getu w v)\<rparr>, True)
          else if n = 4 then (m\<lparr>mhc_err := Some (w_getu w v)\<rparr>, True)
          else if n = 5 then (m\<lparr>mhc_overload := Some (w_getb w v)\<rparr>, True)
          else (m\<lparr>mhc_unknown := mhc_unknown m @ [t]\<rparr>, True))
     | _ \<Rightarrow> (m\<lparr>mhc_unknown := mhc_unknown m @ [t]\<rparr>, True))"

definition HostCallResult_merge :: "wire \<Rightarrow> bytes \<Rightarrow> HostCallResult_m \<Rightarrow> HostCallResult_m \<times> bool" where
  "HostCallResult_merge w = merge_bytes w (HostCallResult_field w)"

definition HostCallResult_ser :: "wire \<Rightarrow> HostCallResult_m \<Rightarrow> token list" where
  "HostCallResult_ser w m =
     opt_tok (\<lambda>v. (1, Varint (w_puti w v))) (mhc_ip m)
     @ opt_tok (\<lambda>v. (2, Varint (w_puti w v))) (mhc_port m)
     @ opt_tok (\<lambda>v. (3, Varint (w_putu w v))) (mhc_succ m)
     @ opt_tok (\<lambda>v. (4, Varint (w_putu w v))) (mhc_err m)
     @ opt_tok (\<lambda>v. (5, Varint (w_putb w v))) (mhc_overload m)
     @ mhc_unknown m"

definition HostCallResult_size :: "wire \<Rightarrow> HostCallResult_m \<Rightarrow> nat" where
  "HostCallResult_size w m =
     opt_size (\<lambda>v. 1 + w_vsize w (unat (w_puti w v))) (mhc_ip m)
     + opt_size (\<lambda>v. 1 + w_vsize w (unat (w_puti w v))) (mhc_port m)
     + opt_size (\<lambda>v. 1 + w_vsize w (unat (w_putu w v))) (mhc_succ m)
     + opt_size (\<lambda>v. 1 + w_vsize w (unat (w_putu w v))) (mhc_err m)
     + opt_size (\<lambda>v. 1 + 1) (mhc_overload m)
     + sum_list (map (w_tsize w) (mhc_unknown m))"

definition HostCallResult_init :: "HostCallResult_m \<Rightarrow> bool" where
  "HostCallResult_init m \<longleftrightarrow>
     mhc_ip m \<noteq> None \<and>
     mhc_port m \<noteq> None \<and>
     mhc_succ m \<noteq> None \<and>
     mhc_err m \<noteq> None \<and>
     mhc_overload m \<noteq> None"

definition HostCallResult_MergeFrom :: "HostCallResult_m \<Rightarrow> HostCallResult_m \<Rightarrow> HostCallResult_m" where
  "HostCallResult_MergeFrom src dst = dst\<lparr>
       mhc_ip := later (mhc_ip src) (mhc_ip dst),
       mhc_port := later (mhc_port src) (mhc_port dst),
       mhc_succ := later (mhc_succ src) (mhc_succ dst),
       mhc_err := later (mhc_err src) (mhc_err dst),
       mhc_overload := later (mhc_overload src) (mhc_overload dst),
       mhc_unknown := mhc_unknown dst @ mhc_unknown src \<rparr>"

definition HostCallResult_CopyFrom :: "HostCallResult_m \<Rightarrow> HostCallResult_m \<Rightarrow> HostCallResult_m" where
  "HostCallResult_CopyFrom src dst = HostCallResult_MergeFrom src HostCallResult_Clear"

definition HostCallResult_Swap :: "HostCallResult_m \<Rightarrow> HostCallResult_m \<Rightarrow> HostCallResult_m \<times> HostCallResult_m" where
  "HostCallResult_Swap this other =
    (this\<lparr> mhc_ip := mhc_ip other, mhc_port := mhc_port other, mhc_succ := mhc_succ other, mhc_err := mhc_err other, mhc_overload := mhc_overload other, mhc_unknown := mhc_unknown other \<rparr>,
     other\<lparr> mhc_ip := mhc_ip this, mhc_port := mhc_port this, mhc_succ := mhc_succ this, mhc_err := mhc_err this, mhc_overload := mhc_overload this, mhc_unknown := mhc_unknown this \<rparr>)"

lemma HostCallResult_Swap [simp]: "HostCallResult_Swap a b = (b, a)"
  by (simp add: HostCallResult_Swap_def)

definition HostCallResult_parse :: "wire \<Rightarrow> bytes \<Rightarrow> HostCallResult_m \<times> bool" where
  "HostCallResult_parse w b = (let (m, ok) = HostCallResult_merge w b HostCallResult_Clear in (m, ok \<and> HostCallResult_init m))"

definition HostCallResult_of :: "HostCallResult_m \<Rightarrow> HostCallResult" where
  "HostCallResult_of m =
    \<lparr> hcr_ip = (case mhc_ip m of None \<Rightarrow> 0 | Some v \<Rightarrow> v),
      hcr_port = (case mhc_port m of None \<Rightarrow> 0 | Some v \<Rightarrow> v),
      hcr_succ = (case mhc_succ m of None \<Rightarrow> 0 | Some v \<Rightarrow> v),
      hcr_err = (case mhc_err m of None \<Rightarrow> 0 | Some v \<Rightarrow> v),
      hcr_overload = (case mhc_overload m of None \<Rightarrow> False | Some v \<Rightarrow> v) \<rparr>"

definition HostCallResult_to :: "HostCallResult \<Rightarrow> HostCallResult_m" where
  "HostCallResult_to x =
    \<lparr> mhc_ip = Some (hcr_ip x),
      mhc_port = Some (hcr_port x),
      mhc_succ = Some (hcr_succ x),
      mhc_err = Some (hcr_err x),
      mhc_overload = Some (hcr_overload x), mhc_unknown = [] \<rparr>"

definition HostCallResult_bytes :: "wire \<Rightarrow> HostCallResult \<Rightarrow> bytes" where
  "HostCallResult_bytes w x = w_enc w (HostCallResult_ser w (HostCallResult_to x))"

lemma HostCallResult_size_ok: "wire_ok w \<Longrightarrow> toks_size w (HostCallResult_ser w m) = HostCallResult_size w m"
  by (simp add: HostCallResult_ser_def HostCallResult_size_def toks_size_opt toks_size_map wire_tsize(1) wire_get nested_size
      sum_list_Suc flip: toks_size_def)

lemma HostCallResult_to_simps [simp]: "HostCallResult_of (HostCallResult_to x) = x" "HostCallResult_init (HostCallResult_to x)"
  by (simp_all add: HostCallResult_of_def HostCallResult_to_def HostCallResult_init_def list_all_iff comp_def option.map_comp option.map_ident
      split: option.split)

lemma HostCallResult_plain [simp]: "list_all plain (HostCallResult_ser w (HostCallResult_to x))"
  by (simp add: HostCallResult_to_def HostCallResult_ser_def plain_opt list.pred_map comp_def list.pred_True)

lemma HostCallResult_CopyFrom [simp]: "HostCallResult_CopyFrom src dst = src"
  by (simp add: HostCallResult_CopyFrom_def HostCallResult_MergeFrom_def HostCallResult_Clear_def split: option.split)

lemma HostCallResult_parse_bytes:
  assumes "wire_ok w" "HostCallResult_size w (HostCallResult_to x) \<le> total_bytes_limit"
  shows "HostCallResult_merge w (HostCallResult_bytes w x) HostCallResult_Clear = (HostCallResult_to x, True)" "HostCallResult_parse w (HostCallResult_bytes w x) = (HostCallResult_to x, True)"
proof -
  have "HostCallResult_merge w (HostCallResult_bytes w x) HostCallResult_Clear = merge_toks (HostCallResult_field w) (HostCallResult_ser w (HostCallResult_to x)) HostCallResult_Clear"
    using assms by (simp add: HostCallResult_merge_def HostCallResult_bytes_def merge_bytes_enc HostCallResult_size_ok)
  also have "\<dots> = (HostCallResult_to x, True)"
    using assms by (simp_all add: HostCallResult_ser_def HostCallResult_to_def HostCallResult_field_def HostCallResult_Clear_def wire_get comp_def)
  finally show "HostCallResult_merge w (HostCallResult_bytes w x) HostCallResult_Clear = (HostCallResult_to x, True)" .
  then show "HostCallResult_parse w (HostCallResult_bytes w x) = (HostCallResult_to x, True)" by (simp add: HostCallResult_parse_def)
qed

subsection \<open>\<open>HostBatchCallRes\<close>\<close>

record HostBatchCallRes_m =
  mhb_ip :: "i32 option"
  mhb_port :: "i32 option"
  mhb_succcnt :: "u32 option"
  mhb_unknown :: "token list"

definition HostBatchCallRes_Clear :: HostBatchCallRes_m where
  "HostBatchCallRes_Clear = \<lparr> mhb_ip = None, mhb_port = None, mhb_succcnt = None, mhb_unknown = [] \<rparr>"

definition HostBatchCallRes_field :: "wire \<Rightarrow> token \<Rightarrow> HostBatchCallRes_m \<Rightarrow> HostBatchCallRes_m \<times> bool" where
  "HostBatchCallRes_field w t m =
    (case t of
       (n, Varint v) \<Rightarrow>
         (if n = 1 then (m\<lparr>mhb_ip := Some (w_geti w v)\<rparr>, True)
          else if n = 2 then (m\<lparr>mhb_port := Some (w_geti w v)\<rparr>, True)
          else if n = 3 then (m\<lparr>mhb_succcnt := Some (w_getu w v)\<rparr>, True)
          else (m\<lparr>mhb_unknown := mhb_unknown m @ [t]\<rparr>, True))
     | _ \<Rightarrow> (m\<lparr>mhb_unknown := mhb_unknown m @ [t]\<rparr>, True))"

definition HostBatchCallRes_merge :: "wire \<Rightarrow> bytes \<Rightarrow> HostBatchCallRes_m \<Rightarrow> HostBatchCallRes_m \<times> bool" where
  "HostBatchCallRes_merge w = merge_bytes w (HostBatchCallRes_field w)"

definition HostBatchCallRes_ser :: "wire \<Rightarrow> HostBatchCallRes_m \<Rightarrow> token list" where
  "HostBatchCallRes_ser w m =
     opt_tok (\<lambda>v. (1, Varint (w_puti w v))) (mhb_ip m)
     @ opt_tok (\<lambda>v. (2, Varint (w_puti w v))) (mhb_port m)
     @ opt_tok (\<lambda>v. (3, Varint (w_putu w v))) (mhb_succcnt m)
     @ mhb_unknown m"

definition HostBatchCallRes_size :: "wire \<Rightarrow> HostBatchCallRes_m \<Rightarrow> nat" where
  "HostBatchCallRes_size w m =
     opt_size (\<lambda>v. 1 + w_vsize w (unat (w_puti w v))) (mhb_ip m)
     + opt_size (\<lambda>v. 1 + w_vsize w (unat (w_puti w v))) (mhb_port m)
     + opt_size (\<lambda>v. 1 + w_vsize w (unat (w_putu w v))) (mhb_succcnt m)
     + sum_list (map (w_tsize w) (mhb_unknown m))"

definition HostBatchCallRes_init :: "HostBatchCallRes_m \<Rightarrow> bool" where
  "HostBatchCallRes_init m \<longleftrightarrow>
     mhb_ip m \<noteq> None \<and>
     mhb_port m \<noteq> None \<and>
     mhb_succcnt m \<noteq> None"

definition HostBatchCallRes_MergeFrom :: "HostBatchCallRes_m \<Rightarrow> HostBatchCallRes_m \<Rightarrow> HostBatchCallRes_m" where
  "HostBatchCallRes_MergeFrom src dst = dst\<lparr>
       mhb_ip := later (mhb_ip src) (mhb_ip dst),
       mhb_port := later (mhb_port src) (mhb_port dst),
       mhb_succcnt := later (mhb_succcnt src) (mhb_succcnt dst),
       mhb_unknown := mhb_unknown dst @ mhb_unknown src \<rparr>"

definition HostBatchCallRes_CopyFrom :: "HostBatchCallRes_m \<Rightarrow> HostBatchCallRes_m \<Rightarrow> HostBatchCallRes_m" where
  "HostBatchCallRes_CopyFrom src dst = HostBatchCallRes_MergeFrom src HostBatchCallRes_Clear"

definition HostBatchCallRes_Swap :: "HostBatchCallRes_m \<Rightarrow> HostBatchCallRes_m \<Rightarrow> HostBatchCallRes_m \<times> HostBatchCallRes_m" where
  "HostBatchCallRes_Swap this other =
    (this\<lparr> mhb_ip := mhb_ip other, mhb_port := mhb_port other, mhb_succcnt := mhb_succcnt other, mhb_unknown := mhb_unknown other \<rparr>,
     other\<lparr> mhb_ip := mhb_ip this, mhb_port := mhb_port this, mhb_succcnt := mhb_succcnt this, mhb_unknown := mhb_unknown this \<rparr>)"

lemma HostBatchCallRes_Swap [simp]: "HostBatchCallRes_Swap a b = (b, a)"
  by (simp add: HostBatchCallRes_Swap_def)

definition HostBatchCallRes_parse :: "wire \<Rightarrow> bytes \<Rightarrow> HostBatchCallRes_m \<times> bool" where
  "HostBatchCallRes_parse w b = (let (m, ok) = HostBatchCallRes_merge w b HostBatchCallRes_Clear in (m, ok \<and> HostBatchCallRes_init m))"

definition HostBatchCallRes_of :: "HostBatchCallRes_m \<Rightarrow> HostBatchCallRes" where
  "HostBatchCallRes_of m =
    \<lparr> hbc_ip = (case mhb_ip m of None \<Rightarrow> 0 | Some v \<Rightarrow> v),
      hbc_port = (case mhb_port m of None \<Rightarrow> 0 | Some v \<Rightarrow> v),
      hbc_succcnt = (case mhb_succcnt m of None \<Rightarrow> 0 | Some v \<Rightarrow> v) \<rparr>"

definition HostBatchCallRes_to :: "HostBatchCallRes \<Rightarrow> HostBatchCallRes_m" where
  "HostBatchCallRes_to x =
    \<lparr> mhb_ip = Some (hbc_ip x),
      mhb_port = Some (hbc_port x),
      mhb_succcnt = Some (hbc_succcnt x), mhb_unknown = [] \<rparr>"

definition HostBatchCallRes_bytes :: "wire \<Rightarrow> HostBatchCallRes \<Rightarrow> bytes" where
  "HostBatchCallRes_bytes w x = w_enc w (HostBatchCallRes_ser w (HostBatchCallRes_to x))"

lemma HostBatchCallRes_size_ok: "wire_ok w \<Longrightarrow> toks_size w (HostBatchCallRes_ser w m) = HostBatchCallRes_size w m"
  by (simp add: HostBatchCallRes_ser_def HostBatchCallRes_size_def toks_size_opt toks_size_map wire_tsize(1) wire_get nested_size
      sum_list_Suc flip: toks_size_def)

lemma HostBatchCallRes_to_simps [simp]: "HostBatchCallRes_of (HostBatchCallRes_to x) = x" "HostBatchCallRes_init (HostBatchCallRes_to x)"
  by (simp_all add: HostBatchCallRes_of_def HostBatchCallRes_to_def HostBatchCallRes_init_def list_all_iff comp_def option.map_comp option.map_ident
      split: option.split)

lemma HostBatchCallRes_plain [simp]: "list_all plain (HostBatchCallRes_ser w (HostBatchCallRes_to x))"
  by (simp add: HostBatchCallRes_to_def HostBatchCallRes_ser_def plain_opt list.pred_map comp_def list.pred_True)

lemma HostBatchCallRes_CopyFrom [simp]: "HostBatchCallRes_CopyFrom src dst = src"
  by (simp add: HostBatchCallRes_CopyFrom_def HostBatchCallRes_MergeFrom_def HostBatchCallRes_Clear_def split: option.split)

lemma HostBatchCallRes_parse_bytes:
  assumes "wire_ok w" "HostBatchCallRes_size w (HostBatchCallRes_to x) \<le> total_bytes_limit"
  shows "HostBatchCallRes_merge w (HostBatchCallRes_bytes w x) HostBatchCallRes_Clear = (HostBatchCallRes_to x, True)" "HostBatchCallRes_parse w (HostBatchCallRes_bytes w x) = (HostBatchCallRes_to x, True)"
proof -
  have "HostBatchCallRes_merge w (HostBatchCallRes_bytes w x) HostBatchCallRes_Clear = merge_toks (HostBatchCallRes_field w) (HostBatchCallRes_ser w (HostBatchCallRes_to x)) HostBatchCallRes_Clear"
    using assms by (simp add: HostBatchCallRes_merge_def HostBatchCallRes_bytes_def merge_bytes_enc HostBatchCallRes_size_ok)
  also have "\<dots> = (HostBatchCallRes_to x, True)"
    using assms by (simp_all add: HostBatchCallRes_ser_def HostBatchCallRes_to_def HostBatchCallRes_field_def HostBatchCallRes_Clear_def wire_get comp_def)
  finally show "HostBatchCallRes_merge w (HostBatchCallRes_bytes w x) HostBatchCallRes_Clear = (HostBatchCallRes_to x, True)" .
  then show "HostBatchCallRes_parse w (HostBatchCallRes_bytes w x) = (HostBatchCallRes_to x, True)" by (simp add: HostBatchCallRes_parse_def)
qed

subsection \<open>\<open>GetHostReq\<close>\<close>

record GetHostReq_m =
  mgq_seq :: "u32 option"
  mgq_modid :: "i32 option"
  mgq_cmdid :: "i32 option"
  mgq_unknown :: "token list"

definition GetHostReq_Clear :: GetHostReq_m where
  "GetHostReq_Clear = \<lparr> mgq_seq = None, mgq_modid = None, mgq_cmdid = None, mgq_unknown = [] \<rparr>"

definition GetHostReq_field :: "wire \<Rightarrow> token \<Rightarrow> GetHostReq_m \<Rightarrow> GetHostReq_m \<times> bool" where
  "GetHostReq_field w t m =
    (case t of
       (n, Varint v) \<Rightarrow>
         (if n = 1 then (m\<lparr>mgq_seq := Some (w_getu w v)\<rparr>, True)
          else if n = 2 then (m\<lparr>mgq_modid := Some (w_geti w v)\<rparr>, True)
          else if n = 3 then (m\<lparr>mgq_cmdid := Some (w_geti w v)\<rparr>, True)
          else (m\<lparr>mgq_unknown := mgq_unknown m @ [t]\<rparr>, True))
     | _ \<Rightarrow> (m\<lparr>mgq_unknown := mgq_unknown m @ [t]\<rparr>, True))"

definition GetHostReq_merge :: "wire \<Rightarrow> bytes \<Rightarrow> GetHostReq_m \<Rightarrow> GetHostReq_m \<times> bool" where
  "GetHostReq_merge w = merge_bytes w (GetHostReq_field w)"

definition GetHostReq_ser :: "wire \<Rightarrow> GetHostReq_m \<Rightarrow> token list" where
  "GetHostReq_ser w m =
     opt_tok (\<lambda>v. (1, Varint (w_putu w v))) (mgq_seq m)
     @ opt_tok (\<lambda>v. (2, Varint (w_puti w v))) (mgq_modid m)
     @ opt_tok (\<lambda>v. (3, Varint (w_puti w v))) (mgq_cmdid m)
     @ mgq_unknown m"

definition GetHostReq_size :: "wire \<Rightarrow> GetHostReq_m \<Rightarrow> nat" where
  "GetHostReq_size w m =
     opt_size (\<lambda>v. 1 + w_vsize w (unat (w_putu w v))) (mgq_seq m)
     + opt_size (\<lambda>v. 1 + w_vsize w (unat (w_puti w v))) (mgq_modid m)
     + opt_size (\<lambda>v. 1 + w_vsize w (unat (w_puti w v))) (mgq_cmdid m)
     + sum_list (map (w_tsize w) (mgq_unknown m))"

definition GetHostReq_init :: "GetHostReq_m \<Rightarrow> bool" where
  "GetHostReq_init m \<longleftrightarrow>
     mgq_seq m \<noteq> None \<and>
     mgq_modid m \<noteq> None \<and>
     mgq_cmdid m \<noteq> None"

definition GetHostReq_MergeFrom :: "GetHostReq_m \<Rightarrow> GetHostReq_m \<Rightarrow> GetHostReq_m" where
  "GetHostReq_MergeFrom src dst = dst\<lparr>
       mgq_seq := later (mgq_seq src) (mgq_seq dst),
       mgq_modid := later (mgq_modid src) (mgq_modid dst),
       mgq_cmdid := later (mgq_cmdid src) (mgq_cmdid dst),
       mgq_unknown := mgq_unknown dst @ mgq_unknown src \<rparr>"

definition GetHostReq_CopyFrom :: "GetHostReq_m \<Rightarrow> GetHostReq_m \<Rightarrow> GetHostReq_m" where
  "GetHostReq_CopyFrom src dst = GetHostReq_MergeFrom src GetHostReq_Clear"

definition GetHostReq_Swap :: "GetHostReq_m \<Rightarrow> GetHostReq_m \<Rightarrow> GetHostReq_m \<times> GetHostReq_m" where
  "GetHostReq_Swap this other =
    (this\<lparr> mgq_seq := mgq_seq other, mgq_modid := mgq_modid other, mgq_cmdid := mgq_cmdid other, mgq_unknown := mgq_unknown other \<rparr>,
     other\<lparr> mgq_seq := mgq_seq this, mgq_modid := mgq_modid this, mgq_cmdid := mgq_cmdid this, mgq_unknown := mgq_unknown this \<rparr>)"

lemma GetHostReq_Swap [simp]: "GetHostReq_Swap a b = (b, a)"
  by (simp add: GetHostReq_Swap_def)

definition GetHostReq_parse :: "wire \<Rightarrow> bytes \<Rightarrow> GetHostReq_m \<times> bool" where
  "GetHostReq_parse w b = (let (m, ok) = GetHostReq_merge w b GetHostReq_Clear in (m, ok \<and> GetHostReq_init m))"

definition GetHostReq_of :: "GetHostReq_m \<Rightarrow> GetHostReq" where
  "GetHostReq_of m =
    \<lparr> ghq_seq = (case mgq_seq m of None \<Rightarrow> 0 | Some v \<Rightarrow> v),
      ghq_modid = (case mgq_modid m of None \<Rightarrow> 0 | Some v \<Rightarrow> v),
      ghq_cmdid = (case mgq_cmdid m of None \<Rightarrow> 0 | Some v \<Rightarrow> v) \<rparr>"

definition GetHostReq_to :: "GetHostReq \<Rightarrow> GetHostReq_m" where
  "GetHostReq_to x =
    \<lparr> mgq_seq = Some (ghq_seq x),
      mgq_modid = Some (ghq_modid x),
      mgq_cmdid = Some (ghq_cmdid x), mgq_unknown = [] \<rparr>"

definition GetHostReq_bytes :: "wire \<Rightarrow> GetHostReq \<Rightarrow> bytes" where
  "GetHostReq_bytes w x = w_enc w (GetHostReq_ser w (GetHostReq_to x))"

lemma GetHostReq_size_ok: "wire_ok w \<Longrightarrow> toks_size w (GetHostReq_ser w m) = GetHostReq_size w m"
  by (simp add: GetHostReq_ser_def GetHostReq_size_def toks_size_opt toks_size_map wire_tsize(1) wire_get nested_size
      sum_list_Suc flip: toks_size_def)

lemma GetHostReq_to_simps [simp]: "GetHostReq_of (GetHostReq_to x) = x" "GetHostReq_init (GetHostReq_to x)"
  by (simp_all add: GetHostReq_of_def GetHostReq_to_def GetHostReq_init_def list_all_iff comp_def option.map_comp option.map_ident
      split: option.split)

lemma GetHostReq_plain [simp]: "list_all plain (GetHostReq_ser w (GetHostReq_to x))"
  by (simp add: GetHostReq_to_def GetHostReq_ser_def plain_opt list.pred_map comp_def list.pred_True)

lemma GetHostReq_CopyFrom [simp]: "GetHostReq_CopyFrom src dst = src"
  by (simp add: GetHostReq_CopyFrom_def GetHostReq_MergeFrom_def GetHostReq_Clear_def split: option.split)

lemma GetHostReq_parse_bytes:
  assumes "wire_ok w" "GetHostReq_size w (GetHostReq_to x) \<le> total_bytes_limit"
  shows "GetHostReq_merge w (GetHostReq_bytes w x) GetHostReq_Clear = (GetHostReq_to x, True)" "GetHostReq_parse w (GetHostReq_bytes w x) = (GetHostReq_to x, True)"
proof -
  have "GetHostReq_merge w (GetHostReq_bytes w x) GetHostReq_Clear = merge_toks (GetHostReq_field w) (GetHostReq_ser w (GetHostReq_to x)) GetHostReq_Clear"
    using assms by (simp add: GetHostReq_merge_def GetHostReq_bytes_def merge_bytes_enc GetHostReq_size_ok)
  also have "\<dots> = (GetHostReq_to x, True)"
    using assms by (simp_all add: GetHostReq_ser_def GetHostReq_to_def GetHostReq_field_def GetHostReq_Clear_def wire_get comp_def)
  finally show "GetHostReq_merge w (GetHostReq_bytes w x) GetHostReq_Clear = (GetHostReq_to x, True)" .
  then show "GetHostReq_parse w (GetHostReq_bytes w x) = (GetHostReq_to x, True)" by (simp add: GetHostReq_parse_def)
qed

subsection \<open>\<open>GetHostRsp\<close>\<close>

record GetHostRsp_m =
  mgr_seq :: "u32 option"
  mgr_modid :: "i32 option"
  mgr_cmdid :: "i32 option"
  mgr_retcode :: "int option"
  mgr_host :: "HostAddr_m option"
  mgr_unknown :: "token list"

definition GetHostRsp_Clear :: GetHostRsp_m where
  "GetHostRsp_Clear = \<lparr> mgr_seq = None, mgr_modid = None, mgr_cmdid = None, mgr_retcode = None, mgr_host = None, mgr_unknown = [] \<rparr>"

definition GetHostRsp_field :: "wire \<Rightarrow> token \<Rightarrow> GetHostRsp_m \<Rightarrow> GetHostRsp_m \<times> bool" where
  "GetHostRsp_field w t m =
    (case t of
       (n, Varint v) \<Rightarrow>
         (if n = 1 then (m\<lparr>mgr_seq := Some (w_getu w v)\<rparr>, True)
          else if n = 2 then (m\<lparr>mgr_modid := Some (w_geti w v)\<rparr>, True)
          else if n = 3 then (m\<lparr>mgr_cmdid := Some (w_geti w v)\<rparr>, True)
          else if n = 4 then (m\<lparr>mgr_retcode := Some (w_getn w v)\<rparr>, True)
          else (m\<lparr>mgr_unknown := mgr_unknown m @ [t]\<rparr>, True))
     | (n, Bytes b) \<Rightarrow>
         (if n = 5 then
            (let (h, ok) = HostAddr_merge w b (case mgr_host m of None \<Rightarrow> HostAddr_Clear | Some h \<Rightarrow> h)
             in (m\<lparr>mgr_host := Some h\<rparr>, ok))
          else (m\<lparr>mgr_unknown := mgr_unknown m @ [t]\<rparr>, True))
     | _ \<Rightarrow> (m\<lparr>mgr_unknown := mgr_unknown m @ [t]\<rparr>, True))"

definition GetHostRsp_merge :: "wire \<Rightarrow> bytes \<Rightarrow> GetHostRsp_m \<Rightarrow> GetHostRsp_m \<times> bool" where
  "GetHostRsp_merge w = merge_bytes w (GetHostRsp_field w)"

definition GetHostRsp_ser :: "wire \<Rightarrow> GetHostRsp_m \<Rightarrow> token list" where
  "GetHostRsp_ser w m =
     opt_tok (\<lambda>v. (1, Varint (w_putu w v))) (mgr_seq m)
     @ opt_tok (\<lambda>v. (2, Varint (w_puti w v))) (mgr_modid m)
     @ opt_tok (\<lambda>v. (3, Varint (w_puti w v))) (mgr_cmdid m)
     @ opt_tok (\<lambda>v. (4, Varint (w_putn w v))) (mgr_retcode m)
     @ opt_tok (\<lambda>h. (5, Bytes (w_enc w (HostAddr_ser w h)))) (mgr_host m)
     @ mgr_unknown m"

definition GetHostRsp_size :: "wire \<Rightarrow> GetHostRsp_m \<Rightarrow> nat" where
  "GetHostRsp_size w m =
     opt_size (\<lambda>v. 1 + w_vsize w (unat (w_putu w v))) (mgr_seq m)
     + opt_size (\<lambda>v. 1 + w_vsize w (unat (w_puti w v))) (mgr_modid m)
     + opt_size (\<lambda>v. 1 + w_vsize w (unat (w_puti w v))) (mgr_cmdid m)
     + opt_size (\<lambda>v. 1 + w_vsize w (unat (w_putn w v))) (mgr_retcode m)
     + opt_size (\<lambda>h. 1 + msg_size w (HostAddr_size w h)) (mgr_host m)
     + sum_list (map (w_tsize w) (mgr_unknown m))"

definition GetHostRsp_init :: "GetHostRsp_m \<Rightarrow> bool" where
  "GetHostRsp_init m \<longleftrightarrow>
     mgr_seq m \<noteq> None \<and>
     mgr_modid m \<noteq> None \<and>
     mgr_cmdid m \<noteq> None \<and>
     mgr_retcode m \<noteq> None \<and>
     (case mgr_host m of None \<Rightarrow> True | Some h \<Rightarrow> HostAddr_init h)"

definition GetHostRsp_MergeFrom :: "GetHostRsp_m \<Rightarrow> GetHostRsp_m \<Rightarrow> GetHostRsp_m" where
  "GetHostRsp_MergeFrom src dst = dst\<lparr>
       mgr_seq := later (mgr_seq src) (mgr_seq dst),
       mgr_modid := later (mgr_modid src) (mgr_modid dst),
       mgr_cmdid := later (mgr_cmdid src) (mgr_cmdid dst),
       mgr_retcode := later (mgr_retcode src) (mgr_retcode dst),
       mgr_host := (case mgr_host src of None \<Rightarrow> mgr_host dst
         | Some h \<Rightarrow> Some (HostAddr_MergeFrom h (case mgr_host dst of None \<Rightarrow> HostAddr_Clear | Some h \<Rightarrow> h))),
       mgr_unknown := mgr_unknown dst @ mgr_unknown src \<rparr>"

definition GetHostRsp_CopyFrom :: "GetHostRsp_m \<Rightarrow> GetHostRsp_m \<Rightarrow> GetHostRsp_m" where
  "GetHostRsp_CopyFrom src dst = GetHostRsp_MergeFrom src GetHostRsp_Clear"

definition GetHostRsp_Swap :: "GetHostRsp_m \<Rightarrow> GetHostRsp_m \<Rightarrow> GetHostRsp_m \<times> GetHostRsp_m" where
  "GetHostRsp_Swap this other =
    (this\<lparr> mgr_seq := mgr_seq other, mgr_modid := mgr_modid other, mgr_cmdid := mgr_cmdid other, mgr_retcode := mgr_retcode other, mgr_host := mgr_host other, mgr_unknown := mgr_unknown other \<rparr>,
     other\<lparr> mgr_seq := mgr_seq this, mgr_modid := mgr_modid this, mgr_cmdid := mgr_cmdid this, mgr_retcode := mgr_retcode this, mgr_host := mgr_host this, mgr_unknown := mgr_unknown this \<rparr>)"

lemma GetHostRsp_Swap [simp]: "GetHostRsp_Swap a b = (b, a)"
  by (simp add: GetHostRsp_Swap_def)

definition GetHostRsp_parse :: "wire \<Rightarrow> bytes \<Rightarrow> GetHostRsp_m \<times> bool" where
  "GetHostRsp_parse w b = (let (m, ok) = GetHostRsp_merge w b GetHostRsp_Clear in (m, ok \<and> GetHostRsp_init m))"

definition GetHostRsp_of :: "GetHostRsp_m \<Rightarrow> GetHostRsp" where
  "GetHostRsp_of m =
    \<lparr> ghr_seq = (case mgr_seq m of None \<Rightarrow> 0 | Some v \<Rightarrow> v),
      ghr_modid = (case mgr_modid m of None \<Rightarrow> 0 | Some v \<Rightarrow> v),
      ghr_cmdid = (case mgr_cmdid m of None \<Rightarrow> 0 | Some v \<Rightarrow> v),
      ghr_retcode = (case mgr_retcode m of None \<Rightarrow> 0 | Some v \<Rightarrow> v),
      ghr_host = map_option HostAddr_of (mgr_host m) \<rparr>"

definition GetHostRsp_to :: "GetHostRsp \<Rightarrow> GetHostRsp_m" where
  "GetHostRsp_to x =
    \<lparr> mgr_seq = Some (ghr_seq x),
      mgr_modid = Some (ghr_modid x),
      mgr_cmdid = Some (ghr_cmdid x),
      mgr_retcode = Some (ghr_retcode x),
      mgr_host = map_option HostAddr_to (ghr_host x), mgr_unknown = [] \<rparr>"

definition GetHostRsp_bytes :: "wire \<Rightarrow> GetHostRsp \<Rightarrow> bytes" where
  "GetHostRsp_bytes w x = w_enc w (GetHostRsp_ser w (GetHostRsp_to x))"

lemma GetHostRsp_size_ok: "wire_ok w \<Longrightarrow> toks_size w (GetHostRsp_ser w m) = GetHostRsp_size w m"
  by (simp add: GetHostRsp_ser_def GetHostRsp_size_def toks_size_opt toks_size_map wire_tsize(1) wire_get nested_size
      sum_list_Suc HostAddr_size_ok flip: toks_size_def)

lemma GetHostRsp_to_simps [simp]: "GetHostRsp_of (GetHostRsp_to x) = x" "GetHostRsp_init (GetHostRsp_to x)"
  by (simp_all add: GetHostRsp_of_def GetHostRsp_to_def GetHostRsp_init_def list_all_iff comp_def option.map_comp option.map_ident
      split: option.split)

lemma GetHostRsp_plain [simp]: "list_all plain (GetHostRsp_ser w (GetHostRsp_to x))"
  by (simp add: GetHostRsp_to_def GetHostRsp_ser_def plain_opt list.pred_map comp_def list.pred_True)

lemma GetHostRsp_CopyFrom [simp]: "GetHostRsp_CopyFrom src dst = src"
  by (simp add: GetHostRsp_CopyFrom_def GetHostRsp_MergeFrom_def GetHostRsp_Clear_def HostAddr_CopyFrom [unfolded HostAddr_CopyFrom_def] split: option.split)

lemma GetHostRsp_parse_bytes:
  assumes "wire_ok w" "- (2 ^ 31) \<le> ghr_retcode x" "ghr_retcode x < 2 ^ 31" "GetHostRsp_size w (GetHostRsp_to x) \<le> total_bytes_limit"
  shows "GetHostRsp_merge w (GetHostRsp_bytes w x) GetHostRsp_Clear = (GetHostRsp_to x, True)" "GetHostRsp_parse w (GetHostRsp_bytes w x) = (GetHostRsp_to x, True)"
proof -
  have s: "HostAddr_size w (HostAddr_to h) \<le> total_bytes_limit" if "ghr_host x = Some h" for h
    using assms that msg_size_ge [of "HostAddr_size w (HostAddr_to h)" w]
    by (simp add: GetHostRsp_size_def GetHostRsp_to_def)
  have m: "HostAddr_merge w (w_enc w (HostAddr_ser w (HostAddr_to h))) HostAddr_Clear = (HostAddr_to h, True)" if "ghr_host x = Some h" for h
    using HostAddr_parse_bytes(1) [OF assms(1) s [OF that]] by (simp add: HostAddr_bytes_def)
  have "GetHostRsp_merge w (GetHostRsp_bytes w x) GetHostRsp_Clear = merge_toks (GetHostRsp_field w) (GetHostRsp_ser w (GetHostRsp_to x)) GetHostRsp_Clear"
    using assms by (simp add: GetHostRsp_merge_def GetHostRsp_bytes_def merge_bytes_enc GetHostRsp_size_ok)
  also have "\<dots> = (GetHostRsp_to x, True)"
    using assms by (cases "ghr_host x") (simp_all add: GetHostRsp_ser_def GetHostRsp_to_def GetHostRsp_field_def GetHostRsp_Clear_def wire_get comp_def m)
  finally show "GetHostRsp_merge w (GetHostRsp_bytes w x) GetHostRsp_Clear = (GetHostRsp_to x, True)" .
  then show "GetHostRsp_parse w (GetHostRsp_bytes w x) = (GetHostRsp_to x, True)" by (simp add: GetHostRsp_parse_def)
qed

subsection \<open>\<open>ReportReq\<close>\<close>

record ReportReq_m =
  mrq_modid :: "i32 option"
  mrq_cmdid :: "i32 option"
  mrq_host :: "HostAddr_m option"
  mrq_retcode :: "i32 option"
  mrq_tcost :: "u32 option"
  mrq_unknown :: "token list"

definition ReportReq_Clear :: ReportReq_m where
  "ReportReq_Clear = \<lparr> mrq_modid = None, mrq_cmdid = None, mrq_host = None, mrq_retcode = None, mrq_tcost = None, mrq_unknown = [] \<rparr>"

definition ReportReq_field :: "wire \<Rightarrow> token \<Rightarrow> ReportReq_m \<Rightarrow> ReportReq_m \<times> bool" where
  "ReportReq_field w t m =
    (case t of
       (n, Varint v) \<Rightarrow>
         (if n = 1 then (m\<lparr>mrq_modid := Some (w_geti w v)\<rparr>, True)
          else if n = 2 then (m\<lparr>mrq_cmdid := Some (w_geti w v)\<rparr>, True)
          else if n = 4 then (m\<lparr>mrq_retcode := Some (w_geti w v)\<rparr>, True)
          else if n = 5 then (m\<lparr>mrq_tcost := Some (w_getu w v)\<rparr>, True)
          else (m\<lparr>mrq_unknown := mrq_unknown m @ [t]\<rparr>, True))
     | (n, Bytes b) \<Rightarrow>
         (if n = 3 then
            (let (h, ok) = HostAddr_merge w b (case mrq_host m of None \<Rightarrow> HostAddr_Clear | Some h \<Rightarrow> h)
             in (m\<lparr>mrq_host := Some h\<rparr>, ok))
          else (m\<lparr>mrq_unknown := mrq_unknown m @ [t]\<rparr>, True))
     | _ \<Rightarrow> (m\<lparr>mrq_unknown := mrq_unknown m @ [t]\<rparr>, True))"

definition ReportReq_merge :: "wire \<Rightarrow> bytes \<Rightarrow> ReportReq_m \<Rightarrow> ReportReq_m \<times> bool" where
  "ReportReq_merge w = merge_bytes w (ReportReq_field w)"

definition ReportReq_ser :: "wire \<Rightarrow> ReportReq_m \<Rightarrow> token list" where
  "ReportReq_ser w m =
     opt_tok (\<lambda>v. (1, Varint (w_puti w v))) (mrq_modid m)
     @ opt_tok (\<lambda>v. (2, Varint (w_puti w v))) (mrq_cmdid m)
     @ opt_tok (\<lambda>h. (3, Bytes (w_enc w (HostAddr_ser w h)))) (mrq_host m)
     @ opt_tok (\<lambda>v. (4, Varint (w_puti w v))) (mrq_retcode m)
     @ opt_tok (\<lambda>v. (5, Varint (w_putu w v))) (mrq_tcost m)
     @ mrq_unknown m"

definition ReportReq_size :: "wire \<Rightarrow> ReportReq_m \<Rightarrow> nat" where
  "ReportReq_size w m =
     opt_size (\<lambda>v. 1 + w_vsize w (unat (w_puti w v))) (mrq_modid m)
     + opt_size (\<lambda>v. 1 + w_vsize w (unat (w_puti w v))) (mrq_cmdid m)
     + opt_size (\<lambda>h. 1 + msg_size w (HostAddr_size w h)) (mrq_host m)
     + opt_size (\<lambda>v. 1 + w_vsize w (unat (w_puti w v))) (mrq_retcode m)
     + opt_size (\<lambda>v. 1 + w_vsize w (unat (w_putu w v))) (mrq_tcost m)
     + sum_list (map (w_tsize w) (mrq_unknown m))"

definition ReportReq_init :: "ReportReq_m \<Rightarrow> bool" where
  "ReportReq_init m \<longleftrightarrow>
     mrq_modid m \<noteq> None \<and>
     mrq_cmdid m \<noteq> None \<and>
     mrq_host m \<noteq> None \<and>
     mrq_retcode m \<noteq> None \<and>
     (case mrq_host m of None \<Rightarrow> True | Some h \<Rightarrow> HostAddr_init h)"

definition ReportReq_MergeFrom :: "ReportReq_m \<Rightarrow> ReportReq_m \<Rightarrow> ReportReq_m" where
  "ReportReq_MergeFrom src dst = dst\<lparr>
       mrq_modid := later (mrq_modid src) (mrq_modid dst),
       mrq_cmdid := later (mrq_cmdid src) (mrq_cmdid dst),
       mrq_host := (case mrq_host src of None \<Rightarrow> mrq_host dst
         | Some h \<Rightarrow> Some (HostAddr_MergeFrom h (case mrq_host dst of None \<Rightarrow> HostAddr_Clear | Some h \<Rightarrow> h))),
       mrq_retcode := later (mrq_retcode src) (mrq_retcode dst),
       mrq_tcost := later (mrq_tcost src) (mrq_tcost dst),
       mrq_unknown := mrq_unknown dst @ mrq_unknown src \<rparr>"

definition ReportReq_CopyFrom :: "ReportReq_m \<Rightarrow> ReportReq_m \<Rightarrow> ReportReq_m" where
  "ReportReq_CopyFrom src dst = ReportReq_MergeFrom src ReportReq_Clear"

definition ReportReq_Swap :: "ReportReq_m \<Rightarrow> ReportReq_m \<Rightarrow> ReportReq_m \<times> ReportReq_m" where
  "ReportReq_Swap this other =
    (this\<lparr> mrq_modid := mrq_modid other, mrq_cmdid := mrq_cmdid other, mrq_host := mrq_host other, mrq_retcode := mrq_retcode other, mrq_tcost := mrq_tcost other, mrq_unknown := mrq_unknown other \<rparr>,
     other\<lparr> mrq_modid := mrq_modid this, mrq_cmdid := mrq_cmdid this, mrq_host := mrq_host this, mrq_retcode := mrq_retcode this, mrq_tcost := mrq_tcost this, mrq_unknown := mrq_unknown this \<rparr>)"

lemma ReportReq_Swap [simp]: "ReportReq_Swap a b = (b, a)"
  by (simp add: ReportReq_Swap_def)

definition ReportReq_parse :: "wire \<Rightarrow> bytes \<Rightarrow> ReportReq_m \<times> bool" where
  "ReportReq_parse w b = (let (m, ok) = ReportReq_merge w b ReportReq_Clear in (m, ok \<and> ReportReq_init m))"

definition ReportReq_of :: "ReportReq_m \<Rightarrow> ReportReq" where
  "ReportReq_of m =
    \<lparr> rq_modid = (case mrq_modid m of None \<Rightarrow> 0 | Some v \<Rightarrow> v),
      rq_cmdid = (case mrq_cmdid m of None \<Rightarrow> 0 | Some v \<Rightarrow> v),
      rq_host = HostAddr_of (case mrq_host m of None \<Rightarrow> HostAddr_Clear | Some h \<Rightarrow> h),
      rq_retcode = (case mrq_retcode m of None \<Rightarrow> 0 | Some v \<Rightarrow> v),
      rq_tcost = mrq_tcost m \<rparr>"

definition ReportReq_to :: "ReportReq \<Rightarrow> ReportReq_m" where
  "ReportReq_to x =
    \<lparr> mrq_modid = Some (rq_modid x),
      mrq_cmdid = Some (rq_cmdid x),
      mrq_host = Some (HostAddr_to (rq_host x)),
      mrq_retcode = Some (rq_retcode x),
      mrq_tcost = rq_tcost x, mrq_unknown = [] \<rparr>"

definition ReportReq_bytes :: "wire \<Rightarrow> ReportReq \<Rightarrow> bytes" where
  "ReportReq_bytes w x = w_enc w (ReportReq_ser w (ReportReq_to x))"

lemma ReportReq_size_ok: "wire_ok w \<Longrightarrow> toks_size w (ReportReq_ser w m) = ReportReq_size w m"
  by (simp add: ReportReq_ser_def ReportReq_size_def toks_size_opt toks_size_map wire_tsize(1) wire_get nested_size
      sum_list_Suc HostAddr_size_ok flip: toks_size_def)

lemma ReportReq_to_simps [simp]: "ReportReq_of (ReportReq_to x) = x" "ReportReq_init (ReportReq_to x)"
  by (simp_all add: ReportReq_of_def ReportReq_to_def ReportReq_init_def list_all_iff comp_def option.map_comp option.map_ident
      split: option.split)

lemma ReportReq_plain [simp]: "list_all plain (ReportReq_ser w (ReportReq_to x))"
  by (simp add: ReportReq_to_def ReportReq_ser_def plain_opt list.pred_map comp_def list.pred_True)

lemma ReportReq_CopyFrom [simp]: "ReportReq_CopyFrom src dst = src"
  by (simp add: ReportReq_CopyFrom_def ReportReq_MergeFrom_def ReportReq_Clear_def HostAddr_CopyFrom [unfolded HostAddr_CopyFrom_def] split: option.split)

lemma ReportReq_parse_bytes:
  assumes "wire_ok w" "ReportReq_size w (ReportReq_to x) \<le> total_bytes_limit"
  shows "ReportReq_merge w (ReportReq_bytes w x) ReportReq_Clear = (ReportReq_to x, True)" "ReportReq_parse w (ReportReq_bytes w x) = (ReportReq_to x, True)"
proof -
  have s: "HostAddr_size w (HostAddr_to h) \<le> total_bytes_limit" if "rq_host x = h" for h
    using assms that msg_size_ge [of "HostAddr_size w (HostAddr_to h)" w]
    by (simp add: ReportReq_size_def ReportReq_to_def)
  have m: "HostAddr_merge w (w_enc w (HostAddr_ser w (HostAddr_to h))) HostAddr_Clear = (HostAddr_to h, True)" if "rq_host x = h" for h
    using HostAddr_parse_bytes(1) [OF assms(1) s [OF that]] by (simp add: HostAddr_bytes_def)
  have "ReportReq_merge w (ReportReq_bytes w x) ReportReq_Clear = merge_toks (ReportReq_field w) (ReportReq_ser w (ReportReq_to x)) ReportReq_Clear"
    using assms by (simp add: ReportReq_merge_def ReportReq_bytes_def merge_bytes_enc ReportReq_size_ok)
  also have "\<dots> = (ReportReq_to x, True)"
    using assms by (cases "rq_tcost x") (simp_all add: ReportReq_ser_def ReportReq_to_def ReportReq_field_def ReportReq_Clear_def wire_get comp_def m)
  finally show "ReportReq_merge w (ReportReq_bytes w x) ReportReq_Clear = (ReportReq_to x, True)" .
  then show "ReportReq_parse w (ReportReq_bytes w x) = (ReportReq_to x, True)" by (simp add: ReportReq_parse_def)
qed

subsection \<open>\<open>GetRouteReq\<close>\<close>

record GetRouteReq_m =
  mtq_modid :: "i32 option"
  mtq_cmdid :: "i32 option"
  mtq_unknown :: "token list"

definition GetRouteReq_Clear :: GetRouteReq_m where
  "GetRouteReq_Clear = \<lparr> mtq_modid = None, mtq_cmdid = None, mtq_unknown = [] \<rparr>"

definition GetRouteReq_field :: "wire \<Rightarrow> token \<Rightarrow> GetRouteReq_m \<Rightarrow> GetRouteReq_m \<times> bool" where
  "GetRouteReq_field w t m =
    (case t of
       (n, Varint v) \<Rightarrow>
         (if n = 1 then (m\<lparr>mtq_modid := Some (w_geti w v)\<rparr>, True)
          else if n = 2 then (m\<lparr>mtq_cmdid := Some (w_geti w v)\<rparr>, True)
          else (m\<lparr>mtq_unknown := mtq_unknown m @ [t]\<rparr>, True))
     | _ \<Rightarrow> (m\<lparr>mtq_unknown := mtq_unknown m @ [t]\<rparr>, True))"

definition GetRouteReq_merge :: "wire \<Rightarrow> bytes \<Rightarrow> GetRouteReq_m \<Rightarrow> GetRouteReq_m \<times> bool" where
  "GetRouteReq_merge w = merge_bytes w (GetRouteReq_field w)"

definition GetRouteReq_ser :: "wire \<Rightarrow> GetRouteReq_m \<Rightarrow> token list" where
  "GetRouteReq_ser w m =
     opt_tok (\<lambda>v. (1, Varint (w_puti w v))) (mtq_modid m)
     @ opt_tok (\<lambda>v. (2, Varint (w_puti w v))) (mtq_cmdid m)
     @ mtq_unknown m"

definition GetRouteReq_size :: "wire \<Rightarrow> GetRouteReq_m \<Rightarrow> nat" where
  "GetRouteReq_size w m =
     opt_size (\<lambda>v. 1 + w_vsize w (unat (w_puti w v))) (mtq_modid m)
     + opt_size (\<lambda>v. 1 + w_vsize w (unat (w_puti w v))) (mtq_cmdid m)
     + sum_list (map (w_tsize w) (mtq_unknown m))"

definition GetRouteReq_init :: "GetRouteReq_m \<Rightarrow> bool" where
  "GetRouteReq_init m \<longleftrightarrow>
     mtq_modid m \<noteq> None \<and>
     mtq_cmdid m \<noteq> None"

definition GetRouteReq_MergeFrom :: "GetRouteReq_m \<Rightarrow> GetRouteReq_m \<Rightarrow> GetRouteReq_m" where
  "GetRouteReq_MergeFrom src dst = dst\<lparr>
       mtq_modid := later (mtq_modid src) (mtq_modid dst),
       mtq_cmdid := later (mtq_cmdid src) (mtq_cmdid dst),
       mtq_unknown := mtq_unknown dst @ mtq_unknown src \<rparr>"

definition GetRouteReq_CopyFrom :: "GetRouteReq_m \<Rightarrow> GetRouteReq_m \<Rightarrow> GetRouteReq_m" where
  "GetRouteReq_CopyFrom src dst = GetRouteReq_MergeFrom src GetRouteReq_Clear"

definition GetRouteReq_Swap :: "GetRouteReq_m \<Rightarrow> GetRouteReq_m \<Rightarrow> GetRouteReq_m \<times> GetRouteReq_m" where
  "GetRouteReq_Swap this other =
    (this\<lparr> mtq_modid := mtq_modid other, mtq_cmdid := mtq_cmdid other, mtq_unknown := mtq_unknown other \<rparr>,
     other\<lparr> mtq_modid := mtq_modid this, mtq_cmdid := mtq_cmdid this, mtq_unknown := mtq_unknown this \<rparr>)"

lemma GetRouteReq_Swap [simp]: "GetRouteReq_Swap a b = (b, a)"
  by (simp add: GetRouteReq_Swap_def)

definition GetRouteReq_parse :: "wire \<Rightarrow> bytes \<Rightarrow> GetRouteReq_m \<times> bool" where
  "GetRouteReq_parse w b = (let (m, ok) = GetRouteReq_merge w b GetRouteReq_Clear in (m, ok \<and> GetRouteReq_init m))"

definition GetRouteReq_of :: "GetRouteReq_m \<Rightarrow> GetRouteReq" where
  "GetRouteReq_of m =
    \<lparr> grq_modid = (case mtq_modid m of None \<Rightarrow> 0 | Some v \<Rightarrow> v),
      grq_cmdid = (case mtq_cmdid m of None \<Rightarrow> 0 | Some v \<Rightarrow> v) \<rparr>"

definition GetRouteReq_to :: "GetRouteReq \<Rightarrow> GetRouteReq_m" where
  "GetRouteReq_to x =
    \<lparr> mtq_modid = Some (grq_modid x),
      mtq_cmdid = Some (grq_cmdid x), mtq_unknown = [] \<rparr>"

definition GetRouteReq_bytes :: "wire \<Rightarrow> GetRouteReq \<Rightarrow> bytes" where
  "GetRouteReq_bytes w x = w_enc w (GetRouteReq_ser w (GetRouteReq_to x))"

lemma GetRouteReq_size_ok: "wire_ok w \<Longrightarrow> toks_size w (GetRouteReq_ser w m) = GetRouteReq_size w m"
  by (simp add: GetRouteReq_ser_def GetRouteReq_size_def toks_size_opt toks_size_map wire_tsize(1) wire_get nested_size
      sum_list_Suc flip: toks_size_def)

lemma GetRouteReq_to_simps [simp]: "GetRouteReq_of (GetRouteReq_to x) = x" "GetRouteReq_init (GetRouteReq_to x)"
  by (simp_all add: GetRouteReq_of_def GetRouteReq_to_def GetRouteReq_init_def list_all_iff comp_def option.map_comp option.map_ident
      split: option.split)

lemma GetRouteReq_plain [simp]: "list_all plain (GetRouteReq_ser w (GetRouteReq_to x))"
  by (simp add: GetRouteReq_to_def GetRouteReq_ser_def plain_opt list.pred_map comp_def list.pred_True)

lemma GetRouteReq_CopyFrom [simp]: "GetRouteReq_CopyFrom src dst = src"
  by (simp add: GetRouteReq_CopyFrom_def GetRouteReq_MergeFrom_def GetRouteReq_Clear_def split: option.split)

lemma GetRouteReq_parse_bytes:
  assumes "wire_ok w" "GetRouteReq_size w (GetRouteReq_to x) \<le> total_bytes_limit"
  shows "GetRouteReq_merge w (GetRouteReq_bytes w x) GetRouteReq_Clear = (GetRouteReq_to x, True)" "GetRouteReq_parse w (GetRouteReq_bytes w x) = (GetRouteReq_to x, True)"
proof -
  have "GetRouteReq_merge w (GetRouteReq_bytes w x) GetRouteReq_Clear = merge_toks (GetRouteReq_field w) (GetRouteReq_ser w (GetRouteReq_to x)) GetRouteReq_Clear"
    using assms by (simp add: GetRouteReq_merge_def GetRouteReq_bytes_def merge_bytes_enc GetRouteReq_size_ok)
  also have "\<dots> = (GetRouteReq_to x, True)"
    using assms by (simp_all add: GetRouteReq_ser_def GetRouteReq_to_def GetRouteReq_field_def GetRouteReq_Clear_def wire_get comp_def)
  finally show "GetRouteReq_merge w (GetRouteReq_bytes w x) GetRouteReq_Clear = (GetRouteReq_to x, True)" .
  then show "GetRouteReq_parse w (GetRouteReq_bytes w x) = (GetRouteReq_to x, True)" by (simp add: GetRouteReq_parse_def)
qed

subsection \<open>\<open>GetRouteRsp\<close>\<close>

record GetRouteRsp_m =
  mtr_modid :: "i32 option"
  mtr_cmdid :: "i32 option"
  mtr_hosts :: "HostAddr_m list"
  mtr_unknown :: "token list"

definition GetRouteRsp_Clear :: GetRouteRsp_m where
  "GetRouteRsp_Clear = \<lparr> mtr_modid = None, mtr_cmdid = None, mtr_hosts = [], mtr_unknown = [] \<rparr>"

definition GetRouteRsp_field :: "wire \<Rightarrow> token \<Rightarrow> GetRouteRsp_m \<Rightarrow> GetRouteRsp_m \<times> bool" where
  "GetRouteRsp_field w t m =
    (case t of
       (n, Varint v) \<Rightarrow>
         (if n = 1 then (m\<lparr>mtr_modid := Some (w_geti w v)\<rparr>, True)
          else if n = 2 then (m\<lparr>mtr_cmdid := Some (w_geti w v)\<rparr>, True)
          else (m\<lparr>mtr_unknown := mtr_unknown m @ [t]\<rparr>, True))
     | (n, Bytes b) \<Rightarrow>
         (if n = 3 then
            (let (h, ok) = HostAddr_merge w b HostAddr_Clear in (m\<lparr>mtr_hosts := mtr_hosts m @ [h]\<rparr>, ok))
          else (m\<lparr>mtr_unknown := mtr_unknown m @ [t]\<rparr>, True))
     | _ \<Rightarrow> (m\<lparr>mtr_unknown := mtr_unknown m @ [t]\<rparr>, True))"

definition GetRouteRsp_merge :: "wire \<Rightarrow> bytes \<Rightarrow> GetRouteRsp_m \<Rightarrow> GetRouteRsp_m \<times> bool" where
  "GetRouteRsp_merge w = merge_bytes w (GetRouteRsp_field w)"

definition GetRouteRsp_ser :: "wire \<Rightarrow> GetRouteRsp_m \<Rightarrow> token list" where
  "GetRouteRsp_ser w m =
     opt_tok (\<lambda>v. (1, Varint (w_puti w v))) (mtr_modid m)
     @ opt_tok (\<lambda>v. (2, Varint (w_puti w v))) (mtr_cmdid m)
     @ map (\<lambda>h. (3, Bytes (w_enc w (HostAddr_ser w h)))) (mtr_hosts m)
     @ mtr_unknown m"

definition GetRouteRsp_size :: "wire \<Rightarrow> GetRouteRsp_m \<Rightarrow> nat" where
  "GetRouteRsp_size w m =
     opt_size (\<lambda>v. 1 + w_vsize w (unat (w_puti w v))) (mtr_modid m)
     + opt_size (\<lambda>v. 1 + w_vsize w (unat (w_puti w v))) (mtr_cmdid m)
     + 1 * length (mtr_hosts m) + sum_list (map (\<lambda>h. msg_size w (HostAddr_size w h)) (mtr_hosts m))
     + sum_list (map (w_tsize w) (mtr_unknown m))"

definition GetRouteRsp_init :: "GetRouteRsp_m \<Rightarrow> bool" where
  "GetRouteRsp_init m \<longleftrightarrow>
     mtr_modid m \<noteq> None \<and>
     mtr_cmdid m \<noteq> None \<and>
     list_all HostAddr_init (mtr_hosts m)"

definition GetRouteRsp_MergeFrom :: "GetRouteRsp_m \<Rightarrow> GetRouteRsp_m \<Rightarrow> GetRouteRsp_m" where
  "GetRouteRsp_MergeFrom src dst = dst\<lparr>
       mtr_modid := later (mtr_modid src) (mtr_modid dst),
       mtr_cmdid := later (mtr_cmdid src) (mtr_cmdid dst),
       mtr_hosts := mtr_hosts dst @ mtr_hosts src,
       mtr_unknown := mtr_unknown dst @ mtr_unknown src \<rparr>"

definition GetRouteRsp_CopyFrom :: "GetRouteRsp_m \<Rightarrow> GetRouteRsp_m \<Rightarrow> GetRouteRsp_m" where
  "GetRouteRsp_CopyFrom src dst = GetRouteRsp_MergeFrom src GetRouteRsp_Clear"

definition GetRouteRsp_Swap :: "GetRouteRsp_m \<Rightarrow> GetRouteRsp_m \<Rightarrow> GetRouteRsp_m \<times> GetRouteRsp_m" where
  "GetRouteRsp_Swap this other =
    (this\<lparr> mtr_modid := mtr_modid other, mtr_cmdid := mtr_cmdid other, mtr_hosts := mtr_hosts other, mtr_unknown := mtr_unknown other \<rparr>,
     other\<lparr> mtr_modid := mtr_modid this, mtr_cmdid := mtr_cmdid this, mtr_hosts := mtr_hosts this, mtr_unknown := mtr_unknown this \<rparr>)"

lemma GetRouteRsp_Swap [simp]: "GetRouteRsp_Swap a b = (b, a)"
  by (simp add: GetRouteRsp_Swap_def)

definition GetRouteRsp_parse :: "wire \<Rightarrow> bytes \<Rightarrow> GetRouteRsp_m \<times> bool" where
  "GetRouteRsp_parse w b = (let (m, ok) = GetRouteRsp_merge w b GetRouteRsp_Clear in (m, ok \<and> GetRouteRsp_init m))"

definition GetRouteRsp_of :: "GetRouteRsp_m \<Rightarrow> GetRouteRsp" where
  "GetRouteRsp_of m =
    \<lparr> grs_modid = (case mtr_modid m of None \<Rightarrow> 0 | Some v \<Rightarrow> v),
      grs_cmdid = (case mtr_cmdid m of None \<Rightarrow> 0 | Some v \<Rightarrow> v),
      grs_hosts = map HostAddr_of (mtr_hosts m) \<rparr>"

definition GetRouteRsp_to :: "GetRouteRsp \<Rightarrow> GetRouteRsp_m" where
  "GetRouteRsp_to x =
    \<lparr> mtr_modid = Some (grs_modid x),
      mtr_cmdid = Some (grs_cmdid x),
      mtr_hosts = map HostAddr_to (grs_hosts x), mtr_unknown = [] \<rparr>"

definition GetRouteRsp_bytes :: "wire \<Rightarrow> GetRouteRsp \<Rightarrow> bytes" where
  "GetRouteRsp_bytes w x = w_enc w (GetRouteRsp_ser w (GetRouteRsp_to x))"

lemma GetRouteRsp_size_ok: "wire_ok w \<Longrightarrow> toks_size w (GetRouteRsp_ser w m) = GetRouteRsp_size w m"
  by (simp add: GetRouteRsp_ser_def GetRouteRsp_size_def toks_size_opt toks_size_map wire_tsize(1) wire_get nested_size
      sum_list_Suc HostAddr_size_ok flip: toks_size_def)

lemma GetRouteRsp_to_simps [simp]: "GetRouteRsp_of (GetRouteRsp_to x) = x" "GetRouteRsp_init (GetRouteRsp_to x)"
  by (simp_all add: GetRouteRsp_of_def GetRouteRsp_to_def GetRouteRsp_init_def list_all_iff comp_def option.map_comp option.map_ident
      split: option.split)

lemma GetRouteRsp_plain [simp]: "list_all plain (GetRouteRsp_ser w (GetRouteRsp_to x))"
  by (simp add: GetRouteRsp_to_def GetRouteRsp_ser_def plain_opt list.pred_map comp_def list.pred_True)

lemma GetRouteRsp_CopyFrom [simp]: "GetRouteRsp_CopyFrom src dst = src"
  by (simp add: GetRouteRsp_CopyFrom_def GetRouteRsp_MergeFrom_def GetRouteRsp_Clear_def HostAddr_CopyFrom [unfolded HostAddr_CopyFrom_def] split: option.split)

lemma GetRouteRsp_fold:
  "fold (\<lambda>h m. m\<lparr>mtr_hosts := mtr_hosts m @ [k h]\<rparr>) hs m = m\<lparr>mtr_hosts := mtr_hosts m @ map k hs\<rparr>"
  by (induction hs arbitrary: m) simp_all

lemma GetRouteRsp_parse_bytes:
  assumes "wire_ok w" "GetRouteRsp_size w (GetRouteRsp_to x) \<le> total_bytes_limit"
  shows "GetRouteRsp_merge w (GetRouteRsp_bytes w x) GetRouteRsp_Clear = (GetRouteRsp_to x, True)" "GetRouteRsp_parse w (GetRouteRsp_bytes w x) = (GetRouteRsp_to x, True)"
proof -
  have s: "HostAddr_size w (HostAddr_to h) \<le> total_bytes_limit" if "h \<in> set (grs_hosts x)" for h
  proof -
    have "HostAddr_size w (HostAddr_to h) \<le> GetRouteRsp_size w (GetRouteRsp_to x)"
      using nested_size_le [OF that, where w = w and f = "\<lambda>h. HostAddr_size w (HostAddr_to h)"]
      by (simp add: GetRouteRsp_size_def GetRouteRsp_to_def comp_def)
    then show ?thesis using assms by simp
  qed
  have m: "HostAddr_merge w (w_enc w (HostAddr_ser w (HostAddr_to h))) HostAddr_Clear = (HostAddr_to h, True)" if "h \<in> set (grs_hosts x)" for h
    using HostAddr_parse_bytes(1) [OF assms(1) s [OF that]] by (simp add: HostAddr_bytes_def)
  have r: "merge_toks (GetRouteRsp_field w) (map (\<lambda>h. (3, Bytes (w_enc w (HostAddr_ser w (HostAddr_to h))))) (grs_hosts x) @ ts) m
      = merge_toks (GetRouteRsp_field w) ts (m\<lparr>mtr_hosts := mtr_hosts m @ map HostAddr_to (grs_hosts x)\<rparr>)" for ts m
    by (subst merge_toks_map [where g = "\<lambda>h m. m\<lparr>mtr_hosts := mtr_hosts m @ [HostAddr_to h]\<rparr>"])
      (simp_all add: GetRouteRsp_field_def GetRouteRsp_fold m)
  have "GetRouteRsp_merge w (GetRouteRsp_bytes w x) GetRouteRsp_Clear = merge_toks (GetRouteRsp_field w) (GetRouteRsp_ser w (GetRouteRsp_to x)) GetRouteRsp_Clear"
    using assms by (simp add: GetRouteRsp_merge_def GetRouteRsp_bytes_def merge_bytes_enc GetRouteRsp_size_ok)
  also have "\<dots> = (GetRouteRsp_to x, True)"
    using assms by (simp_all add: GetRouteRsp_ser_def GetRouteRsp_to_def GetRouteRsp_field_def GetRouteRsp_Clear_def wire_get comp_def r r [where ts = "[]", simplified])
  finally show "GetRouteRsp_merge w (GetRouteRsp_bytes w x) GetRouteRsp_Clear = (GetRouteRsp_to x, True)" .
  then show "GetRouteRsp_parse w (GetRouteRsp_bytes w x) = (GetRouteRsp_to x, True)" by (simp add: GetRouteRsp_parse_def)
qed

subsection \<open>\<open>ReportStatusReq\<close>\<close>

record ReportStatusReq_m =
  msq_modid :: "i32 option"
  msq_cmdid :: "i32 option"
  msq_caller :: "i32 option"
  msq_results :: "HostCallResult_m list"
  msq_ts :: "u32 option"
  msq_unknown :: "token list"

definition ReportStatusReq_Clear :: ReportStatusReq_m where
  "ReportStatusReq_Clear = \<lparr> msq_modid = None, msq_cmdid = None, msq_caller = None, msq_results = [], msq_ts = None, msq_unknown = [] \<rparr>"

definition ReportStatusReq_field :: "wire \<Rightarrow> token \<Rightarrow> ReportStatusReq_m \<Rightarrow> ReportStatusReq_m \<times> bool" where
  "ReportStatusReq_field w t m =
    (case t of
       (n, Varint v) \<Rightarrow>
         (if n = 1 then (m\<lparr>msq_modid := Some (w_geti w v)\<rparr>, True)
          else if n = 2 then (m\<lparr>msq_cmdid := Some (w_geti w v)\<rparr>, True)
          else if n = 3 then (m\<lparr>msq_caller := Some (w_geti w v)\<rparr>, True)
          else if n = 5 then (m\<lparr>msq_ts := Some (w_getu w v)\<rparr>, True)
          else (m\<lparr>msq_unknown := msq_unknown m @ [t]\<rparr>, True))
     | (n, Bytes b) \<Rightarrow>
         (if n = 4 then
            (let (h, ok) = HostCallResult_merge w b HostCallResult_Clear in (m\<lparr>msq_results := msq_results m @ [h]\<rparr>, ok))
          else (m\<lparr>msq_unknown := msq_unknown m @ [t]\<rparr>, True))
     | _ \<Rightarrow> (m\<lparr>msq_unknown := msq_unknown m @ [t]\<rparr>, True))"

definition ReportStatusReq_merge :: "wire \<Rightarrow> bytes \<Rightarrow> ReportStatusReq_m \<Rightarrow> ReportStatusReq_m \<times> bool" where
  "ReportStatusReq_merge w = merge_bytes w (ReportStatusReq_field w)"

definition ReportStatusReq_ser :: "wire \<Rightarrow> ReportStatusReq_m \<Rightarrow> token list" where
  "ReportStatusReq_ser w m =
     opt_tok (\<lambda>v. (1, Varint (w_puti w v))) (msq_modid m)
     @ opt_tok (\<lambda>v. (2, Varint (w_puti w v))) (msq_cmdid m)
     @ opt_tok (\<lambda>v. (3, Varint (w_puti w v))) (msq_caller m)
     @ map (\<lambda>h. (4, Bytes (w_enc w (HostCallResult_ser w h)))) (msq_results m)
     @ opt_tok (\<lambda>v. (5, Varint (w_putu w v))) (msq_ts m)
     @ msq_unknown m"

definition ReportStatusReq_size :: "wire \<Rightarrow> ReportStatusReq_m \<Rightarrow> nat" where
  "ReportStatusReq_size w m =
     opt_size (\<lambda>v. 1 + w_vsize w (unat (w_puti w v))) (msq_modid m)
     + opt_size (\<lambda>v. 1 + w_vsize w (unat (w_puti w v))) (msq_cmdid m)
     + opt_size (\<lambda>v. 1 + w_vsize w (unat (w_puti w v))) (msq_caller m)
     + opt_size (\<lambda>v. 1 + w_vsize w (unat (w_putu w v))) (msq_ts m)
     + 1 * length (msq_results m) + sum_list (map (\<lambda>h. msg_size w (HostCallResult_size w h)) (msq_results m))
     + sum_list (map (w_tsize w) (msq_unknown m))"

definition ReportStatusReq_init :: "ReportStatusReq_m \<Rightarrow> bool" where
  "ReportStatusReq_init m \<longleftrightarrow>
     msq_modid m \<noteq> None \<and>
     msq_cmdid m \<noteq> None \<and>
     msq_caller m \<noteq> None \<and>
     msq_ts m \<noteq> None \<and>
     list_all HostCallResult_init (msq_results m)"

definition ReportStatusReq_MergeFrom :: "ReportStatusReq_m \<Rightarrow> ReportStatusReq_m \<Rightarrow> ReportStatusReq_m" where
  "ReportStatusReq_MergeFrom src dst = dst\<lparr>
       msq_modid := later (msq_modid src) (msq_modid dst),
       msq_cmdid := later (msq_cmdid src) (msq_cmdid dst),
       msq_caller := later (msq_caller src) (msq_caller dst),
       msq_results := msq_results dst @ msq_results src,
       msq_ts := later (msq_ts src) (msq_ts dst),
       msq_unknown := msq_unknown dst @ msq_unknown src \<rparr>"

definition ReportStatusReq_CopyFrom :: "ReportStatusReq_m \<Rightarrow> ReportStatusReq_m \<Rightarrow> ReportStatusReq_m" where
  "ReportStatusReq_CopyFrom src dst = ReportStatusReq_MergeFrom src ReportStatusReq_Clear"

definition ReportStatusReq_Swap :: "ReportStatusReq_m \<Rightarrow> ReportStatusReq_m \<Rightarrow> ReportStatusReq_m \<times> ReportStatusReq_m" where
  "ReportStatusReq_Swap this other =
    (this\<lparr> msq_modid := msq_modid other, msq_cmdid := msq_cmdid other, msq_caller := msq_caller other, msq_results := msq_results other, msq_ts := msq_ts other, msq_unknown := msq_unknown other \<rparr>,
     other\<lparr> msq_modid := msq_modid this, msq_cmdid := msq_cmdid this, msq_caller := msq_caller this, msq_results := msq_results this, msq_ts := msq_ts this, msq_unknown := msq_unknown this \<rparr>)"

lemma ReportStatusReq_Swap [simp]: "ReportStatusReq_Swap a b = (b, a)"
  by (simp add: ReportStatusReq_Swap_def)

definition ReportStatusReq_parse :: "wire \<Rightarrow> bytes \<Rightarrow> ReportStatusReq_m \<times> bool" where
  "ReportStatusReq_parse w b = (let (m, ok) = ReportStatusReq_merge w b ReportStatusReq_Clear in (m, ok \<and> ReportStatusReq_init m))"

definition ReportStatusReq_of :: "ReportStatusReq_m \<Rightarrow> ReportStatusReq" where
  "ReportStatusReq_of m =
    \<lparr> rsr_modid = (case msq_modid m of None \<Rightarrow> 0 | Some v \<Rightarrow> v),
      rsr_cmdid = (case msq_cmdid m of None \<Rightarrow> 0 | Some v \<Rightarrow> v),
      rsr_caller = (case msq_caller m of None \<Rightarrow> 0 | Some v \<Rightarrow> v),
      rsr_results = map HostCallResult_of (msq_results m),
      rsr_ts = (case msq_ts m of None \<Rightarrow> 0 | Some v \<Rightarrow> v) \<rparr>"

definition ReportStatusReq_to :: "ReportStatusReq \<Rightarrow> ReportStatusReq_m" where
  "ReportStatusReq_to x =
    \<lparr> msq_modid = Some (rsr_modid x),
      msq_cmdid = Some (rsr_cmdid x),
      msq_caller = Some (rsr_caller x),
      msq_results = map HostCallResult_to (rsr_results x),
      msq_ts = Some (rsr_ts x), msq_unknown = [] \<rparr>"

definition ReportStatusReq_bytes :: "wire \<Rightarrow> ReportStatusReq \<Rightarrow> bytes" where
  "ReportStatusReq_bytes w x = w_enc w (ReportStatusReq_ser w (ReportStatusReq_to x))"

lemma ReportStatusReq_size_ok: "wire_ok w \<Longrightarrow> toks_size w (ReportStatusReq_ser w m) = ReportStatusReq_size w m"
  by (simp add: ReportStatusReq_ser_def ReportStatusReq_size_def toks_size_opt toks_size_map wire_tsize(1) wire_get nested_size
      sum_list_Suc HostCallResult_size_ok flip: toks_size_def)

lemma ReportStatusReq_to_simps [simp]: "ReportStatusReq_of (ReportStatusReq_to x) = x" "ReportStatusReq_init (ReportStatusReq_to x)"
  by (simp_all add: ReportStatusReq_of_def ReportStatusReq_to_def ReportStatusReq_init_def list_all_iff comp_def option.map_comp option.map_ident
      split: option.split)

lemma ReportStatusReq_plain [simp]: "list_all plain (ReportStatusReq_ser w (ReportStatusReq_to x))"
  by (simp add: ReportStatusReq_to_def ReportStatusReq_ser_def plain_opt list.pred_map comp_def list.pred_True)

lemma ReportStatusReq_CopyFrom [simp]: "ReportStatusReq_CopyFrom src dst = src"
  by (simp add: ReportStatusReq_CopyFrom_def ReportStatusReq_MergeFrom_def ReportStatusReq_Clear_def HostCallResult_CopyFrom [unfolded HostCallResult_CopyFrom_def] split: option.split)

lemma ReportStatusReq_fold:
  "fold (\<lambda>h m. m\<lparr>msq_results := msq_results m @ [k h]\<rparr>) hs m = m\<lparr>msq_results := msq_results m @ map k hs\<rparr>"
  by (induction hs arbitrary: m) simp_all

lemma ReportStatusReq_parse_bytes:
  assumes "wire_ok w" "ReportStatusReq_size w (ReportStatusReq_to x) \<le> total_bytes_limit"
  shows "ReportStatusReq_merge w (ReportStatusReq_bytes w x) ReportStatusReq_Clear = (ReportStatusReq_to x, True)" "ReportStatusReq_parse w (ReportStatusReq_bytes w x) = (ReportStatusReq_to x, True)"
proof -
  have s: "HostCallResult_size w (HostCallResult_to h) \<le> total_bytes_limit" if "h \<in> set (rsr_results x)" for h
  proof -
    have "HostCallResult_size w (HostCallResult_to h) \<le> ReportStatusReq_size w (ReportStatusReq_to x)"
      using nested_size_le [OF that, where w = w and f = "\<lambda>h. HostCallResult_size w (HostCallResult_to h)"]
      by (simp add: ReportStatusReq_size_def ReportStatusReq_to_def comp_def)
    then show ?thesis using assms by simp
  qed
  have m: "HostCallResult_merge w (w_enc w (HostCallResult_ser w (HostCallResult_to h))) HostCallResult_Clear = (HostCallResult_to h, True)" if "h \<in> set (rsr_results x)" for h
    using HostCallResult_parse_bytes(1) [OF assms(1) s [OF that]] by (simp add: HostCallResult_bytes_def)
  have r: "merge_toks (ReportStatusReq_field w) (map (\<lambda>h. (4, Bytes (w_enc w (HostCallResult_ser w (HostCallResult_to h))))) (rsr_results x) @ ts) m
      = merge_toks (ReportStatusReq_field w) ts (m\<lparr>msq_results := msq_results m @ map HostCallResult_to (rsr_results x)\<rparr>)" for ts m
    by (subst merge_toks_map [where g = "\<lambda>h m. m\<lparr>msq_results := msq_results m @ [HostCallResult_to h]\<rparr>"])
      (simp_all add: ReportStatusReq_field_def ReportStatusReq_fold m)
  have "ReportStatusReq_merge w (ReportStatusReq_bytes w x) ReportStatusReq_Clear = merge_toks (ReportStatusReq_field w) (ReportStatusReq_ser w (ReportStatusReq_to x)) ReportStatusReq_Clear"
    using assms by (simp add: ReportStatusReq_merge_def ReportStatusReq_bytes_def merge_bytes_enc ReportStatusReq_size_ok)
  also have "\<dots> = (ReportStatusReq_to x, True)"
    using assms by (simp_all add: ReportStatusReq_ser_def ReportStatusReq_to_def ReportStatusReq_field_def ReportStatusReq_Clear_def wire_get comp_def r r [where ts = "[]", simplified])
  finally show "ReportStatusReq_merge w (ReportStatusReq_bytes w x) ReportStatusReq_Clear = (ReportStatusReq_to x, True)" .
  then show "ReportStatusReq_parse w (ReportStatusReq_bytes w x) = (ReportStatusReq_to x, True)" by (simp add: ReportStatusReq_parse_def)
qed

subsection \<open>\<open>CacheGetRouteReq\<close>\<close>

record CacheGetRouteReq_m =
  mcq_modid :: "i32 option"
  mcq_cmdid :: "i32 option"
  mcq_version :: "clong option"
  mcq_unknown :: "token list"

definition CacheGetRouteReq_Clear :: CacheGetRouteReq_m where
  "CacheGetRouteReq_Clear = \<lparr> mcq_modid = None, mcq_cmdid = None, mcq_version = None, mcq_unknown = [] \<rparr>"

definition CacheGetRouteReq_field :: "wire \<Rightarrow> token \<Rightarrow> CacheGetRouteReq_m \<Rightarrow> CacheGetRouteReq_m \<times> bool" where
  "CacheGetRouteReq_field w t m =
    (case t of
       (n, Varint v) \<Rightarrow>
         (if n = 1 then (m\<lparr>mcq_modid := Some (w_geti w v)\<rparr>, True)
          else if n = 2 then (m\<lparr>mcq_cmdid := Some (w_geti w v)\<rparr>, True)
          else if n = 3 then (m\<lparr>mcq_version := Some (w_getl w v)\<rparr>, True)
          else (m\<lparr>mcq_unknown := mcq_unknown m @ [t]\<rparr>, True))
     | _ \<Rightarrow> (m\<lparr>mcq_unknown := mcq_unknown m @ [t]\<rparr>, True))"

definition CacheGetRouteReq_merge :: "wire \<Rightarrow> bytes \<Rightarrow> CacheGetRouteReq_m \<Rightarrow> CacheGetRouteReq_m \<times> bool" where
  "CacheGetRouteReq_merge w = merge_bytes w (CacheGetRouteReq_field w)"

definition CacheGetRouteReq_ser :: "wire \<Rightarrow> CacheGetRouteReq_m \<Rightarrow> token list" where
  "CacheGetRouteReq_ser w m =
     opt_tok (\<lambda>v. (1, Varint (w_puti w v))) (mcq_modid m)
     @ opt_tok (\<lambda>v. (2, Varint (w_puti w v))) (mcq_cmdid m)
     @ opt_tok (\<lambda>v. (3, Varint (w_putl w v))) (mcq_version m)
     @ mcq_unknown m"

definition CacheGetRouteReq_size :: "wire \<Rightarrow> CacheGetRouteReq_m \<Rightarrow> nat" where
  "CacheGetRouteReq_size w m =
     opt_size (\<lambda>v. 1 + w_vsize w (unat (w_puti w v))) (mcq_modid m)
     + opt_size (\<lambda>v. 1 + w_vsize w (unat (w_puti w v))) (mcq_cmdid m)
     + opt_size (\<lambda>v. 1 + w_vsize w (unat (w_putl w v))) (mcq_version m)
     + sum_list (map (w_tsize w) (mcq_unknown m))"

definition CacheGetRouteReq_init :: "CacheGetRouteReq_m \<Rightarrow> bool" where
  "CacheGetRouteReq_init m \<longleftrightarrow>
     mcq_modid m \<noteq> None \<and>
     mcq_cmdid m \<noteq> None \<and>
     mcq_version m \<noteq> None"

definition CacheGetRouteReq_MergeFrom :: "CacheGetRouteReq_m \<Rightarrow> CacheGetRouteReq_m \<Rightarrow> CacheGetRouteReq_m" where
  "CacheGetRouteReq_MergeFrom src dst = dst\<lparr>
       mcq_modid := later (mcq_modid src) (mcq_modid dst),
       mcq_cmdid := later (mcq_cmdid src) (mcq_cmdid dst),
       mcq_version := later (mcq_version src) (mcq_version dst),
       mcq_unknown := mcq_unknown dst @ mcq_unknown src \<rparr>"

definition CacheGetRouteReq_CopyFrom :: "CacheGetRouteReq_m \<Rightarrow> CacheGetRouteReq_m \<Rightarrow> CacheGetRouteReq_m" where
  "CacheGetRouteReq_CopyFrom src dst = CacheGetRouteReq_MergeFrom src CacheGetRouteReq_Clear"

definition CacheGetRouteReq_Swap :: "CacheGetRouteReq_m \<Rightarrow> CacheGetRouteReq_m \<Rightarrow> CacheGetRouteReq_m \<times> CacheGetRouteReq_m" where
  "CacheGetRouteReq_Swap this other =
    (this\<lparr> mcq_modid := mcq_modid other, mcq_cmdid := mcq_cmdid other, mcq_version := mcq_version other, mcq_unknown := mcq_unknown other \<rparr>,
     other\<lparr> mcq_modid := mcq_modid this, mcq_cmdid := mcq_cmdid this, mcq_version := mcq_version this, mcq_unknown := mcq_unknown this \<rparr>)"

lemma CacheGetRouteReq_Swap [simp]: "CacheGetRouteReq_Swap a b = (b, a)"
  by (simp add: CacheGetRouteReq_Swap_def)

definition CacheGetRouteReq_parse :: "wire \<Rightarrow> bytes \<Rightarrow> CacheGetRouteReq_m \<times> bool" where
  "CacheGetRouteReq_parse w b = (let (m, ok) = CacheGetRouteReq_merge w b CacheGetRouteReq_Clear in (m, ok \<and> CacheGetRouteReq_init m))"

definition CacheGetRouteReq_of :: "CacheGetRouteReq_m \<Rightarrow> CacheGetRouteReq" where
  "CacheGetRouteReq_of m =
    \<lparr> cgq_modid = (case mcq_modid m of None \<Rightarrow> 0 | Some v \<Rightarrow> v),
      cgq_cmdid = (case mcq_cmdid m of None \<Rightarrow> 0 | Some v \<Rightarrow> v),
      cgq_version = (case mcq_version m of None \<Rightarrow> 0 | Some v \<Rightarrow> v) \<rparr>"

definition CacheGetRouteReq_to :: "CacheGetRouteReq \<Rightarrow> CacheGetRouteReq_m" where
  "CacheGetRouteReq_to x =
    \<lparr> mcq_modid = Some (cgq_modid x),
      mcq_cmdid = Some (cgq_cmdid x),
      mcq_version = Some (cgq_version x), mcq_unknown = [] \<rparr>"

definition CacheGetRouteReq_bytes :: "wire \<Rightarrow> CacheGetRouteReq \<Rightarrow> bytes" where
  "CacheGetRouteReq_bytes w x = w_enc w (CacheGetRouteReq_ser w (CacheGetRouteReq_to x))"

lemma CacheGetRouteReq_size_ok: "wire_ok w \<Longrightarrow> toks_size w (CacheGetRouteReq_ser w m) = CacheGetRouteReq_size w m"
  by (simp add: CacheGetRouteReq_ser_def CacheGetRouteReq_size_def toks_size_opt toks_size_map wire_tsize(1) wire_get nested_size
      sum_list_Suc flip: toks_size_def)

lemma CacheGetRouteReq_to_simps [simp]: "CacheGetRouteReq_of (CacheGetRouteReq_to x) = x" "CacheGetRouteReq_init (CacheGetRouteReq_to x)"
  by (simp_all add: CacheGetRouteReq_of_def CacheGetRouteReq_to_def CacheGetRouteReq_init_def list_all_iff comp_def option.map_comp option.map_ident
      split: option.split)

lemma CacheGetRouteReq_plain [simp]: "list_all plain (CacheGetRouteReq_ser w (CacheGetRouteReq_to x))"
  by (simp add: CacheGetRouteReq_to_def CacheGetRouteReq_ser_def plain_opt list.pred_map comp_def list.pred_True)

lemma CacheGetRouteReq_CopyFrom [simp]: "CacheGetRouteReq_CopyFrom src dst = src"
  by (simp add: CacheGetRouteReq_CopyFrom_def CacheGetRouteReq_MergeFrom_def CacheGetRouteReq_Clear_def split: option.split)

lemma CacheGetRouteReq_parse_bytes:
  assumes "wire_ok w" "- (2 ^ 63) \<le> cgq_version x" "cgq_version x < 2 ^ 63" "CacheGetRouteReq_size w (CacheGetRouteReq_to x) \<le> total_bytes_limit"
  shows "CacheGetRouteReq_merge w (CacheGetRouteReq_bytes w x) CacheGetRouteReq_Clear = (CacheGetRouteReq_to x, True)" "CacheGetRouteReq_parse w (CacheGetRouteReq_bytes w x) = (CacheGetRouteReq_to x, True)"
proof -
  have "CacheGetRouteReq_merge w (CacheGetRouteReq_bytes w x) CacheGetRouteReq_Clear = merge_toks (CacheGetRouteReq_field w) (CacheGetRouteReq_ser w (CacheGetRouteReq_to x)) CacheGetRouteReq_Clear"
    using assms by (simp add: CacheGetRouteReq_merge_def CacheGetRouteReq_bytes_def merge_bytes_enc CacheGetRouteReq_size_ok)
  also have "\<dots> = (CacheGetRouteReq_to x, True)"
    using assms by (simp_all add: CacheGetRouteReq_ser_def CacheGetRouteReq_to_def CacheGetRouteReq_field_def CacheGetRouteReq_Clear_def wire_get comp_def)
  finally show "CacheGetRouteReq_merge w (CacheGetRouteReq_bytes w x) CacheGetRouteReq_Clear = (CacheGetRouteReq_to x, True)" .
  then show "CacheGetRouteReq_parse w (CacheGetRouteReq_bytes w x) = (CacheGetRouteReq_to x, True)" by (simp add: CacheGetRouteReq_parse_def)
qed

subsection \<open>\<open>CacheGetRouteRsp\<close>\<close>

record CacheGetRouteRsp_m =
  mcr_modid :: "i32 option"
  mcr_cmdid :: "i32 option"
  mcr_version :: "clong option"
  mcr_overload :: "bool option"
  mcr_route :: "HostAddr_m list"
  mcr_unknown :: "token list"

definition CacheGetRouteRsp_Clear :: CacheGetRouteRsp_m where
  "CacheGetRouteRsp_Clear = \<lparr> mcr_modid = None, mcr_cmdid = None, mcr_version = None, mcr_overload = None, mcr_route = [], mcr_unknown = [] \<rparr>"

definition CacheGetRouteRsp_field :: "wire \<Rightarrow> token \<Rightarrow> CacheGetRouteRsp_m \<Rightarrow> CacheGetRouteRsp_m \<times> bool" where
  "CacheGetRouteRsp_field w t m =
    (case t of
       (n, Varint v) \<Rightarrow>
         (if n = 1 then (m\<lparr>mcr_modid := Some (w_geti w v)\<rparr>, True)
          else if n = 2 then (m\<lparr>mcr_cmdid := Some (w_geti w v)\<rparr>, True)
          else if n = 3 then (m\<lparr>mcr_version := Some (w_getl w v)\<rparr>, True)
          else if n = 4 then (m\<lparr>mcr_overload := Some (w_getb w v)\<rparr>, True)
          else (m\<lparr>mcr_unknown := mcr_unknown m @ [t]\<rparr>, True))
     | (n, Bytes b) \<Rightarrow>
         (if n = 5 then
            (let (h, ok) = HostAddr_merge w b HostAddr_Clear in (m\<lparr>mcr_route := mcr_route m @ [h]\<rparr>, ok))
          else (m\<lparr>mcr_unknown := mcr_unknown m @ [t]\<rparr>, True))
     | _ \<Rightarrow> (m\<lparr>mcr_unknown := mcr_unknown m @ [t]\<rparr>, True))"

definition CacheGetRouteRsp_merge :: "wire \<Rightarrow> bytes \<Rightarrow> CacheGetRouteRsp_m \<Rightarrow> CacheGetRouteRsp_m \<times> bool" where
  "CacheGetRouteRsp_merge w = merge_bytes w (CacheGetRouteRsp_field w)"

definition CacheGetRouteRsp_ser :: "wire \<Rightarrow> CacheGetRouteRsp_m \<Rightarrow> token list" where
  "CacheGetRouteRsp_ser w m =
     opt_tok (\<lambda>v. (1, Varint (w_puti w v))) (mcr_modid m)
     @ opt_tok (\<lambda>v. (2, Varint (w_puti w v))) (mcr_cmdid m)
     @ opt_tok (\<lambda>v. (3, Varint (w_putl w v))) (mcr_version m)
     @ opt_tok (\<lambda>v. (4, Varint (w_putb w v))) (mcr_overload m)
     @ map (\<lambda>h. (5, Bytes (w_enc w (HostAddr_ser w h)))) (mcr_route m)
     @ mcr_unknown m"

definition CacheGetRouteRsp_size :: "wire \<Rightarrow> CacheGetRouteRsp_m \<Rightarrow> nat" where
  "CacheGetRouteRsp_size w m =
     opt_size (\<lambda>v. 1 + w_vsize w (unat (w_puti w v))) (mcr_modid m)
     + opt_size (\<lambda>v. 1 + w_vsize w (unat (w_puti w v))) (mcr_cmdid m)
     + opt_size (\<lambda>v. 1 + w_vsize w (unat (w_putl w v))) (mcr_version m)
     + opt_size (\<lambda>v. 1 + 1) (mcr_overload m)
     + 1 * length (mcr_route m) + sum_list (map (\<lambda>h. msg_size w (HostAddr_size w h)) (mcr_route m))
     + sum_list (map (w_tsize w) (mcr_unknown m))"

definition CacheGetRouteRsp_init :: "CacheGetRouteRsp_m \<Rightarrow> bool" where
  "CacheGetRouteRsp_init m \<longleftrightarrow>
     mcr_modid m \<noteq> None \<and>
     mcr_cmdid m \<noteq> None \<and>
     mcr_version m \<noteq> None \<and>
     list_all HostAddr_init (mcr_route m)"

definition CacheGetRouteRsp_MergeFrom :: "CacheGetRouteRsp_m \<Rightarrow> CacheGetRouteRsp_m \<Rightarrow> CacheGetRouteRsp_m" where
  "CacheGetRouteRsp_MergeFrom src dst = dst\<lparr>
       mcr_modid := later (mcr_modid src) (mcr_modid dst),
       mcr_cmdid := later (mcr_cmdid src) (mcr_cmdid dst),
       mcr_version := later (mcr_version src) (mcr_version dst),
       mcr_overload := later (mcr_overload src) (mcr_overload dst),
       mcr_route := mcr_route dst @ mcr_route src,
       mcr_unknown := mcr_unknown dst @ mcr_unknown src \<rparr>"

definition CacheGetRouteRsp_CopyFrom :: "CacheGetRouteRsp_m \<Rightarrow> CacheGetRouteRsp_m \<Rightarrow> CacheGetRouteRsp_m" where
  "CacheGetRouteRsp_CopyFrom src dst = CacheGetRouteRsp_MergeFrom src CacheGetRouteRsp_Clear"

definition CacheGetRouteRsp_Swap :: "CacheGetRouteRsp_m \<Rightarrow> CacheGetRouteRsp_m \<Rightarrow> CacheGetRouteRsp_m \<times> CacheGetRouteRsp_m" where
  "CacheGetRouteRsp_Swap this other =
    (this\<lparr> mcr_modid := mcr_modid other, mcr_cmdid := mcr_cmdid other, mcr_version := mcr_version other, mcr_overload := mcr_overload other, mcr_route := mcr_route other, mcr_unknown := mcr_unknown other \<rparr>,
     other\<lparr> mcr_modid := mcr_modid this, mcr_cmdid := mcr_cmdid this, mcr_version := mcr_version this, mcr_overload := mcr_overload this, mcr_route := mcr_route this, mcr_unknown := mcr_unknown this \<rparr>)"

lemma CacheGetRouteRsp_Swap [simp]: "CacheGetRouteRsp_Swap a b = (b, a)"
  by (simp add: CacheGetRouteRsp_Swap_def)

definition CacheGetRouteRsp_parse :: "wire \<Rightarrow> bytes \<Rightarrow> CacheGetRouteRsp_m \<times> bool" where
  "CacheGetRouteRsp_parse w b = (let (m, ok) = CacheGetRouteRsp_merge w b CacheGetRouteRsp_Clear in (m, ok \<and> CacheGetRouteRsp_init m))"

definition CacheGetRouteRsp_of :: "CacheGetRouteRsp_m \<Rightarrow> CacheGetRouteRsp" where
  "CacheGetRouteRsp_of m =
    \<lparr> cgr_modid = (case mcr_modid m of None \<Rightarrow> 0 | Some v \<Rightarrow> v),
      cgr_cmdid = (case mcr_cmdid m of None \<Rightarrow> 0 | Some v \<Rightarrow> v),
      cgr_version = (case mcr_version m of None \<Rightarrow> 0 | Some v \<Rightarrow> v),
      cgr_overload = mcr_overload m,
      cgr_route = map HostAddr_of (mcr_route m) \<rparr>"

definition CacheGetRouteRsp_to :: "CacheGetRouteRsp \<Rightarrow> CacheGetRouteRsp_m" where
  "CacheGetRouteRsp_to x =
    \<lparr> mcr_modid = Some (cgr_modid x),
      mcr_cmdid = Some (cgr_cmdid x),
      mcr_version = Some (cgr_version x),
      mcr_overload = cgr_overload x,
      mcr_route = map HostAddr_to (cgr_route x), mcr_unknown = [] \<rparr>"

definition CacheGetRouteRsp_bytes :: "wire \<Rightarrow> CacheGetRouteRsp \<Rightarrow> bytes" where
  "CacheGetRouteRsp_bytes w x = w_enc w (CacheGetRouteRsp_ser w (CacheGetRouteRsp_to x))"

lemma CacheGetRouteRsp_size_ok: "wire_ok w \<Longrightarrow> toks_size w (CacheGetRouteRsp_ser w m) = CacheGetRouteRsp_size w m"
  by (simp add: CacheGetRouteRsp_ser_def CacheGetRouteRsp_size_def toks_size_opt toks_size_map wire_tsize(1) wire_get nested_size
      sum_list_Suc HostAddr_size_ok flip: toks_size_def)

lemma CacheGetRouteRsp_to_simps [simp]: "CacheGetRouteRsp_of (CacheGetRouteRsp_to x) = x" "CacheGetRouteRsp_init (CacheGetRouteRsp_to x)"
  by (simp_all add: CacheGetRouteRsp_of_def CacheGetRouteRsp_to_def CacheGetRouteRsp_init_def list_all_iff comp_def option.map_comp option.map_ident
      split: option.split)

lemma CacheGetRouteRsp_plain [simp]: "list_all plain (CacheGetRouteRsp_ser w (CacheGetRouteRsp_to x))"
  by (simp add: CacheGetRouteRsp_to_def CacheGetRouteRsp_ser_def plain_opt list.pred_map comp_def list.pred_True)

lemma CacheGetRouteRsp_CopyFrom [simp]: "CacheGetRouteRsp_CopyFrom src dst = src"
  by (simp add: CacheGetRouteRsp_CopyFrom_def CacheGetRouteRsp_MergeFrom_def CacheGetRouteRsp_Clear_def HostAddr_CopyFrom [unfolded HostAddr_CopyFrom_def] split: option.split)

lemma CacheGetRouteRsp_fold:
  "fold (\<lambda>h m. m\<lparr>mcr_route := mcr_route m @ [k h]\<rparr>) hs m = m\<lparr>mcr_route := mcr_route m @ map k hs\<rparr>"
  by (induction hs arbitrary: m) simp_all

lemma CacheGetRouteRsp_parse_bytes:
  assumes "wire_ok w" "- (2 ^ 63) \<le> cgr_version x" "cgr_version x < 2 ^ 63" "CacheGetRouteRsp_size w (CacheGetRouteRsp_to x) \<le> total_bytes_limit"
  shows "CacheGetRouteRsp_merge w (CacheGetRouteRsp_bytes w x) CacheGetRouteRsp_Clear = (CacheGetRouteRsp_to x, True)" "CacheGetRouteRsp_parse w (CacheGetRouteRsp_bytes w x) = (CacheGetRouteRsp_to x, True)"
proof -
  have s: "HostAddr_size w (HostAddr_to h) \<le> total_bytes_limit" if "h \<in> set (cgr_route x)" for h
  proof -
    have "HostAddr_size w (HostAddr_to h) \<le> CacheGetRouteRsp_size w (CacheGetRouteRsp_to x)"
      using nested_size_le [OF that, where w = w and f = "\<lambda>h. HostAddr_size w (HostAddr_to h)"]
      by (simp add: CacheGetRouteRsp_size_def CacheGetRouteRsp_to_def comp_def)
    then show ?thesis using assms by simp
  qed
  have m: "HostAddr_merge w (w_enc w (HostAddr_ser w (HostAddr_to h))) HostAddr_Clear = (HostAddr_to h, True)" if "h \<in> set (cgr_route x)" for h
    using HostAddr_parse_bytes(1) [OF assms(1) s [OF that]] by (simp add: HostAddr_bytes_def)
  have r: "merge_toks (CacheGetRouteRsp_field w) (map (\<lambda>h. (5, Bytes (w_enc w (HostAddr_ser w (HostAddr_to h))))) (cgr_route x) @ ts) m
      = merge_toks (CacheGetRouteRsp_field w) ts (m\<lparr>mcr_route := mcr_route m @ map HostAddr_to (cgr_route x)\<rparr>)" for ts m
    by (subst merge_toks_map [where g = "\<lambda>h m. m\<lparr>mcr_route := mcr_route m @ [HostAddr_to h]\<rparr>"])
      (simp_all add: CacheGetRouteRsp_field_def CacheGetRouteRsp_fold m)
  have "CacheGetRouteRsp_merge w (CacheGetRouteRsp_bytes w x) CacheGetRouteRsp_Clear = merge_toks (CacheGetRouteRsp_field w) (CacheGetRouteRsp_ser w (CacheGetRouteRsp_to x)) CacheGetRouteRsp_Clear"
    using assms by (simp add: CacheGetRouteRsp_merge_def CacheGetRouteRsp_bytes_def merge_bytes_enc CacheGetRouteRsp_size_ok)
  also have "\<dots> = (CacheGetRouteRsp_to x, True)"
    using assms by (cases "cgr_overload x") (simp_all add: CacheGetRouteRsp_ser_def CacheGetRouteRsp_to_def CacheGetRouteRsp_field_def CacheGetRouteRsp_Clear_def wire_get comp_def r r [where ts = "[]", simplified])
  finally show "CacheGetRouteRsp_merge w (CacheGetRouteRsp_bytes w x) CacheGetRouteRsp_Clear = (CacheGetRouteRsp_to x, True)" .
  then show "CacheGetRouteRsp_parse w (CacheGetRouteRsp_bytes w x) = (CacheGetRouteRsp_to x, True)" by (simp add: CacheGetRouteRsp_parse_def)
qed

subsection \<open>\<open>CacheBatchRptReq\<close>\<close>

record CacheBatchRptReq_m =
  mbq_modid :: "i32 option"
  mbq_cmdid :: "i32 option"
  mbq_results :: "HostBatchCallRes_m list"
  mbq_unknown :: "token list"

definition CacheBatchRptReq_Clear :: CacheBatchRptReq_m where
  "CacheBatchRptReq_Clear = \<lparr> mbq_modid = None, mbq_cmdid = None, mbq_results = [], mbq_unknown = [] \<rparr>"

definition CacheBatchRptReq_field :: "wire \<Rightarrow> token \<Rightarrow> CacheBatchRptReq_m \<Rightarrow> CacheBatchRptReq_m \<times> bool" where
  "CacheBatchRptReq_field w t m =
    (case t of
       (n, Varint v) \<Rightarrow>
         (if n = 1 then (m\<lparr>mbq_modid := Some (w_geti w v)\<rparr>, True)
          else if n = 2 then (m\<lparr>mbq_cmdid := Some (w_geti w v)\<rparr>, True)
          else (m\<lparr>mbq_unknown := mbq_unknown m @ [t]\<rparr>, True))
     | (n, Bytes b) \<Rightarrow>
         (if n = 3 then
            (let (h, ok) = HostBatchCallRes_merge w b HostBatchCallRes_Clear in (m\<lparr>mbq_results := mbq_results m @ [h]\<rparr>, ok))
          else (m\<lparr>mbq_unknown := mbq_unknown m @ [t]\<rparr>, True))
     | _ \<Rightarrow> (m\<lparr>mbq_unknown := mbq_unknown m @ [t]\<rparr>, True))"

definition CacheBatchRptReq_merge :: "wire \<Rightarrow> bytes \<Rightarrow> CacheBatchRptReq_m \<Rightarrow> CacheBatchRptReq_m \<times> bool" where
  "CacheBatchRptReq_merge w = merge_bytes w (CacheBatchRptReq_field w)"

definition CacheBatchRptReq_ser :: "wire \<Rightarrow> CacheBatchRptReq_m \<Rightarrow> token list" where
  "CacheBatchRptReq_ser w m =
     opt_tok (\<lambda>v. (1, Varint (w_puti w v))) (mbq_modid m)
     @ opt_tok (\<lambda>v. (2, Varint (w_puti w v))) (mbq_cmdid m)
     @ map (\<lambda>h. (3, Bytes (w_enc w (HostBatchCallRes_ser w h)))) (mbq_results m)
     @ mbq_unknown m"

definition CacheBatchRptReq_size :: "wire \<Rightarrow> CacheBatchRptReq_m \<Rightarrow> nat" where
  "CacheBatchRptReq_size w m =
     opt_size (\<lambda>v. 1 + w_vsize w (unat (w_puti w v))) (mbq_modid m)
     + opt_size (\<lambda>v. 1 + w_vsize w (unat (w_puti w v))) (mbq_cmdid m)
     + 1 * length (mbq_results m) + sum_list (map (\<lambda>h. msg_size w (HostBatchCallRes_size w h)) (mbq_results m))
     + sum_list (map (w_tsize w) (mbq_unknown m))"

definition CacheBatchRptReq_init :: "CacheBatchRptReq_m \<Rightarrow> bool" where
  "CacheBatchRptReq_init m \<longleftrightarrow>
     mbq_modid m \<noteq> None \<and>
     mbq_cmdid m \<noteq> None \<and>
     list_all HostBatchCallRes_init (mbq_results m)"

definition CacheBatchRptReq_MergeFrom :: "CacheBatchRptReq_m \<Rightarrow> CacheBatchRptReq_m \<Rightarrow> CacheBatchRptReq_m" where
  "CacheBatchRptReq_MergeFrom src dst = dst\<lparr>
       mbq_modid := later (mbq_modid src) (mbq_modid dst),
       mbq_cmdid := later (mbq_cmdid src) (mbq_cmdid dst),
       mbq_results := mbq_results dst @ mbq_results src,
       mbq_unknown := mbq_unknown dst @ mbq_unknown src \<rparr>"

definition CacheBatchRptReq_CopyFrom :: "CacheBatchRptReq_m \<Rightarrow> CacheBatchRptReq_m \<Rightarrow> CacheBatchRptReq_m" where
  "CacheBatchRptReq_CopyFrom src dst = CacheBatchRptReq_MergeFrom src CacheBatchRptReq_Clear"

definition CacheBatchRptReq_Swap :: "CacheBatchRptReq_m \<Rightarrow> CacheBatchRptReq_m \<Rightarrow> CacheBatchRptReq_m \<times> CacheBatchRptReq_m" where
  "CacheBatchRptReq_Swap this other =
    (this\<lparr> mbq_modid := mbq_modid other, mbq_cmdid := mbq_cmdid other, mbq_results := mbq_results other, mbq_unknown := mbq_unknown other \<rparr>,
     other\<lparr> mbq_modid := mbq_modid this, mbq_cmdid := mbq_cmdid this, mbq_results := mbq_results this, mbq_unknown := mbq_unknown this \<rparr>)"

lemma CacheBatchRptReq_Swap [simp]: "CacheBatchRptReq_Swap a b = (b, a)"
  by (simp add: CacheBatchRptReq_Swap_def)

definition CacheBatchRptReq_parse :: "wire \<Rightarrow> bytes \<Rightarrow> CacheBatchRptReq_m \<times> bool" where
  "CacheBatchRptReq_parse w b = (let (m, ok) = CacheBatchRptReq_merge w b CacheBatchRptReq_Clear in (m, ok \<and> CacheBatchRptReq_init m))"

definition CacheBatchRptReq_of :: "CacheBatchRptReq_m \<Rightarrow> CacheBatchRptReq" where
  "CacheBatchRptReq_of m =
    \<lparr> cbr_modid = (case mbq_modid m of None \<Rightarrow> 0 | Some v \<Rightarrow> v),
      cbr_cmdid = (case mbq_cmdid m of None \<Rightarrow> 0 | Some v \<Rightarrow> v),
      cbr_results = map HostBatchCallRes_of (mbq_results m) \<rparr>"

definition CacheBatchRptReq_to :: "CacheBatchRptReq \<Rightarrow> CacheBatchRptReq_m" where
  "CacheBatchRptReq_to x =
    \<lparr> mbq_modid = Some (cbr_modid x),
      mbq_cmdid = Some (cbr_cmdid x),
      mbq_results = map HostBatchCallRes_to (cbr_results x), mbq_unknown = [] \<rparr>"

definition CacheBatchRptReq_bytes :: "wire \<Rightarrow> CacheBatchRptReq \<Rightarrow> bytes" where
  "CacheBatchRptReq_bytes w x = w_enc w (CacheBatchRptReq_ser w (CacheBatchRptReq_to x))"

lemma CacheBatchRptReq_size_ok: "wire_ok w \<Longrightarrow> toks_size w (CacheBatchRptReq_ser w m) = CacheBatchRptReq_size w m"
  by (simp add: CacheBatchRptReq_ser_def CacheBatchRptReq_size_def toks_size_opt toks_size_map wire_tsize(1) wire_get nested_size
      sum_list_Suc HostBatchCallRes_size_ok flip: toks_size_def)

lemma CacheBatchRptReq_to_simps [simp]: "CacheBatchRptReq_of (CacheBatchRptReq_to x) = x" "CacheBatchRptReq_init (CacheBatchRptReq_to x)"
  by (simp_all add: CacheBatchRptReq_of_def CacheBatchRptReq_to_def CacheBatchRptReq_init_def list_all_iff comp_def option.map_comp option.map_ident
      split: option.split)

lemma CacheBatchRptReq_plain [simp]: "list_all plain (CacheBatchRptReq_ser w (CacheBatchRptReq_to x))"
  by (simp add: CacheBatchRptReq_to_def CacheBatchRptReq_ser_def plain_opt list.pred_map comp_def list.pred_True)

lemma CacheBatchRptReq_CopyFrom [simp]: "CacheBatchRptReq_CopyFrom src dst = src"
  by (simp add: CacheBatchRptReq_CopyFrom_def CacheBatchRptReq_MergeFrom_def CacheBatchRptReq_Clear_def HostBatchCallRes_CopyFrom [unfolded HostBatchCallRes_CopyFrom_def] split: option.split)

lemma CacheBatchRptReq_fold:
  "fold (\<lambda>h m. m\<lparr>mbq_results := mbq_results m @ [k h]\<rparr>) hs m = m\<lparr>mbq_results := mbq_results m @ map k hs\<rparr>"
  by (induction hs arbitrary: m) simp_all

lemma CacheBatchRptReq_parse_bytes:
  assumes "wire_ok w" "CacheBatchRptReq_size w (CacheBatchRptReq_to x) \<le> total_bytes_limit"
  shows "CacheBatchRptReq_merge w (CacheBatchRptReq_bytes w x) CacheBatchRptReq_Clear = (CacheBatchRptReq_to x, True)" "CacheBatchRptReq_parse w (CacheBatchRptReq_bytes w x) = (CacheBatchRptReq_to x, True)"
proof -
  have s: "HostBatchCallRes_size w (HostBatchCallRes_to h) \<le> total_bytes_limit" if "h \<in> set (cbr_results x)" for h
  proof -
    have "HostBatchCallRes_size w (HostBatchCallRes_to h) \<le> CacheBatchRptReq_size w (CacheBatchRptReq_to x)"
      using nested_size_le [OF that, where w = w and f = "\<lambda>h. HostBatchCallRes_size w (HostBatchCallRes_to h)"]
      by (simp add: CacheBatchRptReq_size_def CacheBatchRptReq_to_def comp_def)
    then show ?thesis using assms by simp
  qed
  have m: "HostBatchCallRes_merge w (w_enc w (HostBatchCallRes_ser w (HostBatchCallRes_to h))) HostBatchCallRes_Clear = (HostBatchCallRes_to h, True)" if "h \<in> set (cbr_results x)" for h
    using HostBatchCallRes_parse_bytes(1) [OF assms(1) s [OF that]] by (simp add: HostBatchCallRes_bytes_def)
  have r: "merge_toks (CacheBatchRptReq_field w) (map (\<lambda>h. (3, Bytes (w_enc w (HostBatchCallRes_ser w (HostBatchCallRes_to h))))) (cbr_results x) @ ts) m
      = merge_toks (CacheBatchRptReq_field w) ts (m\<lparr>mbq_results := mbq_results m @ map HostBatchCallRes_to (cbr_results x)\<rparr>)" for ts m
    by (subst merge_toks_map [where g = "\<lambda>h m. m\<lparr>mbq_results := mbq_results m @ [HostBatchCallRes_to h]\<rparr>"])
      (simp_all add: CacheBatchRptReq_field_def CacheBatchRptReq_fold m)
  have "CacheBatchRptReq_merge w (CacheBatchRptReq_bytes w x) CacheBatchRptReq_Clear = merge_toks (CacheBatchRptReq_field w) (CacheBatchRptReq_ser w (CacheBatchRptReq_to x)) CacheBatchRptReq_Clear"
    using assms by (simp add: CacheBatchRptReq_merge_def CacheBatchRptReq_bytes_def merge_bytes_enc CacheBatchRptReq_size_ok)
  also have "\<dots> = (CacheBatchRptReq_to x, True)"
    using assms by (simp_all add: CacheBatchRptReq_ser_def CacheBatchRptReq_to_def CacheBatchRptReq_field_def CacheBatchRptReq_Clear_def wire_get comp_def r r [where ts = "[]", simplified])
  finally show "CacheBatchRptReq_merge w (CacheBatchRptReq_bytes w x) CacheBatchRptReq_Clear = (CacheBatchRptReq_to x, True)" .
  then show "CacheBatchRptReq_parse w (CacheBatchRptReq_bytes w x) = (CacheBatchRptReq_to x, True)" by (simp add: CacheBatchRptReq_parse_def)
qed

section \<open>Any message\<close>

text \<open>
  The nine classes that travel as a packet of their own. \<open>msg_bytes\<close> is \<open>SerializeToString\<close>,
  \<open>msg_size_of\<close> is \<open>ByteSize\<close>, \<open>msg_read\<close> is \<open>ParseFromArray\<close> into the class that the
  receiver of an identifier declares, with the result that most receivers ignore.
\<close>

datatype elb_msg =
    M_GetHostReq GetHostReq
  | M_GetHostRsp GetHostRsp
  | M_ReportReq ReportReq
  | M_GetRouteReq GetRouteReq
  | M_GetRouteRsp GetRouteRsp
  | M_ReportStatusReq ReportStatusReq
  | M_CacheGetRouteReq CacheGetRouteReq
  | M_CacheGetRouteRsp CacheGetRouteRsp
  | M_CacheBatchRptReq CacheBatchRptReq

fun msg_bytes :: "wire \<Rightarrow> elb_msg \<Rightarrow> bytes" where
  "msg_bytes w (M_GetHostReq x) = GetHostReq_bytes w x"
| "msg_bytes w (M_GetHostRsp x) = GetHostRsp_bytes w x"
| "msg_bytes w (M_ReportReq x) = ReportReq_bytes w x"
| "msg_bytes w (M_GetRouteReq x) = GetRouteReq_bytes w x"
| "msg_bytes w (M_GetRouteRsp x) = GetRouteRsp_bytes w x"
| "msg_bytes w (M_ReportStatusReq x) = ReportStatusReq_bytes w x"
| "msg_bytes w (M_CacheGetRouteReq x) = CacheGetRouteReq_bytes w x"
| "msg_bytes w (M_CacheGetRouteRsp x) = CacheGetRouteRsp_bytes w x"
| "msg_bytes w (M_CacheBatchRptReq x) = CacheBatchRptReq_bytes w x"

fun msg_size_of :: "wire \<Rightarrow> elb_msg \<Rightarrow> nat" where
  "msg_size_of w (M_GetHostReq x) = GetHostReq_size w (GetHostReq_to x)"
| "msg_size_of w (M_GetHostRsp x) = GetHostRsp_size w (GetHostRsp_to x)"
| "msg_size_of w (M_ReportReq x) = ReportReq_size w (ReportReq_to x)"
| "msg_size_of w (M_GetRouteReq x) = GetRouteReq_size w (GetRouteReq_to x)"
| "msg_size_of w (M_GetRouteRsp x) = GetRouteRsp_size w (GetRouteRsp_to x)"
| "msg_size_of w (M_ReportStatusReq x) = ReportStatusReq_size w (ReportStatusReq_to x)"
| "msg_size_of w (M_CacheGetRouteReq x) = CacheGetRouteReq_size w (CacheGetRouteReq_to x)"
| "msg_size_of w (M_CacheGetRouteRsp x) = CacheGetRouteRsp_size w (CacheGetRouteRsp_to x)"
| "msg_size_of w (M_CacheBatchRptReq x) = CacheBatchRptReq_size w (CacheBatchRptReq_to x)"

fun msg_read :: "wire \<Rightarrow> MsgTypeId \<Rightarrow> bytes \<Rightarrow> elb_msg \<times> bool" where
  "msg_read w GetHostReqId b = (case GetHostReq_parse w b of (m, ok) \<Rightarrow> (M_GetHostReq (GetHostReq_of m), ok))"
| "msg_read w GetHostRspId b = (case GetHostRsp_parse w b of (m, ok) \<Rightarrow> (M_GetHostRsp (GetHostRsp_of m), ok))"
| "msg_read w ReportReqId b = (case ReportReq_parse w b of (m, ok) \<Rightarrow> (M_ReportReq (ReportReq_of m), ok))"
| "msg_read w GetRouteByToolReqId b = (case GetRouteReq_parse w b of (m, ok) \<Rightarrow> (M_GetRouteReq (GetRouteReq_of m), ok))"
| "msg_read w GetRouteByToolRspId b = (case GetRouteRsp_parse w b of (m, ok) \<Rightarrow> (M_GetRouteRsp (GetRouteRsp_of m), ok))"
| "msg_read w GetRouteByAgentReqId b = (case GetRouteReq_parse w b of (m, ok) \<Rightarrow> (M_GetRouteReq (GetRouteReq_of m), ok))"
| "msg_read w GetRouteByAgentRspId b = (case GetRouteRsp_parse w b of (m, ok) \<Rightarrow> (M_GetRouteRsp (GetRouteRsp_of m), ok))"
| "msg_read w ReportStatusReqId b = (case ReportStatusReq_parse w b of (m, ok) \<Rightarrow> (M_ReportStatusReq (ReportStatusReq_of m), ok))"
| "msg_read w CacheGetRouteReqId b = (case CacheGetRouteReq_parse w b of (m, ok) \<Rightarrow> (M_CacheGetRouteReq (CacheGetRouteReq_of m), ok))"
| "msg_read w CacheGetRouteRspId b = (case CacheGetRouteRsp_parse w b of (m, ok) \<Rightarrow> (M_CacheGetRouteRsp (CacheGetRouteRsp_of m), ok))"
| "msg_read w CacheBatchRptReqId b = (case CacheBatchRptReq_parse w b of (m, ok) \<Rightarrow> (M_CacheBatchRptReq (CacheBatchRptReq_of m), ok))"

text \<open>The identifiers a message is sent under.\<close>

fun msg_ids :: "elb_msg \<Rightarrow> MsgTypeId list" where
  "msg_ids (M_GetHostReq x) = [GetHostReqId]"
| "msg_ids (M_GetHostRsp x) = [GetHostRspId]"
| "msg_ids (M_ReportReq x) = [ReportReqId]"
| "msg_ids (M_GetRouteReq x) = [GetRouteByToolReqId, GetRouteByAgentReqId]"
| "msg_ids (M_GetRouteRsp x) = [GetRouteByToolRspId, GetRouteByAgentRspId]"
| "msg_ids (M_ReportStatusReq x) = [ReportStatusReqId]"
| "msg_ids (M_CacheGetRouteReq x) = [CacheGetRouteReqId]"
| "msg_ids (M_CacheGetRouteRsp x) = [CacheGetRouteRspId]"
| "msg_ids (M_CacheBatchRptReq x) = [CacheBatchRptReqId]"

text \<open>The C types \<open>int\<close> and \<open>long\<close> that the records keep as integers are in their range.\<close>

fun msg_range :: "elb_msg \<Rightarrow> bool" where
  "msg_range (M_GetHostRsp x) \<longleftrightarrow> - (2 ^ 31) \<le> ghr_retcode x \<and> ghr_retcode x < 2 ^ 31"
| "msg_range (M_CacheGetRouteReq x) \<longleftrightarrow> - (2 ^ 63) \<le> cgq_version x \<and> cgq_version x < 2 ^ 63"
| "msg_range (M_CacheGetRouteRsp x) \<longleftrightarrow> - (2 ^ 63) \<le> cgr_version x \<and> cgr_version x < 2 ^ 63"
| "msg_range _ \<longleftrightarrow> True"

lemma msg_read_bytes:
  assumes "wire_ok w" "msg_range m" "msg_size_of w m \<le> total_bytes_limit" "i \<in> set (msg_ids m)"
  shows "msg_read w i (msg_bytes w m) = (m, True)"
  using assms
  by (cases m) (auto simp: GetHostReq_parse_bytes(2) GetHostRsp_parse_bytes(2) ReportReq_parse_bytes(2) GetRouteReq_parse_bytes(2) GetRouteRsp_parse_bytes(2) ReportStatusReq_parse_bytes(2) CacheGetRouteReq_parse_bytes(2) CacheGetRouteRsp_parse_bytes(2) CacheBatchRptReq_parse_bytes(2))

lemma msg_bytes_length: "wire_ok w \<Longrightarrow> length (msg_bytes w m) = msg_size_of w m"
  by (cases m) (simp_all add: wire_len GetHostReq_bytes_def GetHostReq_size_ok GetHostRsp_bytes_def GetHostRsp_size_ok ReportReq_bytes_def ReportReq_size_ok GetRouteReq_bytes_def GetRouteReq_size_ok GetRouteRsp_bytes_def GetRouteRsp_size_ok ReportStatusReq_bytes_def ReportStatusReq_size_ok CacheGetRouteReq_bytes_def CacheGetRouteReq_size_ok CacheGetRouteRsp_bytes_def CacheGetRouteRsp_size_ok CacheBatchRptReq_bytes_def CacheBatchRptReq_size_ok)

section \<open>Bounds\<close>

lemma put_size:
  "wire_ok w \<Longrightarrow> w_vsize w (unat (v :: u64)) \<le> 10" "wire_ok w \<Longrightarrow> 1 \<le> w_vsize w n"
  using wire_vsize(2) [of w "unat v"] unsigned_less [of v, where 'a = nat] wire_vsize(1) [of w n]
  by (simp_all del: One_nat_def)

lemma batch_result_size:
  assumes "wire_ok w"
  shows "6 \<le> HostBatchCallRes_size w (HostBatchCallRes_to r)" "HostBatchCallRes_size w (HostBatchCallRes_to r) \<le> 33"
  using put_size(1) [OF assms, of "w_puti w (hbc_ip r)"] put_size(1) [OF assms, of "w_puti w (hbc_port r)"]
    put_size(1) [OF assms, of "w_putu w (hbc_succcnt r)"]
    put_size(2) [OF assms, of "unat (w_puti w (hbc_ip r))"] put_size(2) [OF assms, of "unat (w_puti w (hbc_port r))"]
    put_size(2) [OF assms, of "unat (w_putu w (hbc_succcnt r))"]
  by (simp_all add: HostBatchCallRes_size_def HostBatchCallRes_to_def)

text \<open>A batch of n results takes from 8 n + 4 to 44 n + 22 bytes.\<close>

lemma batch_size:
  assumes "wire_ok w"
  shows "8 * length (cbr_results x) + 4 \<le> CacheBatchRptReq_size w (CacheBatchRptReq_to x)"
    "CacheBatchRptReq_size w (CacheBatchRptReq_to x) \<le> 44 * length (cbr_results x) + 22"
proof -
  let ?s = "\<lambda>r. msg_size w (HostBatchCallRes_size w (HostBatchCallRes_to r))"
  have "7 \<le> ?s r \<and> ?s r \<le> 43" for r
    using batch_result_size [OF assms, of r] put_size(2) [OF assms, of "HostBatchCallRes_size w (HostBatchCallRes_to r)"]
      wire_vsize(2) [OF assms, of "HostBatchCallRes_size w (HostBatchCallRes_to r)"]
    by (auto simp: msg_size_def)
  then have "7 * length rs \<le> sum_list (map ?s rs) \<and> sum_list (map ?s rs) \<le> 43 * length rs" for rs
    by (induction rs) (simp_all add: add_mono)
  from this [of "cbr_results x"] show "8 * length (cbr_results x) + 4 \<le> CacheBatchRptReq_size w (CacheBatchRptReq_to x)"
    "CacheBatchRptReq_size w (CacheBatchRptReq_to x) \<le> 44 * length (cbr_results x) + 22"
    using put_size(1) [OF assms, of "w_puti w (cbr_modid x)"] put_size(1) [OF assms, of "w_puti w (cbr_cmdid x)"]
      put_size(2) [OF assms, of "unat (w_puti w (cbr_modid x))"] put_size(2) [OF assms, of "unat (w_puti w (cbr_cmdid x))"]
    by (simp_all add: CacheBatchRptReq_size_def CacheBatchRptReq_to_def comp_def)
qed

lemma parse_empty:
  assumes "wire_ok w"
  shows "msg_read w GetHostReqId [] = (M_GetHostReq \<lparr> ghq_seq = 0, ghq_modid = 0, ghq_cmdid = 0 \<rparr>, False)"
proof -
  have "w_enc w [] = []" using wire_len [OF assms, of "[]"] by simp
  with wire_lex [OF assms, of "[]"] have "w_lex w [] = ([], True)" by (simp add: total_bytes_limit_def)
  then show ?thesis
    by (simp add: GetHostReq_parse_def GetHostReq_merge_def merge_bytes_def GetHostReq_Clear_def
        GetHostReq_of_def GetHostReq_init_def)
qed

section \<open>Properties\<close>

text \<open>
  C33. Every message survives the wire: what one process serializes, another one parses back
  to the same message without error, and \<open>ByteSize\<close> announces exactly the number of
  bytes written.
\<close>

theorem message_round_trip:
  assumes "wire_ok w" and "msg_range m" and "msg_size_of w m \<le> total_bytes_limit" and "i \<in> set (msg_ids m)"
  shows "msg_read w i (msg_bytes w m) = (m, True) \<and> length (msg_bytes w m) = msg_size_of w m"
  using msg_read_bytes [OF assms] msg_bytes_length [OF assms(1)] by blast

definition ex_msg :: elb_msg where
  "ex_msg = M_CacheBatchRptReq \<lparr> cbr_modid = 1, cbr_cmdid = - 2,
     cbr_results = [\<lparr> hbc_ip = 7, hbc_port = 80, hbc_succcnt = 300 \<rparr>] \<rparr>"

lemma ex_msg_size: "msg_size_of std_wire ex_msg \<le> total_bytes_limit"
  using batch_size(2) [OF std_wire_ok, of "\<lparr> cbr_modid = 1, cbr_cmdid = - 2,
     cbr_results = [\<lparr> hbc_ip = 7, hbc_port = 80, hbc_succcnt = 300 \<rparr>] \<rparr>"]
  by (simp add: ex_msg_def total_bytes_limit_def)

theorem message_round_trip_witness:
  "msg_read std_wire CacheBatchRptReqId (msg_bytes std_wire ex_msg) = (ex_msg, True)
   \<and> length (msg_bytes std_wire ex_msg) = msg_size_of std_wire ex_msg"
  by (rule message_round_trip [OF std_wire_ok _ ex_msg_size]) (simp_all add: ex_msg_def)

end
