(* ===== verification/Reporter.thy ===== *)
theory Reporter
  imports MurHash ElbCodec CText
begin

text \<open>
  The reporter: \<open>reportStatus\<close> gives each message to the thread its module hashes to, and each
  thread writes what it was given to the database (\<open>CallStatis::report\<close>). The database is
  seen through the calls that are made: the statements sent to it, and the return codes of
  the queries, which are an argument. The lemmas follow a message from its bytes to its
  statements.
\<close>

section \<open>Writing one message\<close>

text \<open>\<open>%d\<close> and \<open>%u\<close> of 32-bit arguments.\<close>

definition fmt_d :: "i32 \<Rightarrow> string" where "fmt_d i = dec_int (sint i)"
definition fmt_u :: "u32 \<Rightarrow> string" where "fmt_u i = dec_nat (unat i)"

definition commas :: "string list \<Rightarrow> string" where
  "commas xs = concat (case xs of [] \<Rightarrow> [] | y # ys \<Rightarrow> y # map (\<lambda>s. '', '' @ s) ys)"

text \<open>The whole text that is formatted for a node, before \<open>snprintf\<close> cuts it.\<close>

definition sql_text :: "ReportStatusReq \<Rightarrow> HostCallResult \<Rightarrow> string" where
  "sql_text req r =
    (let overload = (if hcr_overload r then 1 else 0) in
     ''INSERT INTO ServerCallStatus'' @
     ''(modid, cmdid, ip, port, caller, succ_cnt, err_cnt, ts, overload) '' @
     ''VALUES ('' @ commas [fmt_d (rsr_modid req), fmt_d (rsr_cmdid req), fmt_u (hcr_ip r), fmt_u (hcr_port r),
         fmt_u (rsr_caller req), fmt_u (hcr_succ r), fmt_u (hcr_err r), fmt_u (rsr_ts req), fmt_d overload] @
     '') ON DUPLICATE KEY '' @
     ''UPDATE succ_cnt = '' @ fmt_u (hcr_succ r) @ '', err_cnt = '' @ fmt_u (hcr_err r) @
     '', ts = '' @ fmt_u (rsr_ts req) @ '', overload = '' @ fmt_d overload)"

text \<open>Calls of the database client, and messages to the log.\<close>

datatype db_call = DbInit | DbTimeout string | DbReconnect bool | DbConnect string u32 string string string
  | DbPing | DbQuery string | DbError | DbExit

text \<open>\<open>snprintf\<close> into 3072 bytes; return codes of \<open>mysql_real_query\<close> are 0 when there are no more.\<close>

fun report_rows :: "ReportStatusReq \<Rightarrow> HostCallResult list \<Rightarrow> int list \<Rightarrow> db_call list \<times> int list" where
  "report_rows req [] rets = ([], rets)"
| "report_rows req (r # rs) rets =
    (let sql = take 3071 (sql_text req r);
         (ret, rets') = (case rets of [] \<Rightarrow> (0, []) | x # xs \<Rightarrow> (x, xs));
         (calls, rest) = report_rows req rs rets'
     in ([DbPing, DbQuery sql] @ (if ret \<noteq> 0 then [DbError] else []) @ calls, rest))"

definition CallStatis_report :: "ReportStatusReq \<Rightarrow> int list \<Rightarrow> db_call list \<times> int list" where
  "CallStatis_report req rets = report_rows req (rsr_results req) rets"

text \<open>The constructor: settings of the database, and whether the connection is up.\<close>

record DbSettings =
  db_host :: string
  db_port :: "16 word"
  db_user :: string
  db_passwd :: string
  db_name :: string

definition new_CallStatis :: "DbSettings \<Rightarrow> bool \<Rightarrow> db_call list" where
  "new_CallStatis s up =
    [DbInit, DbTimeout ''30'', DbReconnect True,
     DbConnect (db_host s) (ucast (db_port s)) (db_user s) (db_passwd s) (db_name s)]
     @ (if \<not> up then [DbError, DbExit] else [])"

section \<open>Threads and queues\<close>

record Reporter =
  threadCnt :: i32
  rptQueues :: "ReportStatusReq list list"

definition new_Reporter :: "nat \<Rightarrow> Reporter" where
  "new_Reporter n = \<lparr> threadCnt = of_nat n, rptQueues = replicate n [] \<rparr>"

text \<open>Where a message goes; \<open>None\<close> when it does not parse.\<close>

datatype rpt_out = Undecodable | Queued nat ReportStatusReq | Wrote nat "db_call list"

definition reportStatus :: "wire \<Rightarrow> bytes \<Rightarrow> Reporter \<Rightarrow> (Reporter \<times> rpt_out) res" where
  "reportStatus w data st =
    (let (m, ok) = ReportStatusReq_parse w data; req = ReportStatusReq_of m in
     if \<not> ok then Inr (st, Undecodable)
     else (let key = mkkey (rsr_modid req) (rsr_cmdid req) in
       rbind (HASHTO key (threadCnt st)) (\<lambda>index.
         let i = nat (sint index) in
         if 0 \<le> sint index \<and> i < length (rptQueues st)
         then Inr (st\<lparr>rptQueues := (rptQueues st)[i := rptQueues st ! i @ [req]]\<rparr>, Queued i req)
         else Inl BadIndex)))"

text \<open>The callback of a thread takes its whole queue and writes the messages in order.\<close>

fun write_all :: "ReportStatusReq list \<Rightarrow> int list \<Rightarrow> db_call list" where
  "write_all [] rets = []"
| "write_all (req # msgs) rets =
    (let (calls, rets') = CallStatis_report req rets in calls @ write_all msgs rets')"

definition newReportReq_db :: "nat \<Rightarrow> int list \<Rightarrow> Reporter \<Rightarrow> (Reporter \<times> rpt_out) res" where
  "newReportReq_db i rets st =
    (if i < length (rptQueues st)
     then Inr (st\<lparr>rptQueues := (rptQueues st)[i := []]\<rparr>, Wrote i (write_all (rptQueues st ! i) rets))
     else Inl BadIndex)"

datatype rpt_event = Arrive bytes | Notify nat "int list"

fun rpt_step :: "wire \<Rightarrow> rpt_event \<Rightarrow> Reporter \<Rightarrow> (Reporter \<times> rpt_out) res" where
  "rpt_step w (Arrive data) st = reportStatus w data st"
| "rpt_step w (Notify i rets) st = newReportReq_db i rets st"

section \<open>Statements are not cut\<close>

lemma length_dec_nat: "n < 10 ^ k \<Longrightarrow> 0 < k \<Longrightarrow> length (dec_nat n) \<le> k"
proof (induction k arbitrary: n)
  case (Suc k)
  show ?case
  proof (cases "n < 10")
    case False
    then have "0 < k" using Suc.prems by (cases k) auto
    moreover have "n div 10 < 10 ^ k" using Suc.prems(1) by (simp add: less_mult_imp_div_less)
    ultimately have "length (dec_nat (n div 10)) \<le> k" by (intro Suc.IH)
    with False show ?thesis by (simp add: dec_nat.simps [of n])
  qed (simp add: dec_nat.simps [of n])
qed simp

lemma length_fmt: "length (fmt_u i) \<le> 10" "length (fmt_d i) \<le> 11"
proof -
  have "unat i < 10 ^ 10" using unsigned_less [of i, where ?'a = nat] by simp
  then show "length (fmt_u i) \<le> 10" unfolding fmt_u_def by (rule length_dec_nat) simp
  have "nat \<bar>sint i\<bar> < 10 ^ 10" using sint_greater_eq [of i] sint_less [of i] by simp
  then have "length (dec_nat (nat \<bar>sint i\<bar>)) \<le> 10" by (rule length_dec_nat) simp
  then show "length (fmt_d i) \<le> 11" by (auto simp: fmt_d_def dec_int_def)
qed

lemma sql_fits: "length (sql_text req r) \<le> 3071"
proof -
  note l = length_fmt(1) [of "hcr_ip r"] length_fmt(1) [of "hcr_port r"] length_fmt(1) [of "rsr_caller req"]
    length_fmt(1) [of "hcr_succ r"] length_fmt(1) [of "hcr_err r"] length_fmt(1) [of "rsr_ts req"]
    length_fmt(2) [of "rsr_modid req"] length_fmt(2) [of "rsr_cmdid req"] length_fmt(2) [of 0] length_fmt(2) [of 1]
  show ?thesis using l by (cases "hcr_overload r") (simp_all add: sql_text_def commas_def)
qed

lemma sql_whole: "take 3071 (sql_text req r) = sql_text req r"
  using sql_fits by simp

section \<open>From queues to statements\<close>

fun queries :: "db_call list \<Rightarrow> string list" where
  "queries [] = []"
| "queries (DbQuery s # cs) = s # queries cs"
| "queries (_ # cs) = queries cs"

lemma queries_append: "queries (xs @ ys) = queries xs @ queries ys"
  by (induction xs rule: queries.induct) auto

definition statements :: "ReportStatusReq \<Rightarrow> string list" where
  "statements req = map (sql_text req) (rsr_results req)"

lemma queries_rows: "report_rows req rs rets = (calls, rest) \<Longrightarrow> queries calls = map (sql_text req) rs"
  by (induction rs arbitrary: rets calls rest)
     (auto simp: sql_whole Let_def queries_append split: prod.splits if_splits)

lemma queries_write_all: "queries (write_all msgs rets) = concat (map statements msgs)"
proof (induction msgs arbitrary: rets)
  case (Cons req msgs)
  then show ?case
    by (auto simp: CallStatis_report_def statements_def queries_append queries_rows split: prod.split)
qed simp

text \<open>What thread \<open>i\<close> was given, and what it wrote, in a run.\<close>

definition given :: "nat \<Rightarrow> rpt_out list \<Rightarrow> ReportStatusReq list" where
  "given i outs = concat (map (\<lambda>out. case out of Queued j req \<Rightarrow> if j = i then [req] else [] | _ \<Rightarrow> []) outs)"

definition wrote :: "nat \<Rightarrow> rpt_out list \<Rightarrow> string list" where
  "wrote i outs = concat (map (\<lambda>out. case out of Wrote j cs \<Rightarrow> if j = i then queries cs else [] | _ \<Rightarrow> []) outs)"

definition rpt_ok :: "nat \<Rightarrow> Reporter \<Rightarrow> bool" where
  "rpt_ok n st \<longleftrightarrow> threadCnt st = of_nat n \<and> 0 < n \<and> n < 2 ^ 31 \<and> length (rptQueues st) = n"

lemma thread_of:
  assumes "rpt_ok n st"
  obtains i where "HASHTO key (threadCnt st) = Inr i" "0 \<le> sint i" "nat (sint i) < n"
proof -
  let ?i = "murMurHash (key_bytes key) mod of_nat n"
  have n: "uint (of_nat n :: u32) = int n"
    using assms by (simp add: rpt_ok_def unsigned_of_nat take_bit_nat_eq_self)
  have "(of_nat n :: u32) \<noteq> 0" using n assms by (metis of_nat_0_eq_iff order_less_irrefl rpt_ok_def unsigned_0)
  note n = n this
  have "uint ?i < int n" using assms by (simp add: uint_mod_distrib n rpt_ok_def)
  moreover from this have "sint ?i = uint ?i" using assms by (intro sint_uint_small) (simp add: rpt_ok_def)
  ultimately have "0 \<le> sint ?i" "nat (sint ?i) < n" by (simp_all only: uint_ge_0 nat_less_iff)
  then show ?thesis using assms n(2) that [of ?i] by (simp only: HASHTO_def rpt_ok_def if_False)
qed

lemma step_runs:
  assumes "rpt_ok n st" "case e of Notify i rets \<Rightarrow> i < n | _ \<Rightarrow> True"
  shows "ends (\<lambda>_. False) (\<lambda>(st', out). rpt_ok n st' \<and>
     (\<forall>i < n. wrote i [out] @ concat (map statements (rptQueues st' ! i)) =
              concat (map statements (rptQueues st ! i)) @ concat (map statements (given i [out]))))
    (rpt_step w e st)"
proof (cases e)
  case (Arrive data)
  obtain m ok where p: "ReportStatusReq_parse w data = (m, ok)" by fastforce
  obtain i where i: "HASHTO (mkkey (rsr_modid (ReportStatusReq_of m)) (rsr_cmdid (ReportStatusReq_of m))) (threadCnt st) = Inr i"
    "0 \<le> sint i" "nat (sint i) < n" by (rule thread_of [OF assms(1)])
  show ?thesis using assms(1) i
    by (auto simp: Arrive reportStatus_def p Let_def rpt_ok_def wrote_def given_def nth_list_update)
next
  case (Notify i rets)
  with assms show ?thesis
    by (auto simp: newReportReq_db_def rpt_ok_def wrote_def given_def queries_write_all nth_list_update)
qed

interpretation rp: safe_machine "rpt_step w" "rpt_ok n" "\<lambda>e. case e of Notify i rets \<Rightarrow> i < n | _ \<Rightarrow> True" "\<lambda>_. False"
proof unfold_locales
  fix s e s' out assume a: "rpt_ok n s" "case e of Notify i rets \<Rightarrow> i < n | _ \<Rightarrow> True"
  show "rpt_step w e s = Inr (s', out) \<Longrightarrow> rpt_ok n s'" using endsD [OF step_runs [OF a]] by fastforce
  show "rpt_step w e s = Inl f \<Longrightarrow> False" for f using ends_faultD [OF step_runs [OF a]] by blast
qed

lemma run_writes:
  assumes "rpt_ok n st" "list_all (\<lambda>e. case e of Notify i rets \<Rightarrow> i < n | _ \<Rightarrow> True) es"
  shows "ends (\<lambda>_. False) (\<lambda>(st', outs). rpt_ok n st' \<and>
     (\<forall>i < n. wrote i outs @ concat (map statements (rptQueues st' ! i)) =
              concat (map statements (rptQueues st ! i)) @ concat (map statements (given i outs))))
    (run (rpt_step w) es st)"
  using assms
proof (induction es arbitrary: st)
  case (Cons e es)
  have w: "wrote i (out # outs) = wrote i [out] @ wrote i outs" "given i (out # outs) = given i [out] @ given i outs"
    for i out outs by (simp_all add: wrote_def given_def)
  let ?Q = "\<lambda>st (st', outs). rpt_ok n st' \<and> (\<forall>i < n. wrote i outs @ concat (map statements (rptQueues st' ! i)) =
      concat (map statements (rptQueues st ! i)) @ concat (map statements (given i outs)))"
  have r: "ends (\<lambda>_. False) (?Q st) (rbind (run (rpt_step w) es st1) (\<lambda>(s'', outs). Inr (s'', out # outs)))"
    if "rpt_ok n st1" "\<forall>i < n. wrote i [out] @ concat (map statements (rptQueues st1 ! i)) =
              concat (map statements (rptQueues st ! i)) @ concat (map statements (given i [out]))" for st1 out
  proof (rule ends_rbind)
    show "ends (\<lambda>_. False) (?Q st1) (run (rpt_step w) es st1)" using that(1) Cons.prems(2) by (intro Cons.IH) simp_all
  next
    fix x assume x: "?Q st1 x"
    obtain st2 outs where "x = (st2, outs)" by fastforce
    with x that(2) show "ends (\<lambda>_. False) (?Q st) (case x of (s'', outs) \<Rightarrow> Inr (s'', out # outs))"
      by (auto simp: w [of _ out outs])
  qed
  show ?case unfolding run.simps
    by (rule ends_rbind [OF step_runs [OF Cons.prems(1)]]) (use Cons.prems in \<open>auto intro: r\<close>)
qed (simp add: wrote_def given_def)

section \<open>Properties\<close>

text \<open>
  C37. The reporter writes what it was sent. With at least one thread, whatever arrives and however
  the threads are scheduled, no call faults; each thread has written, whole and in order of
  arrival, one statement for every node of every message it was given, except those of the
  messages still in its queue. A message that an agent serialized is given to exactly one
  thread, the one its module hashes to.
\<close>

theorem reporter_writes_all:
  assumes "wire_ok w" and "0 < n" and "n < 2 ^ 31"
    and "list_all (\<lambda>e. case e of Notify i rets \<Rightarrow> i < n | _ \<Rightarrow> True) es"
  shows "\<exists>st outs. run (rpt_step w) es (new_Reporter n) = Inr (st, outs)
    \<and> (\<forall>i < n. wrote i outs @ concat (map statements (rptQueues st ! i)) = concat (map statements (given i outs)))
    \<and> (\<forall>req. ReportStatusReq_size w (ReportStatusReq_to req) \<le> total_bytes_limit \<longrightarrow>
         (\<exists>i st'. HASHTO (mkkey (rsr_modid req) (rsr_cmdid req)) (of_nat n) = Inr i
            \<and> reportStatus w (ReportStatusReq_bytes w req) st = Inr (st', Queued (nat (sint i)) req)))"
proof -
  have ok: "rpt_ok n (new_Reporter n)" using assms(2,3) by (simp add: rpt_ok_def new_Reporter_def)
  from run_writes [OF this assms(4), of w] obtain st outs where r: "run (rpt_step w) es (new_Reporter n) = Inr (st, outs)"
    "rpt_ok n st" "\<forall>i < n. wrote i outs @ concat (map statements (rptQueues st ! i)) = concat (map statements (given i outs))"
    by (cases "run (rpt_step w) es (new_Reporter n)") (auto simp: new_Reporter_def)
  have "\<exists>i st'. HASHTO (mkkey (rsr_modid req) (rsr_cmdid req)) (of_nat n) = Inr i
      \<and> reportStatus w (ReportStatusReq_bytes w req) st = Inr (st', Queued (nat (sint i)) req)"
    if "ReportStatusReq_size w (ReportStatusReq_to req) \<le> total_bytes_limit" for req
  proof -
    from thread_of [OF r(2), of "mkkey (rsr_modid req) (rsr_cmdid req)"] obtain i where
      "HASHTO (mkkey (rsr_modid req) (rsr_cmdid req)) (threadCnt st) = Inr i" "0 \<le> sint i" "nat (sint i) < n" .
    with r(2) ReportStatusReq_parse_bytes(2) [OF assms(1) that] show ?thesis
      by (simp add: reportStatus_def rpt_ok_def Let_def)
  qed
  with r show ?thesis by blast
qed

definition ex_report :: ReportStatusReq where
  "ex_report = \<lparr> rsr_modid = 1, rsr_cmdid = 2, rsr_caller = 3,
     rsr_results = [\<lparr> hcr_ip = 7, hcr_port = 80, hcr_succ = 5, hcr_err = 1, hcr_overload = False \<rparr>], rsr_ts = 9 \<rparr>"

theorem reporter_writes_all_witness:
  "\<exists>st outs. run (rpt_step std_wire)
       [Arrive (ReportStatusReq_bytes std_wire ex_report), Notify 0 [], Arrive [], Notify 1 [1], Notify 2 []] (new_Reporter 3)
     = Inr (st, outs)
     \<and> (\<forall>i < 3. wrote i outs @ concat (map statements (rptQueues st ! i)) = concat (map statements (given i outs)))"
proof -
  have "list_all (\<lambda>e. case e of Notify i rets \<Rightarrow> i < 3 | _ \<Rightarrow> True)
      [Arrive (ReportStatusReq_bytes std_wire ex_report), Notify 0 [], Arrive [], Notify 1 [1], Notify 2 []]" by simp
  from reporter_writes_all [OF std_wire_ok _ _ this] show ?thesis by (simp del: run.simps rpt_step.simps) blast
qed

text \<open>The number of threads comes from the configuration; nothing keeps it from being zero.\<close>

lemma no_threads_no_reports:
  "wire_ok w \<Longrightarrow> ReportStatusReq_size w (ReportStatusReq_to req) \<le> total_bytes_limit \<Longrightarrow>
   reportStatus w (ReportStatusReq_bytes w req) (new_Reporter 0) = Inl DivZero"
  using ReportStatusReq_parse_bytes(2) [of w req]
  by (simp add: reportStatus_def new_Reporter_def HASHTO_def)

end
