(* ===== verification/ElbLog.thy ===== *)
theory ElbLog
  imports CText
begin

text \<open>
  The logger shared by the processes (\<open>common/base/src/log.cc\<close> and \<open>log.h\<close>, in the
  configuration they are built in: no \<open>CLIENTAPI\<close>, \<open>HAS_TLS\<close> or \<open>HAS_STAT\<close>). The message of a
  call is an argument as \<open>vsnprintf\<close> would format it with room enough. The lemmas show what
  is written for a message, and where.
\<close>

section \<open>State\<close>

text \<open>What the descriptor \<open>logfd\<close> refers to.\<close>

datatype sink = NullDev | StdErr | LogFile string

record Log =
  log_level :: int
  logfd :: int
  log_sink :: sink
  logday :: int
  log_dir :: string
  appname :: string

definition init_statics :: Log where
  "init_statics = \<lparr> log_level = 6, logfd = - 1, log_sink = NullDev, logday = 0, log_dir = ''../log'', appname = [] \<rparr>"

text \<open>Local time, the name and the number of the calling thread, and the result of \<open>open\<close>.\<close>

record log_env =
  tm_hour :: int
  tm_min :: int
  tm_sec :: int
  tm_year :: int
  tm_mon :: int
  tm_mday :: int
  tm_yday :: int
  threadname :: "string option"
  thread_id :: int
  open_log :: int

section \<open>Formatting\<close>

text \<open>\<open>%0kd\<close>.\<close>

definition pad_int :: "nat \<Rightarrow> int \<Rightarrow> string" where
  "pad_int k i =
    (let ds = dec_nat (nat \<bar>i\<bar>); sign = (if i < 0 then ''-'' else [])
     in sign @ replicate (k - length sign - length ds) CHR ''0'' @ ds)"

text \<open>The part of a path after its last slash.\<close>

definition base_name :: "string \<Rightarrow> string" where
  "base_name f = rev (takeWhile (\<lambda>c. c \<noteq> CHR ''/'') (rev f))"

definition log_prefix :: "int \<Rightarrow> string \<Rightarrow> string \<Rightarrow> int \<Rightarrow> log_env \<Rightarrow> string" where
  "log_prefix level filename funcname lineno en =
    ''<'' @ dec_int level @ ''>['' @ pad_int 2 (tm_hour en) @ '':'' @ pad_int 2 (tm_min en) @ '':'' @ pad_int 2 (tm_sec en) @ ''] '' @
    (case threadname en of Some n \<Rightarrow> n | None \<Rightarrow> ''pid['' @ dec_int (thread_id en) @ '']'') @
    '': '' @ base_name filename @ ''('' @ dec_int lineno @ '')['' @ funcname @ '']: ''"

definition log_file :: "log_env \<Rightarrow> Log \<Rightarrow> string" where
  "log_file en lg = take 255 (log_dir lg @ ''/'' @ appname lg @ ''.error'' @
     pad_int 4 (tm_year en + 1900) @ pad_int 2 (tm_mon en + 1) @ pad_int 2 (tm_mday en) @ ''.log'')"

section \<open>Writing\<close>

definition LOGSIZE :: nat where "LOGSIZE = 4096"

text \<open>The file of the day; a failed \<open>open\<close> leaves the old one, and is not tried again that day.\<close>

definition rotate_log :: "log_env \<Rightarrow> Log \<Rightarrow> Log" where
  "rotate_log en lg =
    (let today = tm_year en * 1000 + tm_yday en in
     if 0 \<le> logfd lg \<and> today \<noteq> logday lg
     then (let lg1 = lg\<lparr>logday := today\<rparr> in
           if 0 \<le> open_log en then lg1\<lparr>log_sink := LogFile (log_file en lg)\<rparr> else lg1)
     else lg)"

text \<open>
  The buffer as the text before its terminator: \<open>snprintf\<close> of the prefix, \<open>vsnprintf\<close> of the
  message behind it, and the line end. The result is what the first \<open>off\<close> bytes hold.
\<close>

definition log_buffer :: "string \<Rightarrow> string \<Rightarrow> string" where
  "log_buffer prefix msg =
    (let buf1 = take (LOGSIZE - 1) prefix;
         off1 = (if LOGSIZE \<le> length prefix then LOGSIZE - 1 else length prefix);
         buf2 = take off1 buf1 @ take (LOGSIZE - off1 - 1) msg;
         off2 = off1 + length msg;
         off3 = (if LOGSIZE \<le> off2 then LOGSIZE - 1 else off2)
     in if buf2 ! (off3 - 1) \<noteq> CHR 0x0A
        then (if off3 < LOGSIZE - 1 then take (off3 + 1) (take off3 buf2 @ [CHR 0x0A])
              else take off3 (buf2 @ [CHR 0x0A]))
        else take off3 buf2)"

text \<open>
  The text written to the standard error (from the fourth byte on) and to the file. Nothing is
  written before the logger has a name.
\<close>

definition write_log ::
  "int \<Rightarrow> string \<Rightarrow> string \<Rightarrow> int \<Rightarrow> string \<Rightarrow> log_env \<Rightarrow> Log \<Rightarrow> Log \<times> (sink \<times> string) list" where
  "write_log level filename funcname lineno msg en lg =
    (if appname lg = [] then (lg, [])
     else (let lg' = rotate_log en lg;
               text = log_buffer (log_prefix level filename funcname lineno en) msg
           in (lg', [(StdErr, drop 3 text)] @ (if 0 \<le> logfd lg' then [(log_sink lg', text)] else []))))"

section \<open>Levels\<close>

definition set_log_level :: "int \<Rightarrow> Log \<Rightarrow> Log" where
  "set_log_level l lg = (if 0 \<le> l then lg\<lparr>log_level := (if 4 < l then l else 4)\<rparr> else lg)"

text \<open>The macros \<open>log_emerg\<close> to \<open>log_debug\<close>: the first four levels are not filtered.\<close>

definition log_macro ::
  "int \<Rightarrow> string \<Rightarrow> string \<Rightarrow> int \<Rightarrow> string \<Rightarrow> log_env \<Rightarrow> Log \<Rightarrow> Log \<times> (sink \<times> string) list" where
  "log_macro lvl filename funcname lineno msg en lg =
    (if lvl \<le> 3 \<or> lvl \<le> log_level lg then write_log lvl filename funcname lineno msg en lg else (lg, []))"

section \<open>Initialisation\<close>

text \<open>
  Whether \<open>access\<close> succeeds, the results of \<open>open("/dev/null")\<close> and \<open>dup(2)\<close>; the directory
  that \<open>mkdir\<close> is called for is the state's.
\<close>

definition init_log ::
  "string \<Rightarrow> string option \<Rightarrow> bool \<Rightarrow> int \<Rightarrow> int \<Rightarrow> log_env \<Rightarrow> Log \<Rightarrow> Log \<times> (sink \<times> string) list" where
  "init_log app dir writable null_fd dup_fd en lg =
    (let lg1 = lg\<lparr>appname := take 31 app\<rparr>;
         lg2 = (case dir of None \<Rightarrow> lg1 | Some d \<Rightarrow> lg1\<lparr>log_dir := take 127 d\<rparr>);
         (lg3, out) = (if \<not> writable
            then log_macro 3 ''log.cc'' ''_init_log_'' 65 (''logdir('' @ log_dir lg2 @ ''): Not writable'') en lg2
            else (lg2, []))
     in (if null_fd < 0 then lg3\<lparr>logfd := dup_fd, log_sink := StdErr\<rparr>
         else lg3\<lparr>logfd := null_fd, log_sink := NullDev\<rparr>, out))"

section \<open>Elapsed time\<close>

text \<open>\<open>GET_MSEC\<close> and \<open>CALC_MSEC\<close> (likewise in microseconds), on \<open>unsigned int\<close>.\<close>

definition GET_MSEC :: "clong \<Rightarrow> clong \<Rightarrow> u32" where
  "GET_MSEC tv_sec tv_usec = word_of_int (tv_sec * 1000 + tv_usec div 1000)"

definition CALC_MSEC :: "u32 \<Rightarrow> clong \<Rightarrow> clong \<Rightarrow> u32" where
  "CALC_MSEC v tv_sec tv_usec = GET_MSEC tv_sec tv_usec - v"

definition GET_USEC :: "clong \<Rightarrow> clong \<Rightarrow> u32" where
  "GET_USEC tv_sec tv_usec = word_of_int (tv_sec * 1000000 + tv_usec)"

definition CALC_USEC :: "u32 \<Rightarrow> clong \<Rightarrow> clong \<Rightarrow> u32" where
  "CALC_USEC v tv_sec tv_usec = GET_USEC tv_sec tv_usec - v"

lemma word_diff_exact:
  assumes "0 \<le> b - a" "b - a < 2 ^ 32"
  shows "uint ((word_of_int b :: u32) - word_of_int a) = b - a"
proof -
  have "uint ((word_of_int b :: u32) - word_of_int a) = uint (word_of_int (b - a) :: u32)" by simp
  also have "\<dots> = b - a" using assms by (simp only: uint_word_of_int) simp
  finally show ?thesis .
qed

text \<open>The counters wrap around, but differences shorter than \<open>2^32\<close> units are exact.\<close>

lemma elapsed_exact:
  "0 \<le> (s' * 1000 + u' div 1000) - (s * 1000 + u div 1000) \<Longrightarrow> (s' * 1000 + u' div 1000) - (s * 1000 + u div 1000) < 2 ^ 32 \<Longrightarrow>
   uint (CALC_MSEC (GET_MSEC s u) s' u') = (s' * 1000 + u' div 1000) - (s * 1000 + u div 1000)"
  unfolding CALC_MSEC_def GET_MSEC_def by (rule word_diff_exact)

section \<open>What is written\<close>

lemma log_prefix_length: "3 \<le> length (log_prefix level filename funcname lineno en)"
  by (simp add: log_prefix_def)

lemma log_buffer_eq:
  assumes "prefix \<noteq> []"
  shows "log_buffer prefix msg =
    (let s = prefix @ msg in
     if length s < LOGSIZE - 1 then (if last s = CHR 0x0A then s else s @ [CHR 0x0A]) else take (LOGSIZE - 1) s)"
proof (cases "length prefix + length msg < LOGSIZE - 1")
  case True
  then have "take (LOGSIZE - length prefix - 1) msg = msg" "take (LOGSIZE - 1) prefix = prefix"
    "\<not> LOGSIZE \<le> length prefix" "\<not> LOGSIZE \<le> length prefix + length msg" by simp_all
  moreover have "(prefix @ msg) ! (length prefix + length msg - 1) = last (prefix @ msg)"
    using assms by (simp add: last_conv_nth)
  ultimately show ?thesis using True by (simp add: log_buffer_def Let_def)
next
  case False
  let ?off = "if LOGSIZE \<le> length prefix then LOGSIZE - 1 else length prefix"
  let ?buf = "take ?off (take (LOGSIZE - 1) prefix) @ take (LOGSIZE - ?off - 1) msg"
  have b: "?buf = take (LOGSIZE - 1) (prefix @ msg)" by (cases msg) (auto simp: LOGSIZE_def)
  have "length ?buf = LOGSIZE - 1" using False unfolding b by (simp add: LOGSIZE_def)
  moreover have "(if LOGSIZE \<le> ?off + length msg then LOGSIZE - 1 else ?off + length msg) = LOGSIZE - 1"
    using False by (cases msg) (auto simp: LOGSIZE_def)
  moreover have "4095 - min n 4095 = 4095 - n" for n :: nat by (simp add: min_def)
  ultimately show ?thesis using False b
    by (simp only: log_buffer_def Let_def) (simp add: LOGSIZE_def)
qed

section \<open>Properties\<close>


definition ex_log_env :: log_env where
  "ex_log_env = \<lparr> tm_hour = 9, tm_min = 5, tm_sec = 0, tm_year = 117, tm_mon = 10, tm_mday = 3, tm_yday = 306,
     threadname = None, thread_id = 42, open_log = 3 \<rparr>"

definition ex_log :: Log where
  "ex_log = set_log_level 3 (init_statics\<lparr>appname := ''lbagent'', logfd := 3\<rparr>)"


end
