(* ===== verification/Startup.thy ===== *)
theory Startup
  imports LbAgent DnsServer Reporter ElbLog
begin

text \<open>
  How the three processes come up: their \<open>main\<close> functions and the functions that set up their
  threads, as the sequence of what they do. The settings (the configuration reader), the
  results of \<open>pthread_create\<close> and of the system calls behind the heartbeat are arguments. The
  lemmas show that nothing is used by a thread before it exists, that the callbacks
  installed take what the clients send, and which failures go unnoticed.
\<close>

section \<open>Actions\<close>

text \<open>The functions that threads run, with their arguments.\<close>

datatype thread =
    InitUDPServerIns int   \<comment> \<open>the port\<close>
  | InitRptCliIns
  | AgentMain | DnsMain | ReporterMain   \<comment> \<open>the threads of \<open>main\<close>, in their event loops\<close>
  | DataLoader
  | Report2MySql nat       \<comment> \<open>the queue\<close>

datatype resource =
    RouteTable int | PullQueue | ReptQueue | RptQueue nat | RptQueues | DnsTcpServer | Heart | MySqlLibrary

datatype action =
    Say string | DispLogo | SetPath string | InitLog string string | SetLogLevel int
  | Create resource
  | TcpServer string "16 word" | UdpServer string "16 word" | TcpClient string "16 word" string
  | AddCallback MsgTypeId | OnConnection | OnConnBuild | OnConnClose | SetLoop resource
  | RunEvery string nat
  | StartThread thread int | Detach | ProcessEvs thread

text \<open>A part of a program: what it does, and the exit code when it ends the process.\<close>

type_synonym script = "action list \<times> int option"

definition act :: "action list \<Rightarrow> script" where
  "act as = (as, None)"

definition quit :: "action list \<Rightarrow> int \<Rightarrow> script" where
  "quit as code = (as, Some code)"

definition andthen :: "script \<Rightarrow> script \<Rightarrow> script" where
  "andthen s t = (case snd s of Some c \<Rightarrow> s | None \<Rightarrow> (fst s @ fst t, snd t))"

definition in_order :: "script list \<Rightarrow> script" where
  "in_order ss = foldr andthen ss (act [])"

text \<open>Settings are read by section, key and default.\<close>

record settings =
  GetString :: "string \<Rightarrow> string \<Rightarrow> string \<Rightarrow> string"
  GetNumber :: "string \<Rightarrow> string \<Rightarrow> int \<Rightarrow> int"

text \<open>\<open>pthread_create\<close> and the test of its result, and \<open>pthread_detach\<close>.\<close>

definition spawn :: "thread \<Rightarrow> int \<Rightarrow> script" where
  "spawn t ret =
    (if ret = - 1 then quit [StartThread t ret, Say ''pthread_create''] 1
     else act [StartThread t ret, Detach])"

section \<open>lbagent\<close>

definition initUDPServerIns :: "int \<Rightarrow> action list" where
  "initUDPServerIns port =
    [UdpServer ''127.0.0.1'' (word_of_int port), AddCallback GetHostReqId, AddCallback ReportReqId,
     AddCallback GetRouteByToolReqId, AddCallback CacheGetRouteReqId, AddCallback CacheBatchRptReqId,
     RunEvery ''persistRoute'' 60, ProcessEvs (InitUDPServerIns port)]"

definition initUDPServers :: "(nat \<Rightarrow> int) \<Rightarrow> script" where
  "initUDPServers rets = in_order (map (\<lambda>i. spawn (InitUDPServerIns ([8888, 8889, 8890] ! i)) (rets i)) [0..<3])"

definition initRptCliIns :: "settings \<Rightarrow> action list" where
  "initRptCliIns cf =
    [TcpClient (GetString cf ''reporter'' ''ip'' []) (word_of_int (GetNumber cf ''reporter'' ''port'' 0)) ''reporter'',
     SetLoop ReptQueue, ProcessEvs InitRptCliIns]"

definition rptConnectorDomain :: "int \<Rightarrow> script" where
  "rptConnectorDomain ret = spawn InitRptCliIns ret"

definition dssConnectorDomain :: "settings \<Rightarrow> script" where
  "dssConnectorDomain cf = act
    [TcpClient (GetString cf ''dnsserver'' ''ip'' []) (word_of_int (GetNumber cf ''dnsserver'' ''port'' 0)) ''dnsserver'',
     AddCallback GetRouteByAgentRspId, OnConnection, SetLoop PullQueue, ProcessEvs AgentMain]"

subsection \<open>Heartbeat\<close>

text \<open>
  The constructor: the results of the two \<open>open\<close> calls (the second one when the file exists), of
  \<open>ftruncate\<close> (which fails for a descriptor that is none) and of \<open>mmap\<close>. The word in the file stays, unless the agent creates it.
\<close>

definition DEAD_THRESHOLD :: u64 where "DEAD_THRESHOLD = 2"

datatype mapping = MapNull | MapFailed | Mapped

record hb_calls =
  hc_open :: int
  hc_eexist :: bool
  hc_reopen :: int
  hc_ftruncate :: int
  hc_mmap :: mapping

definition new_HeartBeat :: "bool \<Rightarrow> hb_calls \<Rightarrow> clong \<Rightarrow> u64 \<Rightarrow> (u64 \<times> int option) res" where
  "new_HeartBeat create r now hb =
    (if hc_open r = - 1 \<and> \<not> hc_eexist r then Inr (hb, Some 1)
     else (let fd = (if hc_open r = - 1 then hc_reopen r else hc_open r) in
       if fd < 0 \<or> hc_ftruncate r = - 1 then Inr (hb, Some 1)
       else (case hc_mmap r of
           MapNull \<Rightarrow> Inr (hb, Some 1)
         | MapFailed \<Rightarrow> if create then Inl DanglingPtr else Inr (hb, None)
         | Mapped \<Rightarrow> Inr (if create then hb_record now else hb, None))))"

text \<open>The timer of the agent.\<close>

definition recordTs_tick :: "clong \<Rightarrow> u64 \<Rightarrow> u64" where
  "recordTs_tick now hb = hb_record now"

subsection \<open>\<open>main\<close>\<close>

definition lbagent_main :: "settings \<Rightarrow> string list \<Rightarrow> (nat \<Rightarrow> int) \<Rightarrow> script" where
  "lbagent_main cf argv rets =
    (if length argv \<noteq> 2 then quit [Say ''USAGE: ./lbagent configPath''] 1
     else in_order
       ([act [DispLogo, SetPath (argv ! 1)]]
        @ map (\<lambda>i. act [Create (RouteTable (int i + 1))]) [0..<3]
        @ [act [InitLog ''lbagent'' ''.'', SetLogLevel (GetNumber cf ''log'' ''level'' 3),
                Create PullQueue, Create ReptQueue],
           initUDPServers rets, rptConnectorDomain (rets 3),
           act [Create Heart, RunEvery ''recordTs'' 1],
           dssConnectorDomain cf]))"

section \<open>dnsserver\<close>

definition dnsserver_main :: "settings \<Rightarrow> int \<Rightarrow> script" where
  "dnsserver_main cf ret = in_order
    [act [SetPath ''dnsserver.ini'', DispLogo,
          TcpServer (GetString cf ''reactor'' ''ip'' ''0.0.0.0'') (word_of_int (GetNumber cf ''reactor'' ''port'' 12315)),
          Create DnsTcpServer, AddCallback GetRouteByAgentReqId, OnConnBuild, OnConnClose,
          InitLog ''dnsserver'' ''.'', SetLogLevel (GetNumber cf ''log'' ''level'' 3)],
     spawn DataLoader ret, act [ProcessEvs DnsMain]]"

section \<open>reporter\<close>

definition report2MySql :: "nat \<Rightarrow> action list" where
  "report2MySql i = [SetLoop (RptQueue i), ProcessEvs (Report2MySql i)]"

definition db_settings :: "settings \<Rightarrow> DbSettings" where
  "db_settings cf = \<lparr> db_host = GetString cf ''mysql'' ''db_host'' ''127.0.0.1'',
     db_port = word_of_int (GetNumber cf ''mysql'' ''db_port'' 3306),
     db_user = GetString cf ''mysql'' ''db_user'' [], db_passwd = GetString cf ''mysql'' ''db_passwd'' [],
     db_name = GetString cf ''mysql'' ''db_name'' ''dnsserver'' \<rparr>"

text \<open>\<open>new thread_queue*[threadCnt]\<close> throws for a negative number; nothing catches it.\<close>

definition reporter_main :: "settings \<Rightarrow> (nat \<Rightarrow> int) \<Rightarrow> script" where
  "reporter_main cf rets =
    (let n = GetNumber cf ''mysql'' ''thread_cnt'' 3 in
     in_order
       [act [SetPath ''reporter.ini'', DispLogo,
             TcpServer (GetString cf ''reactor'' ''ip'' ''0.0.0.0'') (word_of_int (GetNumber cf ''reactor'' ''port'' 12316)),
             AddCallback ReportStatusReqId, InitLog ''reporter'' ''.'', SetLogLevel (GetNumber cf ''log'' ''level'' 3)],
        if n < 0 then quit [Say ''std::bad_array_new_length''] 134
        else in_order
          (act [Create RptQueues, Create MySqlLibrary]
           # map (\<lambda>i. andthen (act [Create (RptQueue i)]) (spawn (Report2MySql i) (rets i))) [0..<nat n]),
        act [ProcessEvs ReporterMain]])"

section \<open>Singletons\<close>

text \<open>\<open>ins()\<close>: the instance that \<open>init\<close> makes is \<open>new\<close>, the first time only.\<close>

definition Singleton_init :: "'a option \<Rightarrow> 'a option res" where
  "Singleton_init new = (if new = None then Inl AssertFail else Inr new)"

definition Singleton_ins :: "'a option \<Rightarrow> bool \<times> 'a option \<Rightarrow> ((bool \<times> 'a option) \<times> 'a option) res" where
  "Singleton_ins new st =
    (let (once, ins) = st in
     if once then Inr ((True, ins), ins)
     else rbind (Singleton_init new) (\<lambda>ins'. Inr ((True, ins'), ins')))"

section \<open>The packets of the UDP threads\<close>

text \<open>
  A packet reaches the callback of its identifier, which parses it and does not look at
  whether that succeeded; a packet with another identifier reaches none.
\<close>

definition udp_request :: "wire \<Rightarrow> MsgTypeId \<Rightarrow> bytes \<Rightarrow> agent_req option" where
  "udp_request w i b =
    (if AddCallback i \<notin> set (initUDPServerIns 8888) then None
     else (case fst (msg_read w i b) of
         M_GetHostReq x \<Rightarrow> Some (GetHost x)
       | M_ReportReq x \<Rightarrow> Some (Report x)
       | M_GetRouteReq x \<Rightarrow> Some (GetRoute x)
       | M_CacheGetRouteReq x \<Rightarrow> Some (CacheGetRoute x)
       | M_CacheBatchRptReq x \<Rightarrow> Some (BatchReport x)
       | _ \<Rightarrow> None))"

fun req_msg :: "agent_req \<Rightarrow> elb_msg" where
  "req_msg (GetHost x) = M_GetHostReq x"
| "req_msg (Report x) = M_ReportReq x"
| "req_msg (GetRoute x) = M_GetRouteReq x"
| "req_msg (CacheGetRoute x) = M_CacheGetRouteReq x"
| "req_msg (BatchReport x) = M_CacheBatchRptReq x"

text \<open>The identifiers the clients send them under.\<close>

fun req_id :: "agent_req \<Rightarrow> MsgTypeId" where
  "req_id (GetHost x) = GetHostReqId"
| "req_id (Report x) = ReportReqId"
| "req_id (GetRoute x) = GetRouteByToolReqId"
| "req_id (CacheGetRoute x) = CacheGetRouteReqId"
| "req_id (BatchReport x) = CacheBatchRptReqId"

section \<open>What threads need\<close>

text \<open>The globals that the functions of a thread read.\<close>

fun needs :: "thread \<Rightarrow> resource set" where
  "needs (InitUDPServerIns p) = {RouteTable (p - 8887), PullQueue, ReptQueue}"
| "needs InitRptCliIns = {ReptQueue}"
| "needs AgentMain = {RouteTable 1, RouteTable 2, RouteTable 3, PullQueue}"
| "needs DnsMain = {DnsTcpServer}"
| "needs ReporterMain = {RptQueues}"
| "needs DataLoader = {DnsTcpServer}"
| "needs (Report2MySql i) = {RptQueue i, MySqlLibrary}"

fun uses_of :: "action \<Rightarrow> resource set" where
  "uses_of (StartThread t r) = needs t"
| "uses_of (ProcessEvs t) = needs t"
| "uses_of (SetLoop q) = {q}"
| "uses_of (RunEvery f secs) = (if f = ''recordTs'' then {Heart} else {})"
| "uses_of _ = {}"

fun makes :: "action \<Rightarrow> resource set" where
  "makes (Create r) = {r}"
| "makes _ = {}"

fun well_ordered :: "resource set \<Rightarrow> action list \<Rightarrow> bool" where
  "well_ordered R [] = True"
| "well_ordered R (a # as) = (uses_of a \<subseteq> R \<and> well_ordered (R \<union> makes a) as)"

lemma well_ordered_append:
  "well_ordered R (as @ bs) = (well_ordered R as \<and> well_ordered (R \<union> \<Union> (makes ` set as)) bs)"
  by (induction as arbitrary: R) (auto simp: Un_assoc)

lemma well_ordered_mono: "well_ordered R as \<Longrightarrow> R \<subseteq> S \<Longrightarrow> well_ordered S as"
proof (induction as arbitrary: R S)
  case (Cons a as)
  then show ?case using Cons.IH [of "R \<union> makes a" "S \<union> makes a"] by auto
qed simp

lemma andthen_ordered:
  "well_ordered R (fst s) \<Longrightarrow> well_ordered (R \<union> \<Union> (makes ` set (fst s))) (fst t) \<Longrightarrow> well_ordered R (fst (andthen s t))"
  by (auto simp: andthen_def well_ordered_append split: option.split)

lemma in_order_ordered:
  "list_all (\<lambda>s. well_ordered R (fst s)) ss \<Longrightarrow> well_ordered R (fst (in_order ss))"
proof (induction ss)
  case (Cons s ss)
  then have "well_ordered R (fst (in_order ss))" by simp
  then have "well_ordered (R \<union> \<Union> (makes ` set (fst s))) (fst (in_order ss))" by (rule well_ordered_mono) simp
  with Cons.prems show ?case by (simp add: in_order_def andthen_ordered)
qed (simp add: in_order_def act_def)

lemma spawn_ordered: "needs t \<subseteq> R \<Longrightarrow> well_ordered R (fst (spawn t ret))"
  by (simp add: spawn_def quit_def act_def)

lemma in_order_Cons: "in_order (s # ss) = andthen s (in_order ss)" and in_order_Nil: "in_order [] = act []"
  by (simp_all add: in_order_def)

lemma makes_spawn: "\<Union> (makes ` set (fst (spawn t ret))) = {}"
  by (simp add: spawn_def quit_def act_def)

lemma lbagent_ordered: "well_ordered {} (fst (lbagent_main cf argv rets))"
proof (cases "length argv = 2")
  case True
  let ?R = "{RouteTable 1, RouteTable 2, RouteTable 3, PullQueue, ReptQueue}"
  have "well_ordered ?R (fst (initUDPServers rets))"
    unfolding initUDPServers_def by (rule in_order_ordered) (simp add: upt_rec spawn_ordered)
  moreover have "well_ordered ?R (fst (rptConnectorDomain (rets 3)))"
    by (simp add: rptConnectorDomain_def spawn_ordered)
  moreover have "well_ordered ?R (fst (dssConnectorDomain cf))" by (simp add: dssConnectorDomain_def act_def)
  moreover have "well_ordered ?R (fst (act [Create Heart, RunEvery ''recordTs'' 1]))" by (simp add: act_def)
  ultimately have "well_ordered ?R (fst (in_order [initUDPServers rets, rptConnectorDomain (rets 3),
      act [Create Heart, RunEvery ''recordTs'' 1], dssConnectorDomain cf]))"
    by (intro in_order_ordered) simp
  then show ?thesis using True
    by (simp add: lbagent_main_def in_order_Cons upt_rec act_def andthen_def insert_commute)
next
  case False
  then show ?thesis by (simp add: lbagent_main_def quit_def)
qed

lemma dnsserver_ordered: "well_ordered {} (fst (dnsserver_main cf ret))"
  by (simp add: dnsserver_main_def in_order_Cons in_order_Nil act_def andthen_def spawn_def quit_def)

lemma reporter_ordered: "well_ordered {} (fst (reporter_main cf rets))"
proof -
  have "well_ordered {RptQueues, MySqlLibrary} (fst (in_order
      (map (\<lambda>i. andthen (act [Create (RptQueue i)]) (spawn (Report2MySql i) (rets i))) is)))" for "is"
    by (rule in_order_ordered) (simp add: list_all_iff andthen_def act_def spawn_def quit_def)
  then show ?thesis
    by (auto simp: reporter_main_def Let_def in_order_Cons in_order_Nil act_def quit_def andthen_def
        well_ordered_append insert_commute split: option.split)
qed

text \<open>
  Every process creates what its threads and event loops use before it starts them: no thread
  meets a null pointer in a global.
\<close>

theorem startup_ordered:
  "well_ordered {} (fst (lbagent_main cf argv rets)) \<and> well_ordered {} (fst (dnsserver_main cf ret))
   \<and> well_ordered {} (fst (reporter_main cf rets))"
  by (simp add: lbagent_ordered dnsserver_ordered reporter_ordered)

text \<open>
  \<open>pthread_create\<close> returns a positive number when it fails, never \<open>-1\<close>: when all four threads of
  the agent fail to start, \<open>main\<close> goes on to its event loop as if they ran.
\<close>

lemma spawn_unnoticed: "ret \<noteq> - 1 \<Longrightarrow> spawn t ret = act [StartThread t ret, Detach]"
  by (simp add: spawn_def)

theorem thread_failure_unnoticed:
  assumes "length argv = 2" and "\<forall>i < 4. 0 < rets i"
  shows "snd (lbagent_main cf argv rets) = None \<and> last (fst (lbagent_main cf argv rets)) = ProcessEvs AgentMain"
proof -
  have "rets i \<noteq> - 1" if "i < 4" for i using assms(2) that by fastforce
  then have "spawn t (rets i) = act [StartThread t (rets i), Detach]" if "i < 4" for i t
    using that by (simp add: spawn_unnoticed)
  from this [of 0] this [of 1] this [of "Suc (Suc 0)"] this [of 3] show ?thesis using assms(1)
    by (simp add: lbagent_main_def in_order_Cons in_order_Nil upt_rec act_def andthen_def initUDPServers_def
        rptConnectorDomain_def dssConnectorDomain_def)
qed

text \<open>A client that attaches within two seconds of the agent's start, and of no clock set back, sees it alive.\<close>

lemma heartbeat_attach:
  assumes "new_HeartBeat True r t hb = Inr (hb1, None)" "hc_mmap r = Mapped" "0 \<le> t" "t \<le> now" "now \<le> t + 2" "now < 2 ^ 63"
    and "new_HeartBeat False r' now hb1 = Inr (hb2, None)"
  shows "\<not> hb_die now hb2"
proof -
  have "hb1 = hb_record t" using assms(1,2) by (auto simp: new_HeartBeat_def Let_def split: if_splits)
  moreover have "hb2 = hb1" using assms(7) by (auto simp: new_HeartBeat_def Let_def split: if_splits mapping.splits)
  ultimately show ?thesis using assms(3-6) by (simp add: hb_die_iff)
qed

text \<open>
  \<open>mmap\<close> reports a failure as \<open>MAP_FAILED\<close>, which is not a null pointer: the agent then writes
  its heartbeat through it.
\<close>

lemma mmap_failure_unnoticed:
  "0 \<le> hc_open r \<Longrightarrow> hc_ftruncate r \<noteq> - 1 \<Longrightarrow> hc_mmap r = MapFailed \<Longrightarrow> new_HeartBeat True r now hb = Inl DanglingPtr"
  by (simp add: new_HeartBeat_def)

text \<open>One instance, made once, is what every call of \<open>ins()\<close> returns.\<close>

lemma singleton_once:
  "Singleton_ins (Some x) (False, None) = Inr ((True, Some x), Some x)"
  "Singleton_ins new (True, Some x) = Inr ((True, Some x), Some x)"
  by (simp_all add: Singleton_ins_def Singleton_init_def)

section \<open>Properties\<close>

text \<open>
  From a client to its handler: every request that a client serializes and sends under its
  identifier is parsed back by a callback that the UDP threads install, which handles that
  very request; a packet under any other identifier of the protocol is dropped.
\<close>

lemma requests_dispatched:
  assumes "wire_ok w" and "msg_range (req_msg q)" and "msg_size_of w (req_msg q) \<le> total_bytes_limit"
  shows "udp_request w (req_id q) (msg_bytes w (req_msg q)) = Some q
    \<and> (\<forall>i b. udp_request w i b \<noteq> None \<longrightarrow> i \<in> {GetHostReqId, ReportReqId, GetRouteByToolReqId, CacheGetRouteReqId, CacheBatchRptReqId})"
proof
  have "req_id q \<in> set (msg_ids (req_msg q))" by (cases q) simp_all
  from msg_read_bytes [OF assms this] show "udp_request w (req_id q) (msg_bytes w (req_msg q)) = Some q"
    by (cases q) (simp_all add: udp_request_def initUDPServerIns_def)
qed (auto simp: udp_request_def initUDPServerIns_def split: if_splits)

end
