(* ===== verification/NetText.thy ===== *)
theory NetText
  imports CText
begin

text \<open>
  Two more conversions of the C library that the code uses on text: IPv4 addresses
  (\<open>inet_ntoa\<close> and \<open>inet_aton\<close> as glibc has them, on a little-endian machine, where the
  low byte of \<open>s_addr\<close> is the first one) and \<open>fscanf\<close> with the format of four numbers.
\<close>

section \<open>Addresses as text\<close>

definition octet :: "nat \<Rightarrow> i32 \<Rightarrow> nat" where
  "octet k ip = unat ip div 256 ^ k mod 256"

definition inet_ntoa :: "i32 \<Rightarrow> string" where
  "inet_ntoa ip = dec_nat (octet 0 ip) @ ''.'' @ dec_nat (octet 1 ip) @ ''.''
     @ dec_nat (octet 2 ip) @ ''.'' @ dec_nat (octet 3 ip)"

text \<open>\<open>strtoul\<close> with base 0: octal after a leading zero, hexadecimal after \<open>0x\<close>.\<close>

definition hex_val :: "char \<Rightarrow> nat" where
  "hex_val c = (let n = of_char c in
     if is_digit c then n - 48 else if 97 \<le> n \<and> n \<le> 102 then n - 87
     else if 65 \<le> n \<and> n \<le> 70 then n - 55 else 16)"

fun read_base :: "nat \<Rightarrow> nat \<Rightarrow> string \<Rightarrow> nat \<times> string" where
  "read_base b acc [] = (acc, [])"
| "read_base b acc (c # cs) =
    (if hex_val c < b then read_base b (acc * b + hex_val c) cs else (acc, c # cs))"

definition strtoul :: "string \<Rightarrow> nat \<times> string" where
  "strtoul s =
    (case s of
       c # x # h # r \<Rightarrow>
         if c = CHR ''0'' \<and> (x = CHR ''x'' \<or> x = CHR ''X'') \<and> hex_val h < 16 then read_base 16 0 (h # r)
         else if c = CHR ''0'' then read_base 8 0 s else read_digits 0 s
     | c # r \<Rightarrow> if c = CHR ''0'' then read_base 8 0 s else read_digits 0 s
     | [] \<Rightarrow> (0, []))"

text \<open>One to four numbers with points between them; all but the last at most 255.\<close>

fun aton_parts :: "nat \<Rightarrow> string \<Rightarrow> (nat list \<times> string) option" where
  "aton_parts k [] = None"
| "aton_parts k (c # cs) =
    (if \<not> is_digit c then None
     else (let (v, r) = strtoul (c # cs) in
       if 2 ^ 32 \<le> v then None
       else (case r of
           [] \<Rightarrow> Some ([v], [])
         | d # r' \<Rightarrow>
             if d = CHR ''.'' then
               (case k of 0 \<Rightarrow> None
                | Suc k' \<Rightarrow> if 255 < v then None
                    else (case aton_parts k' r' of None \<Rightarrow> None | Some (vs, e) \<Rightarrow> Some (v # vs, e)))
             else Some ([v], r))))"

text \<open>\<open>None\<close> where the call returns zero and leaves its result unwritten.\<close>

definition inet_aton :: "string \<Rightarrow> i32 option" where
  "inet_aton s =
    (case aton_parts 3 s of
       None \<Rightarrow> None
     | Some (vs, r) \<Rightarrow>
         let n = length vs; h = foldr (\<lambda>(i, v) acc. v * 256 ^ (3 - i) + acc) (enumerate 0 (butlast vs)) (last vs)
         in if (\<exists>c \<in> set (take 1 r). \<not> is_space c) \<or> 256 ^ (5 - n) \<le> last vs then None
            else Some (of_nat (h div 256 ^ 3 mod 256 + h div 256 ^ 2 mod 256 * 256
                     + h div 256 mod 256 * 256 ^ 2 + h mod 256 * 256 ^ 3)))"

lemma dec_nat_first: "0 < n \<Longrightarrow> \<exists>d ds. dec_nat n = digit d # ds \<and> 0 < d \<and> d < 10"
proof (induction n rule: dec_nat.induct)
  case (1 n)
  show ?case
  proof (cases "n < 10")
    case False
    with 1 have "\<exists>d ds. dec_nat (n div 10) = digit d # ds \<and> 0 < d \<and> d < 10" by simp
    with False show ?thesis by (auto simp: dec_nat.simps [of n])
  qed (use 1 in \<open>auto simp: dec_nat.simps [of n]\<close>)
qed

lemma digit_inj: "m < 10 \<Longrightarrow> digit m = CHR ''0'' \<longleftrightarrow> m = 0"
proof -
  assume "m < 10"
  then have o: "of_char (digit m) = 48 + m" by (simp add: digit_def of_char_of)
  have "digit m = CHR ''0'' \<longleftrightarrow> (of_char (digit m) :: nat) = of_char (CHR ''0'')" by (simp only: of_char_eq_iff)
  also have "\<dots> \<longleftrightarrow> m = 0" by (simp add: o)
  finally show ?thesis .
qed

lemma strtoul_dec:
  assumes "r = [] \<or> (\<exists>r'. r = CHR ''.'' # r')"
  shows "strtoul (dec_nat n @ r) = (n, r)"
proof (cases "n = 0")
  case True
  have "hex_val (CHR ''.'') = 16" "hex_val (CHR ''0'') = 0" by (simp_all add: hex_val_def is_digit_def)
  moreover have "dec_nat 0 = ''0''" by (simp add: dec_nat.simps [of 0] digit_inj)
  ultimately show ?thesis using assms True
    by (auto simp: strtoul_def split: list.split)
next
  case False
  then obtain d ds where d: "dec_nat n = digit d # ds" "0 < d" "d < 10" using dec_nat_first by blast
  have "ends_number r" using assms by (auto simp: ends_number_def is_digit_def)
  then have "read_digits 0 (dec_nat n @ r) = (n, r)"
    using read_dec_nat [of 0 n r] by (simp add: read_digits_stop)
  then show ?thesis using d by (simp add: strtoul_def digit_inj split: list.split)
qed

lemma aton_parts_dec:
  assumes "n < 256"
  shows "aton_parts k (dec_nat n) = Some ([n], [])"
    "aton_parts (Suc k) (dec_nat n @ CHR ''.'' # r) =
      (case aton_parts k r of None \<Rightarrow> None | Some (vs, e) \<Rightarrow> Some (n # vs, e))"
proof -
  obtain d ds where d: "dec_nat n = digit d # ds" "d < 10" using dec_nat_head by blast
  show "aton_parts k (dec_nat n) = Some ([n], [])"
    using strtoul_dec [of "[]" n] d assms by simp
  show "aton_parts (Suc k) (dec_nat n @ CHR ''.'' # r) =
      (case aton_parts k r of None \<Rightarrow> None | Some (vs, e) \<Rightarrow> Some (n # vs, e))"
    using strtoul_dec [of "CHR ''.'' # r" n] d assms by (simp split: option.split)
qed

lemma digit256: "d < 256 \<Longrightarrow> (x * 256 + d) div 256 = x" "d < 256 \<Longrightarrow> (x * 256 + d) mod 256 = (d :: nat)"
  by simp_all

lemma digits256:
  fixes n :: nat
  shows "n mod 256 + n div 256 mod 256 * 256 + n div 256 ^ 2 mod 256 * 256 ^ 2
    + n div 256 ^ 3 * 256 ^ 3 = n"
proof -
  have d: "n div 256 ^ 2 = n div 256 div 256" "n div 256 ^ 3 = n div 256 div 256 div 256"
    by (simp_all add: div_mult2_eq [symmetric])
  have "m mod 256 + m div 256 * 256 = m" for m :: nat by simp
  from this [of n] this [of "n div 256"] this [of "n div 256 div 256"] show ?thesis
    unfolding d by (simp only: power2_eq_square power3_eq_cube)
qed

lemma inet_aton_ntoa [simp]: "inet_aton (inet_ntoa ip) = Some ip"
proof -
  obtain a b c d where o: "octet 0 ip = a" "octet 1 ip = b" "octet 2 ip = c" "octet 3 ip = d" by blast
  have l: "a < 256" "b < 256" "c < 256" "d < 256" unfolding o [symmetric] by (simp_all add: octet_def)
  have "unat ip div 256 ^ 3 < 256" using unsigned_less [of ip, where 'a = nat] by (simp add: less_mult_imp_div_less)
  then have u: "a + b * 256 + c * 256 ^ 2 + d * 256 ^ 3 = unat ip"
    using digits256 [of "unat ip"] unfolding o [symmetric] octet_def by (simp del: mod_mult_self4)
  have p: "aton_parts 3 (inet_ntoa ip) = Some ([a, b, c, d], [])"
    unfolding inet_ntoa_def o using l by (simp add: numeral_3_eq_3 aton_parts_dec)
  define h where "h = ((a * 256 + b) * 256 + c) * 256 + d"
  have q: "n div 256 ^ 2 = n div 256 div 256" "n div 256 ^ 3 = n div 256 div 256 div 256" for n :: nat
    by (simp_all add: div_mult2_eq [symmetric])
  have hd: "h div 256 ^ 3 mod 256 = a" "h div 256 ^ 2 mod 256 = b" "h div 256 mod 256 = c" "h mod 256 = d"
    unfolding h_def q using l by (simp_all only: digit256 mod_less)
  have "foldr (\<lambda>(i, v) acc. v * 256 ^ (3 - i) + acc) (enumerate 0 (butlast [a, b, c, d])) (last [a, b, c, d]) = h"
    by (simp add: h_def)
  then have "inet_aton (inet_ntoa ip) = Some (of_nat (a + b * 256 + c * 256 ^ 2 + d * 256 ^ 3))"
    unfolding inet_aton_def p by (simp only: Let_def option.case prod.case hd) (use l in simp)
  then show ?thesis unfolding u by simp
qed

section \<open>Four numbers from a file\<close>

text \<open>\<open>%d\<close>: a number, no number here (a sign is consumed all the same), or the end of the file.\<close>

datatype scan = Got i32 string | NoMatch string | AtEnd

definition scan_int :: "string \<Rightarrow> scan" where
  "scan_int s =
    (case dropWhile is_space s of
       [] \<Rightarrow> AtEnd
     | c # r \<Rightarrow>
         (case read_int (c # r) of
            Some (n, r') \<Rightarrow> Got (word_of_int (max (- (2 ^ 63)) (min (2 ^ 63 - 1) n))) r'
          | None \<Rightarrow> NoMatch (if c = CHR ''-'' \<or> c = CHR ''+'' then r else c # r)))"

text \<open>
  \<open>fscanf(fp, "%d %d %d %d", ...)\<close>: \<open>None\<close> is \<open>EOF\<close>; otherwise the variables, of which only
  those converted are written, and the rest of the file.
\<close>

fun scan_rest :: "nat list \<Rightarrow> i32 option list \<Rightarrow> string \<Rightarrow> i32 option list \<times> string" where
  "scan_rest [] vs s = (vs, s)"
| "scan_rest (k # ks) vs s =
    (case scan_int s of
       Got n r \<Rightarrow> scan_rest ks (vs[k := Some n]) r
     | NoMatch r \<Rightarrow> (vs, r)
     | AtEnd \<Rightarrow> (vs, []))"

definition scan_line :: "i32 option list \<Rightarrow> string \<Rightarrow> (i32 option list \<times> string) option" where
  "scan_line vs s =
    (case scan_int s of
       AtEnd \<Rightarrow> None
     | NoMatch r \<Rightarrow> Some (vs, r)
     | Got n r \<Rightarrow> Some (scan_rest [1, 2, 3] (vs[0 := Some n]) r))"

text \<open>\<open>fprintf(fp, "%d %d %d %d\n", ...)\<close>.\<close>

definition print_line :: "int \<times> int \<times> int \<times> int \<Rightarrow> string" where
  "print_line = (\<lambda>(a, b, c, d).
     dec_int a @ '' '' @ dec_int b @ '' '' @ dec_int c @ '' '' @ dec_int d @ [CHR 0x0A])"

lemma scan_int_dec:
  assumes "list_all is_space sp" "ends_number r" "- (2 ^ 63) \<le> i" "i < 2 ^ 63"
  shows "scan_int (sp @ dec_int i @ r) = Got (word_of_int i) r"
proof -
  obtain d ds where h: "dec_nat (nat \<bar>i\<bar>) = digit d # ds" "d < 10" using dec_nat_head by blast
  then have "\<exists>c t. dec_int i @ r = c # t \<and> \<not> is_space c"
    by (cases "i < 0") (auto simp: dec_int_def is_space_def [of "CHR ''-''"])
  then obtain c t where ct: "dec_int i @ r = c # t" "\<not> is_space c" by blast
  have "dropWhile is_space (sp @ c # t) = c # t"
    using assms(1) ct(2) by (induction sp) auto
  moreover have "read_int (c # t) = Some (i, r)" using read_int_dec [OF _ assms(2), of "[]" i] ct(1) by simp
  ultimately show ?thesis using assms(3,4) by (simp add: scan_int_def ct(1))
qed

lemma scan_print:
  assumes "length vs = 4" and "list_all is_space sp"
    and "\<forall>x \<in> {a, b, c, d}. - (2 ^ 63) \<le> x \<and> x < (2 ^ 63 :: int)"
  shows "scan_line vs (sp @ print_line (a, b, c, d) @ r) =
    Some ([Some (word_of_int a), Some (word_of_int b), Some (word_of_int c), Some (word_of_int d)], CHR 0x0A # r)"
proof -
  have e: "ends_number ('' '' @ t)" "ends_number (CHR 0x0A # t)" "list_all is_space '' ''" for t
    by (simp_all add: ends_number_def is_digit_def is_space_def)
  note s = scan_int_dec [OF _ e(1)] scan_int_dec [OF _ e(2)]
  obtain v w x y where vs: "vs = [v, w, x, y]" using assms(1) by (auto simp: numeral_eq_Suc length_Suc_conv)
  show ?thesis
    using assms(2,3) s(1) [of sp a] s(1) [OF e(3), of b] s(1) [OF e(3), of c] s(2) [OF e(3), of d]
    by (simp add: scan_line_def print_line_def vs)
qed

end
