(* ===== verification/ApiCache.thy ===== *)
theory ApiCache
  imports NetText
begin

text \<open>
  The cache of the C++ API (\<open>cacheLayer.h\<close>, \<open>cacheLayer.cc\<close>): per module the nodes in the
  order they are handed out and the successful calls not yet reported to the agent. A
  \<open>CacheUnit*\<close> that an operation changes is the entry of the cache, written back.
\<close>

section \<open>One module\<close>

record CacheUnit =
  cu_modid :: i32
  cu_cmdid :: i32
  cu_overload :: bool
  cu_lstUpdTs :: clong
  cu_version :: clong
  cu_succCnt :: u64
  cu_nodeList :: "(i32 \<times> i32) list"
  cu_succAccum :: "(u64 \<times> u32) list"

definition CacheUnit_getHost :: "CacheUnit \<Rightarrow> ((string \<times> i32) \<times> CacheUnit) res" where
  "CacheUnit_getHost cu =
    rbind (take_front (cu_nodeList cu)) (\<lambda>((ip, port), ns).
      Inr ((inet_ntoa ip, port), cu\<lparr>cu_nodeList := ns\<rparr>))"

definition CacheUnit_report :: "i32 \<Rightarrow> i32 \<Rightarrow> CacheUnit \<Rightarrow> CacheUnit" where
  "CacheUnit_report ip port cu =
    (let key = mkkey ip port in
     case map_of (cu_succAccum cu) key of
       None \<Rightarrow> cu
     | Some n \<Rightarrow> cu\<lparr>cu_succAccum := AList.update key (n + 1) (cu_succAccum cu),
                    cu_succCnt := cu_succCnt cu + 1\<rparr>)"

section \<open>All modules\<close>

type_synonym CacheLayer = "(u64 \<times> CacheUnit) list"

definition getAll :: "CacheLayer \<Rightarrow> CacheUnit list" where
  "getAll cl = map snd cl"

definition getCache :: "i32 \<Rightarrow> i32 \<Rightarrow> CacheLayer \<Rightarrow> CacheUnit option" where
  "getCache modid cmdid cl = map_of cl (mkkey modid cmdid)"

definition addCache :: "i32 \<Rightarrow> i32 \<Rightarrow> CacheUnit \<Rightarrow> CacheLayer \<Rightarrow> CacheLayer" where
  "addCache modid cmdid item cl = AList.update (mkkey modid cmdid) item cl"

definition rmCache :: "i32 \<Rightarrow> i32 \<Rightarrow> CacheLayer \<Rightarrow> CacheLayer" where
  "rmCache modid cmdid cl = AList.delete (mkkey modid cmdid) cl"

section \<open>Invariant\<close>

text \<open>
  Every node has an accumulator and every accumulator a node; \<open>succCnt\<close> is the sum of the
  accumulators, up to the wrap-around of the accumulators at 32 bits; a zero \<open>succCnt\<close>
  means that all of them are zero.
\<close>

definition accum_sum :: "(u64 \<times> u32) list \<Rightarrow> u32" where
  "accum_sum a = sum_list (map snd a)"

definition cu_ok :: "CacheUnit \<Rightarrow> bool" where
  "cu_ok cu \<longleftrightarrow> distinct (map fst (cu_succAccum cu))
     \<and> keys_of (cu_succAccum cu) = (\<lambda>(ip, port). mkkey ip port) ` set (cu_nodeList cu)
     \<and> ucast (cu_succCnt cu) = accum_sum (cu_succAccum cu)
     \<and> (cu_succCnt cu = 0 \<longrightarrow> list_all (\<lambda>(k, n). n = 0) (cu_succAccum cu))"

definition cache_ok :: "CacheLayer \<Rightarrow> bool" where
  "cache_ok cl \<longleftrightarrow> distinct (map fst cl)
     \<and> list_all (\<lambda>(k, cu). k = mkkey (cu_modid cu) (cu_cmdid cu) \<and> cu_ok cu) cl"

lemma accum_sum_update:
  "distinct (map fst a) \<Longrightarrow> map_of a k = Some n \<Longrightarrow>
   accum_sum (AList.update k v a) = accum_sum a + v - n"
  by (induction a) (auto simp: accum_sum_def)

lemma cu_ok_getHost:
  "cu_ok cu \<Longrightarrow> CacheUnit_getHost cu = Inr (h, cu') \<Longrightarrow> cu_ok cu'"
  by (cases "cu_nodeList cu") (auto simp: CacheUnit_getHost_def cu_ok_def)

lemma ucast_add1: "(ucast (c + 1 :: u64) :: u32) = ucast c + 1"
proof -
  have u: "(ucast (word_of_int k :: u64) :: u32) = word_of_int k" for k
    by (rule bit_word_eqI) (auto simp: bit_simps)
  have "(ucast (c + 1) :: u32) = ucast (word_of_int (uint c + 1) :: u64)" by simp
  also have "\<dots> = ucast c + 1" unfolding u using u [of "uint c"] by simp
  finally show ?thesis .
qed

text \<open>\<open>succCnt\<close> has 64 bits: only the successes of one module between two reports count.\<close>

lemma cu_ok_report:
  assumes "cu_ok cu" "cu_succCnt cu \<noteq> - 1"
  shows "cu_ok (CacheUnit_report ip port cu)"
proof (cases "map_of (cu_succAccum cu) (mkkey ip port)")
  case (Some n)
  have "cu_succCnt cu + 1 \<noteq> 0" using assms(2) by (metis add_eq_0_iff2)
  moreover have "mkkey ip port \<in> keys_of (cu_succAccum cu)" using Some by (rule map_of_keys_of)
  ultimately show ?thesis using assms(1) Some
    by (auto simp: cu_ok_def CacheUnit_report_def accum_sum_update ucast_add1 distinct_update)
qed (use assms in \<open>simp add: CacheUnit_report_def\<close>)

lemma report_accum:
  "map_of (cu_succAccum (CacheUnit_report ip port cu)) k =
    (case map_of (cu_succAccum cu) k of
       None \<Rightarrow> None | Some n \<Rightarrow> Some (if k = mkkey ip port then n + 1 else n))"
  by (auto simp: CacheUnit_report_def hm.find_put Let_def split: option.split)

interpretation cl: keyed_store "\<lambda>cl (m, c). getCache m c cl" "\<lambda>(m, c). addCache m c" "\<lambda>(m, c). rmCache m c"
    "\<lambda>cl. distinct (map fst cl)"
  by unfold_locales
     (auto simp: getCache_def addCache_def rmCache_def hm.find_put hm.find_erase hm.ok_put hm.ok_erase)

lemma cache_okD:
  assumes "cache_ok cl" "getCache m c cl = Some cu"
  shows "cu_modid cu = m" "cu_cmdid cu = c" "cu_ok cu"
  using assms map_of_SomeD [of cl "mkkey m c" cu]
  by (auto simp: cache_ok_def getCache_def list_all_iff)

lemma cache_ok_add:
  assumes "cache_ok cl" "cu_ok cu" "cu_modid cu = m" "cu_cmdid cu = c"
  shows "cache_ok (addCache m c cu cl)"
  using assms
  by (auto simp: cache_ok_def addCache_def distinct_update list_all_entries hm.find_put split: if_splits)

lemma cache_ok_rm: "cache_ok cl \<Longrightarrow> cache_ok (rmCache m c cl)"
  by (auto simp: cache_ok_def rmCache_def AList.distinct_delete list_all_entries hm.find_erase split: if_splits)

section \<open>Rotation\<close>

definition cu_hosts :: "CacheUnit \<Rightarrow> (string \<times> i32) list" where
  "cu_hosts cu = map (\<lambda>(ip, port). (inet_ntoa ip, port)) (cu_nodeList cu)"

interpretation rr_cu: round_robin CacheUnit_getHost cu_hosts "\<lambda>_. True"
proof unfold_locales
  fix cu x xs
  assume "cu_hosts cu = x # xs"
  then show "\<exists>cu'. CacheUnit_getHost cu = Inr (x, cu') \<and> cu_hosts cu' = xs @ [x] \<and> True"
    by (auto simp: cu_hosts_def CacheUnit_getHost_def)
qed

section \<open>Properties\<close>

text \<open>
  From the cache, the nodes of a module are handed out in turn: \<open>n\<close> turns name each node
  \<open>n\<close> times, in the order of the route, and leave the cache as it was.
\<close>

theorem cached_hosts_rotate:
  "\<exists>cu'. draws (n * length (cu_nodeList cu)) CacheUnit_getHost cu
      = Inr (concat (replicate n (map (\<lambda>(ip, port). (inet_ntoa ip, port)) (cu_nodeList cu))), cu')
    \<and> cu_hosts cu' = cu_hosts cu"
  using rr_cu.draws_turns [where q = cu and n = n] by (auto simp: cu_hosts_def)

end
