(* ===== verification/ApiStatic.thy ===== *)
theory ApiStatic
  imports NetText RouteLb
begin

text \<open>
  The static routes of the C++ API (\<open>StaticRoute.h\<close>): what a client falls back on when the
  agent is dead, read from the three files that the route tables of the agent were written
  to. The contents of the files and the result of \<open>rand()\<close> are arguments.
\<close>

section \<open>State and operations\<close>

type_synonym api_host = "string \<times> i32"

record StaticRoute =
  sr_route :: "(u64 \<times> api_host list) list"

definition sr_push :: "u64 \<Rightarrow> api_host \<Rightarrow> StaticRoute \<Rightarrow> StaticRoute" where
  "sr_push k h sr = sr\<lparr>sr_route := AList.update k
     ((case map_of (sr_route sr) k of None \<Rightarrow> [] | Some hs \<Rightarrow> hs) @ [h]) (sr_route sr)\<rparr>"

text \<open>
  One file: the variables are declared before the loop and keep what the last line wrote.
  The loop does not end when \<open>fscanf\<close> neither reads anything nor reports \<open>EOF\<close>.
\<close>

function load_file :: "i32 option list \<Rightarrow> string \<Rightarrow> StaticRoute \<Rightarrow> StaticRoute res" where
  "load_file vs s sr =
    (case scan_line vs s of
       None \<Rightarrow> Inr sr
     | Some (vs', r) \<Rightarrow>
         (case vs' of
            [Some imodid, Some icmdid, Some iip, Some iport] \<Rightarrow>
              if length r < length s
              then load_file vs' r (sr_push (mkkey imodid icmdid) (inet_ntoa iip, iport) sr)
              else Inl Hang
          | _ \<Rightarrow> Inl UninitRead))"
  by pat_completeness auto
termination by (relation "measure (\<lambda>(vs, s, sr). length s)") auto

declare load_file.simps [simp del]

definition load_route :: "string option \<Rightarrow> StaticRoute \<Rightarrow> StaticRoute res" where
  "load_route file sr =
    (case file of None \<Rightarrow> Inr sr | Some s \<Rightarrow> load_file [None, None, None, None] s sr)"

definition StaticRoute_getHost ::
  "string option list \<Rightarrow> nat \<Rightarrow> i32 \<Rightarrow> i32 \<Rightarrow> StaticRoute \<Rightarrow> (StaticRoute \<times> api_host option) res" where
  "StaticRoute_getHost files rand modid cmdid sr =
    rbind (if sr_route sr = [] then foldM (\<lambda>sr f. load_route f sr) sr files else Inr sr) (\<lambda>sr'.
      Inr (sr',
        case map_of (sr_route sr') (mkkey modid cmdid) of
          None \<Rightarrow> None
        | Some hs \<Rightarrow> Some (hs ! (rand mod length hs))))"

definition freeData :: "StaticRoute \<Rightarrow> StaticRoute" where
  "freeData sr = sr\<lparr>sr_route := []\<rparr>"

section \<open>Reading what the agent wrote\<close>

text \<open>The text of a backup file, and the hosts that its lines list for a key.\<close>

definition file_text :: "(int \<times> int \<times> int \<times> int) list \<Rightarrow> string" where
  "file_text ls = concat (map print_line ls)"

definition sr_add :: "int \<times> int \<times> int \<times> int \<Rightarrow> StaticRoute \<Rightarrow> StaticRoute" where
  "sr_add = (\<lambda>(a, b, c, d). sr_push (mkkey (word_of_int a) (word_of_int b)) (inet_ntoa (word_of_int c), word_of_int d))"

definition lines_of :: "u64 \<Rightarrow> (int \<times> int \<times> int \<times> int) list \<Rightarrow> api_host list" where
  "lines_of k ls = map (\<lambda>(a, b, c, d). (inet_ntoa (word_of_int c), word_of_int d))
     (filter (\<lambda>(a, b, c, d). mkkey (word_of_int a) (word_of_int b) = k) ls)"

definition in_long :: "int \<times> int \<times> int \<times> int \<Rightarrow> bool" where
  "in_long = (\<lambda>(a, b, c, d). \<forall>x \<in> {a, b, c, d}. - (2 ^ 63) \<le> x \<and> x < 2 ^ 63)"

lemma load_file_text:
  "length vs = 4 \<Longrightarrow> list_all is_space sp \<Longrightarrow> list_all in_long ls \<Longrightarrow>
   load_file vs (sp @ file_text ls) sr = Inr (fold sr_add ls sr)"
proof (induction ls arbitrary: vs sp sr)
  case Nil
  then have "dropWhile is_space sp = []" by (simp add: list_all_iff)
  moreover have "sp @ file_text [] = sp" by (simp add: file_text_def)
  ultimately show ?case by (subst load_file.simps) (simp only: scan_line_def scan_int_def list.case scan.case option.case fold_simps)
next
  case (Cons l ls)
  obtain a b c d where l: "l = (a, b, c, d)" using prod_cases4 by blast
  let ?vs = "[Some (word_of_int a), Some (word_of_int b), Some (word_of_int c), Some (word_of_int d)]"
  have s: "scan_line vs (sp @ print_line l @ file_text ls) = Some (?vs, [CHR 0x0A] @ file_text ls)"
    using scan_print [of vs sp a b c d "file_text ls"] Cons.prems by (simp add: l in_long_def)
  have n: "list_all is_space [CHR 0x0A]" by (simp add: is_space_def)
  have "length ([CHR 0x0A] @ file_text ls) < length (sp @ print_line l @ file_text ls)"
    by (simp add: l print_line_def)
  with s have "load_file vs (sp @ file_text (l # ls)) sr = load_file ?vs ([CHR 0x0A] @ file_text ls) (sr_add l sr)"
    by (subst load_file.simps) (simp add: file_text_def sr_add_def l)
  also have "\<dots> = Inr (fold sr_add ls (sr_add l sr))"
    using Cons.prems n by (intro Cons.IH) simp_all
  finally show ?case by simp
qed

lemma load_file_stuck:
  "list_all in_long ls \<Longrightarrow> list_all is_space sp \<Longrightarrow> length vs = 4 \<Longrightarrow> ls \<noteq> [] \<or> None \<notin> set vs \<Longrightarrow>
   \<not> is_space c \<Longrightarrow> \<not> is_digit c \<Longrightarrow> c \<noteq> CHR ''-'' \<Longrightarrow> c \<noteq> CHR ''+'' \<Longrightarrow>
   load_file vs (sp @ file_text ls @ c # s) sr = Inl Hang"
proof (induction ls arbitrary: vs sp sr)
  case Nil
  obtain a b d e where vs: "vs = [Some a, Some b, Some d, Some e]"
    using Nil.prems(3,4) by (auto simp: numeral_eq_Suc length_Suc_conv) (metis not_None_eq)
  have "scan_int (c # s) = NoMatch (c # s)"
    using Nil.prems by (simp add: scan_int_def read_int_def)
  then have c: "scan_line vs (c # s) = Some (vs, c # s)" for vs by (simp add: scan_line_def)
  have stuck: "load_file vs (c # s) sr = Inl Hang" for sr
    by (subst load_file.simps) (simp add: c vs)
  have "dropWhile is_space (sp @ c # s) = c # s" using Nil.prems by (induction sp) auto
  moreover have "dropWhile is_space (c # s) = c # s" using Nil.prems by simp
  ultimately have "scan_int (sp @ c # s) = scan_int (c # s)" by (simp only: scan_int_def)
  with c have "scan_line vs (sp @ c # s) = Some (vs, c # s)" by (simp add: scan_line_def)
  then show ?case using stuck
    by (subst load_file.simps) (simp add: vs file_text_def)
next
  case (Cons l ls)
  obtain a b d e where l: "l = (a, b, d, e)" using prod_cases4 by blast
  let ?vs = "[Some (word_of_int a), Some (word_of_int b), Some (word_of_int d), Some (word_of_int e)]"
  let ?r = "[CHR 0x0A] @ file_text ls @ c # s"
  have s: "scan_line vs (sp @ print_line l @ file_text ls @ c # s) = Some (?vs, ?r)"
    using scan_print [of vs sp a b d e "file_text ls @ c # s"] Cons.prems by (simp add: l in_long_def)
  have "length ?r < length (sp @ print_line l @ file_text ls @ c # s)"
    by (simp add: l print_line_def)
  with s have "load_file vs (sp @ file_text (l # ls) @ c # s) sr = load_file ?vs ?r (sr_add l sr)"
    by (subst load_file.simps) (simp add: file_text_def sr_add_def l)
  also have "\<dots> = Inl Hang"
    using Cons.prems by (intro Cons.IH) (simp_all add: is_space_def)
  finally show ?case .
qed

definition sr_hosts :: "StaticRoute \<Rightarrow> u64 \<Rightarrow> api_host list" where
  "sr_hosts sr k = (case map_of (sr_route sr) k of None \<Rightarrow> [] | Some hs \<Rightarrow> hs)"

text \<open>No key is kept with an empty list.\<close>

definition sr_ok :: "StaticRoute \<Rightarrow> bool" where
  "sr_ok sr \<longleftrightarrow> (\<forall>k. map_of (sr_route sr) k \<noteq> Some [])"

lemma sr_push_hosts: "sr_hosts (sr_push k h sr) k' = sr_hosts sr k' @ (if k' = k then [h] else [])"
  by (auto simp: sr_hosts_def sr_push_def hm.find_put)

lemma sr_adds: "sr_hosts (fold sr_add ls sr) k = sr_hosts sr k @ lines_of k ls"
  by (induction ls arbitrary: sr) (auto simp: sr_add_def lines_of_def sr_push_hosts)

lemma sr_ok_adds: "sr_ok sr \<Longrightarrow> sr_ok (fold sr_add ls sr)"
  by (induction ls arbitrary: sr) (auto simp: sr_add_def sr_push_def sr_ok_def hm.find_put)

lemma load_files:
  "\<forall>ls \<in> set lss. list_all in_long ls \<Longrightarrow>
   foldM (\<lambda>sr f. load_route f sr) sr (map (\<lambda>ls. Some (file_text ls)) lss) = Inr (fold sr_add (concat lss) sr)"
  by (induction lss arbitrary: sr)
     (simp_all add: load_route_def load_file_text [where sp = "[]", simplified])

lemma getHost_loaded:
  assumes "\<forall>ls \<in> set lss. list_all in_long ls"
  shows "\<exists>sr. StaticRoute_getHost (map (\<lambda>ls. Some (file_text ls)) lss) rand m c \<lparr> sr_route = [] \<rparr> =
    Inr (sr, let hs = lines_of (mkkey m c) (concat lss) in
      if hs = [] then None else Some (hs ! (rand mod length hs)))"
proof -
  let ?sr = "fold sr_add (concat lss) \<lparr> sr_route = [] \<rparr>"
  have "sr_hosts ?sr (mkkey m c) = lines_of (mkkey m c) (concat lss)"
    by (simp add: sr_adds) (simp add: sr_hosts_def)
  moreover have "sr_ok ?sr" by (rule sr_ok_adds) (simp add: sr_ok_def)
  ultimately show ?thesis
    by (auto simp: StaticRoute_getHost_def load_files [OF assms] sr_hosts_def sr_ok_def Let_def
        split: option.splits)
qed

text \<open>What a route table writes, and what its file then holds.\<close>

definition backup_of :: "RouteLB \<Rightarrow> (int \<times> int \<times> int \<times> int) list" where
  "backup_of rl = concat (map (\<lambda>(k, lb). LB_persist lb) (routeMap rl))"

definition backup_content :: "RouteLB \<Rightarrow> string option" where
  "backup_content rl = map_option (\<lambda>(f, ls). file_text ls) (RouteLB_persistRoute (\<lambda>_. True) rl)"

lemma backup_content: "rl_id rl \<in> {1, 2, 3} \<Longrightarrow> backup_content rl = Some (file_text (backup_of rl))"
  by (auto simp: backup_content_def RouteLB_persistRoute_def backup_file_def backup_of_def)

lemma sint_long: "- (2 ^ 63) \<le> sint (x :: i32) \<and> sint x < 2 ^ 63"
  using sint_ge [of x] sint_lt [of x] by simp

lemma backup_in_long: "list_all in_long (backup_of rl)"
  using sint_long by (auto simp: backup_of_def LB_persist_def in_long_def list_all_iff)

lemma backup_lines:
  "set (lines_of (mkkey m c) (backup_of rl)) =
   {(inet_ntoa (hi_ip h), hi_port h) | k lb k' h. (k, lb) \<in> set (routeMap rl) \<and> (k', h) \<in> set (hostMap lb)
      \<and> lb_modid lb = m \<and> lb_cmdid lb = c}"
  (is "?L = ?R")
proof
  show "?L \<subseteq> ?R" by (auto simp: lines_of_def backup_of_def LB_persist_def) blast
  show "?R \<subseteq> ?L"
  proof
    fix x assume "x \<in> ?R"
    then obtain k lb k' h where h: "x = (inet_ntoa (hi_ip h), hi_port h)" "(k, lb) \<in> set (routeMap rl)"
      "(k', h) \<in> set (hostMap lb)" "lb_modid lb = m" "lb_cmdid lb = c" by blast
    then have "(sint m, sint c, sint (hi_ip h), sint (hi_port h)) \<in> set (backup_of rl)"
      unfolding backup_of_def LB_persist_def
      by (auto intro!: bexI [of _ "(k, lb)"] image_eqI [of _ _ "(k', h)"])
    then show "x \<in> ?L" 
      by (auto simp: lines_of_def h(1) intro!: image_eqI [of _ _ "(sint m, sint c, sint (hi_ip h), sint (hi_port h))"])
  qed
qed

lemma lines_of_concat: "lines_of k (concat lss) = concat (map (lines_of k) lss)"
  by (induction lss) (simp_all add: lines_of_def)

section \<open>Properties\<close>

text \<open>
  C32. When the agent is dead, a client hands out what the agent last wrote: after the three
  route tables have been persisted, a module gets one of the nodes that a table holds for
  it, and is refused only when no table has a node of it.
\<close>

theorem static_route_is_last_backup:
  assumes "\<forall>rl \<in> set rls. rl_id rl \<in> {1, 2, 3}"
  shows "\<exists>sr r. StaticRoute_getHost (map backup_content rls) rand m c \<lparr> sr_route = [] \<rparr>
       = Inr (sr, r)
   \<and> (case r of
        None \<Rightarrow> \<forall>rl \<in> set rls. \<forall>(k, lb) \<in> set (routeMap rl). lb_modid lb = m \<and> lb_cmdid lb = c \<longrightarrow> hostMap lb = []
      | Some (ip, port) \<Rightarrow> \<exists>rl \<in> set rls. \<exists>(k, lb) \<in> set (routeMap rl). \<exists>(k', h) \<in> set (hostMap lb).
          lb_modid lb = m \<and> lb_cmdid lb = c \<and> ip = inet_ntoa (hi_ip h) \<and> port = hi_port h)"
proof -
  let ?hs = "lines_of (mkkey m c) (concat (map backup_of rls))"
  have "map backup_content rls = map (\<lambda>rl. Some (file_text (backup_of rl))) rls"
    using assms by (simp add: backup_content)
  then obtain sr where g: "StaticRoute_getHost (map backup_content rls) rand m c \<lparr> sr_route = [] \<rparr>
      = Inr (sr, if ?hs = [] then None else Some (?hs ! (rand mod length ?hs)))"
    using getHost_loaded [of "map backup_of rls" rand m c] backup_in_long by (auto simp: Let_def comp_def)
  have s: "set ?hs = (\<Union>rl \<in> set rls. set (lines_of (mkkey m c) (backup_of rl)))"
    by (simp add: lines_of_concat)
  show ?thesis
  proof (cases "?hs = []")
    case True
    then have e: "set (lines_of (mkkey m c) (backup_of rl)) = {}" if "rl \<in> set rls" for rl using s that by auto
    have "hostMap lb = []" if "rl \<in> set rls" "(k, lb) \<in> set (routeMap rl)" "lb_modid lb = m" "lb_cmdid lb = c" for rl k lb
    proof (rule ccontr)
      assume "hostMap lb \<noteq> []"
      then obtain k' h where "(k', h) \<in> set (hostMap lb)" by (metis list.set_intros(1) neq_Nil_conv surj_pair)
      then have "(inet_ntoa (hi_ip h), hi_port h) \<in> set (lines_of (mkkey m c) (backup_of rl))"
        unfolding backup_lines using that(2-4) by blast
      with e [OF that(1)] show False by simp
    qed
    with g True show ?thesis by (intro exI conjI) (assumption, auto)
  next
    case False
    then have "?hs ! (rand mod length ?hs) \<in> set ?hs" by simp
    then obtain rl k lb k' h where h: "rl \<in> set rls" "?hs ! (rand mod length ?hs) = (inet_ntoa (hi_ip h), hi_port h)"
      "(k, lb) \<in> set (routeMap rl)" "(k', h) \<in> set (hostMap lb)" "lb_modid lb = m" "lb_cmdid lb = c"
      unfolding s by (auto simp: backup_lines)
    show ?thesis
      by (intro exI [of _ sr] exI [of _ "Some (inet_ntoa (hi_ip h), hi_port h)"] conjI)
        (use g False h in \<open>auto intro!: bexI [of _ rl] bexI [of _ "(k, lb)"] bexI [of _ "(k', h)"]\<close>)
  qed
qed

definition ex_backed :: RouteLB where
  "ex_backed = (new_RouteLB 3)\<lparr>routeMap := [(mkkey 1 2, (new_LB 1 2)\<lparr>hostMap := [(mkkey 16777343 80,
     new_HI 0 16777343 80 180)]\<rparr>)]\<rparr>"

theorem static_route_is_last_backup_witness:
  "\<exists>sr r. StaticRoute_getHost (map backup_content [new_RouteLB 1, ex_backed]) 5 1 2 \<lparr> sr_route = [] \<rparr> = Inr (sr, r)
     \<and> r \<noteq> None"
proof -
  have "\<forall>rl \<in> set [new_RouteLB 1, ex_backed]. rl_id rl \<in> {1, 2, 3}"
    by (simp add: new_RouteLB_def ex_backed_def)
  from static_route_is_last_backup [OF this, of 5 1 2] obtain sr r where
    r: "StaticRoute_getHost (map backup_content [new_RouteLB 1, ex_backed]) 5 1 2 \<lparr> sr_route = [] \<rparr> = Inr (sr, r)"
    "r = None \<longrightarrow> (\<forall>rl \<in> set [new_RouteLB 1, ex_backed]. \<forall>(k, lb) \<in> set (routeMap rl).
        lb_modid lb = 1 \<and> lb_cmdid lb = 2 \<longrightarrow> hostMap lb = [])"
    by (elim exE conjE) (rule that, assumption, auto)
  have "r \<noteq> None" using r(2) by (auto simp: ex_backed_def new_LB_def)
  with r(1) show ?thesis by blast
qed

text \<open>
  A backup file that holds anything but numbers makes the fallback loop forever:
  \<open>fscanf\<close> then returns zero, which is not \<open>EOF\<close>, and never gets past the text.
\<close>

theorem malformed_backup_hangs:
  assumes "list_all in_long ls" and "ls \<noteq> []" and "\<not> is_space c" "\<not> is_digit c" "c \<noteq> CHR ''-''" "c \<noteq> CHR ''+''"
  shows "StaticRoute_getHost (Some (file_text ls @ c # s) # files) rand m n \<lparr> sr_route = [] \<rparr> = Inl Hang"
  using load_file_stuck [OF assms(1), where sp = "[]" and c = c and s = s and vs = "[None, None, None, None]"
    and sr = "\<lparr> sr_route = [] \<rparr>"] assms(2-)
  by (simp add: StaticRoute_getHost_def load_route_def)

theorem malformed_backup_hangs_witness:
  "StaticRoute_getHost [Some (file_text [(1, 2, 16777343, 80)] @ ''x'')] 0 1 2 \<lparr> sr_route = [] \<rparr> = Inl Hang"
  by (rule malformed_backup_hangs) (simp_all add: in_long_def is_space_def is_digit_def)

end
