(* ===== verification/ApiClient.thy ===== *)
theory ApiClient
  imports ApiCache ApiStatic LbAgent ElbCodec
begin

text \<open>
  The C++ client library (\<open>elbApi.cc\<close>). Every call is a function of the client, the state of
  its environment and what the kernel answers: the results of its \<open>sendto\<close> and \<open>recvfrom\<close>
  calls, in order. A datagram that arrives is decoded (\<open>Garbled\<close> when its identifier or
  contents are not those of an answer); datagrams shorter than a packet header are left
  out. The header itself belongs to the reactor library: its length is a parameter.
\<close>

section \<open>The environment\<close>

datatype packet = Failed | Garbled | Pkt agent_rsp

text \<open>
  Results of \<open>sendto\<close> still to come (success when there are none), datagrams that
  \<open>recvfrom\<close> will return, datagrams sent with the index of their socket.
\<close>

record net =
  n_tx :: "bool list"
  n_rx :: "packet list"
  n_sent :: "(int \<times> agent_req) list"

text \<open>
  \<open>time(NULL)\<close>, the shared heartbeat, the clock in milliseconds, \<open>rand()\<close>, the backup files,
  the message encoding and the length of a packet header.
\<close>

record api_env =
  en_now :: clong
  en_hb :: u64
  en_mills :: u64
  en_rand :: nat
  en_files :: "string option list"
  en_wire :: wire
  en_head :: nat

definition api_send :: "i32 \<Rightarrow> i32 \<Rightarrow> agent_req \<Rightarrow> net \<Rightarrow> (net \<times> bool) res" where
  "api_send modid cmdid req n =
    (let index = shard modid cmdid in
     if 0 \<le> index \<and> index < 3 then
       (case n_tx n of
          [] \<Rightarrow> Inr (n\<lparr>n_sent := n_sent n @ [(index, req)]\<rparr>, True)
        | ok # r \<Rightarrow> Inr (n\<lparr>n_tx := r, n_sent := n_sent n @ (if ok then [(index, req)] else [])\<rparr>, ok))
     else Inl BadIndex)"

definition api_recv :: "net \<Rightarrow> (net \<times> packet) res" where
  "api_recv n = (case n_rx n of [] \<Rightarrow> Inl Hang | p # r \<Rightarrow> Inr (n\<lparr>n_rx := r\<rparr>, p))"

section \<open>The client\<close>

text \<open>\<open>_agentOff\<close> is not set by the constructor.\<close>

record elbClient =
  ec_seqid :: u32
  ec_static :: StaticRoute
  ec_agentOff :: "bool option"
  ec_cache :: CacheLayer
  ec_tsget :: u64

definition new_elbClient :: elbClient where
  "new_elbClient = \<lparr> ec_seqid = 0, ec_static = \<lparr> sr_route = [] \<rparr>, ec_agentOff = None,
     ec_cache = [], ec_tsget = 0 \<rparr>"

definition API_ERR :: int where "API_ERR = - 9999"
definition API_NOEXIST :: int where "API_NOEXIST = - 9998"

definition put_unit :: "CacheUnit \<Rightarrow> i32 \<Rightarrow> i32 \<Rightarrow> elbClient \<Rightarrow> elbClient" where
  "put_unit cu modid cmdid cl = cl\<lparr>ec_cache := addCache modid cmdid cu (ec_cache cl)\<rparr>"

subsection \<open>\<open>batchReportRes\<close>\<close>

definition batch_req :: "CacheUnit \<Rightarrow> CacheBatchRptReq" where
  "batch_req cu = \<lparr> cbr_modid = cu_modid cu, cbr_cmdid = cu_cmdid cu,
     cbr_results = map (\<lambda>(k, n). \<lparr> hbc_ip = key_hi k, hbc_port = key_lo k, hbc_succcnt = n \<rparr>)
       (filter (\<lambda>(k, n). n \<noteq> 0) (cu_succAccum cu)) \<rparr>"

text \<open>The buffer on the stack has 4096 bytes.\<close>

definition batchReportRes :: "api_env \<Rightarrow> CacheUnit \<Rightarrow> net \<Rightarrow> (CacheUnit \<times> net) res" where
  "batchReportRes en cu n =
    (if cu_succCnt cu = 0 then Inr (cu, n)
     else (let req = batch_req cu;
               cu' = cu\<lparr>cu_succCnt := 0, cu_succAccum := map (\<lambda>(k, n). (k, 0)) (cu_succAccum cu)\<rparr>
       in if 4096 < en_head en + msg_size_of (en_wire en) (M_CacheBatchRptReq req) then Inl BufOverflow
          else rbind (api_send (cu_modid cu) (cu_cmdid cu) (BatchReport req) n) (\<lambda>(n', ok).
            Inr (cu', n'))))"

subsection \<open>\<open>getRoute4Cache\<close>\<close>

definition fill_unit :: "CacheGetRouteRsp \<Rightarrow> clong \<Rightarrow> CacheUnit \<Rightarrow> CacheUnit" where
  "fill_unit rsp ts cu = cu\<lparr>
     cu_overload := (case cgr_overload rsp of None \<Rightarrow> False | Some b \<Rightarrow> b),
     cu_version := cgr_version rsp, cu_succCnt := 0, cu_lstUpdTs := ts,
     cu_nodeList := map (\<lambda>ha. (ha_ip ha, ha_port ha)) (cgr_route rsp),
     cu_succAccum := fold (\<lambda>ha a. AList.update (mkkey (ha_ip ha) (ha_port ha)) 0 a) (cgr_route rsp) [] \<rparr>"

definition keep_unit :: "CacheGetRouteRsp \<Rightarrow> clong \<Rightarrow> CacheUnit \<Rightarrow> CacheUnit" where
  "keep_unit rsp ts cu = cu\<lparr>
     cu_overload := (case cgr_overload rsp of None \<Rightarrow> False | Some b \<Rightarrow> b),
     cu_succCnt := 0, cu_lstUpdTs := ts \<rparr>"

text \<open>\<open>new CacheUnit()\<close>: \<open>fill_unit\<close> then writes every member that is not set here.\<close>

definition new_unit :: "i32 \<Rightarrow> i32 \<Rightarrow> CacheUnit" where
  "new_unit modid cmdid = \<lparr> cu_modid = modid, cu_cmdid = cmdid, cu_overload = False, cu_lstUpdTs = 0,
     cu_version = 0, cu_succCnt = 0, cu_nodeList = [], cu_succAccum = [] \<rparr>"

definition take_route :: "CacheGetRouteRsp \<Rightarrow> i32 \<Rightarrow> i32 \<Rightarrow> clong \<Rightarrow> elbClient \<Rightarrow> elbClient" where
  "take_route rsp modid cmdid ts cl =
    (if cgr_version rsp = - 1 then cl\<lparr>ec_cache := rmCache modid cmdid (ec_cache cl)\<rparr>
     else (case getCache modid cmdid (ec_cache cl) of
         None \<Rightarrow> put_unit (fill_unit rsp ts (new_unit modid cmdid)) modid cmdid cl
       | Some cu \<Rightarrow>
           if cgr_version rsp \<noteq> cu_version cu then put_unit (fill_unit rsp ts cu) modid cmdid cl
           else put_unit (keep_unit rsp ts cu) modid cmdid cl))"

definition getRoute4Cache :: "i32 \<Rightarrow> i32 \<Rightarrow> clong \<Rightarrow> elbClient \<Rightarrow> net \<Rightarrow> (elbClient \<times> int \<times> net) res" where
  "getRoute4Cache modid cmdid ts cl n =
    (let req = \<lparr> cgq_modid = modid, cgq_cmdid = cmdid,
         cgq_version = (case getCache modid cmdid (ec_cache cl) of None \<Rightarrow> - 1 | Some cu \<Rightarrow> cu_version cu) \<rparr>
     in rbind (api_send modid cmdid (CacheGetRoute req) n) (\<lambda>(n1, ok).
        if \<not> ok then Inr (cl, API_ERR, n1)
        else rbind (api_recv n1) (\<lambda>(n2, p).
          case p of
            Pkt (CacheRsp rsp) \<Rightarrow>
              if cgr_modid rsp \<noteq> modid \<or> cgr_cmdid rsp \<noteq> cmdid then Inr (cl, API_ERR, n2)
              else Inr (take_route rsp modid cmdid ts cl, 0, n2)
          | _ \<Rightarrow> Inr (cl, API_ERR, n2))))"

subsection \<open>\<open>apiGetHost\<close>\<close>

text \<open>Answers to earlier requests are dropped until one with the sequence number, or a later one.\<close>

fun recv_again :: "u32 \<Rightarrow> GetHostRsp \<Rightarrow> packet list \<Rightarrow> (packet list \<times> GetHostRsp option) res" where
  "recv_again seq rsp ps =
    (if ghr_seq rsp < seq then
       (case ps of
          [] \<Rightarrow> Inl Hang
        | p # ps' \<Rightarrow>
            (case p of Pkt (HostRsp r) \<Rightarrow> recv_again seq r ps' | _ \<Rightarrow> Inr (ps', None)))
     else Inr (ps, Some rsp))"

declare recv_again.simps [simp del]

definition take_answer ::
  "api_env \<Rightarrow> i32 \<Rightarrow> i32 \<Rightarrow> u32 \<Rightarrow> GetHostRsp option \<Rightarrow> elbClient \<Rightarrow> elbClient \<times> int \<times> api_host option" where
  "take_answer en modid cmdid seq ans cl =
    (case ans of
       None \<Rightarrow> (cl, API_ERR, None)
     | Some rsp \<Rightarrow>
         if ghr_seq rsp \<noteq> seq \<or> ghr_modid rsp \<noteq> modid \<or> ghr_cmdid rsp \<noteq> cmdid then (cl, API_ERR, None)
         else if ghr_retcode rsp = 0
         then (let h = (case ghr_host rsp of None \<Rightarrow> \<lparr> ha_ip = 0, ha_port = 0 \<rparr> | Some h \<Rightarrow> h) in
               (cl\<lparr>ec_tsget := en_mills en\<rparr>, 0, Some (inet_ntoa (ha_ip h), ha_port h)))
         else (cl, ghr_retcode rsp, None))"

definition askAgent ::
  "api_env \<Rightarrow> i32 \<Rightarrow> i32 \<Rightarrow> elbClient \<Rightarrow> net \<Rightarrow> (elbClient \<times> int \<times> api_host option \<times> net) res" where
  "askAgent en modid cmdid cl n =
    (let seq = ec_seqid cl; cl1 = cl\<lparr>ec_seqid := ec_seqid cl + 1\<rparr> in
     rbind (api_send modid cmdid (GetHost \<lparr> ghq_seq = seq, ghq_modid = modid, ghq_cmdid = cmdid \<rparr>) n) (\<lambda>(n1, ok).
       if \<not> ok then Inr (cl1, API_ERR, None, n1)
       else rbind (api_recv n1) (\<lambda>(n2, p).
         case p of
           Pkt (HostRsp r) \<Rightarrow>
             rbind (recv_again seq r (n_rx n2)) (\<lambda>(ps, ans).
               case take_answer en modid cmdid seq ans cl1 of
                 (cl2, ret, h) \<Rightarrow> Inr (cl2, ret, h, n2\<lparr>n_rx := ps\<rparr>))
         | _ \<Rightarrow> Inr (cl1, API_ERR, None, n2))))"

text \<open>The second half: from the cached route, or over the network when a node is overloaded.\<close>

definition serveHost ::
  "api_env \<Rightarrow> i32 \<Rightarrow> i32 \<Rightarrow> elbClient \<Rightarrow> net \<Rightarrow> (elbClient \<times> int \<times> api_host option \<times> net) res" where
  "serveHost en modid cmdid cl n =
    (case getCache modid cmdid (ec_cache cl) of
       None \<Rightarrow> Inr (cl, API_NOEXIST, None, n)
     | Some cu \<Rightarrow>
         if \<not> cu_overload cu
         then rbind (CacheUnit_getHost cu) (\<lambda>(h, cu').
                Inr ((put_unit cu' modid cmdid cl)\<lparr>ec_tsget := en_mills en\<rparr>, 0, Some h, n))
         else askAgent en modid cmdid cl n)"

text \<open>A route older than two seconds is asked for again, after the pending report.\<close>

definition refreshRoute ::
  "api_env \<Rightarrow> i32 \<Rightarrow> i32 \<Rightarrow> elbClient \<Rightarrow> net \<Rightarrow> (elbClient \<times> net) res" where
  "refreshRoute en modid cmdid cl n =
    (case getCache modid cmdid (ec_cache cl) of
       None \<Rightarrow> Inr (cl, n)
     | Some cu \<Rightarrow>
         if 2 \<le> en_now en - cu_lstUpdTs cu
         then rbind (batchReportRes en cu n) (\<lambda>(cu', n1).
              rbind (getRoute4Cache modid cmdid (en_now en) (put_unit cu' modid cmdid cl) n1) (\<lambda>(cl', _, n2).
                Inr (cl', n2)))
         else Inr (cl, n))"

definition apiGetHost ::
  "api_env \<Rightarrow> i32 \<Rightarrow> i32 \<Rightarrow> elbClient \<Rightarrow> net \<Rightarrow> (elbClient \<times> int \<times> api_host option \<times> net) res" where
  "apiGetHost en modid cmdid cl n =
    (if hb_die (en_now en) (en_hb en) then
       rbind (StaticRoute_getHost (en_files en) (en_rand en) modid cmdid (ec_static cl)) (\<lambda>(sr, h).
         Inr (cl\<lparr>ec_agentOff := Some True, ec_static := sr\<rparr>,
              case h of None \<Rightarrow> API_NOEXIST | Some _ \<Rightarrow> 0, h, n))
     else
       (let cl1 = cl\<lparr>ec_agentOff := Some False, ec_static := freeData (ec_static cl)\<rparr> in
        rbind (case getCache modid cmdid (ec_cache cl1) of
                 None \<Rightarrow> getRoute4Cache modid cmdid (en_now en) cl1 n
               | Some _ \<Rightarrow> Inr (cl1, 0, n)) (\<lambda>(cl2, ret, n2).
          if ret \<noteq> 0 then Inr (cl2, ret, None, n2)
          else rbind (refreshRoute en modid cmdid cl2 n2) (\<lambda>(cl3, n3).
                 serveHost en modid cmdid cl3 n3))))"

subsection \<open>\<open>apiReportRes\<close>\<close>

definition report_req :: "api_env \<Rightarrow> i32 \<Rightarrow> i32 \<Rightarrow> i32 \<Rightarrow> i32 \<Rightarrow> i32 \<Rightarrow> elbClient \<Rightarrow> ReportReq" where
  "report_req en modid cmdid ipn port retcode cl =
    \<lparr> rq_modid = modid, rq_cmdid = cmdid, rq_host = \<lparr> ha_ip = ipn, ha_port = port \<rparr>, rq_retcode = retcode,
      rq_tcost = (if retcode \<noteq> 0 then Some (ucast (en_mills en - ec_tsget cl)) else None) \<rparr>"

definition report_net ::
  "api_env \<Rightarrow> i32 \<Rightarrow> i32 \<Rightarrow> i32 \<Rightarrow> i32 \<Rightarrow> i32 \<Rightarrow> elbClient \<Rightarrow> net \<Rightarrow> (elbClient \<times> net) res" where
  "report_net en modid cmdid ipn port retcode cl n =
    rbind (api_send modid cmdid (Report (report_req en modid cmdid ipn port retcode cl)) n)
      (\<lambda>(n', ok). Inr (cl, n'))"

definition apiReportRes ::
  "api_env \<Rightarrow> i32 \<Rightarrow> i32 \<Rightarrow> string \<Rightarrow> i32 \<Rightarrow> i32 \<Rightarrow> elbClient \<Rightarrow> net \<Rightarrow> (elbClient \<times> net) res" where
  "apiReportRes en modid cmdid ip port retcode cl n =
    (case ec_agentOff cl of
       None \<Rightarrow> Inl UninitRead
     | Some True \<Rightarrow> Inr (cl, n)
     | Some False \<Rightarrow>
         (case inet_aton ip of
            None \<Rightarrow> Inl UninitRead
          | Some ipn \<Rightarrow>
              (case getCache modid cmdid (ec_cache cl) of
                 None \<Rightarrow> report_net en modid cmdid ipn port retcode cl n
               | Some cu \<Rightarrow>
                   if cu_overload cu then report_net en modid cmdid ipn port retcode cl n
                   else if retcode = 0
                   then Inr (put_unit (CacheUnit_report ipn port cu) modid cmdid cl, n)
                   else rbind (batchReportRes en cu n) (\<lambda>(cu', n').
                     report_net en modid cmdid ipn port retcode (put_unit cu' modid cmdid cl) n'))))"

subsection \<open>\<open>apiGetRoute\<close> and \<open>apiRegister\<close>\<close>

definition apiGetRoute ::
  "api_env \<Rightarrow> i32 \<Rightarrow> i32 \<Rightarrow> api_host list \<Rightarrow> net \<Rightarrow> (int \<times> api_host list \<times> net) res" where
  "apiGetRoute en modid cmdid route n =
    (if hb_die (en_now en) (en_hb en) then Inr (- 1, route, n)
     else rbind (api_send modid cmdid (GetRoute \<lparr> grq_modid = modid, grq_cmdid = cmdid \<rparr>) n) (\<lambda>(n1, ok).
       if \<not> ok then Inr (- 1, route, n1)
       else rbind (api_recv n1) (\<lambda>(n2, p).
         case p of
           Pkt (RouteRsp rsp) \<Rightarrow>
             Inr (0, route @ map (\<lambda>h. (inet_ntoa (ha_ip h), ha_port h)) (grs_hosts rsp), n2)
         | _ \<Rightarrow> Inr (- 1, route, n2))))"

text \<open>Up to \<open>k\<close> more tries, each in its own environment (there is a pause between them).\<close>

fun register_loop ::
  "nat \<Rightarrow> (nat \<Rightarrow> api_env) \<Rightarrow> i32 \<Rightarrow> i32 \<Rightarrow> net \<Rightarrow> (api_host list \<times> net) res" where
  "register_loop 0 ens modid cmdid n = Inr ([], n)"
| "register_loop (Suc k) ens modid cmdid n =
    rbind (apiGetRoute (ens k) modid cmdid [] n) (\<lambda>(_, route, n').
      if route = [] then register_loop k ens modid cmdid n' else Inr (route, n'))"

definition apiRegister :: "(nat \<Rightarrow> api_env) \<Rightarrow> i32 \<Rightarrow> i32 \<Rightarrow> net \<Rightarrow> (int \<times> net) res" where
  "apiRegister ens modid cmdid n =
    rbind (register_loop 3 ens modid cmdid n) (\<lambda>(route, n').
      Inr (if route = [] then API_NOEXIST else 0, n'))"

subsection \<open>The destructor\<close>

definition destroy_elbClient :: "api_env \<Rightarrow> elbClient \<Rightarrow> net \<Rightarrow> net res" where
  "destroy_elbClient en cl n =
    foldM (\<lambda>n cu. rbind (batchReportRes en cu n) (\<lambda>(_, n'). Inr n')) n (getAll (ec_cache cl))"

end
