(* ===== verification/ApiSafety.thy ===== *)
theory ApiSafety
  imports ApiClient
begin

text \<open>
  What the C++ client keeps: the successes it has been told of are reported once, the cache
  stays well-formed, and the calls fault only where the source lets them.
\<close>

section \<open>Where a success is\<close>

text \<open>
  The successes of a node in the batches that were sent, those still waiting in the cache,
  and both together.
\<close>

definition batch_succ :: "i32 \<Rightarrow> i32 \<Rightarrow> HostBatchCallRes list \<Rightarrow> u32" where
  "batch_succ ip port rs = sum_list (map hbc_succcnt (filter (\<lambda>r. hbc_ip r = ip \<and> hbc_port r = port) rs))"

definition req_succ :: "i32 \<Rightarrow> i32 \<Rightarrow> i32 \<Rightarrow> i32 \<Rightarrow> agent_req \<Rightarrow> u32" where
  "req_succ m c ip port q =
    (case q of BatchReport r \<Rightarrow>
       if cbr_modid r = m \<and> cbr_cmdid r = c then batch_succ ip port (cbr_results r) else 0 | _ \<Rightarrow> 0)"

definition sent_succ :: "i32 \<Rightarrow> i32 \<Rightarrow> i32 \<Rightarrow> i32 \<Rightarrow> net \<Rightarrow> u32" where
  "sent_succ m c ip port n = sum_list (map (\<lambda>(i, q). req_succ m c ip port q) (n_sent n))"

definition unit_succ :: "i32 \<Rightarrow> i32 \<Rightarrow> CacheUnit \<Rightarrow> u32" where
  "unit_succ ip port cu = (case map_of (cu_succAccum cu) (mkkey ip port) of None \<Rightarrow> 0 | Some n \<Rightarrow> n)"

definition pending :: "i32 \<Rightarrow> i32 \<Rightarrow> i32 \<Rightarrow> i32 \<Rightarrow> elbClient \<Rightarrow> u32" where
  "pending m c ip port cl =
    (case getCache m c (ec_cache cl) of None \<Rightarrow> 0 | Some cu \<Rightarrow> unit_succ ip port cu)"

section \<open>Helper lemmas\<close>

lemma req_succ_simps [simp]:
  "req_succ m c ip port (GetHost r1) = 0" "req_succ m c ip port (Report r2) = 0"
  "req_succ m c ip port (GetRoute r3) = 0" "req_succ m c ip port (CacheGetRoute r4) = 0"
  by (simp_all add: req_succ_def)

lemma sum_lookup:
  "distinct (map fst a) \<Longrightarrow>
   sum_list (map (\<lambda>(k, n). if k = K then n else (0 :: u32)) a) = (case map_of a K of None \<Rightarrow> 0 | Some n \<Rightarrow> n)"
proof (induction a)
  case (Cons x a)
  obtain k n where x: "x = (k, n)" by fastforce
  show ?case
  proof (cases "k = K")
    case True
    then have "map_of a K = None" using Cons.prems by (simp add: x map_of_eq_None_iff)
    with True Cons show ?thesis by (simp add: x)
  qed (use Cons x in simp)
qed simp

text \<open>With its port not negative, a node is sent under its own address.\<close>

lemma key_parts:
  "0 \<le> sint port \<Longrightarrow> key_hi (mkkey a b) = ip \<and> key_lo (mkkey a b) = port \<longleftrightarrow> mkkey a b = mkkey ip port"
  by (auto simp: key_hi_mkkey)

lemma batch_succ_list:
  "batch_succ ip port (map (\<lambda>(k, n). \<lparr> hbc_ip = key_hi k, hbc_port = key_lo k, hbc_succcnt = n \<rparr>)
       (filter (\<lambda>(k, n). n \<noteq> 0) a)) =
   sum_list (map (\<lambda>(k, n). if key_hi k = ip \<and> key_lo k = port then n else 0) a)"
  by (induction a) (auto simp: batch_succ_def)

lemma batch_req_succ:
  assumes "cu_ok cu" "0 \<le> sint port"
  shows "batch_succ ip port (cbr_results (batch_req cu)) = unit_succ ip port cu"
proof -
  have "(if key_hi k = ip \<and> key_lo k = port then n else 0) = (if k = mkkey ip port then n else 0)"
    if "(k, n) \<in> set (cu_succAccum cu)" for k n
  proof -
    from that have "k \<in> keys_of (cu_succAccum cu)" by (force simp: keys_of_def)
    then obtain x y where "k = mkkey x y" using assms(1) by (auto simp: cu_ok_def)
    then show ?thesis using key_parts [OF assms(2), of x y ip] by simp
  qed
  then have "map (\<lambda>(k, n). if key_hi k = ip \<and> key_lo k = port then n else 0) (cu_succAccum cu) =
      map (\<lambda>(k, n). if k = mkkey ip port then n else 0) (cu_succAccum cu)"
    by (auto intro!: map_cong)
  then have "batch_succ ip port (cbr_results (batch_req cu)) =
      sum_list (map (\<lambda>(k, n). if k = mkkey ip port then n else 0) (cu_succAccum cu))"
    by (simp only: batch_req_def batch_succ_list CacheBatchRptReq.select_convs)
  then show ?thesis
    using assms(1) sum_lookup [of "cu_succAccum cu" "mkkey ip port"]
    by (simp add: unit_succ_def cu_ok_def)
qed

lemma unit_succ_zero: "list_all (\<lambda>(k, n). n = 0) (cu_succAccum cu) \<Longrightarrow> unit_succ ip port cu = 0"
  by (auto simp: unit_succ_def list_all_iff split: option.split dest: map_of_SomeD)

lemma accum_sum_zero: "list_all (\<lambda>(k, n). n = 0) a \<Longrightarrow> accum_sum a = 0"
  by (induction a) (auto simp: accum_sum_def)

lemma accum_reset:
  "keys_of (map (\<lambda>(k, n). (k, 0)) a) = keys_of a" "map fst (map (\<lambda>(k, n). (k, 0)) a) = map fst a"
  "list_all (\<lambda>(k, n). n = 0) (map (\<lambda>(k, n). (k, 0 :: u32)) a)"
  by (auto simp: keys_of_def list_all_iff image_image split_def)

lemma batchReportRes_ends:
  assumes "cu_ok cu" "n_tx n = []"
  shows "ends (\<lambda>f. f = BadIndex \<or> f = BufOverflow)
    (\<lambda>(cu', n'). cu_ok cu' \<and> cu_succCnt cu' = 0 \<and> cu_modid cu' = cu_modid cu \<and> cu_cmdid cu' = cu_cmdid cu
       \<and> cu_nodeList cu' = cu_nodeList cu \<and> n_tx n' = [] \<and> n_rx n' = n_rx n
       \<and> (\<forall>ip port. unit_succ ip port cu' = 0)
       \<and> (\<forall>m c ip port. 0 \<le> sint port \<longrightarrow> sent_succ m c ip port n' = sent_succ m c ip port n
            + (if cu_modid cu = m \<and> cu_cmdid cu = c then unit_succ ip port cu else 0)))
    (batchReportRes en cu n)"
proof (cases "cu_succCnt cu = 0")
  case True
  then have "unit_succ ip port cu = 0" for ip port using assms(1) by (auto simp: cu_ok_def intro: unit_succ_zero)
  with True assms show ?thesis by (simp add: batchReportRes_def)
next
  case False
  let ?cu = "cu\<lparr>cu_succCnt := 0, cu_succAccum := map (\<lambda>(k, n). (k, 0)) (cu_succAccum cu)\<rparr>"
  have "cu_ok ?cu" using assms(1) accum_sum_zero [OF accum_reset(3)]
    by (simp add: cu_ok_def accum_reset del: map_map)
  moreover have "unit_succ ip port ?cu = 0" for ip port using accum_reset(3) by (intro unit_succ_zero) simp
  moreover have "req_succ m c ip port (BatchReport (batch_req cu)) =
      (if cu_modid cu = m \<and> cu_cmdid cu = c then unit_succ ip port cu else 0)" if "0 \<le> sint port" for m c ip port
    using batch_req_succ [OF assms(1) that] by (simp add: req_succ_def batch_req_def)
  ultimately show ?thesis
    using False assms(2)
    by (simp add: batchReportRes_def Let_def) (auto simp: api_send_def sent_succ_def Let_def)
qed

lemma zero_accum_fold:
  "distinct (map fst a) \<Longrightarrow> list_all (\<lambda>(k, n). n = 0) a \<Longrightarrow>
   distinct (map fst (fold (\<lambda>h. AList.update (f h) (0 :: u32)) hs a))
   \<and> list_all (\<lambda>(k, n). n = 0) (fold (\<lambda>h. AList.update (f h) 0) hs a)
   \<and> keys_of (fold (\<lambda>h. AList.update (f h) 0) hs a) = keys_of a \<union> f ` set hs"
proof (induction hs arbitrary: a)
  case (Cons h hs)
  have "list_all (\<lambda>(k, n). n = 0) (AList.update (f h) 0 a)"
    using Cons.prems(2) by (induction a) auto
  with Cons.IH [of "AList.update (f h) 0 a"] Cons.prems show ?case by (auto simp: distinct_update)
qed simp

lemma fill_unit_ok: "cu_ok (fill_unit rsp ts cu)" "cu_succCnt (fill_unit rsp ts cu) = 0"
    "unit_succ ip port (fill_unit rsp ts cu) = 0"
  using zero_accum_fold [of "[]" "\<lambda>ha. mkkey (ha_ip ha) (ha_port ha)" "cgr_route rsp"] accum_sum_zero
    unit_succ_zero [of "fill_unit rsp ts cu"]
  by (auto simp: fill_unit_def cu_ok_def keys_of_def image_image)

lemma keep_unit_ok:
  "cu_ok cu \<Longrightarrow> cu_succCnt cu = 0 \<Longrightarrow> cu_ok (keep_unit rsp ts cu)"
  "unit_succ ip port (keep_unit rsp ts cu) = unit_succ ip port cu"
  by (simp_all add: cu_ok_def keep_unit_def unit_succ_def)

lemma unit_idents [simp]:
  "cu_modid (fill_unit rsp ts cu) = cu_modid cu" "cu_cmdid (fill_unit rsp ts cu) = cu_cmdid cu"
  "cu_modid (keep_unit rsp ts cu) = cu_modid cu" "cu_cmdid (keep_unit rsp ts cu) = cu_cmdid cu"
  "cu_modid (new_unit m c) = m" "cu_cmdid (new_unit m c) = c"
  by (simp_all add: fill_unit_def keep_unit_def new_unit_def)

lemma getCache_put: "getCache m' c' (ec_cache (put_unit cu m c cl)) =
    (if m' = m \<and> c' = c then Some cu else getCache m' c' (ec_cache cl))"
  by (auto simp: put_unit_def getCache_def addCache_def hm.find_put)

lemma pending_put: "pending m' c' ip port (put_unit cu m c cl) =
    (if m' = m \<and> c' = c then unit_succ ip port cu else pending m' c' ip port cl)"
  by (simp add: pending_def getCache_put)

lemma cache_ok_put:
  "cache_ok (ec_cache cl) \<Longrightarrow> cu_ok cu \<Longrightarrow> cu_modid cu = m \<Longrightarrow> cu_cmdid cu = c \<Longrightarrow>
   cache_ok (ec_cache (put_unit cu m c cl))"
  by (simp add: put_unit_def cache_ok_add)

text \<open>A module whose successes have been sent.\<close>

definition flushed :: "i32 \<Rightarrow> i32 \<Rightarrow> elbClient \<Rightarrow> bool" where
  "flushed m c cl \<longleftrightarrow> (\<forall>cu. getCache m c (ec_cache cl) = Some cu \<longrightarrow> cu_succCnt cu = 0)"

lemma flushed_pending: "cache_ok (ec_cache cl) \<Longrightarrow> flushed m c cl \<Longrightarrow> pending m c ip port cl = 0"
  using cache_okD(3) [of "ec_cache cl" m c]
  by (auto simp: pending_def flushed_def cu_ok_def intro: unit_succ_zero split: option.split)

lemma take_route_ok:
  assumes "cache_ok (ec_cache cl)" "flushed m c cl"
  shows "cache_ok (ec_cache (take_route rsp m c ts cl))"
    "pending m' c' ip port (take_route rsp m c ts cl) = pending m' c' ip port cl"
proof -
  note d = cache_okD [OF assms(1)]
  have z: "cu_succCnt cu = 0" if "getCache m c (ec_cache cl) = Some cu" for cu
    using assms(2) that by (simp add: flushed_def)
  show "cache_ok (ec_cache (take_route rsp m c ts cl))"
    using assms(1) d z
    by (auto simp: take_route_def cache_ok_rm fill_unit_ok keep_unit_ok intro!: cache_ok_put split: option.split)
  have p: "pending m c ip port cl = 0" by (rule flushed_pending [OF assms])
  have "pending m' c' ip port (cl\<lparr>ec_cache := rmCache m c (ec_cache cl)\<rparr>)
      = (if m' = m \<and> c' = c then 0 else pending m' c' ip port cl)"
    by (auto simp: pending_def getCache_def rmCache_def hm.find_erase)
  with p show "pending m' c' ip port (take_route rsp m c ts cl) = pending m' c' ip port cl"
    by (auto simp: take_route_def pending_put fill_unit_ok keep_unit_ok split: option.split)
       (simp add: pending_def)
qed

text \<open>
  The state between calls: a well-formed cache, no module without nodes, no \<open>sendto\<close> that
  fails, and no answer that announces a version with an empty route.
\<close>

definition rx_good :: "packet list \<Rightarrow> bool" where
  "rx_good ps \<longleftrightarrow> (\<forall>rsp. Pkt (CacheRsp rsp) \<in> set ps \<longrightarrow> cgr_version rsp = - 1 \<or> cgr_route rsp \<noteq> [])"

definition api_inv :: "elbClient \<Rightarrow> net \<Rightarrow> bool" where
  "api_inv cl n \<longleftrightarrow> cache_ok (ec_cache cl)
     \<and> (\<forall>m c cu. getCache m c (ec_cache cl) = Some cu \<longrightarrow> cu_nodeList cu \<noteq> [])
     \<and> n_tx n = [] \<and> rx_good (n_rx n)"

text \<open>What is sent and what is pending, together.\<close>

definition ledger :: "i32 \<Rightarrow> i32 \<Rightarrow> i32 \<Rightarrow> i32 \<Rightarrow> elbClient \<Rightarrow> net \<Rightarrow> u32" where
  "ledger m c ip port cl n = sent_succ m c ip port n + pending m c ip port cl"

text \<open>No module has counted more than \<open>K\<close> successes since its last report.\<close>

definition cnt_le :: "nat \<Rightarrow> elbClient \<Rightarrow> bool" where
  "cnt_le K cl \<longleftrightarrow> (\<forall>m c cu. getCache m c (ec_cache cl) = Some cu \<longrightarrow> unat (cu_succCnt cu) \<le> K)"

definition keeps :: "elbClient \<Rightarrow> net \<Rightarrow> elbClient \<Rightarrow> net \<Rightarrow> bool" where
  "keeps cl n cl' n' \<longleftrightarrow> api_inv cl' n' \<and> (\<forall>K. cnt_le K cl \<longrightarrow> cnt_le K cl')
     \<and> (\<forall>m c ip port. 0 \<le> sint port \<longrightarrow> ledger m c ip port cl' n' = ledger m c ip port cl n)"

definition api_fault :: "fault \<Rightarrow> bool" where
  "api_fault f \<longleftrightarrow> f \<in> {BadIndex, BufOverflow, Hang, UninitRead}"

lemma api_fault_simps [simp]: "api_fault BadIndex" "api_fault BufOverflow" "api_fault Hang" "api_fault UninitRead"
  by (simp_all add: api_fault_def)

lemma keeps_refl: "api_inv cl n \<Longrightarrow> keeps cl n cl n"
  and keeps_trans: "keeps cl n cl1 n1 \<Longrightarrow> keeps cl1 n1 cl' n' \<Longrightarrow> keeps cl n cl' n'"
  and keeps_inv: "keeps cl n cl' n' \<Longrightarrow> api_inv cl' n'"
  by (auto simp: keeps_def)

text \<open>Everything but the cache may change freely.\<close>

lemma api_inv_frame:
  "ec_cache cl' = ec_cache cl \<Longrightarrow> api_inv cl' n = api_inv cl n"
  "ec_cache cl' = ec_cache cl \<Longrightarrow> keeps cl1 n1 cl' n = keeps cl1 n1 cl n"
  "ec_cache cl' = ec_cache cl \<Longrightarrow> keeps cl' n cl1 n1 = keeps cl n cl1 n1"
  by (simp_all add: api_inv_def keeps_def ledger_def pending_def cnt_le_def)

definition quiet :: "net \<Rightarrow> net \<Rightarrow> bool" where
  "quiet n n' \<longleftrightarrow> n_tx n' = n_tx n \<and> set (n_rx n') \<subseteq> set (n_rx n) \<and> (\<forall>m c ip port. sent_succ m c ip port n' = sent_succ m c ip port n)"

lemma quiet_keeps: "quiet n n' \<Longrightarrow> api_inv cl n \<Longrightarrow> keeps cl n cl n'"
  by (auto simp: quiet_def keeps_def api_inv_def ledger_def rx_good_def)

lemma quiet_trans: "quiet n n1 \<Longrightarrow> quiet n1 n' \<Longrightarrow> quiet n n'"
  by (auto simp: quiet_def)

lemma api_send_quiet:
  assumes "n_tx n = []" "\<And>m c ip port. req_succ m c ip port q = 0"
  shows "ends api_fault (\<lambda>(n', ok). quiet n n' \<and> ok) (api_send m c q n)"
  using assms by (simp add: api_send_def Let_def quiet_def sent_succ_def api_fault_def)

lemma api_recv_quiet: "ends api_fault (\<lambda>(n', p). quiet n n' \<and> p \<in> set (n_rx n)) (api_recv n)"
  by (auto simp: api_recv_def quiet_def sent_succ_def api_fault_def split: list.split)

text \<open>A request and the first datagram received after it.\<close>

lemma exchange:
  assumes "n_tx n = []" "\<And>m c ip port. req_succ m c ip port q = 0"
    and "\<And>n' p. quiet n n' \<Longrightarrow> p \<in> set (n_rx n) \<Longrightarrow> ends api_fault R (f (n', p))"
    and "\<And>n'. quiet n n' \<Longrightarrow> ends api_fault R (g n')"
  shows "ends api_fault R (rbind (api_send m c q n) (\<lambda>(n1, ok). if \<not> ok then g n1 else rbind (api_recv n1) f))"
proof (rule ends_rbindI [OF api_send_quiet [OF assms(1,2)]], assumption)
  fix x assume "case x of (n', ok) \<Rightarrow> quiet n n' \<and> ok"
  then obtain n1 where x: "x = (n1, True)" "quiet n n1" by (cases x) auto
  have "ends api_fault R (rbind (api_recv n1) f)"
  proof (rule ends_rbindI [OF api_recv_quiet], assumption)
    fix y assume "case y of (n', p) \<Rightarrow> quiet n1 n' \<and> p \<in> set (n_rx n1)"
    then obtain n2 p where y: "y = (n2, p)" "quiet n1 n2" "p \<in> set (n_rx n1)" by (cases y) auto
    then show "ends api_fault R (f y)"
      using assms(3) [OF quiet_trans [OF x(2) y(2)], of p] x(2) by (auto simp: quiet_def)
  qed
  with x show "ends api_fault R (case x of (n1, ok) \<Rightarrow> if \<not> ok then g n1 else rbind (api_recv n1) f)" by simp
qed

lemma keeps_put:
  assumes "api_inv cl n" "getCache m c (ec_cache cl) = Some cu" "cu_ok cu'" "cu_modid cu' = m" "cu_cmdid cu' = c"
    "cu_nodeList cu' \<noteq> []" "\<And>ip port. unit_succ ip port cu' = unit_succ ip port cu" "cu_succCnt cu' = cu_succCnt cu"
  shows "keeps cl n (put_unit cu' m c cl) n"
  using assms
  by (auto simp: keeps_def api_inv_def cache_ok_put getCache_put ledger_def pending_put cnt_le_def)
     (auto simp: pending_def)

section \<open>Each call keeps it\<close>

lemma take_route_keeps:
  assumes "api_inv cl n" "flushed m c cl" "cgr_version rsp = - 1 \<or> cgr_route rsp \<noteq> []"
  shows "keeps cl n (take_route rsp m c ts cl) n"
proof -
  have g: "getCache m' c' (ec_cache (cl\<lparr>ec_cache := rmCache m c (ec_cache cl)\<rparr>))
      = (if m' = m \<and> c' = c then None else getCache m' c' (ec_cache cl))" for m' c'
    by (auto simp: getCache_def rmCache_def hm.find_erase)
  then have "\<forall>m' c' cu. getCache m' c' (ec_cache (take_route rsp m c ts cl)) = Some cu \<longrightarrow> cu_nodeList cu \<noteq> []"
    using assms by (auto simp: api_inv_def take_route_def getCache_put fill_unit_def keep_unit_def split: option.splits)
  moreover have "cnt_le K cl \<longrightarrow> cnt_le K (take_route rsp m c ts cl)" for K
    using g assms(2)
    by (auto simp: cnt_le_def take_route_def getCache_put fill_unit_ok(2) keep_unit_def split: option.splits)
  ultimately show ?thesis
    using assms take_route_ok [of cl m c] by (auto simp: keeps_def api_inv_def ledger_def)
qed

lemma getRoute4Cache_keeps:
  assumes "api_inv cl n" "flushed m c cl"
  shows "ends api_fault (\<lambda>(cl', r, n'). keeps cl n cl' n') (getRoute4Cache m c ts cl n)"
proof -
  have tx: "n_tx n = []" and rx: "rx_good (n_rx n)" using assms(1) by (simp_all add: api_inv_def)
  have kr: "keeps cl n cl n'" if "quiet n n'" for n' by (rule quiet_keeps [OF that assms(1)])
  have kt: "keeps cl n (take_route rsp m c ts cl) n'"
    if "quiet n n'" "Pkt (CacheRsp rsp) \<in> set (n_rx n)" for n' rsp
  proof -
    have "keeps cl n' (take_route rsp m c ts cl) n'"
      using keeps_inv [OF kr [OF that(1)]] rx assms(2) that(2) by (intro take_route_keeps) (auto simp: rx_good_def)
    with kr [OF that(1)] show ?thesis by (rule keeps_trans)
  qed
  show ?thesis unfolding getRoute4Cache_def Let_def
  proof (rule exchange [OF tx])
    fix n' p assume q: "quiet n n'" "p \<in> set (n_rx n)"
    show "ends api_fault (\<lambda>(cl', r, n'). keeps cl n cl' n')
      (case (n', p) of (n2, p) \<Rightarrow> (case p of
         Pkt (CacheRsp rsp) \<Rightarrow>
           if cgr_modid rsp \<noteq> m \<or> cgr_cmdid rsp \<noteq> c then Inr (cl, API_ERR, n2)
           else Inr (take_route rsp m c ts cl, 0, n2)
       | _ \<Rightarrow> Inr (cl, API_ERR, n2)))"
    proof (cases "\<exists>rsp. p = Pkt (CacheRsp rsp) \<and> cgr_modid rsp = m \<and> cgr_cmdid rsp = c")
      case True
      then obtain rsp where "p = Pkt (CacheRsp rsp)" "cgr_modid rsp = m" "cgr_cmdid rsp = c" by blast
      with kt [OF q(1), of rsp] q(2) show ?thesis by simp
    qed (use kr [OF q(1)] in \<open>auto split: packet.split agent_rsp.split\<close>)
  qed (use kr in simp_all)
qed

lemma flush_keeps:
  assumes "api_inv cl n" "getCache m c (ec_cache cl) = Some cu"
  shows "ends api_fault (\<lambda>(cu', n'). keeps cl n (put_unit cu' m c cl) n' \<and> flushed m c (put_unit cu' m c cl))
    (batchReportRes en cu n)"
proof -
  have i: "cache_ok (ec_cache cl)" "n_tx n = []" "rx_good (n_rx n)" "cu_nodeList cu \<noteq> []"
    using assms by (auto simp: api_inv_def)
  note d = cache_okD [OF i(1) assms(2)]
  have "keeps cl n (put_unit cu' m c cl) n'"
    if "cu_succCnt cu' = 0" "cu_ok cu'" "cu_modid cu' = m" "cu_cmdid cu' = c" "cu_nodeList cu' = cu_nodeList cu" "n_tx n' = []"
      "n_rx n' = n_rx n" "\<forall>ip port. unit_succ ip port cu' = 0"
      "\<forall>m' c' ip port. 0 \<le> sint port \<longrightarrow> sent_succ m' c' ip port n' = sent_succ m' c' ip port n
         + (if m = m' \<and> c = c' then unit_succ ip port cu else 0)" for cu' n'
    using that i assms
    by (auto simp: keeps_def api_inv_def cache_ok_put getCache_put ledger_def pending_put cnt_le_def)
       (simp_all add: pending_def)
  then show ?thesis
    by (intro ends_mono [OF batchReportRes_ends [OF d(3) i(2)]])
       (auto simp: api_fault_def d(1,2) flushed_def getCache_put)
qed

lemma refreshRoute_keeps:
  assumes "api_inv cl n"
  shows "ends api_fault (\<lambda>(cl', n'). keeps cl n cl' n') (refreshRoute en m c cl n)"
proof (cases "getCache m c (ec_cache cl)")
  case (Some cu)
  have "ends api_fault (\<lambda>(cl', n'). keeps cl n cl' n')
      (rbind (getRoute4Cache m c (en_now en) (put_unit cu' m c cl) n1) (\<lambda>(cl', _, n2). Inr (cl', n2)))"
    if "keeps cl n (put_unit cu' m c cl) n1" "flushed m c (put_unit cu' m c cl)" for cu' n1
    by (rule ends_rbind [OF getRoute4Cache_keeps [OF keeps_inv [OF that(1)] that(2)]])
       (auto intro: keeps_trans [OF that(1)])
  then show ?thesis using keeps_refl [OF assms]
    by (auto simp: refreshRoute_def Some intro!: ends_rbind [OF flush_keeps [OF assms Some]])
qed (use keeps_refl [OF assms] in \<open>simp add: refreshRoute_def\<close>)

lemma recv_again_rest:
  "ends api_fault (\<lambda>(ps', _). set ps' \<subseteq> set ps) (recv_again seq rsp ps)"
proof (induction ps arbitrary: rsp)
  case Nil
  then show ?case by (subst recv_again.simps) (simp add: api_fault_def)
next
  case (Cons p ps)
  have "ends api_fault (\<lambda>(ps', _). set ps' \<subseteq> set (p # ps)) (recv_again seq r ps)" for r
    by (rule ends_mono [OF Cons.IH]) auto
  then show ?case
    by (subst recv_again.simps) (auto split: packet.split agent_rsp.split)
qed

lemma askAgent_keeps:
  assumes "api_inv cl n"
  shows "ends api_fault (\<lambda>(cl', r, h, n'). keeps cl n cl' n') (askAgent en m c cl n)"
proof -
  have tx: "n_tx n = []" using assms by (simp add: api_inv_def)
  have k: "keeps cl n cl' n'" if "quiet n n'" "ec_cache cl' = ec_cache cl" for n' cl'
    using quiet_keeps [OF that(1) assms] api_inv_frame(2) [OF that(2)] by simp
  have q: "quiet n (n'\<lparr>n_rx := ps\<rparr>)" if "quiet n n'" "set ps \<subseteq> set (n_rx n')" for n' ps
    using that by (auto simp: quiet_def sent_succ_def)
  have f: "ec_cache cl2 = ec_cache cl1" if "take_answer en m c s ans cl1 = (cl2, r, h)" for cl1 cl2 s ans r h
    using that by (auto simp: take_answer_def Let_def split: option.splits if_splits)
  let ?cl = "cl\<lparr>ec_seqid := ec_seqid cl + 1\<rparr>"
  have h: "ends api_fault (\<lambda>(cl', r, h, n'). keeps cl n cl' n')
      (rbind (recv_again s r (n_rx n')) (\<lambda>(ps, ans). case take_answer en m c s ans ?cl of
         (cl2, ret, h) \<Rightarrow> Inr (cl2, ret, h, n'\<lparr>n_rx := ps\<rparr>)))"
    if "quiet n n'" for n' s r
    by (rule ends_rbind [OF recv_again_rest])
       (auto split: prod.split intro!: k [OF q [OF that]] dest: f)
  show ?thesis unfolding askAgent_def Let_def
    by (rule exchange [OF tx]) (auto intro!: h k split: packet.split agent_rsp.split)
qed

lemma getHost_cached_keeps:
  assumes "api_inv cl n" "getCache m c (ec_cache cl) = Some cu"
  shows "ends api_fault (\<lambda>(h, cu'). keeps cl n (put_unit cu' m c cl) n) (CacheUnit_getHost cu)"
proof -
  have i: "cache_ok (ec_cache cl)" "cu_nodeList cu \<noteq> []" using assms by (auto simp: api_inv_def)
  note d = cache_okD [OF i(1) assms(2)]
  obtain ip port ns where ns: "cu_nodeList cu = (ip, port) # ns" using i(2) by (cases "cu_nodeList cu") auto
  let ?cu = "cu\<lparr>cu_nodeList := ns @ [(ip, port)]\<rparr>"
  have g: "CacheUnit_getHost cu = Inr ((inet_ntoa ip, port), ?cu)" by (simp add: CacheUnit_getHost_def ns)
  have "keeps cl n (put_unit ?cu m c cl) n"
    by (rule keeps_put [OF assms cu_ok_getHost [OF d(3) g]]) (simp_all add: d unit_succ_def)
  with g show ?thesis by simp
qed

lemma serveHost_keeps:
  assumes "api_inv cl n"
  shows "ends api_fault (\<lambda>(cl', r, h, n'). keeps cl n cl' n') (serveHost en m c cl n)"
proof (cases "getCache m c (ec_cache cl)")
  case (Some cu)
  have "keeps cl n ((put_unit cu' m c cl)\<lparr>ec_tsget := t\<rparr>) n" if "keeps cl n (put_unit cu' m c cl) n" for cu' t
    using that api_inv_frame(2) [of "(put_unit cu' m c cl)\<lparr>ec_tsget := t\<rparr>" "put_unit cu' m c cl"] by simp
  then show ?thesis
    by (auto simp: serveHost_def Some askAgent_keeps [OF assms] intro!: ends_rbind [OF getHost_cached_keeps [OF assms Some]])
qed (use keeps_refl [OF assms] in \<open>simp add: serveHost_def\<close>)

lemma load_file_fault: "ends api_fault (\<lambda>_. True) (load_file vs s sr)"
proof (induction vs s sr rule: load_file.induct)
  case (1 vs s sr)
  then show ?case
    by (subst load_file.simps) (auto split: option.split list.split)
qed

lemma static_fault: "ends api_fault (\<lambda>_. True) (StaticRoute_getHost files rand m c sr)"
proof -
  have "ends api_fault (\<lambda>_. True) (foldM (\<lambda>sr f. load_route f sr) sr files)"
    by (rule ends_foldM) (auto simp: load_route_def load_file_fault split: option.split)
  then have "ends api_fault (\<lambda>_. True) (if sr_route sr = [] then foldM (\<lambda>sr f. load_route f sr) sr files else Inr sr)"
    by simp
  then show ?thesis unfolding StaticRoute_getHost_def by (rule ends_rbind) simp
qed

lemma apiGetHost_keeps:
  assumes "api_inv cl n"
  shows "ends api_fault (\<lambda>(cl', r, h, n'). keeps cl n cl' n') (apiGetHost en m c cl n)"
proof (cases "hb_die (en_now en) (en_hb en)")
  case True
  have "keeps cl n (cl\<lparr>ec_agentOff := off, ec_static := sr\<rparr>) n" for off sr
    using keeps_refl [OF assms] api_inv_frame(2) [of "cl\<lparr>ec_agentOff := off, ec_static := sr\<rparr>" cl] by simp
  with True show ?thesis
    by (auto simp: apiGetHost_def intro!: ends_rbind [OF static_fault])
next
  case False
  let ?cl = "cl\<lparr>ec_agentOff := Some False, ec_static := freeData (ec_static cl)\<rparr>"
  have i: "api_inv ?cl n" and k: "keeps cl n cl' n' = keeps ?cl n cl' n'" for cl' n'
    using assms api_inv_frame(1) [of ?cl cl] api_inv_frame(3) [of ?cl cl] by simp_all
  have g: "ends api_fault (\<lambda>(cl', r, n'). keeps ?cl n cl' n')
      (case getCache m c (ec_cache cl) of None \<Rightarrow> getRoute4Cache m c (en_now en) ?cl n | Some _ \<Rightarrow> Inr (?cl, 0, n))"
    using keeps_refl [OF i]
    by (cases "getCache m c (ec_cache cl)") (auto simp: flushed_def intro!: getRoute4Cache_keeps [OF i])
  have r: "ends api_fault (\<lambda>(cl', r, h, n'). keeps ?cl n cl' n')
      (rbind (refreshRoute en m c cl2 n2) (\<lambda>(cl3, n3). serveHost en m c cl3 n3))"
    if "keeps ?cl n cl2 n2" for cl2 n2
  proof (rule ends_rbind [OF refreshRoute_keeps [OF keeps_inv [OF that]]])
    fix x assume "case x of (cl3, n3) \<Rightarrow> keeps cl2 n2 cl3 n3"
    then obtain cl3 n3 where x: "x = (cl3, n3)" "keeps cl2 n2 cl3 n3" by (cases x) auto
    show "ends api_fault (\<lambda>(cl', r, h, n'). keeps ?cl n cl' n') (case x of (cl3, n3) \<Rightarrow> serveHost en m c cl3 n3)"
      using ends_mono [OF serveHost_keeps [OF keeps_inv [OF x(2)]], of api_fault]
      by (auto simp: x(1) intro!: ends_mono [OF serveHost_keeps [OF keeps_inv [OF x(2)]]]
          intro: keeps_trans [OF keeps_trans [OF that x(2)]])
  qed
  have "apiGetHost en m c cl n = rbind
      (case getCache m c (ec_cache cl) of None \<Rightarrow> getRoute4Cache m c (en_now en) ?cl n | Some _ \<Rightarrow> Inr (?cl, 0, n))
      (\<lambda>(cl2, ret, n2). if ret \<noteq> 0 then Inr (cl2, ret, None, n2)
        else rbind (refreshRoute en m c cl2 n2) (\<lambda>(cl3, n3). serveHost en m c cl3 n3))"
    using False by (simp add: apiGetHost_def Let_def)
  then show ?thesis unfolding k by (auto intro!: ends_rbind [OF g] r)
qed

text \<open>Which reported result the client counts in its cache.\<close>

definition counts ::
  "elbClient \<Rightarrow> i32 \<Rightarrow> i32 \<Rightarrow> string \<Rightarrow> i32 \<Rightarrow> i32 \<Rightarrow> (i32 \<times> i32 \<times> i32 \<times> i32) option" where
  "counts cl m c ip port retcode =
    (if ec_agentOff cl = Some False \<and> retcode = 0 then
       (case (inet_aton ip, getCache m c (ec_cache cl)) of
          (Some ipn, Some cu) \<Rightarrow>
            if \<not> cu_overload cu \<and> mkkey ipn port \<in> keys_of (cu_succAccum cu) then Some (m, c, ipn, port) else None
        | _ \<Rightarrow> None)
     else None)"

lemma unit_succ_report:
  "unit_succ ip port (CacheUnit_report ipn p cu) = unit_succ ip port cu
     + (if ip = ipn \<and> port = p \<and> mkkey ipn p \<in> keys_of (cu_succAccum cu) then 1 else 0)"
  by (auto simp: unit_succ_def report_accum split: option.split dest: map_of_keys_of elim: keys_ofE)

lemma report_frame [simp]:
  "cu_modid (CacheUnit_report ip p cu) = cu_modid cu" "cu_cmdid (CacheUnit_report ip p cu) = cu_cmdid cu"
  "cu_nodeList (CacheUnit_report ip p cu) = cu_nodeList cu"
  by (auto simp: CacheUnit_report_def Let_def split: option.split)

definition reports :: "elbClient \<Rightarrow> net \<Rightarrow> (i32 \<times> i32 \<times> i32 \<times> i32) option \<Rightarrow> elbClient \<Rightarrow> net \<Rightarrow> bool" where
  "reports cl n x cl' n' \<longleftrightarrow> api_inv cl' n' \<and> (\<forall>K. cnt_le K cl \<longrightarrow> cnt_le (Suc K) cl') \<and>
     (\<forall>m c ip port. 0 \<le> sint port \<longrightarrow>
        ledger m c ip port cl' n' = ledger m c ip port cl n + (if x = Some (m, c, ip, port) then 1 else 0))"

lemma report_cnt: "unat (cu_succCnt (CacheUnit_report ip p cu)) \<le> Suc (unat (cu_succCnt cu))"
  using unat_plus_if' [of "cu_succCnt cu" 1]
  by (auto simp: CacheUnit_report_def Let_def split: option.split if_splits)

lemma keeps_reports: "keeps cl n cl' n' \<Longrightarrow> reports cl n None cl' n'"
  by (auto simp: keeps_def reports_def cnt_le_def intro: le_SucI)

lemma report_net_keeps:
  assumes "api_inv cl n"
  shows "ends api_fault (\<lambda>(cl', n'). keeps cl n cl' n') (report_net en m c ipn port r cl n)"
proof -
  have tx: "n_tx n = []" using assms by (simp add: api_inv_def)
  show ?thesis unfolding report_net_def
    by (rule ends_rbindI [OF api_send_quiet [OF tx]]) (auto intro: quiet_keeps [OF _ assms])
qed

lemma apiReportRes_keeps:
  assumes "api_inv cl n" "cnt_le K cl" "Suc K < 2 ^ 64"
  shows "ends api_fault (\<lambda>(cl', n'). reports cl n (counts cl m c ip port r) cl' n') (apiReportRes en m c ip port r cl n)"
proof -
  note kr = keeps_reports [OF keeps_refl [OF assms(1)]]
  have net: "ends api_fault (\<lambda>(cl', n'). reports cl n None cl' n') (report_net en m c ipn port r cl n)" for ipn
    by (rule ends_mono [OF report_net_keeps [OF assms(1)]]) (auto intro: keeps_reports)
  show ?thesis
  proof (cases "ec_agentOff cl = Some False \<and> (\<exists>ipn cu. inet_aton ip = Some ipn \<and> getCache m c (ec_cache cl) = Some cu \<and> \<not> cu_overload cu)")
    case False
    then show ?thesis using kr net
      by (auto simp: apiReportRes_def counts_def split: option.split bool.split)
  next
    case True
    then obtain ipn cu where h: "ec_agentOff cl = Some False" "inet_aton ip = Some ipn"
      "getCache m c (ec_cache cl) = Some cu" "\<not> cu_overload cu" by blast
    have i: "cache_ok (ec_cache cl)" "cu_nodeList cu \<noteq> []" using assms(1) h(3) by (auto simp: api_inv_def)
    note d = cache_okD [OF i(1) h(3)]
    show ?thesis
    proof (cases "r = 0")
      case True
      have "unat (cu_succCnt cu) \<le> K" using assms(2) h(3) by (simp add: cnt_le_def)
      moreover have "unat (- 1 :: u64) = 2 ^ 64 - 1" by (simp add: unsigned_minus_1_eq_mask mask_eq_exp_minus_1)
      ultimately have "cu_succCnt cu \<noteq> - 1" using assms(3) by auto
      then have "cu_ok (CacheUnit_report ipn port cu)" by (intro cu_ok_report d)
      then have "api_inv (put_unit (CacheUnit_report ipn port cu) m c cl) n"
        using assms(1) i d by (auto simp: api_inv_def cache_ok_put getCache_put)
      then have "reports cl n (counts cl m c ip port r) (put_unit (CacheUnit_report ipn port cu) m c cl) n"
        using h True report_cnt [of ipn port cu]
        by (auto simp: reports_def ledger_def pending_put unit_succ_report counts_def cnt_le_def getCache_put
            intro: le_SucI order_trans)
           (auto simp: pending_def)
      with h True show ?thesis by (simp add: apiReportRes_def)
    next
      case False
      have "ends api_fault (\<lambda>(cl', n'). reports cl n None cl' n')
          (report_net en m c ipn port r (put_unit cu' m c cl) n')" if "keeps cl n (put_unit cu' m c cl) n'" for cu' n'
        by (rule ends_mono [OF report_net_keeps [OF keeps_inv [OF that]]])
           (auto intro: keeps_reports keeps_trans [OF that])
      with h False show ?thesis
        by (auto simp: apiReportRes_def counts_def intro!: ends_rbind [OF flush_keeps [OF assms(1) h(3)]])
    qed
  qed
qed

section \<open>A client at work\<close>

text \<open>A call with its environment and the datagrams it will receive; its output is what it counted.\<close>

datatype api_call =
    CallGetHost api_env i32 i32 "packet list"
  | CallReport api_env i32 i32 string i32 i32

definition net_of :: "packet list \<Rightarrow> (int \<times> agent_req) list \<Rightarrow> net" where
  "net_of rx sent = \<lparr> n_tx = [], n_rx = rx, n_sent = sent \<rparr>"

fun api_step ::
  "api_call \<Rightarrow> elbClient \<times> (int \<times> agent_req) list \<Rightarrow>
   ((elbClient \<times> (int \<times> agent_req) list) \<times> (i32 \<times> i32 \<times> i32 \<times> i32) option) res" where
  "api_step (CallGetHost en m c rx) (cl, sent) =
    rbind (apiGetHost en m c cl (net_of rx sent)) (\<lambda>(cl', r, h, n'). Inr ((cl', n_sent n'), None))"
| "api_step (CallReport en m c ip port r) (cl, sent) =
    rbind (apiReportRes en m c ip port r cl (net_of [] sent)) (\<lambda>(cl', n'). Inr ((cl', n_sent n'), counts cl m c ip port r))"

fun call_good :: "api_call \<Rightarrow> bool" where
  "call_good (CallGetHost en m c rx) = rx_good rx"
| "call_good (CallReport en m c ip port r) = True"

lemma net_of_inv: "api_inv cl (net_of rx sent) \<longleftrightarrow> api_inv cl (net_of [] sent) \<and> rx_good rx"
  by (auto simp: api_inv_def net_of_def rx_good_def)

lemma ledger_sent: "n_sent n = n_sent n' \<Longrightarrow> ledger m c ip port cl n = ledger m c ip port cl n'"
  by (simp add: ledger_def sent_succ_def)

lemma api_step_reports:
  assumes "api_inv cl (net_of [] sent)" "cnt_le K cl" "Suc K < 2 ^ 64" "call_good e"
  shows "ends api_fault (\<lambda>((cl', sent'), x). reports cl (net_of [] sent) x cl' (net_of [] sent')) (api_step e (cl, sent))"
proof -
  have f: "reports cl (net_of [] sent) x cl' (net_of [] (n_sent n'))"
    if "reports cl (net_of rx sent) x cl' n'" for rx x cl' n'
  proof -
    have "ledger m c ip port cl' (net_of [] (n_sent n')) = ledger m c ip port cl' n'"
      "ledger m c ip port cl (net_of rx sent) = ledger m c ip port cl (net_of [] sent)" for m c ip port
      by (rule ledger_sent, simp add: net_of_def)+
    then show ?thesis using that by (simp add: reports_def) (simp add: api_inv_def net_of_def rx_good_def)
  qed
  show ?thesis
  proof (cases e)
    case (CallGetHost en m c rx)
    with assms have i: "api_inv cl (net_of rx sent)" by (simp add: net_of_inv [of cl rx])
    have k: "ends api_fault (\<lambda>(cl', r, h, n'). reports cl (net_of [] sent) None cl' (net_of [] (n_sent n')))
        (apiGetHost en m c cl (net_of rx sent))"
      by (rule ends_mono [OF apiGetHost_keeps [OF i]]) (auto intro: f [OF keeps_reports])
    show ?thesis unfolding CallGetHost api_step.simps by (rule ends_rbind [OF k]) auto
  next
    case (CallReport en m c ip port r)
    have k: "ends api_fault (\<lambda>(cl', n'). reports cl (net_of [] sent) (counts cl m c ip port r) cl' (net_of [] (n_sent n')))
        (apiReportRes en m c ip port r cl (net_of [] sent))"
      by (rule ends_mono [OF apiReportRes_keeps [OF assms(1-3)]]) (auto intro: f)
    show ?thesis unfolding CallReport api_step.simps by (rule ends_rbind [OF k]) auto
  qed
qed

lemma client_run:
  assumes "api_inv cl (net_of [] sent)" "cnt_le K cl" "K + length es < 2 ^ 64" "list_all call_good es"
  shows "ends api_fault (\<lambda>((cl', sent'), xs). api_inv cl' (net_of [] sent') \<and>
     (\<forall>m c ip port. 0 \<le> sint port \<longrightarrow> ledger m c ip port cl' (net_of [] sent') =
        ledger m c ip port cl (net_of [] sent) + of_nat (count_list xs (Some (m, c, ip, port)))))
   (run api_step es (cl, sent))"
  using assms
proof (induction es arbitrary: cl sent K)
  case (Cons e es)
  have s: "ends api_fault (\<lambda>((cl', sent'), x). reports cl (net_of [] sent) x cl' (net_of [] sent')) (api_step e (cl, sent))"
    using Cons.prems by (intro api_step_reports [of cl sent K]) auto
  have r: "ends api_fault (\<lambda>((cl', sent'), xs). api_inv cl' (net_of [] sent') \<and>
       (\<forall>m c ip port. 0 \<le> sint port \<longrightarrow> ledger m c ip port cl' (net_of [] sent') =
          ledger m c ip port cl (net_of [] sent) + of_nat (count_list xs (Some (m, c, ip, port)))))
      (rbind (run api_step es (cl1, sent1)) (\<lambda>(s'', outs). Inr (s'', x # outs)))"
    if "reports cl (net_of [] sent) x cl1 (net_of [] sent1)" for cl1 sent1 x
  proof -
    have "api_inv cl1 (net_of [] sent1)" "cnt_le (Suc K) cl1"
      using that Cons.prems(2) by (simp_all add: reports_def)
    from Cons.IH [OF this] Cons.prems(3,4) have
      i: "ends api_fault (\<lambda>((cl', sent'), xs). api_inv cl' (net_of [] sent') \<and>
       (\<forall>m c ip port. 0 \<le> sint port \<longrightarrow> ledger m c ip port cl' (net_of [] sent') =
          ledger m c ip port cl1 (net_of [] sent1) + of_nat (count_list xs (Some (m, c, ip, port)))))
        (run api_step es (cl1, sent1))" by simp
    show ?thesis by (rule ends_rbind [OF i]) (use that in \<open>auto simp: reports_def\<close>)
  qed
  show ?case unfolding run.simps by (rule ends_rbind [OF s]) (auto intro: r)
qed simp

section \<open>Properties\<close>


text \<open>A client that fetches a route of one node and reports a success and a failure of it.\<close>

definition ex_env :: "clong \<Rightarrow> api_env" where
  "ex_env now = \<lparr> en_now = now, en_hb = hb_record now, en_mills = 5, en_rand = 0, en_files = [],
     en_wire = std_wire, en_head = 8 \<rparr>"

definition ex_rsp :: CacheGetRouteRsp where
  "ex_rsp = \<lparr> cgr_modid = 1, cgr_cmdid = 2, cgr_version = 9, cgr_overload = Some False,
     cgr_route = [\<lparr> ha_ip = 7, ha_port = 80 \<rparr>] \<rparr>"

definition ex_calls :: "api_call list" where
  "ex_calls = [CallGetHost (ex_env 100) 1 2 [Pkt (CacheRsp ex_rsp)], CallReport (ex_env 100) 1 2 (inet_ntoa 7) 80 0]"

lemma ex_alive: "0 \<le> now \<Longrightarrow> now < 2 ^ 63 \<Longrightarrow> \<not> hb_die now (hb_record now)"
  by (simp add: hb_die_iff)

lemma ex_run:
  "\<exists>cl sent. run api_step ex_calls (new_elbClient, []) = Inr ((cl, sent), [None, Some (1, 2, 7, 80)])"
proof -
  have d: "\<not> hb_die 100 (hb_record 100)" by (rule ex_alive) simp_all
  have s: "shard 1 2 = 0" by (simp add: shard_def c_rem_def)
  show ?thesis
    by (simp add: ex_calls_def ex_env_def apiGetHost_def d Let_def getRoute4Cache_def api_send_def s api_recv_def
        net_of_def ex_rsp_def new_elbClient_def take_route_def getCache_def put_unit_def addCache_def
        fill_unit_def new_unit_def refreshRoute_def serveHost_def CacheUnit_getHost_def apiReportRes_def
        counts_def keys_of_def)
qed


end
