(* ===== verification/ApiProps.thy ===== *)
theory ApiProps
  imports ApiSafety
begin

text \<open>
  Further behaviour of the C++ client: when its calls return, what its destructor sends, the
  buffer of its batches, answers that arrive late, and a first call together with the agent.
\<close>

section \<open>When calls return\<close>

text \<open>Every failed \<open>recvfrom\<close> (a timeout) ends the wait it interrupts.\<close>

definition fails :: "net \<Rightarrow> nat" where
  "fails n = count_list (n_rx n) Failed"

definition no_hang :: "fault \<Rightarrow> bool" where
  "no_hang f \<longleftrightarrow> f \<noteq> Hang"

lemma no_hang_simps [simp]: "no_hang BadIndex" "no_hang BufOverflow" "no_hang EmptyFront" "\<not> no_hang Hang"
  by (simp_all add: no_hang_def)

lemma recv_again_returns:
  "Failed \<in> set ps \<Longrightarrow> ends no_hang (\<lambda>_. True) (recv_again seq rsp ps)"
proof (induction ps arbitrary: rsp)
  case (Cons p ps)
  then show ?case by (subst recv_again.simps) (auto split: packet.split agent_rsp.split)
qed simp

lemma send_returns: "ends no_hang (\<lambda>(n', ok). fails n' = fails n) (api_send m c q n)"
  by (simp add: api_send_def fails_def Let_def split: list.split bool.split)

lemma recv_returns:
  "0 < fails n \<Longrightarrow> ends no_hang (\<lambda>(n', p). fails n = fails n' + (if p = Failed then 1 else 0)) (api_recv n)"
  by (cases "n_rx n") (simp_all add: api_recv_def fails_def)

lemma exchange_returns:
  assumes "0 < fails n" "\<And>n'. fails n' = fails n \<Longrightarrow> ends no_hang R (g n')"
    and "\<And>n' p. fails n = fails n' + (if p = Failed then 1 else 0) \<Longrightarrow> ends no_hang R (f (n', p))"
  shows "ends no_hang R (rbind (api_send m c q n) (\<lambda>(n1, ok). if \<not> ok then g n1 else rbind (api_recv n1) f))"
proof (rule ends_rbind [OF send_returns])
  fix x :: "net \<times> bool" assume x: "case x of (n', ok) \<Rightarrow> fails n' = fails n"
  obtain n1 ok where [simp]: "x = (n1, ok)" by fastforce
  have n1: "fails n1 = fails n" "0 < fails n1" using x assms(1) by simp_all
  have "ends no_hang R (rbind (api_recv n1) f)"
    by (rule ends_rbind [OF recv_returns [OF n1(2)]]) (auto intro: assms(3) simp: n1)
  then show "ends no_hang R (case x of (n1, ok) \<Rightarrow> if \<not> ok then g n1 else rbind (api_recv n1) f)"
    using assms(2) n1 by simp
qed

lemma getRoute4Cache_returns:
  "0 < fails n \<Longrightarrow>
   ends no_hang (\<lambda>(cl', r, n'). fails n \<le> Suc (fails n') \<and> (r = 0 \<longrightarrow> fails n' = fails n)) (getRoute4Cache m c ts cl n)"
  unfolding getRoute4Cache_def Let_def
  by (rule exchange_returns) (auto simp: API_ERR_def split: packet.split agent_rsp.split)

lemma batch_returns: "ends no_hang (\<lambda>(cu', n'). fails n' = fails n) (batchReportRes en cu n)"
  unfolding batchReportRes_def Let_def by (auto intro!: ends_rbind [OF send_returns])

lemma refresh_returns:
  assumes "0 < fails n"
  shows "ends no_hang (\<lambda>(cl', n'). fails n \<le> Suc (fails n')) (refreshRoute en m c cl n)"
proof (cases "getCache m c (ec_cache cl)")
  case (Some cu)
  have "ends no_hang (\<lambda>(cl', n'). fails n \<le> Suc (fails n'))
      (rbind (getRoute4Cache m c (en_now en) cl1 n1) (\<lambda>(cl', _, n2). Inr (cl', n2)))" if "fails n1 = fails n" for cl1 n1
    using assms that by (intro ends_rbind [OF getRoute4Cache_returns]) auto
  then show ?thesis by (auto simp: refreshRoute_def Some intro!: ends_rbind [OF batch_returns])
qed (simp add: refreshRoute_def)

lemma askAgent_returns:
  assumes "0 < fails n"
  shows "ends no_hang (\<lambda>_. True) (askAgent en m c cl n)"
proof -
  have r: "ends no_hang (\<lambda>_. True) (rbind (recv_again s r (n_rx n')) f)"
    if "fails n' = fails n" "\<And>x. ends no_hang (\<lambda>_. True) (f x)" for s r n'
      and f :: "_ \<Rightarrow> (elbClient \<times> int \<times> api_host option \<times> net) res"
  proof -
    have "count_list (n_rx n') Failed \<noteq> 0" using that(1) assms by (simp add: fails_def)
    then have "Failed \<in> set (n_rx n')" by (metis count_notin)
    from recv_again_returns [OF this] show ?thesis by (rule ends_rbind) (rule that(2))
  qed
  show ?thesis unfolding askAgent_def Let_def
    by (rule exchange_returns [OF assms]) (auto intro!: r split: packet.split agent_rsp.split prod.split)
qed

lemma serveHost_returns: "0 < fails n \<Longrightarrow> ends no_hang (\<lambda>_. True) (serveHost en m c cl n)"
  by (auto simp: serveHost_def CacheUnit_getHost_def take_front_def askAgent_returns split: option.split list.split)

section \<open>What the destructor sends\<close>

definition unit_pending :: "i32 \<Rightarrow> i32 \<Rightarrow> i32 \<Rightarrow> i32 \<Rightarrow> CacheUnit \<Rightarrow> u32" where
  "unit_pending m c ip port cu = (if cu_modid cu = m \<and> cu_cmdid cu = c then unit_succ ip port cu else 0)"

lemma destroy_sends:
  assumes "list_all cu_ok us" "n_tx n = []" "0 \<le> sint port"
  shows "ends (\<lambda>_. True) (\<lambda>n'. n_tx n' = [] \<and>
      sent_succ m c ip port n' = sent_succ m c ip port n + sum_list (map (unit_pending m c ip port) us))
    (foldM (\<lambda>n cu. rbind (batchReportRes en cu n) (\<lambda>(_, n'). Inr n')) n us)"
  using assms(1,2)
proof (induction us arbitrary: n)
  case (Cons cu us)
  have b: "ends (\<lambda>_. True) (\<lambda>n1. n_tx n1 = [] \<and> sent_succ m c ip port n1 = sent_succ m c ip port n + unit_pending m c ip port cu)
      (rbind (batchReportRes en cu n) (\<lambda>(_, n'). Inr n'))"
    using Cons.prems assms(3)
    by (intro ends_rbindI [OF batchReportRes_ends]) (auto simp: unit_pending_def)
  show ?case unfolding foldM.simps
    by (rule ends_rbind [OF b], rule ends_mono [OF Cons.IH]) (use Cons.prems in \<open>simp_all add: add.assoc\<close>)
qed simp

lemma sum_pending:
  assumes "cache_ok ca"
  shows "sum_list (map (unit_pending m c ip port) (getAll ca)) =
    (case getCache m c ca of None \<Rightarrow> 0 | Some cu \<Rightarrow> unit_succ ip port cu)"
proof -
  have "sum_list (map (unit_pending m c ip port) (map snd us)) =
      (case map_of us (mkkey m c) of None \<Rightarrow> 0 | Some cu \<Rightarrow> unit_succ ip port cu)"
    if "distinct (map fst us)" "\<forall>(k, cu) \<in> set us. k = mkkey (cu_modid cu) (cu_cmdid cu)" for us
    using that
  proof (induction us)
    case (Cons x us)
    obtain k cu where x: "x = (k, cu)" by fastforce
    then have k: "k = mkkey (cu_modid cu) (cu_cmdid cu)" using Cons.prems by auto
    show ?case
    proof (cases "k = mkkey m c")
      case True
      then have "map_of us (mkkey m c) = None" using Cons.prems x by (auto simp: map_of_eq_None_iff)
      with True k Cons x show ?thesis by (simp add: unit_pending_def)
    qed (use Cons x k in \<open>auto simp: unit_pending_def\<close>)
  qed simp
  from this [of ca] assms show ?thesis
    by (auto simp: cache_ok_def getAll_def getCache_def list_all_iff case_prod_beta)
qed

section \<open>The table of the agent\<close>

lemma nth_table_shard:
  "agent_ok cfg ag \<Longrightarrow> 0 \<le> sint (m + c) \<Longrightarrow> nth_table (shard m c) ag = Inr (ag_routes ag ! nat (shard m c))"
  using shard_nonneg [of m c] by (auto simp: nth_table_def agent_ok_def)

lemma wf_table: "agent_ok cfg ag \<Longrightarrow> 0 \<le> sint (m + c) \<Longrightarrow> wf_RouteLB cfg (ag_routes ag ! nat (shard m c))"
  using shard_nonneg [of m c] by (auto simp: agent_ok_def list_all_length)

text \<open>The answer to a client that has no version of the module, or another one.\<close>

lemma agent_answers:
  assumes "agent_ok cfg ag" "0 \<le> sint (m + c)" and t: "rl = ag_routes ag ! nat (shard m c)"
    and "map_of (routeMap rl) (mkkey m c) = Some lb" "\<not> LB_empty lb" "version lb = Some v" "v \<noteq> ver"
  shows "\<exists>ag'. agent_udp cfg MyIp now (shard m c) (CacheGetRoute \<lparr> cgq_modid = m, cgq_cmdid = c, cgq_version = ver \<rparr>) ag
    = Inr (ag', Some (CacheRsp \<lparr> cgr_modid = m, cgr_cmdid = c, cgr_version = v,
        cgr_overload = Some (downList lb \<noteq> []), cgr_route = route_of lb \<rparr>))"
proof -
  have "wf_LB cfg lb" using wf_table [OF assms(1,2)] assms(4) t by (auto simp: wf_RouteLB_all mod_ok_def dest: all_modsD)
  from cacheGetRoute_spec [OF this assms(4-6), of now ver] assms(7) nth_table_shard [OF assms(1,2)] t
  show ?thesis by (simp add: agent_udp_def cacheGetRoute_cb_def)
qed

section \<open>Late answers\<close>

text \<open>
  Calls one after the other for the modules \<open>ks\<close>, none of which is cached, on one socket with
  the datagrams \<open>q\<close> waiting: the agent answers each request, at once, behind what is waiting.
\<close>

fun polls ::
  "(i32 \<times> i32 \<Rightarrow> CacheGetRouteRsp) \<Rightarrow> api_env \<Rightarrow> (i32 \<times> i32) list \<Rightarrow> packet list \<Rightarrow> elbClient \<Rightarrow> (int list \<times> elbClient) res" where
  "polls ans en [] q cl = Inr ([], cl)"
| "polls ans en ((m, c) # ks) q cl =
     rbind (apiGetHost en m c cl (net_of (q @ [Pkt (CacheRsp (ans (m, c)))]) [])) (\<lambda>(cl', r, h, n').
     rbind (polls ans en ks (n_rx n') cl') (\<lambda>(rs, cl''). Inr (r # rs, cl'')))"

definition names :: "(i32 \<times> i32 \<Rightarrow> CacheGetRouteRsp) \<Rightarrow> bool" where
  "names ans \<longleftrightarrow> (\<forall>m c. cgr_modid (ans (m, c)) = m \<and> cgr_cmdid (ans (m, c)) = c)"

lemma foreign_answer:
  assumes "\<not> hb_die (en_now en) (en_hb en)" "0 \<le> sint (m + c)" "getCache m c (ec_cache cl) = None" "names ans" "k \<noteq> (m, c)"
  shows "apiGetHost en m c cl (net_of (Pkt (CacheRsp (ans k)) # ps) []) =
    Inr (cl\<lparr>ec_agentOff := Some False, ec_static := freeData (ec_static cl)\<rparr>, API_ERR, None,
         net_of ps [(shard m c, CacheGetRoute \<lparr> cgq_modid = m, cgq_cmdid = c, cgq_version = - 1 \<rparr>)])"
proof -
  have "cgr_modid (ans k) \<noteq> m \<or> cgr_cmdid (ans k) \<noteq> c" using assms(4,5) by (cases k) (auto simp: names_def)
  with assms shard_nonneg [OF assms(2)] show ?thesis
    by (simp add: apiGetHost_def Let_def getRoute4Cache_def api_send_def api_recv_def net_of_def API_ERR_def)
qed

lemma polls_late:
  assumes "\<not> hb_die (en_now en) (en_hb en)" "names ans"
    and "list_all (\<lambda>(m, c). 0 \<le> sint (m + c) \<and> getCache m c (ec_cache cl) = None) ks" "distinct_adj (k # ks)"
  shows "\<exists>cl'. polls ans en ks [Pkt (CacheRsp (ans k))] cl = Inr (replicate (length ks) API_ERR, cl') \<and> ec_cache cl' = ec_cache cl"
  using assms(3,4)
proof (induction ks arbitrary: k cl)
  case (Cons x ks)
  obtain m c where x: "x = (m, c)" by fastforce
  let ?cl = "cl\<lparr>ec_agentOff := Some False, ec_static := freeData (ec_static cl)\<rparr>"
  have p: "0 \<le> sint (m + c)" "getCache m c (ec_cache cl) = None" "k \<noteq> (m, c)" using Cons.prems x by auto
  from Cons.IH [of ?cl x] Cons.prems obtain cl' where
    "polls ans en ks [Pkt (CacheRsp (ans x))] ?cl = Inr (replicate (length ks) API_ERR, cl')" "ec_cache cl' = ec_cache cl"
    by auto
  then show ?case using foreign_answer [OF assms(1) p(1,2) assms(2) p(3)] by (simp add: x net_of_def)
qed simp

section \<open>Properties\<close>

text \<open>
  C34. A call of \<open>apiGetHost\<close> returns, when the agent lives and at least two reads of the
  sockets time out sooner or later: it never waits for ever, whatever else arrives, late
  answers and foreign datagrams included. (Each call waits at most twice: once for a route,
  once for the agent's choice.)
\<close>

theorem apiGetHost_returns:
  assumes "\<not> hb_die (en_now en) (en_hb en)" and "2 \<le> count_list (n_rx n) Failed"
  shows "apiGetHost en m c cl n \<noteq> Inl Hang"
proof -
  have f: "2 \<le> fails n" using assms(2) by (simp add: fails_def)
  have tail: "ends no_hang (\<lambda>_. True) (rbind (refreshRoute en m c cl2 n2) (\<lambda>(cl3, n3). serveHost en m c cl3 n3))"
    if "fails n2 = fails n" for cl2 n2
    using that f by (intro ends_rbind [OF refresh_returns]) (auto intro!: serveHost_returns)
  have "ends no_hang (\<lambda>_. True) (apiGetHost en m c cl n)"
    unfolding apiGetHost_def Let_def
    using f assms(1) by (auto intro!: ends_rbind [OF getRoute4Cache_returns] tail split: option.split)
  then show ?thesis by (cases "apiGetHost en m c cl n") (auto simp: no_hang_def)
qed

theorem apiGetHost_returns_witness:
  "apiGetHost (ex_env 100) 1 2 new_elbClient (net_of [Failed, Garbled, Failed] []) \<noteq> Inl Hang"
  by (rule apiGetHost_returns) (simp_all add: ex_env_def ex_alive net_of_def)

text \<open>
  The destructor reports what is left: after it, for every node, the successes in the
  batches the client has sent are all those it had sent or was still holding.
\<close>

theorem destructor_flushes:
  assumes "api_inv cl n" and "0 \<le> sint port" and "destroy_elbClient en cl n = Inr n'"
  shows "sent_succ m c ip port n' = sent_succ m c ip port n + pending m c ip port cl"
proof -
  have "list_all cu_ok (getAll (ec_cache cl))"
    using assms(1) by (auto simp: api_inv_def cache_ok_def getAll_def list_all_iff)
  from destroy_sends [OF this _ assms(2), of n m c ip en] assms(1,3)
  show ?thesis by (auto simp: api_inv_def destroy_elbClient_def sum_pending pending_def)
qed

definition ex_pending :: elbClient where
  "ex_pending = put_unit ((new_unit 1 2)\<lparr>cu_succCnt := 1, cu_nodeList := [(7, 80)], cu_succAccum := [(mkkey 7 80, 1)]\<rparr>)
     1 2 new_elbClient"

theorem destructor_flushes_witness:
  "\<exists>n'. destroy_elbClient (ex_env 100) ex_pending (net_of [] []) = Inr n' \<and> sent_succ 1 2 7 80 n' = 1"
proof -
  let ?cu = "(new_unit 1 2)\<lparr>cu_succCnt := 1, cu_nodeList := [(7, 80)], cu_succAccum := [(mkkey 7 80, 1)]\<rparr>"
  have s: "shard 1 2 = 0" by (simp add: shard_def c_rem_def)
  have c: "ec_cache ex_pending = [(mkkey 1 2, ?cu)]" "getCache 1 2 (ec_cache ex_pending) = Some ?cu"
    by (simp_all add: ex_pending_def put_unit_def new_elbClient_def addCache_def getCache_def)
  then have i: "api_inv ex_pending (net_of [] [])"
    by (auto simp: api_inv_def cache_ok_def cu_ok_def getCache_def net_of_def rx_good_def new_unit_def keys_of_def
        accum_sum_def split: if_splits)
  have "length (cbr_results (batch_req ?cu)) = 1" by (simp add: batch_req_def)
  then have "msg_size_of std_wire (M_CacheBatchRptReq (batch_req ?cu)) \<le> 4088"
    using batch_size(2) [OF std_wire_ok, of "batch_req ?cu"] by simp
  then obtain n' where d: "destroy_elbClient (ex_env 100) ex_pending (net_of [] []) = Inr n'"
    by (simp add: destroy_elbClient_def getAll_def c batchReportRes_def ex_env_def net_of_def api_send_def s
        new_unit_def)
  from destructor_flushes [OF i _ d, of 80 1 2 7] d c show ?thesis
    by (simp add: pending_def unit_succ_def sent_succ_def net_of_def)
qed

text \<open>
  C36. The buffer of a batch holds 4096 bytes: with \<open>k\<close> nodes to report a batch fits when
  \<open>44 k + 22\<close> bytes and the packet header do, and when even \<open>8 k + 4\<close> bytes and the header do
  not, the message is serialized past the end of the buffer. A module of 511 nodes with
  one success each is enough for that.
\<close>

theorem batch_buffer:
  assumes "wire_ok (en_wire en)" and "cu_succCnt cu \<noteq> 0"
    and "k = length (filter (\<lambda>(_, n). n \<noteq> 0) (cu_succAccum cu))"
  shows "(en_head en + (44 * k + 22) \<le> 4096 \<longrightarrow> batchReportRes en cu n \<noteq> Inl BufOverflow)
    \<and> (4096 < en_head en + (8 * k + 4) \<longrightarrow> batchReportRes en cu n = Inl BufOverflow)"
proof -
  have "length (cbr_results (batch_req cu)) = k" by (simp add: batch_req_def assms(3))
  then show ?thesis
    using batch_size [OF assms(1), of "batch_req cu"] assms(2)
    by (auto simp: batchReportRes_def Let_def rbind_eq_Inl api_send_def split: if_splits list.splits)
qed

definition ex_big_unit :: CacheUnit where
  "ex_big_unit = (new_unit 1 2)\<lparr>cu_succCnt := 511, cu_succAccum := map (\<lambda>i. (mkkey 7 (of_nat i), 1)) [0..<511]\<rparr>"

lemma ex_big_unit_nodes:
  "length (filter (\<lambda>(_, n). n \<noteq> 0) (cu_succAccum ex_big_unit)) = 511" "cu_succCnt ex_big_unit \<noteq> 0"
proof -
  have "filter (\<lambda>(_, n). n \<noteq> (0 :: u32)) (map (\<lambda>i. (f i, 1)) is) = map (\<lambda>i. (f i, 1)) is" for f :: "nat \<Rightarrow> u64" and "is"
    by (simp add: filter_id_conv)
  then show "length (filter (\<lambda>(_, n). n \<noteq> 0) (cu_succAccum ex_big_unit)) = 511" by (simp add: ex_big_unit_def del: upt_rec_numeral)
qed (simp add: ex_big_unit_def del: upt_rec_numeral)

theorem batch_buffer_witness:
  "batchReportRes (ex_env 100) ex_big_unit (net_of [] []) = Inl BufOverflow"
  using batch_buffer [of "ex_env 100" ex_big_unit 511 "net_of [] []"] ex_big_unit_nodes std_wire_ok
  by (simp add: ex_env_def)

text \<open>
  C35. The client and the agent together: the first call for a module that the agent has a
  route of, none of its nodes overloaded, sends one request, to the table of the module;
  the agent answers with the whole route, and with this answer the call returns \<open>0\<close> and a
  node of the agent's table.
\<close>

theorem agent_serves_client:
  assumes "agent_ok cfg ag" and "0 \<le> sint (m + c)"
    and "map_of (routeMap (ag_routes ag ! nat (shard m c))) (mkkey m c) = Some lb"
    and "\<not> LB_empty lb" and "downList lb = []" and "version lb = Some v" and "v \<noteq> - 1"
    and "\<not> hb_die (en_now en) (en_hb en)" and "getCache m c (ec_cache cl) = None"
  shows "\<exists>ag' rsp cl' a sent.
      agent_udp cfg MyIp now (shard m c) (CacheGetRoute \<lparr> cgq_modid = m, cgq_cmdid = c, cgq_version = - 1 \<rparr>) ag
        = Inr (ag', Some rsp)
    \<and> apiGetHost en m c cl (net_of (Pkt rsp # ps) sent0)
        = Inr (cl', 0, Some (inet_ntoa (ha_ip a), ha_port a), net_of ps sent)
    \<and> sent = sent0 @ [(shard m c, CacheGetRoute \<lparr> cgq_modid = m, cgq_cmdid = c, cgq_version = - 1 \<rparr>)]
    \<and> a \<in> set (route_of lb)"
proof -
  let ?rsp = "\<lparr> cgr_modid = m, cgr_cmdid = c, cgr_version = v, cgr_overload = Some False, cgr_route = route_of lb \<rparr>"
  have s: "0 \<le> shard m c" "shard m c < 3" using shard_nonneg [OF assms(2)] by auto
  have "wf_LB cfg lb" using wf_table [OF assms(1,2)] assms(3) by (auto simp: wf_RouteLB_all mod_ok_def dest: all_modsD)
  then obtain a as where a: "route_of lb = a # as" using assms(4) by (cases "route_of lb") (auto simp: route_of_def LB_empty_def)
  from agent_answers [OF assms(1,2) refl assms(3,4,6,7), of MyIp now] assms(5) obtain ag' where
    g: "agent_udp cfg MyIp now (shard m c) (CacheGetRoute \<lparr> cgq_modid = m, cgq_cmdid = c, cgq_version = - 1 \<rparr>) ag
      = Inr (ag', Some (CacheRsp ?rsp))" by auto
  have "\<exists>cl'. apiGetHost en m c cl (net_of (Pkt (CacheRsp ?rsp) # ps) sent0) =
      Inr (cl', 0, Some (inet_ntoa (ha_ip a), ha_port a), net_of ps (sent0 @ [(shard m c, CacheGetRoute \<lparr> cgq_modid = m, cgq_cmdid = c, cgq_version = - 1 \<rparr>)]))"
    using assms(7-9) s a
    by (simp add: apiGetHost_def Let_def getRoute4Cache_def api_send_def api_recv_def net_of_def take_route_def
        getCache_put fill_unit_def new_unit_def refreshRoute_def serveHost_def CacheUnit_getHost_def take_front_def)
  with g a show ?thesis by auto
qed

text \<open>
  One late answer is enough to lose all that follow. A request for a route carries no number
  by which its answer could be recognised, so when the answer of a call that has timed out
  is still waiting, each later call reads the answer of the call before it: as long as no
  module is asked for twice in a row, every one of them fails, although the agent
  answers each at once, and no route is ever cached. Without the late datagram the
  first of these calls succeeds.
\<close>

theorem late_answer_fails_all:
  assumes "\<not> hb_die (en_now en) (en_hb en)" and "names ans" and "distinct_adj (k # ks)"
    and "list_all (\<lambda>(m, c). 0 \<le> sint (m + c) \<and> getCache m c (ec_cache cl) = None) ks"
    and "ks = (m, c) # ks'" and "cgr_route (ans (m, c)) \<noteq> []" and "cgr_version (ans (m, c)) \<noteq> - 1"
    and "cgr_overload (ans (m, c)) = Some False"
  shows "(\<exists>cl'. polls ans en ks [Pkt (CacheRsp (ans k))] cl = Inr (replicate (length ks) API_ERR, cl') \<and> ec_cache cl' = ec_cache cl)
    \<and> (\<exists>cl' h n'. apiGetHost en m c cl (net_of [Pkt (CacheRsp (ans (m, c)))] []) = Inr (cl', 0, Some h, n'))"
proof
  show "\<exists>cl'. polls ans en ks [Pkt (CacheRsp (ans k))] cl = Inr (replicate (length ks) API_ERR, cl') \<and> ec_cache cl' = ec_cache cl"
    by (rule polls_late [OF assms(1,2,4,3)])
  obtain a as where a: "cgr_route (ans (m, c)) = a # as" using assms(6) by (cases "cgr_route (ans (m, c))") auto
  have p: "0 \<le> sint (m + c)" "getCache m c (ec_cache cl) = None" using assms(4,5) by auto
  show "\<exists>cl' h n'. apiGetHost en m c cl (net_of [Pkt (CacheRsp (ans (m, c)))] []) = Inr (cl', 0, Some h, n')"
    using assms(1,2,7,8) p shard_nonneg [OF p(1)] a
    by (simp add: names_def apiGetHost_def Let_def getRoute4Cache_def api_send_def api_recv_def net_of_def take_route_def
        getCache_put fill_unit_def new_unit_def refreshRoute_def serveHost_def CacheUnit_getHost_def take_front_def)
qed

definition ex_answer :: "i32 \<times> i32 \<Rightarrow> CacheGetRouteRsp" where
  "ex_answer k = \<lparr> cgr_modid = fst k, cgr_cmdid = snd k, cgr_version = 9, cgr_overload = Some False,
     cgr_route = [\<lparr> ha_ip = 7, ha_port = 80 \<rparr>] \<rparr>"

theorem late_answer_fails_all_witness:
  "\<exists>cl'. polls ex_answer (ex_env 100) [(1, 2), (4, 2), (1, 2)] [Pkt (CacheRsp (ex_answer (4, 2)))] new_elbClient
      = Inr ([API_ERR, API_ERR, API_ERR], cl')"
proof -
  have "\<not> hb_die (en_now (ex_env 100)) (en_hb (ex_env 100))" by (simp add: ex_env_def ex_alive)
  moreover have "names ex_answer" by (simp add: names_def ex_answer_def)
  moreover have "list_all (\<lambda>(m, c). 0 \<le> sint (m + c) \<and> getCache m c (ec_cache new_elbClient) = None) [(1, 2), (4, 2), (1, 2)]"
    by (simp add: new_elbClient_def getCache_def)
  ultimately show ?thesis
    using late_answer_fails_all [of "ex_env 100" ex_answer "(4, 2)" "[(1, 2), (4, 2), (1, 2)]" new_elbClient 1 2 "[(4, 2), (1, 2)]"]
    by (simp add: ex_answer_def numeral_3_eq_3 del: polls.simps) blast
qed

definition ex_agent :: Agent where
  "ex_agent = new_Agent\<lparr>ag_routes := [ex_rl 2 0, new_RouteLB 2, new_RouteLB 3]\<rparr>"

theorem agent_serves_client_witness:
  "\<exists>ag' rsp cl' a sent.
      agent_udp ex_cfg 7 101 0 (CacheGetRoute \<lparr> cgq_modid = 1, cgq_cmdid = 2, cgq_version = - 1 \<rparr>) ex_agent
        = Inr (ag', Some rsp)
    \<and> apiGetHost (ex_env 100) 1 2 new_elbClient (net_of [Pkt rsp] [])
        = Inr (cl', 0, Some (inet_ntoa (ha_ip a), ha_port a), net_of [] sent)
    \<and> a \<in> {ex_addr 0, ex_addr 1}"
proof -
  have s: "shard 1 2 = 0" by (simp add: shard_def c_rem_def)
  have "agent_ok ex_cfg ex_agent"
    using ex_cfg_ok ex_rl_wf by (simp add: agent_ok_def ex_agent_def wf_new_RouteLB)
  moreover have "map_of (routeMap (ag_routes ex_agent ! nat (shard 1 2))) (mkkey 1 2) = Some (ex_lb 2 0)"
    by (simp add: s ex_agent_def ex_rl_lookup)
  moreover have "\<not> LB_empty (ex_lb 2 0)" "version (ex_lb 2 0) = Some 100" "downList (ex_lb 2 0) = []"
    "set (route_of (ex_lb 2 0)) = {ex_addr 0, ex_addr 1}"
    by (auto simp: ex_lb_def LB_empty_def upt_rec new_LB_def route_of_def host_addr_def fresh_HI_def new_HI_def ex_addr_def)
  moreover have "getCache 1 2 (ec_cache new_elbClient) = None" by (simp add: new_elbClient_def getCache_def)
  moreover have "\<not> hb_die (en_now (ex_env 100)) (en_hb (ex_env 100))" by (simp add: ex_env_def ex_alive)
  ultimately show ?thesis
    using agent_serves_client [of ex_cfg ex_agent 1 2 "ex_lb 2 0" 100 "ex_env 100" new_elbClient 7 101 "[]" "[]"]
    by (simp add: s) blast
qed

end
