(* ===== verification/Programs.thy ===== *)
theory Programs
  imports ApiProps "HOL-Library.List_Lexorder" "HOL-Library.Char_ord"
begin

text \<open>
  The programs built on the C++ client: the agent's \<open>getroute\<close> tool and the example programs
  \<open>example\<close>, \<open>timotest\<close>, \<open>testcache\<close>, \<open>qpstest\<close> and \<open>simulator\<close>. A program is a function of its
  arguments, of the environments its calls are made in (call \<open>k\<close> in \<open>ens k\<close>; the pauses between
  calls only show there) and of the network; its result is what it prints. The lemmas show
  that none of them uses a host that a call has not given it, and that the tally which
  \<open>simulator\<close> prints accounts for every round in which a host was found.
\<close>

section \<open>Printing\<close>

text \<open>What is printed, line by line.\<close>

type_synonym console = "string list"

definition say_host :: "api_host \<Rightarrow> string" where
  "say_host h = ''host is '' @ fst h @ '':'' @ dec_int (sint (snd h))"

definition say_absent :: "i32 \<Rightarrow> i32 \<Rightarrow> string" where
  "say_absent m c = dec_int (sint m) @ '','' @ dec_int (sint c) @ '' not exist''"

definition say_error :: "int \<Rightarrow> string" where
  "say_error ret = ''get error code '' @ dec_int ret"

definition say_unregistered :: string where
  "say_unregistered = ''still not exist after register''"

text \<open>The host of a call: \<open>ip\<close> and \<open>port\<close> are only written by a call that returns zero.\<close>

definition the_host :: "api_host option \<Rightarrow> api_host res" where
  "the_host h = (case h of None \<Rightarrow> Inl UninitRead | Some x \<Rightarrow> Inr x)"

section \<open>\<open>getroute\<close>\<close>

definition getroute_lines :: "i32 \<Rightarrow> i32 \<Rightarrow> int \<Rightarrow> api_host list \<Rightarrow> console" where
  "getroute_lines m c ret route =
    (if ret = 0
     then [''route for '' @ dec_int (sint m) @ '','' @ dec_int (sint c) @ '':'']
        @ (if length route = 0 then [''No route right now''] else [])
        @ map (\<lambda>(ip, port). ip @ '':'' @ dec_int (sint port)) route
     else [])"

definition getroute_main :: "(nat \<Rightarrow> api_env) \<Rightarrow> string list \<Rightarrow> net \<Rightarrow> (console \<times> int \<times> net) res" where
  "getroute_main ens argv n =
    (if length argv \<noteq> 3 then Inr ([''./getroute modid cmdid''], 1, n)
     else (let m = atoi (argv ! 1); c = atoi (argv ! 2) in
       rbind (apiGetRoute (ens 0) m c [] n) (\<lambda>(ret, route, n1).
       rbind (destroy_elbClient (ens 1) new_elbClient n1) (\<lambda>n2.
         Inr (getroute_lines m c ret route, 0, n2)))))"

section \<open>The example programs\<close>

text \<open>The arguments; the programs do not count them.\<close>

definition arg :: "string list \<Rightarrow> nat \<Rightarrow> i32 res" where
  "arg argv i = (if i < length argv then Inr (atoi (argv ! i)) else Inl BadIndex)"

definition example_main :: "(nat \<Rightarrow> api_env) \<Rightarrow> string list \<Rightarrow> net \<Rightarrow> (console \<times> net) res" where
  "example_main ens argv n =
    rbind (arg argv 1) (\<lambda>m. rbind (arg argv 2) (\<lambda>c.
    rbind (apiRegister ens m c n) (\<lambda>(reg, n1).
      let o1 = (if reg \<noteq> 0 then [say_unregistered] else []) in
    rbind (apiGetHost (ens 3) m c new_elbClient n1) (\<lambda>(cl, ret, h, n2).
    rbind (if ret = 0
           then rbind (the_host h) (\<lambda>host.
                rbind (apiReportRes (ens 4) m c (fst host) (snd host) 0 cl n2) (\<lambda>(cl', n3).
                  Inr (cl', n3, [say_host host])))
           else if ret = - 9998 then Inr (cl, n2, [say_absent m c])
           else Inr (cl, n2, [say_error ret])) (\<lambda>(cl2, n3, o2).
    rbind (destroy_elbClient (ens 5) cl2 n3) (\<lambda>n4.
      Inr (o1 @ o2, n4)))))))"

text \<open>Ten rounds, with a pause of one or two seconds before a failure is reported.\<close>

fun timotest_loop ::
  "nat \<Rightarrow> nat \<Rightarrow> (nat \<Rightarrow> api_env) \<Rightarrow> i32 \<Rightarrow> i32 \<Rightarrow> elbClient \<Rightarrow> net \<Rightarrow> (elbClient \<times> net \<times> console) res" where
  "timotest_loop 0 i ens m c cl n = Inr (cl, n, [])"
| "timotest_loop (Suc k) i ens m c cl n =
    rbind (apiGetHost (ens (2 * i)) m c cl n) (\<lambda>(cl1, ret, h, n1).
    rbind (if ret = 0
           then rbind (the_host h) (\<lambda>host.
                rbind (apiReportRes (ens (2 * i + 1)) m c (fst host) (snd host) 1 cl1 n1) (\<lambda>(cl2, n2).
                  Inr (cl2, n2, [say_host host, ''sleep '' @ dec_nat (i mod 2 + 1) @ ''s''])))
           else if ret = - 9998 then Inr (cl1, n1, [say_absent m c])
           else Inr (cl1, n1, [say_error ret])) (\<lambda>(cl2, n2, out).
    rbind (timotest_loop k (i + 1) ens m c cl2 n2) (\<lambda>(cl3, n3, outs). Inr (cl3, n3, out @ outs))))"

definition timotest_main :: "(nat \<Rightarrow> api_env) \<Rightarrow> (nat \<Rightarrow> api_env) \<Rightarrow> string list \<Rightarrow> net \<Rightarrow> (console \<times> net) res" where
  "timotest_main ens0 ens argv n =
    rbind (arg argv 1) (\<lambda>m. rbind (arg argv 2) (\<lambda>c.
    rbind (apiRegister ens0 m c n) (\<lambda>(reg, n1).
    rbind (timotest_loop 10 0 ens m c new_elbClient n1) (\<lambda>(cl, n2, out).
    rbind (destroy_elbClient (ens 20) cl n2) (\<lambda>n3.
      Inr ((if reg \<noteq> 0 then [say_unregistered] else []) @ out, n3))))))"

text \<open>30000 rounds, every one of them a success; errors are not printed.\<close>

fun testcache_loop ::
  "nat \<Rightarrow> (nat \<Rightarrow> api_env) \<Rightarrow> i32 \<Rightarrow> i32 \<Rightarrow> elbClient \<Rightarrow> net \<Rightarrow> (elbClient \<times> net \<times> console) res" where
  "testcache_loop 0 ens m c cl n = Inr (cl, n, [])"
| "testcache_loop (Suc k) ens m c cl n =
    rbind (apiGetHost (ens k) m c cl n) (\<lambda>(cl1, ret, h, n1).
    rbind (if ret = 0
           then rbind (the_host h) (\<lambda>host.
                rbind (apiReportRes (ens k) m c (fst host) (snd host) 0 cl1 n1) (\<lambda>(cl2, n2).
                  Inr (cl2, n2, [say_host host])))
           else if ret = - 9998 then Inr (cl1, n1, [say_absent m c])
           else Inr (cl1, n1, [])) (\<lambda>(cl2, n2, out).
    rbind (testcache_loop k ens m c cl2 n2) (\<lambda>(cl3, n3, outs). Inr (cl3, n3, out @ outs))))"

definition testcache_main :: "(nat \<Rightarrow> api_env) \<Rightarrow> string list \<Rightarrow> net \<Rightarrow> (console \<times> net) res" where
  "testcache_main ens argv n =
    rbind (arg argv 1) (\<lambda>m. rbind (arg argv 2) (\<lambda>c.
    rbind (testcache_loop 30000 ens m c new_elbClient n) (\<lambda>(cl, n1, out).
    rbind (destroy_elbClient (ens 30000) cl n1) (\<lambda>n2. Inr (out, n2)))))"

section \<open>\<open>qpstest\<close>\<close>

text \<open>
  A thread that calls for ever; \<open>k\<close> is the number of passes looked at. Every pass is made
  in its own environment, whose \<open>en_now\<close> is also the time read at its end.
\<close>

record Item =
  it_modid :: i32
  it_cmdid :: i32

record qps_state =
  qs_client :: elbClient
  qs_qps :: int
  qs_lst :: clong

definition qps_pass :: "api_env \<Rightarrow> Item \<Rightarrow> qps_state \<Rightarrow> net \<Rightarrow> (qps_state \<times> net \<times> console) res" where
  "qps_pass en item s n =
    rbind (apiGetHost en (it_modid item) (it_cmdid item) (qs_client s) n) (\<lambda>(cl1, ret, h, n1).
    rbind (if ret = 0
           then rbind (the_host h) (\<lambda>host.
                apiReportRes en (it_modid item) (it_cmdid item) (fst host) (snd host) 0 cl1 n1)
           else Inr (cl1, n1)) (\<lambda>(cl2, n2).
      let qps = (if ret = 0 \<or> ret = - 9998 then qs_qps s + 1 else qs_qps s); curr = en_now en in
      if 1 \<le> curr - qs_lst s
      then Inr (\<lparr> qs_client = cl2, qs_qps = 0, qs_lst = curr \<rparr>, n2, [''['' @ dec_int qps @ '']''])
      else Inr (\<lparr> qs_client = cl2, qs_qps = qps, qs_lst = qs_lst s \<rparr>, n2, [])))"

fun mockApi :: "nat \<Rightarrow> (nat \<Rightarrow> api_env) \<Rightarrow> Item \<Rightarrow> qps_state \<Rightarrow> net \<Rightarrow> (qps_state \<times> net \<times> console) res" where
  "mockApi 0 ens item s n = Inr (s, n, [])"
| "mockApi (Suc k) ens item s n =
    rbind (qps_pass (ens k) item s n) (\<lambda>(s1, n1, out).
    rbind (mockApi k ens item s1 n1) (\<lambda>(s2, n2, outs). Inr (s2, n2, out @ outs)))"

definition new_qps :: "clong \<Rightarrow> qps_state" where
  "new_qps now = \<lparr> qs_client = new_elbClient, qs_qps = 0, qs_lst = now \<rparr>"

text \<open>The threads that \<open>main\<close> starts; \<open>new Item[cnt]\<close> throws when \<open>cnt\<close> is negative.\<close>

definition qpstest_items :: "string list \<Rightarrow> Item list res" where
  "qpstest_items argv =
    rbind (arg argv 1) (\<lambda>cnt.
      if sint cnt < 0 then Inl BadIndex
      else Inr (map (\<lambda>i. \<lparr> it_modid = 10000 + of_nat i, it_cmdid = 1001 \<rparr>) [0..<nat (sint cnt)]))"

section \<open>\<open>simulator\<close>\<close>

text \<open>
  90 rounds, each a failure when \<open>rand() % 10 < 2\<close> (the numbers drawn are an argument), and a
  tally of successes and failures for every address.
\<close>

type_synonym tally = "(string \<times> int \<times> int) list"

definition tally_in :: "string \<Rightarrow> tally \<Rightarrow> tally" where
  "tally_in ip t = (case map_of t ip of None \<Rightarrow> AList.update ip (0, 0) t | Some _ \<Rightarrow> t)"

definition tally_add :: "string \<Rightarrow> int \<times> int \<Rightarrow> tally \<Rightarrow> tally" where
  "tally_add ip d t =
    (case map_of t ip of
       None \<Rightarrow> AList.update ip d t
     | Some (s, e) \<Rightarrow> AList.update ip (s + fst d, e + snd d) t)"

fun simulator_loop ::
  "nat \<Rightarrow> (nat \<Rightarrow> api_env) \<Rightarrow> (nat \<Rightarrow> nat) \<Rightarrow> i32 \<Rightarrow> i32 \<Rightarrow> tally \<Rightarrow> elbClient \<Rightarrow> net \<Rightarrow>
   (tally \<times> elbClient \<times> net \<times> console) res" where
  "simulator_loop 0 ens rands m c t cl n = Inr (t, cl, n, [])"
| "simulator_loop (Suc k) ens rands m c t cl n =
    rbind (apiGetHost (ens k) m c cl n) (\<lambda>(cl1, ret, h, n1).
    rbind (if ret = 0
           then rbind (the_host h) (\<lambda>host.
                if rands k mod 10 < 2
                then rbind (apiReportRes (ens k) m c (fst host) (snd host) 1 cl1 n1) (\<lambda>(cl2, n2).
                       Inr (tally_add (fst host) (0, 1) (tally_in (fst host) (tally_in (fst host) t)), cl2, n2,
                            [say_host host @ '' call error'']))
                else rbind (apiReportRes (ens k) m c (fst host) (snd host) 0 cl1 n1) (\<lambda>(cl2, n2).
                       Inr (tally_add (fst host) (1, 0) (tally_in (fst host) t), cl2, n2,
                            [say_host host @ '' call success''])))
           else if ret = - 9998 then Inr (t, cl1, n1, [say_absent m c])
           else Inr (t, cl1, n1, [say_error ret])) (\<lambda>(t2, cl2, n2, out).
    rbind (simulator_loop k ens rands m c t2 cl2 n2) (\<lambda>(t3, cl3, n3, outs). Inr (t3, cl3, n3, out @ outs))))"

text \<open>The tally is a \<open>std::map\<close>, printed in the order of its keys.\<close>

definition tally_lines :: "tally \<Rightarrow> console" where
  "tally_lines t = map (\<lambda>(ip, s, e). ''ip: '' @ ip @ '': success: '' @ dec_int s @ ''; error: '' @ dec_int e) (sort_key fst t)"

definition simulator_main ::
  "(nat \<Rightarrow> api_env) \<Rightarrow> (nat \<Rightarrow> api_env) \<Rightarrow> (nat \<Rightarrow> nat) \<Rightarrow> string list \<Rightarrow> net \<Rightarrow> (console \<times> net) res" where
  "simulator_main ens0 ens rands argv n =
    rbind (arg argv 1) (\<lambda>m. rbind (arg argv 2) (\<lambda>c.
    rbind (apiRegister ens0 m c n) (\<lambda>(reg, n1).
    rbind (simulator_loop 90 ens rands m c [] new_elbClient n1) (\<lambda>(t, cl, n2, out).
    rbind (destroy_elbClient (ens 90) cl n2) (\<lambda>n3.
      Inr ((if reg \<noteq> 0 then [say_unregistered] else []) @ out @ tally_lines t, n3))))))"

section \<open>A call that returns zero gives a host\<close>

lemma take_answer_host: "take_answer en m c seq ans cl = (cl', ret, h) \<Longrightarrow> ret = 0 \<longleftrightarrow> h \<noteq> None"
  by (auto simp: take_answer_def API_ERR_def Let_def split: option.splits if_splits)

definition tells :: "elbClient \<times> int \<times> api_host option \<times> net \<Rightarrow> bool" where
  "tells x = (case x of (cl, ret, h, n) \<Rightarrow> ret = 0 \<longleftrightarrow> h \<noteq> None)"

lemma askAgent_host: "ends (\<lambda>_. True) tells (askAgent en m c cl n)"
  unfolding askAgent_def Let_def
  by (auto intro!: ends_any simp: tells_def API_ERR_def take_answer_host split: packet.split agent_rsp.split prod.split)

lemma apiGetHost_host: "ends (\<lambda>_. True) tells (apiGetHost en m c cl n)"
  unfolding apiGetHost_def serveHost_def Let_def
  by (auto intro!: ends_any askAgent_host simp: tells_def API_NOEXIST_def split: option.split prod.split if_split)

lemma the_host_given: "apiGetHost en m c cl n = Inr (cl', 0, h, n') \<Longrightarrow> \<exists>x. the_host h = Inr x"
  using endsD [OF apiGetHost_host] by (fastforce simp: tells_def the_host_def)

section \<open>The tally\<close>

definition tally_total :: "tally \<Rightarrow> int" where
  "tally_total t = sum_list (map (\<lambda>(ip, s, e). s + e) t)"

lemma tally_update:
  "distinct (map fst t) \<Longrightarrow> tally_total (AList.update ip (s, e) t) =
     tally_total t + (s + e) - (case map_of t ip of None \<Rightarrow> 0 | Some (s', e') \<Rightarrow> s' + e')"
proof (induction t)
  case (Cons x t)
  show ?case
  proof (cases "fst x = ip")
    case False
    with Cons show ?thesis by (cases x) (simp add: tally_total_def)
  qed (cases x, simp add: tally_total_def)
qed (simp add: tally_total_def)

lemma tally_in_total:
  "distinct (map fst t) \<Longrightarrow> tally_total (tally_in ip t) = tally_total t \<and> distinct (map fst (tally_in ip t))"
  by (auto simp: tally_in_def tally_update distinct_update split: option.split)

lemma tally_add_total:
  "distinct (map fst t) \<Longrightarrow> tally_total (tally_add ip d t) = tally_total t + fst d + snd d \<and> distinct (map fst (tally_add ip d t))"
  by (cases d) (auto simp: tally_add_def tally_update distinct_update split: option.split)

text \<open>The rounds in which a host was found are those that print one.\<close>

definition found :: "console \<Rightarrow> nat" where
  "found out = length (filter (\<lambda>l. take 8 l = ''host is '') out)"

lemma found_Cons: "found (l # ls) = (if take 8 l = ''host is '' then 1 else 0) + found ls"
  by (simp add: found_def)

lemma say_lines [simp]:
  "take 8 (say_host h @ s) = ''host is ''" "take 8 (say_error r) \<noteq> ''host is ''" "take 8 (say_absent m c) \<noteq> ''host is ''"
proof -
  obtain d ds where d: "dec_nat (nat \<bar>sint m\<bar>) = digit d # ds" "d < 10" using dec_nat_head by blast
  have "digit d \<noteq> CHR ''h''" using digit_props(1) [OF d(2)] by (auto simp: is_digit_def)
  then show "take 8 (say_absent m c) \<noteq> ''host is ''" using d by (auto simp: say_absent_def dec_int_def)
qed (simp_all add: say_host_def say_error_def)

lemma simulator_tally:
  "distinct (map fst t) \<Longrightarrow> simulator_loop k ens rands m c t cl n = Inr (t', cl', n', out) \<Longrightarrow>
   tally_total t' = tally_total t + int (found out) \<and> distinct (map fst t') \<and> length out = k"
proof (induction k arbitrary: t cl n out)
  case (Suc k)
  obtain cl1 ret h n1 where g: "apiGetHost (ens k) m c cl n = Inr (cl1, ret, h, n1)" using Suc.prems(2) by auto
  obtain t2 cl2 n2 l outs where r: "simulator_loop k ens rands m c t2 cl2 n2 = Inr (t', cl', n', outs)" "out = l # outs"
    "distinct (map fst t2)" "tally_total t2 = tally_total t + (if take 8 l = ''host is '' then 1 else 0)"
    using Suc.prems g by (auto simp: tally_in_total tally_add_total simp del: take_append split: if_splits)
  from Suc.IH [OF r(3,1)] r(2,4) show ?case by (simp add: found_Cons)
qed (simp add: found_def)

section \<open>A host is reported safely\<close>

text \<open>Faults other than the use of a variable that nothing has written.\<close>

definition written :: "fault \<Rightarrow> bool" where
  "written f \<longleftrightarrow> f \<noteq> UninitRead"

lemma written_simps [simp]: "written BadIndex" "written BufOverflow" "written EmptyFront" "written Hang" "\<not> written UninitRead"
  by (simp_all add: written_def)

lemma ends_call: "ends written (\<lambda>_. True) m \<Longrightarrow> (\<And>x. ends written R (f x)) \<Longrightarrow> ends written R (rbind m f)"
  by (rule ends_rbind)

lemma send_written [simp]: "ends written (\<lambda>_. True) (api_send m c q n)"
  and recv_written [simp]: "ends written (\<lambda>_. True) (api_recv n)"
  by (auto simp: api_send_def api_recv_def Let_def split: list.split bool.split)

lemma again_written [simp]: "ends written (\<lambda>_. True) (recv_again s r ps)"
  by (induction ps arbitrary: r) (subst recv_again.simps, auto split: packet.split agent_rsp.split)+

lemma batch_written [simp]: "ends written (\<lambda>_. True) (batchReportRes en cu n)"
  by (auto simp: batchReportRes_def Let_def intro!: ends_call)

lemma unit_written [simp]: "ends written (\<lambda>_. True) (CacheUnit_getHost cu)"
  by (auto simp: CacheUnit_getHost_def take_front_def split: list.split)

text \<open>After a call: the client knows whether the agent is off, and else the host is an address.\<close>

definition can_report :: "elbClient \<times> int \<times> api_host option \<times> net \<Rightarrow> bool" where
  "can_report x = (case x of (cl, ret, h, n) \<Rightarrow> (ret = 0 \<longrightarrow> h \<noteq> None) \<and>
     (ec_agentOff cl = Some True \<or> ec_agentOff cl = Some False \<and> (\<forall>a. h = Some a \<longrightarrow> (\<exists>ip. fst a = inet_ntoa ip))))"

definition agent_on :: "elbClient \<Rightarrow> bool" where
  "agent_on cl \<longleftrightarrow> ec_agentOff cl = Some False"

lemma agent_on_put [simp]: "agent_on (put_unit cu m c cl) = agent_on cl"
  and agent_on_take [simp]: "agent_on (take_route rsp m c ts cl) = agent_on cl"
  by (auto simp: agent_on_def put_unit_def take_route_def split: option.split)

lemma route_on: "agent_on cl \<Longrightarrow> ends written (\<lambda>(cl', r, n'). agent_on cl') (getRoute4Cache m c ts cl n)"
  unfolding getRoute4Cache_def Let_def
  by (auto intro!: ends_call split: packet.split agent_rsp.split)

lemma refresh_on: "agent_on cl \<Longrightarrow> ends written (\<lambda>(cl', n'). agent_on cl') (refreshRoute en m c cl n)"
  unfolding refreshRoute_def
  by (auto intro!: ends_call [OF batch_written] ends_rbind [OF route_on] split: option.split)

lemma take_on: "agent_on cl \<Longrightarrow> can_report (case take_answer en m c seq ans cl of (cl2, ret, h) \<Rightarrow> (cl2, ret, h, n))"
  by (auto simp: can_report_def agent_on_def take_answer_def API_ERR_def Let_def split: option.split)

lemma ask_on: "agent_on cl \<Longrightarrow> ends written can_report (askAgent en m c cl n)"
proof -
  assume on: "agent_on cl"
  then have "agent_on (cl\<lparr>ec_seqid := ec_seqid cl + 1\<rparr>)" by (simp add: agent_on_def)
  note t = take_on [OF this]
  have "ends written can_report (case take_answer en m c seq ans (cl\<lparr>ec_seqid := ec_seqid cl + 1\<rparr>) of
      (cl2, ret, h) \<Rightarrow> Inr (cl2, ret, h, n'))" for seq ans n'
    using t [where en = en and m = m and c = c and seq = seq and ans = ans and n = n'] by (cases "take_answer en m c seq ans (cl\<lparr>ec_seqid := ec_seqid cl + 1\<rparr>)") simp
  with on show ?thesis unfolding askAgent_def Let_def
    by (auto intro!: ends_call split: packet.split agent_rsp.split)
       (simp_all add: can_report_def agent_on_def API_ERR_def)
qed

lemma serve_on: "agent_on cl \<Longrightarrow> ends written can_report (serveHost en m c cl n)"
proof (cases "getCache m c (ec_cache cl)")
  case (Some cu)
  assume on: "agent_on cl"
  have "ends written can_report (rbind (CacheUnit_getHost cu) (\<lambda>(h, cu').
      Inr ((put_unit cu' m c cl)\<lparr>ec_tsget := en_mills en\<rparr>, 0, Some h, n)))"
    using on by (auto simp: CacheUnit_getHost_def take_front_def can_report_def agent_on_def put_unit_def split: list.split)
  with Some on show ?thesis by (simp add: serveHost_def ask_on)
qed (simp add: serveHost_def can_report_def agent_on_def API_NOEXIST_def)

definition alive :: "api_env \<Rightarrow> bool" where
  "alive en \<longleftrightarrow> \<not> hb_die (en_now en) (en_hb en)"

lemma getHost_can_report: "alive en \<Longrightarrow> ends written can_report (apiGetHost en m c cl n)"
proof -
  assume a: "alive en"
  define cl1 where "cl1 = cl\<lparr>ec_agentOff := Some False, ec_static := freeData (ec_static cl)\<rparr>"
  have on: "agent_on cl1" by (simp add: cl1_def agent_on_def)
  have t: "ends written can_report (if r \<noteq> 0 then Inr (cl2, r, None, n2)
      else rbind (refreshRoute en m c cl2 n2) (\<lambda>(cl3, n3). serveHost en m c cl3 n3))" if "agent_on cl2" for cl2 r n2
  proof (cases "r = 0")
    case True
    then show ?thesis using that by (auto intro!: ends_rbind [OF refresh_on] serve_on)
  qed (use that in \<open>simp add: can_report_def agent_on_def\<close>)
  have r: "ends written (\<lambda>(cl', r, n'). agent_on cl') (case getCache m c (ec_cache cl1) of
      None \<Rightarrow> getRoute4Cache m c (en_now en) cl1 n | Some _ \<Rightarrow> Inr (cl1, 0, n))"
    using on by (auto intro: route_on split: option.split)
  show ?thesis using a unfolding apiGetHost_def cl1_def [symmetric] Let_def alive_def
    by (auto intro!: ends_rbind [OF r] t)
qed

lemma register_written: "(\<And>i. alive (ens i)) \<Longrightarrow> ends written (\<lambda>_. True) (apiRegister ens m c n)"
proof -
  have g: "ends written (\<lambda>_. True) (apiGetRoute en m c r n)" for en r n
    by (auto simp: apiGetRoute_def intro!: ends_call split: packet.split agent_rsp.split)
  have "ends written (\<lambda>_. True) (register_loop k ens m c n)" for k n
    by (induction k arbitrary: n) (auto intro!: ends_call [OF g])
  then show ?thesis by (auto simp: apiRegister_def intro!: ends_call)
qed

lemma destroy_written: "ends written (\<lambda>_. True) (destroy_elbClient en cl n)"
  unfolding destroy_elbClient_def by (rule ends_foldM) (auto intro!: ends_call)

lemma report_written:
  assumes "can_report (cl, 0, h, n0)" "the_host h = Inr a"
  shows "ends written (\<lambda>_. True) (apiReportRes en m c (fst a) (snd a) r cl n)"
proof -
  have n: "ends written (\<lambda>_. True) (report_net en m c ip port r cl' n')" for ip port r cl' n'
    by (auto simp: report_net_def intro!: ends_call)
  show ?thesis using assms
    by (auto simp: can_report_def apiReportRes_def the_host_def n intro!: ends_call split: option.splits)
qed

text \<open>One round of a program: a call, and a report of the host that it gave.\<close>

lemma round_written:
  assumes "alive en" "\<And>a x. ends written (\<lambda>_. True) (f a x)" "\<And>cl1 ret n1. ends written (\<lambda>_. True) (e cl1 ret n1)"
    and "\<And>x. ends written R (k x)"
  shows "ends written R (rbind (apiGetHost en m c cl n) (\<lambda>(cl1, ret, h, n1).
    rbind (if ret = 0 then rbind (the_host h) (\<lambda>a. rbind (apiReportRes en' m c (fst a) (snd a) (r a) cl1 n1) (f a))
           else e cl1 ret n1) k))"
proof (rule ends_rbind [OF getHost_can_report [OF assms(1)]])
  fix x assume x: "can_report x"
  obtain cl1 ret h n1 where [simp]: "x = (cl1, ret, h, n1)" by (cases x)
  have "ends written (\<lambda>_. True) (rbind (the_host h) (\<lambda>a. rbind (apiReportRes en' m c (fst a) (snd a) (r a) cl1 n1) (f a)))"
    if z: "ret = 0"
  proof -
    obtain a where a: "the_host h = Inr a" using x z by (auto simp: can_report_def the_host_def)
    have "ends written (\<lambda>_. True) (apiReportRes en' m c (fst a) (snd a) (r a) cl1 n1)"
      using x z by (intro report_written [OF _ a]) simp
    with a show ?thesis by (auto intro!: ends_call assms(2))
  qed
  then have "ends written (\<lambda>_. True) (if ret = 0
      then rbind (the_host h) (\<lambda>a. rbind (apiReportRes en' m c (fst a) (snd a) (r a) cl1 n1) (f a)) else e cl1 ret n1)"
    using assms(3) by simp
  from ends_call [OF this assms(4)]
  show "ends written R (case x of (cl1, ret, h, n1) \<Rightarrow>
     rbind (if ret = 0 then rbind (the_host h) (\<lambda>a. rbind (apiReportRes en' m c (fst a) (snd a) (r a) cl1 n1) (f a))
            else e cl1 ret n1) k)" by simp
qed

lemmas program_rules = ends_call [OF register_written] ends_call [OF destroy_written] round_written

lemma loops_written:
  assumes "\<And>i. alive (ens i)"
  shows "ends written (\<lambda>_. True) (timotest_loop k i ens m c cl n)"
    and "ends written (\<lambda>_. True) (testcache_loop k ens m c cl n)"
    and "ends written (\<lambda>_. True) (simulator_loop k ens rands m c t cl n)"
proof -
  show "ends written (\<lambda>_. True) (timotest_loop k i ens m c cl n)"
  proof (induction k arbitrary: i cl n)
    case (Suc k)
    show ?case unfolding timotest_loop.simps by (rule round_written) (auto intro!: ends_call assms Suc.IH)
  qed simp
  show "ends written (\<lambda>_. True) (testcache_loop k ens m c cl n)"
  proof (induction k arbitrary: cl n)
    case (Suc k)
    show ?case unfolding testcache_loop.simps by (rule round_written) (auto intro!: ends_call assms Suc.IH)
  qed simp
  show "ends written (\<lambda>_. True) (simulator_loop k ens rands m c t cl n)"
  proof (induction k arbitrary: t cl n)
    case (Suc k)
    show ?case
    proof (cases "rands k mod 10 < 2")
      case True
      show ?thesis unfolding simulator_loop.simps if_P [OF True]
        by (rule round_written) (auto intro!: ends_call assms Suc.IH)
    next
      case False
      show ?thesis unfolding simulator_loop.simps if_not_P [OF False]
        by (rule round_written) (auto intro!: ends_call assms Suc.IH)
    qed
  qed simp
qed

lemma arg_written: "ends written (\<lambda>_. True) (arg argv i)"
  by (simp add: arg_def)

section \<open>Properties\<close>

text \<open>
  While the agent lives, the programs that call and report (\<open>example\<close>, \<open>timotest\<close>,
  \<open>testcache\<close>, \<open>simulator\<close>) never use a variable that nothing has written: not the host of a call
  that failed, not the client's \<open>_agentOff\<close>, and not the address that \<open>apiReportRes\<close> reads from
  the text of a host, since that text is always the text of an address.
\<close>

theorem programs_report_safely:
  assumes "\<And>i. \<not> hb_die (en_now (ens0 i)) (en_hb (ens0 i))" and "\<And>i. \<not> hb_die (en_now (ens i)) (en_hb (ens i))"
  shows "example_main ens argv n \<noteq> Inl UninitRead \<and> timotest_main ens0 ens argv n \<noteq> Inl UninitRead
    \<and> testcache_main ens argv n \<noteq> Inl UninitRead \<and> simulator_main ens0 ens rands argv n \<noteq> Inl UninitRead"
proof -
  have a: "alive (ens0 i)" "alive (ens i)" for i using assms by (simp_all add: alive_def)
  note l = loops_written [OF a(2)]
  have "ends written (\<lambda>_. True) (example_main ens argv n)" unfolding example_main_def Let_def
    by (auto intro!: ends_call [OF arg_written] program_rules a)
  moreover have "ends written (\<lambda>_. True) (timotest_main ens0 ens argv n)" unfolding timotest_main_def
    by (auto intro!: ends_call [OF arg_written] ends_call [OF l(1)] program_rules a)
  moreover have "ends written (\<lambda>_. True) (testcache_main ens argv n)" unfolding testcache_main_def
    by (auto intro!: ends_call [OF arg_written] ends_call [OF l(2)] program_rules a)
  moreover have "ends written (\<lambda>_. True) (simulator_main ens0 ens rands argv n)" unfolding simulator_main_def
    by (auto intro!: ends_call [OF arg_written] ends_call [OF l(3)] program_rules a)
  ultimately show ?thesis by (auto simp: written_def)
qed

theorem programs_report_safely_witness:
  "example_main (\<lambda>_. ex_env 100) [''example'', ''1'', ''2''] (net_of [Failed, Failed, Failed, Pkt (CacheRsp ex_rsp)] []) \<noteq> Inl UninitRead"
  using programs_report_safely [of "\<lambda>_. ex_env 100" "\<lambda>_. ex_env 100"] by (simp add: ex_env_def ex_alive)

end
