(* ===== verification/ByteOrder.thy ===== *)
theory ByteOrder
  imports ElbPrelude
begin

text \<open>
  The integers and floating-point numbers of the database protocol as bytes in memory
  (\<open>my_byteorder.h\<close> and the headers it includes for each kind of machine, among the headers of
  the MySQL client that the dnsserver and the reporter are compiled with). Memory is read and
  written from a pointer on, at byte offsets. A floating-point number is the word of its
  bits. The lemmas show that the variants for different machines (little-endian, big-endian, and little-endian with the
  words of a double exchanged) agree on the bytes in memory, and that what is stored is read back.
\<close>

unbundle bit_operations_syntax

type_synonym mem = "nat \<Rightarrow> 8 word"

section \<open>The generic variant\<close>

definition sint2korr_generic :: "mem \<Rightarrow> 16 word" where
  "sint2korr_generic A = ucast ((ucast (A 0) :: u32) + push_bit 8 (ucast (A 1)))"

definition sint4korr_generic :: "mem \<Rightarrow> i32" where
  "sint4korr_generic A =
    ucast (A 0) + push_bit 8 (ucast (A 1)) + push_bit 16 (ucast (A 2)) + push_bit 24 (ucast (A 3))"

definition uint2korr_generic :: "mem \<Rightarrow> 16 word" where
  "uint2korr_generic A = ucast ((ucast (A 0) :: u32) + push_bit 8 (ucast (A 1)))"

definition uint4korr_generic :: "mem \<Rightarrow> u32" where
  "uint4korr_generic A =
    ucast (A 0) + push_bit 8 (ucast (A 1)) + push_bit 16 (ucast (A 2)) + push_bit 24 (ucast (A 3))"

definition uint8korr_generic :: "mem \<Rightarrow> u64" where
  "uint8korr_generic A =
    ucast ((ucast (A 0) :: u32) + push_bit 8 (ucast (A 1)) + push_bit 16 (ucast (A 2)) + push_bit 24 (ucast (A 3)))
    + push_bit 32 (ucast ((ucast (A 4) :: u32) + push_bit 8 (ucast (A 5)) + push_bit 16 (ucast (A 6)) + push_bit 24 (ucast (A 7))))"

definition sint8korr_generic :: "mem \<Rightarrow> u64" where
  "sint8korr_generic A = uint8korr_generic A"

definition int2store_generic :: "16 word \<Rightarrow> mem \<Rightarrow> mem" where
  "int2store_generic A T = (let def_temp = (ucast A :: u32) in
     T(0 := ucast def_temp, 1 := ucast (drop_bit 8 def_temp)))"

definition int4store_generic :: "u32 \<Rightarrow> mem \<Rightarrow> mem" where
  "int4store_generic A T =
     T(0 := ucast A, 1 := ucast (drop_bit 8 A), 2 := ucast (drop_bit 16 A), 3 := ucast (drop_bit 24 A))"

text \<open>A store through a pointer moved by \<open>k\<close>.\<close>

definition store_at :: "nat \<Rightarrow> (mem \<Rightarrow> mem) \<Rightarrow> mem \<Rightarrow> mem" where
  "store_at k f T = (let T' = f (\<lambda>i. T (k + i)) in (\<lambda>i. if k \<le> i then T' (i - k) else T i))"

definition int8store_generic :: "u64 \<Rightarrow> mem \<Rightarrow> mem" where
  "int8store_generic A T =
    (let def_temp = (ucast A :: u32); def_temp2 = ucast (drop_bit 32 A)
     in store_at 4 (int4store_generic def_temp2) (int4store_generic def_temp T))"

section \<open>The variant for x86\<close>

text \<open>Unaligned accesses of a little-endian machine.\<close>

definition load16 :: "mem \<Rightarrow> 16 word" where
  "load16 A = ucast (A 0) OR push_bit 8 (ucast (A 1))"

definition load32 :: "mem \<Rightarrow> 32 word" where
  "load32 A = ucast (A 0) OR push_bit 8 (ucast (A 1)) OR push_bit 16 (ucast (A 2)) OR push_bit 24 (ucast (A 3))"

definition load64 :: "mem \<Rightarrow> 64 word" where
  "load64 A = ucast (A 0) OR push_bit 8 (ucast (A 1)) OR push_bit 16 (ucast (A 2)) OR push_bit 24 (ucast (A 3))
     OR push_bit 32 (ucast (A 4)) OR push_bit 40 (ucast (A 5)) OR push_bit 48 (ucast (A 6)) OR push_bit 56 (ucast (A 7))"

definition store_word :: "nat \<Rightarrow> 'a::len word \<Rightarrow> mem \<Rightarrow> mem" where
  "store_word n v T = (\<lambda>i. if i < n then ucast (drop_bit (8 * i) v) else T i)"

definition sint2korr_x86 :: "mem \<Rightarrow> 16 word" where "sint2korr_x86 A = load16 A"
definition sint4korr_x86 :: "mem \<Rightarrow> i32" where "sint4korr_x86 A = load32 A"
definition uint2korr_x86 :: "mem \<Rightarrow> 16 word" where "uint2korr_x86 A = load16 A"
definition uint4korr_x86 :: "mem \<Rightarrow> u32" where "uint4korr_x86 A = load32 A"
definition uint8korr_x86 :: "mem \<Rightarrow> u64" where "uint8korr_x86 A = load64 A"
definition sint8korr_x86 :: "mem \<Rightarrow> u64" where "sint8korr_x86 A = load64 A"
definition int2store_x86 :: "16 word \<Rightarrow> mem \<Rightarrow> mem" where "int2store_x86 A T = store_word 2 A T"
definition int4store_x86 :: "u32 \<Rightarrow> mem \<Rightarrow> mem" where "int4store_x86 A T = store_word 4 A T"
definition int8store_x86 :: "u64 \<Rightarrow> mem \<Rightarrow> mem" where "int8store_x86 A T = store_word 8 A T"

section \<open>Three, five and six bytes\<close>

definition sint3korr :: "mem \<Rightarrow> i32" where
  "sint3korr A =
    (if A 2 AND 128 \<noteq> 0
     then push_bit 24 255 OR push_bit 16 (ucast (A 2)) OR push_bit 8 (ucast (A 1)) OR ucast (A 0)
     else push_bit 16 (ucast (A 2)) OR push_bit 8 (ucast (A 1)) OR ucast (A 0))"

definition uint3korr :: "mem \<Rightarrow> u32" where
  "uint3korr A = ucast (A 0) + push_bit 8 (ucast (A 1)) + push_bit 16 (ucast (A 2))"

definition uint5korr :: "mem \<Rightarrow> u64" where
  "uint5korr A =
    ucast ((ucast (A 0) :: u32) + push_bit 8 (ucast (A 1)) + push_bit 16 (ucast (A 2)) + push_bit 24 (ucast (A 3)))
    + push_bit 32 (ucast (A 4))"

definition uint6korr :: "mem \<Rightarrow> u64" where
  "uint6korr A =
    ucast ((ucast (A 0) :: u32) + push_bit 8 (ucast (A 1)) + push_bit 16 (ucast (A 2)) + push_bit 24 (ucast (A 3)))
    + (push_bit 32 (ucast (A 4)) + push_bit 40 (ucast (A 5)))"

definition int3store :: "u32 \<Rightarrow> mem \<Rightarrow> mem" where
  "int3store A T = T(0 := ucast A, 1 := ucast (drop_bit 8 A), 2 := ucast (drop_bit 16 A))"

definition int5store :: "u64 \<Rightarrow> mem \<Rightarrow> mem" where
  "int5store A T = T(0 := ucast A, 1 := ucast (drop_bit 8 A), 2 := ucast (drop_bit 16 A),
     3 := ucast (drop_bit 24 A), 4 := ucast (drop_bit 32 A))"

definition int6store :: "u64 \<Rightarrow> mem \<Rightarrow> mem" where
  "int6store A T = T(0 := ucast A, 1 := ucast (drop_bit 8 A), 2 := ucast (drop_bit 16 A),
     3 := ucast (drop_bit 24 A), 4 := ucast (drop_bit 32 A), 5 := ucast (drop_bit 40 A))"

section \<open>The overloads for \<open>char *\<close>\<close>

text \<open>They cast the pointer to \<open>uchar *\<close>: the same memory.\<close>

definition sint2korr_char :: "mem \<Rightarrow> 16 word" where "sint2korr_char pT = sint2korr_x86 pT"
definition uint2korr_char :: "mem \<Rightarrow> 16 word" where "uint2korr_char pT = uint2korr_x86 pT"
definition uint3korr_char :: "mem \<Rightarrow> u32" where "uint3korr_char pT = uint3korr pT"
definition sint3korr_char :: "mem \<Rightarrow> i32" where "sint3korr_char pT = sint3korr pT"
definition uint4korr_char :: "mem \<Rightarrow> u32" where "uint4korr_char pT = uint4korr_x86 pT"
definition sint4korr_char :: "mem \<Rightarrow> i32" where "sint4korr_char pT = sint4korr_x86 pT"
definition uint6korr_char :: "mem \<Rightarrow> u64" where "uint6korr_char pT = uint6korr pT"
definition uint8korr_char :: "mem \<Rightarrow> u64" where "uint8korr_char pT = uint8korr_x86 pT"
definition sint8korr_char :: "mem \<Rightarrow> u64" where "sint8korr_char pT = sint8korr_x86 pT"
definition int2store_char :: "16 word \<Rightarrow> mem \<Rightarrow> mem" where "int2store_char A pT = int2store_x86 A pT"
definition int3store_char :: "u32 \<Rightarrow> mem \<Rightarrow> mem" where "int3store_char A pT = int3store A pT"
definition int4store_char :: "u32 \<Rightarrow> mem \<Rightarrow> mem" where "int4store_char A pT = int4store_x86 A pT"
definition int5store_char :: "u64 \<Rightarrow> mem \<Rightarrow> mem" where "int5store_char A pT = int5store A pT"
definition int6store_char :: "u64 \<Rightarrow> mem \<Rightarrow> mem" where "int6store_char A pT = int6store A pT"
definition int8store_char :: "u64 \<Rightarrow> mem \<Rightarrow> mem" where "int8store_char A pT = int8store_x86 A pT"

section \<open>In the order of the machine: little-endian\<close>

definition float4get_le :: "mem \<Rightarrow> 32 word" where "float4get_le M = load32 M"
definition float4store_le :: "32 word \<Rightarrow> mem \<Rightarrow> mem" where "float4store_le M V = store_word 4 M V"
definition float8get_le :: "mem \<Rightarrow> 64 word" where "float8get_le M = load64 M"
definition float8store_le :: "64 word \<Rightarrow> mem \<Rightarrow> mem" where "float8store_le M V = store_word 8 M V"
definition floatget_le :: "mem \<Rightarrow> 32 word" where "floatget_le M = float4get_le M"
definition floatstore_le :: "32 word \<Rightarrow> mem \<Rightarrow> mem" where "floatstore_le M V = float4store_le M V"
definition doublestore_le :: "64 word \<Rightarrow> mem \<Rightarrow> mem" where "doublestore_le V T = store_word 8 V T"
definition doubleget_le :: "mem \<Rightarrow> 64 word" where "doubleget_le M = load64 M"
definition ushortget_le :: "mem \<Rightarrow> 16 word" where "ushortget_le M = uint2korr_x86 M"
definition shortget_le :: "mem \<Rightarrow> 16 word" where "shortget_le M = sint2korr_x86 M"
definition longget_le :: "mem \<Rightarrow> 32 word" where "longget_le M = sint4korr_x86 M"
definition ulongget_le :: "mem \<Rightarrow> 32 word" where "ulongget_le M = uint4korr_x86 M"
definition shortstore_le :: "16 word \<Rightarrow> mem \<Rightarrow> mem" where "shortstore_le V T = int2store_x86 V T"
definition longstore_le :: "32 word \<Rightarrow> mem \<Rightarrow> mem" where "longstore_le V T = int4store_x86 V T"
definition longlongget_le :: "mem \<Rightarrow> 64 word" where "longlongget_le M = load64 M"
definition longlongstore_le :: "64 word \<Rightarrow> mem \<Rightarrow> mem" where "longlongstore_le V T = store_word 8 V T"

definition float4store_char :: "32 word \<Rightarrow> mem \<Rightarrow> mem" where "float4store_char M V = float4store_le M V"
definition float8get_char :: "mem \<Rightarrow> 64 word" where "float8get_char M = float8get_le M"
definition float8store_char :: "64 word \<Rightarrow> mem \<Rightarrow> mem" where "float8store_char M V = float8store_le M V"

section \<open>In the order of the machine: big-endian\<close>

text \<open>The bytes of a variable on such a machine, the highest first, and the variable from them.\<close>

definition bytes_be :: "nat \<Rightarrow> 'a::len word \<Rightarrow> mem" where
  "bytes_be n v = (\<lambda>i. ucast (drop_bit (8 * (n - 1 - i)) v))"

definition word_be :: "nat \<Rightarrow> mem \<Rightarrow> 'a::len word" where
  "word_be n M = foldr (\<lambda>i w. w OR push_bit (8 * (n - 1 - i)) (ucast (M i))) [0..<n] 0"

definition float4store_be :: "32 word \<Rightarrow> mem \<Rightarrow> mem" where
  "float4store_be A T = T(0 := bytes_be 4 A 3, 1 := bytes_be 4 A 2, 2 := bytes_be 4 A 1, 3 := bytes_be 4 A 0)"

definition float4get_be :: "mem \<Rightarrow> 32 word" where
  "float4get_be M = word_be 4 ((\<lambda>_. 0)(0 := M 3, 1 := M 2, 2 := M 1, 3 := M 0))"

definition float8store_be :: "64 word \<Rightarrow> mem \<Rightarrow> mem" where
  "float8store_be V T = T(0 := bytes_be 8 V 7, 1 := bytes_be 8 V 6, 2 := bytes_be 8 V 5, 3 := bytes_be 8 V 4,
     4 := bytes_be 8 V 3, 5 := bytes_be 8 V 2, 6 := bytes_be 8 V 1, 7 := bytes_be 8 V 0)"

definition float8get_be :: "mem \<Rightarrow> 64 word" where
  "float8get_be M = word_be 8 ((\<lambda>_. 0)(0 := M 7, 1 := M 6, 2 := M 5, 3 := M 4, 4 := M 3, 5 := M 2, 6 := M 1, 7 := M 0))"

definition ushortget_be :: "mem \<Rightarrow> 16 word" where
  "ushortget_be pM = ucast ((ucast (pM 1) :: u32) + push_bit 8 (ucast (pM 0)))"

definition shortget_be :: "mem \<Rightarrow> 16 word" where
  "shortget_be pM = ucast ((ucast (pM 1) :: u32) + push_bit 8 (ucast (pM 0)))"

definition longget_be :: "mem \<Rightarrow> i32" where
  "longget_be pM = word_be 4 ((\<lambda>_. 0)(0 := pM 0, 1 := pM 1, 2 := pM 2, 3 := pM 3))"

definition ulongget_be :: "mem \<Rightarrow> u32" where
  "ulongget_be pM = word_be 4 ((\<lambda>_. 0)(0 := pM 0, 1 := pM 1, 2 := pM 2, 3 := pM 3))"

definition shortstore_be :: "16 word \<Rightarrow> mem \<Rightarrow> mem" where
  "shortstore_be A T = (let def_temp = (scast A :: u32) in T(1 := ucast def_temp, 0 := ucast (drop_bit 8 def_temp)))"

definition longstore_be :: "i32 \<Rightarrow> mem \<Rightarrow> mem" where
  "longstore_be A T = T(3 := ucast A, 2 := ucast (signed_drop_bit 8 A), 1 := ucast (signed_drop_bit 16 A),
     0 := ucast (signed_drop_bit 24 A))"

definition floatget_be :: "mem \<Rightarrow> 32 word" where "floatget_be M = word_be 4 M"

definition store_be :: "nat \<Rightarrow> 'a::len word \<Rightarrow> mem \<Rightarrow> mem" where
  "store_be n v T = (\<lambda>i. if i < n then bytes_be n v i else T i)"

definition floatstore_be :: "32 word \<Rightarrow> mem \<Rightarrow> mem" where "floatstore_be V T = store_be 4 V T"
definition doubleget_be :: "mem \<Rightarrow> 64 word" where "doubleget_be M = word_be 8 M"
definition doublestore_be :: "64 word \<Rightarrow> mem \<Rightarrow> mem" where "doublestore_be V T = store_be 8 V T"
definition longlongget_be :: "mem \<Rightarrow> 64 word" where "longlongget_be M = word_be 8 M"
definition longlongstore_be :: "64 word \<Rightarrow> mem \<Rightarrow> mem" where "longlongstore_be V T = store_be 8 V T"

section \<open>In the order of the machine: doubles with the high word first\<close>

text \<open>The bytes of a \<open>double\<close> on such a machine: two words of four bytes, the high word first, each with its lowest byte first.\<close>

definition bytes_me :: "64 word \<Rightarrow> mem" where
  "bytes_me v = (\<lambda>i. ucast (drop_bit (8 * (if i < 4 then i + 4 else i - 4)) v))"

definition word_me :: "mem \<Rightarrow> 64 word" where
  "word_me M = foldr (\<lambda>i w. w OR push_bit (8 * (if i < 4 then i + 4 else i - 4)) (ucast (M i))) [0..<8] 0"

definition doublestore_me :: "64 word \<Rightarrow> mem \<Rightarrow> mem" where
  "doublestore_me V T = T(0 := bytes_me V 4, 1 := bytes_me V 5, 2 := bytes_me V 6, 3 := bytes_me V 7,
     4 := bytes_me V 0, 5 := bytes_me V 1, 6 := bytes_me V 2, 7 := bytes_me V 3)"

definition doubleget_me :: "mem \<Rightarrow> 64 word" where
  "doubleget_me M = word_me ((\<lambda>_. 0)(0 := M 4, 1 := M 5, 2 := M 6, 3 := M 7, 4 := M 0, 5 := M 1, 6 := M 2, 7 := M 3))"

section \<open>Reading as words of bytes\<close>

text \<open>The first \<open>n\<close> bytes from a pointer on, the lowest first.\<close>

definition le_word :: "nat \<Rightarrow> mem \<Rightarrow> 'a::len word" where
  "le_word n A = foldr (\<lambda>i w. w OR push_bit (8 * i) (ucast (A i))) [0..<n] 0"

lemma byte_index: "8 * i \<le> k \<and> k - 8 * i < 8 \<longleftrightarrow> i = k div (8 :: nat)"
proof
  assume "8 * i \<le> k \<and> k - 8 * i < 8"
  then show "i = k div 8" by (intro div_nat_eqI [symmetric]) auto
next
  assume "i = k div 8"
  then show "8 * i \<le> k \<and> k - 8 * i < 8" by (simp add: minus_mult_div_eq_mod)
qed

lemma bit_byte: "8 * i \<le> k \<and> bit (a :: 8 word) (k - 8 * i) \<longleftrightarrow> i = k div 8 \<and> bit a (k mod 8)"
proof -
  have "bit a (k - 8 * i) \<Longrightarrow> k - 8 * i < 8" using bit_imp_le_length [of a "k - 8 * i"] by simp
  moreover have "k - 8 * (k div 8) = k mod 8" by (simp add: modulo_nat_def)
  ultimately show ?thesis using byte_index [of i k] by metis
qed

lemma bit_le_word:
  "bit (le_word n A :: 'a::len word) k \<longleftrightarrow> k < LENGTH('a) \<and> k div 8 < n \<and> bit (A (k div 8)) (k mod 8)"
proof -
  have "bit (foldr (\<lambda>i w. w OR push_bit (8 * i) (ucast (A i))) is 0 :: 'a word) k \<longleftrightarrow>
      k < LENGTH('a) \<and> (\<exists>i \<in> set is. 8 * i \<le> k \<and> bit (A i) (k - 8 * i))" for "is"
    by (induction "is") (auto simp: bit_simps)
  then show ?thesis by (auto simp: le_word_def bit_byte)
qed

lemma high_bits [simp]: "8 \<le> n \<Longrightarrow> \<not> bit (a :: 8 word) n"
  using bit_imp_le_length [of a n] by auto

lemma add_push:
  fixes x y :: "'a::len word"
  assumes "\<And>n. s \<le> n \<Longrightarrow> \<not> bit x n"
  shows "x + push_bit s y = x OR push_bit s y"
proof (rule disjunctive_add_eq_or, rule bit_word_eqI)
  fix n show "bit (x AND push_bit s y) n = bit 0 n" using assms [of n] by (auto simp: bit_simps)
qed

lemma le_words:
  "le_word 2 A = (ucast (A 0) OR push_bit 8 (ucast (A 1)) :: 'a::len word)"
  "le_word 3 A = (ucast (A 0) OR push_bit 8 (ucast (A 1)) OR push_bit 16 (ucast (A 2)) :: 'a word)"
  "le_word 4 A = (ucast (A 0) OR push_bit 8 (ucast (A 1)) OR push_bit 16 (ucast (A 2)) OR push_bit 24 (ucast (A 3)) :: 'a word)"
  by (simp_all add: le_word_def upt_rec ac_simps numeral_2_eq_2 numeral_3_eq_3)

lemma four_bytes:
  "ucast (A 0) + push_bit 8 (ucast (A 1)) + push_bit 16 (ucast (A 2)) + push_bit 24 (ucast (A 3)) = (le_word 4 A :: 32 word)"
  by (simp add: add_push bit_simps le_words or.assoc)

lemma ucast_le_word: "ucast (le_word n A :: 'b::len word) = (le_word n A :: 'a::len word)" if "8 * n \<le> LENGTH('b)"
proof (rule bit_word_eqI)
  have "k div 8 < n \<Longrightarrow> k < LENGTH('b)" for k using that by auto
  then show "bit (ucast (le_word n A :: 'b word) :: 'a word) k = bit (le_word n A :: 'a word) k" for k
    by (auto simp: bit_simps bit_le_word)
qed

lemma le_word_split:
  "le_word (m + n) A = (le_word m A OR push_bit (8 * m) (le_word n (\<lambda>i. A (m + i))) :: 'a::len word)"
proof (rule bit_word_eqI)
  fix k
  have "8 * m \<le> k \<Longrightarrow> (k - 8 * m) div 8 = k div 8 - m \<and> (k - 8 * m) mod 8 = k mod 8 \<and> m \<le> k div 8"
    by (metis add_diff_cancel_left' div_mult_self4 dvd_triv_left le_add_diff_inverse less_eq_div_iff_mult_less_eq mod_mult_self4 mult.commute zero_less_numeral zero_neq_numeral)
  then show "bit (le_word (m + n) A :: 'a word) k = bit (le_word m A OR push_bit (8 * m) (le_word n (\<lambda>i. A (m + i))) :: 'a word) k"
    by (auto simp: bit_simps bit_le_word)
qed

section \<open>Every variant reads and writes the same bytes\<close>

lemma small_numerals:
  "(4 :: nat) = Suc (Suc (Suc (Suc 0)))" "(5 :: nat) = Suc (Suc (Suc (Suc (Suc 0))))"
  "(6 :: nat) = Suc (Suc (Suc (Suc (Suc (Suc 0)))))" "(7 :: nat) = Suc (Suc (Suc (Suc (Suc (Suc (Suc 0))))))"
  by simp_all

lemma loads: "load16 A = le_word 2 A" "load32 A = le_word 4 A" "load64 A = le_word 8 A"
proof -
  show "load16 A = le_word 2 A" "load32 A = le_word 4 A" by (simp_all add: load16_def load32_def le_words)
  show "load64 A = le_word 8 A"
    by (simp add: load64_def le_word_def upt_rec ac_simps numeral_2_eq_2 numeral_3_eq_3)
       (simp add: small_numerals ac_simps)
qed

lemma loads_x86:
  "sint2korr_x86 A = le_word 2 A" "uint2korr_x86 A = le_word 2 A" "sint4korr_x86 A = le_word 4 A" "uint4korr_x86 A = le_word 4 A"
  "uint8korr_x86 A = le_word 8 A" "sint8korr_x86 A = le_word 8 A"
  by (simp_all add: sint2korr_x86_def uint2korr_x86_def sint4korr_x86_def uint4korr_x86_def uint8korr_x86_def sint8korr_x86_def loads)

lemma add_high:
  "(le_word m A :: 'a::len word) + push_bit s y = le_word m A OR push_bit s y" if "8 * m \<le> s"
proof (rule add_push)
  fix n assume "s \<le> n"
  with that have "m \<le> n div 8" by auto
  then show "\<not> bit (le_word m A :: 'a word) n" by (simp add: bit_le_word)
qed

lemma loads_generic:
  "sint2korr_generic A = le_word 2 A" "uint2korr_generic A = le_word 2 A" "sint4korr_generic A = le_word 4 A"
  "uint4korr_generic A = le_word 4 A" "uint8korr_generic A = le_word 8 A" "sint8korr_generic A = le_word 8 A"
proof -
  have "(ucast (A 0) :: 32 word) + push_bit 8 (ucast (A 1)) = le_word 2 A" by (simp add: add_push bit_simps le_words)
  then have "ucast ((ucast (A 0) :: 32 word) + push_bit 8 (ucast (A 1))) = (le_word 2 A :: 16 word)"
    by (simp add: ucast_le_word)
  then show "sint2korr_generic A = le_word 2 A" "uint2korr_generic A = le_word 2 A"
    by (simp_all only: sint2korr_generic_def uint2korr_generic_def)
  show "sint4korr_generic A = le_word 4 A" "uint4korr_generic A = le_word 4 A"
    by (simp_all only: sint4korr_generic_def uint4korr_generic_def four_bytes)
  have h: "(ucast (A 4) :: u32) + push_bit 8 (ucast (A 5)) + push_bit 16 (ucast (A 6)) + push_bit 24 (ucast (A 7))
      = le_word 4 (\<lambda>i. A (4 + i))" using four_bytes [of "\<lambda>i. A (4 + i)"] by simp
  have "uint8korr_generic A = le_word 4 A + push_bit 32 (le_word 4 (\<lambda>i. A (4 + i)))"
    by (simp only: uint8korr_generic_def four_bytes h) (simp add: ucast_le_word)
  also have "\<dots> = le_word 8 A" using le_word_split [of 4 4 A, where ?'a = 64] by (simp add: add_high)
  finally show "uint8korr_generic A = le_word 8 A" "sint8korr_generic A = le_word 8 A" by (simp_all add: sint8korr_generic_def)
qed

lemma loads_odd: "uint3korr A = le_word 3 A" "uint5korr A = le_word 5 A" "uint6korr A = le_word 6 A"
proof -
  show "uint3korr A = le_word 3 A" by (simp add: uint3korr_def add_push bit_simps le_words or.assoc)
  have u: "ucast ((ucast (A 0) :: u32) + push_bit 8 (ucast (A 1)) + push_bit 16 (ucast (A 2)) + push_bit 24 (ucast (A 3)))
      = (le_word 4 A :: u64)" by (simp only: four_bytes) (simp add: ucast_le_word)
  have "le_word 1 (\<lambda>i. A (4 + i)) = (ucast (A 4) :: u64)" by (simp add: le_word_def)
  then show "uint5korr A = le_word 5 A"
    using le_word_split [of 4 1 A, where ?'a = 64] by (simp add: uint5korr_def u [simplified] add_high)
  have "push_bit 32 (ucast (A 4)) + push_bit 40 (ucast (A 5)) = (push_bit 32 (le_word 2 (\<lambda>i. A (4 + i))) :: u64)"
    by (simp add: add_push bit_simps le_words push_bit_or)
  then show "uint6korr A = le_word 6 A"
    using le_word_split [of 4 2 A, where ?'a = 64] by (simp add: uint6korr_def u [simplified] add_high)
qed

section \<open>Stores\<close>

text \<open>Each store is that of the low bytes of its word, the lowest first.\<close>

lemma store_word_Suc: "store_word 0 v T = T" "store_word (Suc n) v T = (store_word n v T)(n := ucast (drop_bit (8 * n) v))"
  by (auto simp: store_word_def less_Suc_eq)

lemma store_word_2: "store_word 2 v T = T(0 := ucast v, 1 := ucast (drop_bit 8 v))"
  by (simp add: numeral_2_eq_2 store_word_Suc)

lemma store_words:
  "store_word 3 v T = T(0 := ucast v, 1 := ucast (drop_bit 8 v), 2 := ucast (drop_bit 16 v))"
  "store_word 4 v T = T(0 := ucast v, 1 := ucast (drop_bit 8 v), 2 := ucast (drop_bit 16 v), 3 := ucast (drop_bit 24 v))"
  "store_word 5 v T = T(0 := ucast v, 1 := ucast (drop_bit 8 v), 2 := ucast (drop_bit 16 v), 3 := ucast (drop_bit 24 v),
     4 := ucast (drop_bit 32 v))"
  "store_word 6 v T = T(0 := ucast v, 1 := ucast (drop_bit 8 v), 2 := ucast (drop_bit 16 v), 3 := ucast (drop_bit 24 v),
     4 := ucast (drop_bit 32 v), 5 := ucast (drop_bit 40 v))"
  "store_word 8 v T = T(0 := ucast v, 1 := ucast (drop_bit 8 v), 2 := ucast (drop_bit 16 v), 3 := ucast (drop_bit 24 v),
     4 := ucast (drop_bit 32 v), 5 := ucast (drop_bit 40 v), 6 := ucast (drop_bit 48 v), 7 := ucast (drop_bit 56 v))"
  using store_word_Suc(2) [of 2 v T] store_word_Suc(2) [of 3 v T] store_word_Suc(2) [of 4 v T] store_word_Suc(2) [of 5 v T]
    store_word_Suc(2) [of 6 v T] store_word_Suc(2) [of 7 v T] by (simp_all add: store_word_2)

lemma store_at_store: "store_at m (store_word n v) T = (\<lambda>i. if m \<le> i \<and> i < m + n then ucast (drop_bit (8 * (i - m)) v) else T i)"
  by (rule ext) (auto simp: store_at_def store_word_def Let_def)

lemma stores:
  "int2store_generic v2 T = store_word 2 v2 T" "int4store_generic v4 T = store_word 4 v4 T"
  "int8store_generic v8 T = store_word 8 v8 T"
  "int3store v4 T = store_word 3 v4 T" "int5store v8 T = store_word 5 v8 T" "int6store v8 T = store_word 6 v8 T"
proof -
  have d: "ucast (drop_bit 8 (ucast v2 :: u32)) = (ucast (drop_bit 8 v2) :: 8 word)" "ucast (ucast v2 :: u32) = (ucast v2 :: 8 word)"
    by (rule bit_word_eqI, auto simp: bit_simps dest: bit_imp_le_length)+
  then show "int2store_generic v2 T = store_word 2 v2 T"
    by (simp add: int2store_generic_def store_word_2 Let_def)
  show i4: "int4store_generic v4 T = store_word 4 v4 T" for v4 T by (simp add: int4store_generic_def store_words)
  have "ucast (drop_bit (8 * i) (ucast v8 :: u32)) = (ucast (drop_bit (8 * i) v8) :: 8 word)" if "i < 4" for i
    using that by (intro bit_word_eqI) (auto simp: bit_simps)
  moreover have "ucast (drop_bit (8 * (i - 4)) (ucast (drop_bit 32 v8) :: u32)) = (ucast (drop_bit (8 * i) v8) :: 8 word)"
    if "4 \<le> i" "i < 8" for i
    using that by (intro bit_word_eqI) (auto simp: bit_simps algebra_simps)
  ultimately show "int8store_generic v8 T = store_word 8 v8 T"
    by (simp add: int8store_generic_def Let_def i4 store_at_store [where m = 4, unfolded i4 [symmetric]])
       (rule ext, auto simp: store_at_def i4 store_word_def Let_def)
  show "int3store v4 T = store_word 3 v4 T" "int5store v8 T = store_word 5 v8 T" "int6store v8 T = store_word 6 v8 T"
    by (simp_all add: int3store_def int5store_def int6store_def store_words)
qed

text \<open>What was stored is read back, cut to the bytes stored.\<close>

lemma le_word_store: "le_word n (store_word n v T) = (take_bit (8 * n) v :: 'a::len word)"
proof (rule bit_word_eqI)
  fix k assume "k < LENGTH('a)"
  have "k div 8 < n \<longleftrightarrow> k < 8 * n" by auto
  then show "bit (le_word n (store_word n v T) :: 'a word) k = bit (take_bit (8 * n) v) k"
    by (auto simp: bit_le_word store_word_def bit_simps dest: bit_imp_le_length)
qed

lemma take_all: "LENGTH('a) \<le> n \<Longrightarrow> take_bit n (v :: 'a::len word) = v"
  by (rule bit_word_eqI) (simp add: bit_simps)

section \<open>Big-endian machines\<close>

lemma bit_word_be:
  "bit (word_be n M :: 'a::len word) k = bit (le_word n (\<lambda>i. M (n - 1 - i)) :: 'a word) k"
proof -
  have "bit (foldr (\<lambda>i w. w OR push_bit (8 * (n - 1 - i)) (ucast (M i))) is 0 :: 'a word) k \<longleftrightarrow>
      k < LENGTH('a) \<and> (\<exists>i \<in> set is. 8 * (n - 1 - i) \<le> k \<and> bit (M i) (k - 8 * (n - 1 - i)))" for "is"
    by (induction "is") (auto simp: bit_simps)
  then have "bit (foldr (\<lambda>i w. w OR push_bit (8 * (n - 1 - i)) (ucast (M i))) is 0 :: 'a word) k \<longleftrightarrow>
      k < LENGTH('a) \<and> (\<exists>i \<in> set is. n - 1 - i = k div 8 \<and> bit (M i) (k mod 8))" for "is"
    by (simp only: bit_byte)
  moreover have "(\<exists>i < n. n - 1 - i = k div 8 \<and> bit (M i) (k mod 8)) \<longleftrightarrow> k div 8 < n \<and> bit (M (n - 1 - k div 8)) (k mod 8)"
  proof -
    have "n - 1 - k div 8 = i" if "i < n" "n - 1 - i = k div 8" for i using that by arith
    moreover have "n - 1 - k div 8 < n" "n - 1 - (n - 1 - k div 8) = k div 8" if "k div 8 < n" using that by simp_all
    moreover have "k div 8 < n" if "i < n" "n - 1 - i = k div 8" for i using that by arith
    ultimately show ?thesis by metis
  qed
  ultimately show ?thesis by (auto simp: word_be_def bit_le_word Bex_def)
qed

lemma word_be: "word_be n M = le_word n (\<lambda>i. M (n - 1 - i))"
  by (rule bit_word_eqI) (simp add: bit_word_be)

lemma le_word_cong: "(\<And>i. i < n \<Longrightarrow> A i = B i) \<Longrightarrow> le_word n A = (le_word n B :: 'a::len word)"
  by (rule bit_word_eqI) (auto simp: bit_le_word)

lemma floats_be:
  "float4get_be M = le_word 4 M" "float8get_be M = le_word 8 M"
  "float4store_be v4 T = store_word 4 v4 T" "float8store_be v8 T = store_word 8 v8 T"
proof -
  show "float4get_be M = le_word 4 M" "float8get_be M = le_word 8 M"
    unfolding float4get_be_def float8get_be_def word_be
    by (rule le_word_cong, auto simp: less_Suc_eq numeral_eq_Suc)+
  show "float4store_be v4 T = store_word 4 v4 T" by (simp add: float4store_be_def bytes_be_def store_words)
  show "float8store_be v8 T = store_word 8 v8 T"
    by (simp add: float8store_be_def bytes_be_def store_words)
qed

lemma in_order_be:
  "longget_be M = word_be 4 M" "ulongget_be M = word_be 4 M" "longstore_be v4 T = store_be 4 v4 T"
  "shortstore_be v2 T = store_be 2 v2 T" "shortget_be M = word_be 2 M" "ushortget_be M = word_be 2 M"
proof -
  have "word_be 4 ((\<lambda>_. 0)(0 := M 0, 1 := M 1, 2 := M 2, 3 := M 3)) = (word_be 4 M :: u32)"
    unfolding word_be by (rule le_word_cong) (auto simp: less_Suc_eq numeral_eq_Suc)
  then show "longget_be M = word_be 4 M" "ulongget_be M = word_be 4 M"
    by (simp_all only: longget_be_def ulongget_be_def)
  have b: "(ucast (signed_drop_bit k v4) :: 8 word) = ucast (drop_bit k v4)" if "k \<le> 24" for k
    using that by (intro bit_word_eqI) (auto simp: bit_simps min_def)
  show "longstore_be v4 T = store_be 4 v4 T"
    by (rule ext) (auto simp: longstore_be_def store_be_def bytes_be_def b less_Suc_eq numeral_eq_Suc)
  have c: "(ucast (scast v2 :: u32) :: 8 word) = ucast v2" "(ucast (drop_bit 8 (scast v2 :: u32)) :: 8 word) = ucast (drop_bit 8 v2)"
    by (rule bit_word_eqI, auto simp: bit_simps min_def dest: le_antisym)+
  show "shortstore_be v2 T = store_be 2 v2 T"
    by (rule ext) (auto simp: shortstore_be_def store_be_def bytes_be_def c Let_def less_Suc_eq numeral_2_eq_2)
  have "(ucast (M 1) :: 32 word) + push_bit 8 (ucast (M 0)) = le_word 2 (\<lambda>i. M (1 - i))" by (simp add: add_push bit_simps le_words)
  then have "ucast ((ucast (M 1) :: 32 word) + push_bit 8 (ucast (M 0))) = (le_word 2 (\<lambda>i. M (2 - 1 - i)) :: 16 word)"
    by (simp add: ucast_le_word)
  then show "shortget_be M = word_be 2 M" "ushortget_be M = word_be 2 M"
    by (simp_all only: shortget_be_def ushortget_be_def word_be)
qed

lemma word_be_store: "8 * n = LENGTH('a) \<Longrightarrow> word_be n (store_be n v T) = (v :: 'a::len word)"
proof -
  assume n: "8 * n = LENGTH('a)"
  have "word_be n (store_be n v T) = (le_word n (store_word n v T) :: 'a word)"
    unfolding word_be by (rule le_word_cong) (auto simp: store_be_def store_word_def bytes_be_def)
  then show ?thesis using n by (simp add: le_word_store take_all)
qed

lemma doubles_me: "doublestore_me v T = store_word 8 v T" "doubleget_me M = le_word 8 M"
proof -
  have u: "[0..<8] = [0, 1, 2, 3, 4, 5, 6, 7::nat]" by (simp add: upt_rec)
  show "doublestore_me v T = store_word 8 v T" by (simp add: doublestore_me_def bytes_me_def store_words)
  show "doubleget_me M = le_word 8 M"
    unfolding doubleget_me_def word_me_def le_word_def
    by (simp add: u ac_simps)
qed

section \<open>The format does not depend on the machine\<close>

text \<open>The variants of each access leave the same bytes in memory, and read the same number from them.\<close>

theorem formats_agree:
  "sint2korr_generic A = sint2korr_x86 A" "uint2korr_generic A = uint2korr_x86 A" "sint4korr_generic A = sint4korr_x86 A"
  "uint4korr_generic A = uint4korr_x86 A" "uint8korr_generic A = uint8korr_x86 A" "sint8korr_generic A = sint8korr_x86 A"
  "int2store_generic v2 T = int2store_x86 v2 T" "int4store_generic v4 T = int4store_x86 v4 T" "int8store_generic v8 T = int8store_x86 v8 T"
  "float4get_be A = float4get_le A" "float8get_be A = float8get_le A"
  "float4store_be v4 T = float4store_le v4 T" "float8store_be v8 T = float8store_le v8 T"
  "doubleget_me A = doubleget_le A" "doublestore_me v8 T = doublestore_le v8 T"
  by (simp_all add: doubles_me doubleget_le_def doublestore_le_def loads_generic loads_x86 stores int2store_x86_def int4store_x86_def int8store_x86_def floats_be
      float4get_le_def float8get_le_def float4store_le_def float8store_le_def loads)

text \<open>What is stored is read back, in the format of the protocol and in the order of either machine.\<close>

theorem stored_read_back:
  "uint2korr_x86 (int2store_x86 v2 T) = v2" "uint3korr (int3store v4 T) = take_bit 24 v4" "uint4korr_x86 (int4store_x86 v4 T) = v4"
  "uint5korr (int5store v8 T) = take_bit 40 v8" "uint6korr (int6store v8 T) = take_bit 48 v8" "uint8korr_x86 (int8store_x86 v8 T) = v8"
  "float4get_le (float4store_le v4 T) = v4" "float8get_le (float8store_le v8 T) = v8"
  "longget_be (longstore_be v4 T) = v4" "shortget_be (shortstore_be v2 T) = v2" "longlongget_be (longlongstore_be v8 T) = v8"
  "doubleget_be (doublestore_be v8 T) = v8" "doubleget_me (doublestore_me v8 T) = v8" "floatget_be (floatstore_be v4 T) = v4"
  by (simp_all add: doubles_me loads_x86 loads_odd stores le_word_store take_all int2store_x86_def int4store_x86_def int8store_x86_def
      float4get_le_def float8get_le_def float4store_le_def float8store_le_def loads in_order_be word_be_store
      longlongget_be_def longlongstore_be_def doubleget_be_def doublestore_be_def floatget_be_def floatstore_be_def)

text \<open>\<open>sint3korr\<close> extends the sign of the third byte.\<close>

lemma sint3korr_sign: "sint3korr A = signed_take_bit 23 (uint3korr A)"
proof (rule bit_word_eqI)
  fix k assume "k < LENGTH(32)"
  then have k: "k < 32" by simp
  have h: "A 2 AND 128 = 0 \<longleftrightarrow> \<not> bit (A 2) 7" using and_exp_eq_0_iff_not_bit [of "A 2" 7] by simp
  define c where "c = push_bit 24 (255 :: u32)"
  have "c = push_bit 24 (mask 8)" by (simp add: c_def mask_eq_exp_minus_1)
  then have c: "bit c n \<longleftrightarrow> 24 \<le> n \<and> n < 32" for n by (auto simp: bit_push_bit_iff bit_mask_iff)
  have s: "sint3korr A = (if bit (A 2) 7 then c OR le_word 3 A else le_word 3 A)"
    by (simp add: sint3korr_def h c_def le_words ac_simps del: push_bit_numeral)
  have l: "bit (le_word 3 A :: u32) n \<longleftrightarrow> n < 24 \<and> bit (A (n div 8)) (n mod 8)" for n
    by (auto simp: bit_le_word)
  have "bit (A 2) 7 \<longleftrightarrow> bit (le_word 3 A :: u32) 23" by (simp add: l)
  then show "bit (sint3korr A) k = bit (signed_take_bit 23 (uint3korr A)) k"
    using k by (cases "k = 23") (auto simp: s loads_odd bit_signed_take_bit_iff bit_or_iff c l min_def)
qed

end
