(* ===== verification/Propagation.thy ===== *)
theory Propagation
  imports ApiProps DnsServer
begin

text \<open>
  The dnsserver and one agent together, with the TCP connection between them. The connection
  delivers in order what each side sends, until it breaks; then what is under way is
  lost and the agent connects again. The steps of the two processes interleave in any way. The
  lemmas follow the route of a module from the database to the agent's table and to
  its clients.
\<close>

section \<open>Modules keep their nodes\<close>

text \<open>A module \<open>k\<close> has no nodes or exactly those of \<open>S\<close>, in a table whose handlers do not update it.\<close>

definition same_nodes :: "u64 \<Rightarrow> u64 set \<Rightarrow> i32 \<times> i32 \<times> STATUS \<times> clong option \<times> clong \<times> u64 set \<Rightarrow> bool" where
  "same_nodes K S i = (case i of (m, c, st, v, t, ks) \<Rightarrow> mkkey m c = K \<longrightarrow> ks = {} \<or> ks = S)"

interpretation mn: module_ops cfg "ident_ok cfg (same_nodes K S)"
  by unfold_locales
     (auto simp: ident_ok_ops(6) same_nodes_def intro: ident_ok_ops,
      auto simp: ident_ok_def mod_ok_def wf_LB_alt new_LB_def wf_lists_def config_ok_def same_nodes_def LB_ident_def keys_of_def)

definition nodes_in :: "u64 \<Rightarrow> RouteLB \<Rightarrow> u64 set" where
  "nodes_in K rl = (case map_of (routeMap rl) K of None \<Rightarrow> {} | Some lb \<Rightarrow> keys_of (hostMap lb))"

lemma nodes_in_same:
  assumes "config_ok cfg" "wf_RouteLB cfg rl"
  shows "all_mods (ident_ok cfg (same_nodes K S)) rl \<longleftrightarrow> nodes_in K rl = {} \<or> nodes_in K rl = S"
proof -
  have d: "distinct (map fst (routeMap rl))" and
    w: "\<And>k lb. map_of (routeMap rl) k = Some lb \<Longrightarrow> mod_ok cfg k lb"
    using assms(2) by (auto simp: wf_RouteLB_all all_mods_def)
  have "all_mods (ident_ok cfg (same_nodes K S)) rl \<longleftrightarrow>
      (\<forall>lb. map_of (routeMap rl) K = Some lb \<longrightarrow> keys_of (hostMap lb) = {} \<or> keys_of (hostMap lb) = S)"
    using d w assms(1) by (auto simp: all_mods_def ident_ok_def same_nodes_def LB_ident_def mod_ok_def)
  then show ?thesis by (auto simp: nodes_in_def split: option.split)
qed

text \<open>What serving requests does to the nodes of a table: nothing, or the module is new.\<close>

lemma handle_nodes:
  assumes "config_ok cfg" "wf_RouteLB cfg rl" "agent_handle cfg MyIp now req rl = Inr (rl', rsp, out)"
  shows "nodes_in K rl' = {} \<or> nodes_in K rl' = nodes_in K rl"
proof -
  from handle_is_step(2) [OF assms(3)] obtain rep where
    s: "rl_step cfg MyIp (event_of now req) rl = Inr (rl', rep, out)" by blast
  have e: "event_of now req \<noteq> EvClear" "\<not> is_update (event_of now req)" by (cases req; simp add: is_update_def)+
  have "all_mods (ident_ok cfg (same_nodes K (nodes_in K rl))) rl"
    using nodes_in_same [OF assms(1,2)] by simp
  from mn.ops_keep [OF assms(1) this e, of MyIp] s
  have a: "all_mods (ident_ok cfg (same_nodes K (nodes_in K rl))) rl'" by simp
  have "wf_RouteLB cfg rl'" using handle_safe [OF assms(1,2), of MyIp now req] assms(3) by simp
  from nodes_in_same [OF assms(1) this, of K "nodes_in K rl"] a show ?thesis by simp
qed

text \<open>A route that arrives: its module has its nodes then, or is not in the table; no other module changes.\<close>

lemma update_nodes:
  assumes "config_ok cfg" "wf_RouteLB cfg rl" "RouteLB_update cfg now m c hosts rl = Inr rl'"
  shows "nodes_in K rl' = (if K = mkkey m c then (if K \<in> keys_of (routeMap rl) then route_keys hosts else {}) else nodes_in K rl)"
proof (cases "map_of (routeMap rl) (mkkey m c)")
  case None
  then have "rl' = rl" using assms(3) by (simp add: RouteLB_update_def)
  moreover have "mkkey m c \<notin> keys_of (routeMap rl)" using None by (simp add: map_of_eq_None_keys)
  ultimately show ?thesis using None by (cases "K = mkkey m c") (simp_all add: nodes_in_def)
next
  case (Some lb)
  have d: "distinct (map fst (routeMap rl))" using assms(2) by (simp add: wf_RouteLB_def)
  from map_of_keys_of [OF Some] have k: "mkkey m c \<in> keys_of (routeMap rl)" .
  show ?thesis
  proof (cases "hosts = []")
    case True
    with Some assms(3) have "rl' = rl\<lparr>routeMap := AList.delete (mkkey m c) (routeMap rl)\<rparr>"
      by (simp add: RouteLB_update_def)
    with True k show ?thesis by (simp add: nodes_in_def hm.find_erase route_keys_def)
  next
    case False
    have "wf_LB cfg lb" using wf_RouteLB_lookup [OF assms(2) Some] by (simp add: mod_ok_def)
    from LB_update_spec [OF this assms(1) False, of now] obtain lb' where
      u: "LB_update cfg now hosts lb = Inr lb'" "keys_of (hostMap lb') = route_keys hosts" by metis
    with Some False assms(3) have "rl' = put_lb (mkkey m c) lb' rl" by (simp add: RouteLB_update_def)
    with k u(2) show ?thesis by (simp add: nodes_in_def put_lb_def hm.find_put)
  qed
qed

text \<open>The nodes that the agent has for a module.\<close>

definition ag_nodes :: "i32 \<Rightarrow> i32 \<Rightarrow> Agent \<Rightarrow> u64 set" where
  "ag_nodes m c ag = nodes_in (mkkey m c) (ag_routes ag ! nat (shard m c))"

lemma set_table_nodes:
  assumes "agent_ok cfg ag" "nth_table i ag = Inr rl" "0 \<le> sint (m + c)"
  shows "ag_nodes m c (set_table i rl' ag) = (if i = shard m c then nodes_in (mkkey m c) rl' else ag_nodes m c ag)"
    and "i = shard m c \<Longrightarrow> ag_nodes m c ag = nodes_in (mkkey m c) rl"
  using assms shard_nonneg [OF assms(3)]
  by (auto simp: ag_nodes_def set_table_def nth_table_def agent_ok_def nth_list_update nat_eq_iff split: if_splits)

lemma ag_nodes_queues [simp]:
  "ag_nodes m c (ag\<lparr>ag_pullq := p\<rparr>) = ag_nodes m c ag" "ag_nodes m c (ag\<lparr>ag_reptq := r\<rparr>) = ag_nodes m c ag"
  "ag_nodes m c (ag\<lparr>ag_pullq := p, ag_reptq := r\<rparr>) = ag_nodes m c ag"
  by (simp_all add: ag_nodes_def)

lemma udp_nodes:
  assumes "agent_ok cfg ag" "0 \<le> sint (m + c)" "agent_udp cfg MyIp now i req ag = Inr (ag', rsp)"
  shows "ag_nodes m c ag' = {} \<or> ag_nodes m c ag' = ag_nodes m c ag"
proof -
  from assms(3) obtain rl rl' out where u: "nth_table i ag = Inr rl"
    "agent_handle cfg MyIp now req rl = Inr (rl', rsp, out)" "ag' = (set_table i rl' ag)\<lparr> ag_pullq := ag_pullq ag @ pulls_in out,
        ag_reptq := ag_reptq ag @ repts_in out \<rparr>"
    by (auto simp: agent_udp_def split: prod.splits)
  from agent_ok_nth [OF assms(1) u(1)] have "config_ok cfg" "wf_RouteLB cfg rl" by auto
  from handle_nodes [OF this u(2), of "mkkey m c"] set_table_nodes [OF assms(1) u(1) assms(2)] u(3)
  show ?thesis by (cases "i = shard m c") auto
qed

definition known_module :: "i32 \<Rightarrow> i32 \<Rightarrow> Agent \<Rightarrow> bool" where
  "known_module m c ag \<longleftrightarrow> mkkey m c \<in> keys_of (routeMap (ag_routes ag ! nat (shard m c)))"

lemma recvRoute_nodes:
  assumes "agent_ok cfg ag" "0 \<le> sint (m + c)" "recvRoute cfg now rsp ag = Inr ag'"
  shows "ag_nodes m c ag' =
    (if grs_modid rsp = m \<and> grs_cmdid rsp = c then (if known_module m c ag then route_keys (grs_hosts rsp) else {})
     else ag_nodes m c ag)"
proof -
  let ?m = "grs_modid rsp" and ?c = "grs_cmdid rsp"
  from assms(3) obtain rl rl' where u: "nth_table (shard ?m ?c) ag = Inr rl"
    "RouteLB_update cfg now ?m ?c (grs_hosts rsp) rl = Inr rl'" "ag' = set_table (shard ?m ?c) rl' ag"
    by (auto simp: recvRoute_def Let_def)
  from agent_ok_nth [OF assms(1) u(1)] have w: "config_ok cfg" "wf_RouteLB cfg rl" by auto
  note n = update_nodes [OF w u(2), of "mkkey m c"] and s = set_table_nodes [OF assms(1) u(1) assms(2)]
  show ?thesis
  proof (cases "?m = m \<and> ?c = c")
    case True
    with u(1) have "rl = ag_routes ag ! nat (shard m c)" by (auto simp: nth_table_def split: if_splits)
    with True n s(1) u(3) show ?thesis by (simp add: known_module_def)
  next
    case False
    then have "mkkey m c \<noteq> mkkey ?m ?c" by auto
    with False n s u(3) show ?thesis by auto
  qed
qed

lemma whenConnected_nodes:
  assumes "agent_ok cfg ag" "0 \<le> sint (m + c)"
  shows "ag_nodes m c (whenConnected ag) = ag_nodes m c ag"
proof -
  have k: "keys_of (hostMap (clear_lb lb)) = keys_of (hostMap lb)" for lb by (simp add: clear_lb_def)
  have "nodes_in K (RouteLB_clearPulling rl) = nodes_in K rl" for K rl
    by (auto simp: nodes_in_def RouteLB_clearPulling_def map_of_map k split: option.split simp del: map_map)
  moreover have "nat (shard m c) < length (ag_routes ag)" using shard_nonneg [OF assms(2)] assms(1) by (auto simp: agent_ok_def)
  ultimately show ?thesis by (simp add: ag_nodes_def whenConnected_def)
qed

section \<open>The two processes and the connection\<close>

text \<open>
  The time of the loader's last load, both processes, the descriptor the dnsserver has for the agent's
  connection, the requests and the answers that are under way on it.
\<close>

record System =
  sy_load :: clong
  sy_dns :: DnsState
  sy_agent :: Agent
  sy_fd :: cfd
  sy_up :: "GetRouteReq list"
  sy_down :: "GetRouteRsp list"

definition sent_to :: "cfd \<Rightarrow> dns_out list \<Rightarrow> GetRouteRsp list" where
  "sent_to fd outs = concat (map (\<lambda>out. case out of Send f r \<Rightarrow> if f = fd then [r] else [] | _ \<Rightarrow> []) outs)"

text \<open>
  The dnsserver on its own (other connections, pushes, the loader), a datagram to the agent, the
  pulls or the reports taken off the agent's queues, a request that reaches the dnsserver, an
  answer that reaches the agent, the connection broken and made again.
\<close>

datatype sys_event =
    DnsEv dns_event
  | UdpEv int clong agent_req
  | SendPulls
  | SendReports
  | RequestIn
  | AnswerIn clong
  | Reconnect cfd

definition dns_part :: "dns_event \<Rightarrow> System \<Rightarrow> System res" where
  "dns_part e sy =
    rbind (dns_step e (sy_load sy, sy_dns sy)) (\<lambda>((t, s), outs).
      Inr (sy\<lparr>sy_load := t, sy_dns := s, sy_down := sy_down sy @ sent_to (sy_fd sy) outs\<rparr>))"

definition agent_part :: "LbConfigure \<Rightarrow> u32 \<Rightarrow> agent_event \<Rightarrow> System \<Rightarrow> System res" where
  "agent_part cfg MyIp e sy =
    rbind (agent_step cfg MyIp e (sy_agent sy)) (\<lambda>(ag, out).
      Inr (sy\<lparr>sy_agent := ag, sy_up := sy_up sy @ (case out of ToDns rs \<Rightarrow> rs | _ \<Rightarrow> [])\<rparr>))"

fun sys_step :: "LbConfigure \<Rightarrow> u32 \<Rightarrow> sys_event \<Rightarrow> System \<Rightarrow> System res" where
  "sys_step cfg MyIp (DnsEv e) sy = dns_part e sy"
| "sys_step cfg MyIp (UdpEv i now req) sy = agent_part cfg MyIp (Udp i now req) sy"
| "sys_step cfg MyIp SendPulls sy = agent_part cfg MyIp DrainPulls sy"
| "sys_step cfg MyIp SendReports sy = agent_part cfg MyIp DrainReports sy"
| "sys_step cfg MyIp RequestIn sy =
     (case sy_up sy of
        [] \<Rightarrow> Inr sy
      | req # rs \<Rightarrow> dns_part (Request (sy_fd sy) (Some req)) (sy\<lparr>sy_up := rs\<rparr>))"
| "sys_step cfg MyIp (AnswerIn now) sy =
     (case sy_down sy of
        [] \<Rightarrow> Inr sy
      | rsp # rs \<Rightarrow> agent_part cfg MyIp (DssRoute now rsp) (sy\<lparr>sy_down := rs\<rparr>))"
| "sys_step cfg MyIp (Reconnect fd) sy =
     rbind (dns_part (Close (sy_fd sy)) sy) (\<lambda>sy1.
     rbind (dns_part (Connect fd) sy1) (\<lambda>sy2.
       agent_part cfg MyIp DssConnected (sy2\<lparr>sy_fd := fd, sy_up := [], sy_down := []\<rparr>)))"

text \<open>
  What is relied on. The kernel gives out a descriptor only when it is free, the agent's
  connection belongs to it alone, and the table of changes is kept: the rows that a load
  reads differ from the routes served only for modules in the changes read with a new version.
\<close>

definition change_keys :: "(string \<times> string) list option \<Rightarrow> u64 set" where
  "change_keys chgs = (case chgs of None \<Rightarrow> {} | Some cs \<Rightarrow> (\<lambda>(a, b). mkkey (atoi a) (atoi b)) ` set cs)"

definition new_version :: "string list option \<Rightarrow> Route \<Rightarrow> bool" where
  "new_version vers rt = (case vers of Some (v # _) \<Rightarrow> atol v \<noteq> routeVersion rt | _ \<Rightarrow> False)"

definition change_logged :: "dns_event \<Rightarrow> DnsState \<Rightarrow> bool" where
  "change_logged e s = (case e of
      Tick ws now vers (Some rows) chgs \<Rightarrow>
        (\<forall>k. {v. row_in k v rows} = set (hosts_at (rt_data (dn_route s)) k)
           \<or> new_version vers (dn_route s) \<and> k \<in> change_keys chgs)
    | _ \<Rightarrow> True)"

definition sys_allowed :: "sys_event \<Rightarrow> System \<Rightarrow> bool" where
  "sys_allowed e sy = (case e of
      DnsEv e' \<Rightarrow> fresh_connects e' (sy_dns sy) \<and> change_logged e' (sy_dns sy)
        \<and> e' \<noteq> Close (sy_fd sy) \<and> (\<forall>p. e' \<noteq> Request (sy_fd sy) p)
    | Reconnect fd \<Rightarrow> fd = sy_fd sy \<or> fd \<notin> keys_of (dn_conns (sy_dns sy))
    | _ \<Rightarrow> True)"

text \<open>From any state of the dnsserver, and an agent that has just started and connected.\<close>

definition sys_start :: "clong \<Rightarrow> Route \<Rightarrow> cfd \<Rightarrow> System" where
  "sys_start t rt fd =
    \<lparr> sy_load = t, sy_dns = dns_createSubscribe fd (dns_start rt), sy_agent = new_Agent, sy_fd = fd,
      sy_up = [], sy_down = [] \<rparr>"

inductive sys_reach :: "LbConfigure \<Rightarrow> u32 \<Rightarrow> System \<Rightarrow> bool" for cfg MyIp where
  start: "sys_reach cfg MyIp (sys_start t rt fd)"
| step: "sys_reach cfg MyIp sy \<Longrightarrow> sys_allowed e sy \<Longrightarrow> sys_step cfg MyIp e sy = Inr sy' \<Longrightarrow>
         sys_reach cfg MyIp sy'"

section \<open>The agent is in step, or will be\<close>

text \<open>The nodes the agent will have once everything under way to it has arrived.\<close>

definition arriving :: "i32 \<Rightarrow> i32 \<Rightarrow> GetRouteRsp list \<Rightarrow> u64 set \<Rightarrow> u64 set" where
  "arriving m c rs cur =
    fold (\<lambda>r cur. if grs_modid r = m \<and> grs_cmdid r = c then route_keys (grs_hosts r) else cur) rs cur"

lemma arriving_simps [simp]:
  "arriving m c [] X = X"
  "arriving m c (r # rs) X = arriving m c rs (if grs_modid r = m \<and> grs_cmdid r = c then route_keys (grs_hosts r) else X)"
  "arriving m c (rs @ rs') X = arriving m c rs' (arriving m c rs X)"
  by (simp_all add: arriving_def)

lemma arriving_same:
  "(\<And>r. r \<in> set rs \<Longrightarrow> grs_modid r = m \<Longrightarrow> grs_cmdid r = c \<Longrightarrow> route_keys (grs_hosts r) = A) \<Longrightarrow>
   arriving m c rs X = (if \<exists>r \<in> set rs. grs_modid r = m \<and> grs_cmdid r = c then A else X)"
  by (induction rs arbitrary: X) auto

lemma arriving_less: "Y = {} \<or> Y = X \<Longrightarrow> arriving m c rs Y = {} \<or> arriving m c rs Y = arriving m c rs X"
  by (induction rs arbitrary: X Y) auto

definition answer_keys :: "i32 \<Rightarrow> i32 \<Rightarrow> Route \<Rightarrow> u64 set" where
  "answer_keys m c rt = route_keys (grs_hosts (dns_answer m c rt))"

lemma answer_keys_at: "answer_keys m c rt = route_keys (map decode_host (hosts_at (rt_data rt) (mkkey m c)))"
  by (simp add: answer_keys_def dns_answer_def getHosts_at)

lemma dns_answer_ids [simp]: "grs_modid (dns_answer m c rt) = m" "grs_cmdid (dns_answer m c rt) = c"
  by (simp_all add: dns_answer_def)

text \<open>A booked module: the nodes are those of the answer now, or there are none, or a push waits.\<close>

definition in_step :: "i32 \<Rightarrow> i32 \<Rightarrow> cfd \<Rightarrow> u64 set \<Rightarrow> DnsState \<Rightarrow> bool" where
  "in_step m c fd X s \<longleftrightarrow> ((mkkey m c, fd) \<in> booked (dn_sl s) \<longrightarrow>
     X = {} \<or> X = answer_keys m c (dn_route s) \<or> (fd, mkkey m c) \<in> waiting (dn_sl s))"

lemma in_step_less: "in_step m c fd X s \<Longrightarrow> Y = {} \<or> Y = X \<Longrightarrow> in_step m c fd Y s"
  by (auto simp: in_step_def)

text \<open>Every answer that is sent is the answer of the routes at that moment.\<close>

lemma in_step_sent:
  assumes "\<And>r. r \<in> set rs \<Longrightarrow> \<exists>m' c'. r = dns_answer m' c' (dn_route s)"
    and "(mkkey m c, fd) \<in> booked (dn_sl s) \<Longrightarrow> in_step m c fd X s \<or> (\<exists>r \<in> set rs. grs_modid r = m \<and> grs_cmdid r = c)"
  shows "in_step m c fd (arriving m c rs X) s"
proof -
  have "arriving m c rs X = (if \<exists>r \<in> set rs. grs_modid r = m \<and> grs_cmdid r = c then answer_keys m c (dn_route s) else X)"
  proof (rule arriving_same)
    fix r assume "r \<in> set rs" "grs_modid r = m" "grs_cmdid r = c"
    with assms(1) [of r] show "route_keys (grs_hosts r) = answer_keys m c (dn_route s)" by (auto simp: answer_keys_def)
  qed
  with assms(2) show ?thesis by (auto simp: in_step_def)
qed

lemma sent_to_simps [simp]:
  "sent_to fd [] = []" "sent_to fd (Send f r # outs) = (if f = fd then r # sent_to fd outs else sent_to fd outs)"
  "sent_to fd (Sql q # outs) = sent_to fd outs" "sent_to fd (Notify # outs) = sent_to fd outs"
  by (simp_all add: sent_to_def)

lemma sent_to_iff: "r \<in> set (sent_to fd outs) \<longleftrightarrow> Send fd r \<in> set outs"
  by (auto simp: sent_to_def split: dns_out.splits if_splits)

lemma step_request:
  assumes "dns_ok s" "dns_getRoute f p s = Inr (s', outs)" "in_step m c fd X s"
  shows "in_step m c fd (arriving m c (sent_to fd outs) X) s'"
proof (cases p)
  case (Some req)
  let ?k = "mkkey (grq_modid req) (grq_cmdid req)"
  from assms(2) Some have b: "book_module f req s = Inr s'"
    "outs = [Send f (dns_answer (grq_modid req) (grq_cmdid req) (dn_route s'))]"
    by (auto simp: dns_getRoute_def)
  note k = dns_ok_book [OF assms(1) b(1)]
  have bk: "booked (dn_sl s') = insert (?k, f) (booked (dn_sl s))"
  proof -
    have "booked (dn_sl s') = booked (dn_sl s) \<or> booked (dn_sl s') = insert (?k, f) (booked (dn_sl s))"
      using b(1) by (auto simp: book_module_def Let_def sl.bk_sub split: option.splits if_splits)
    with k(2) show ?thesis by auto
  qed
  show ?thesis
  proof (rule in_step_sent)
    fix r assume "r \<in> set (sent_to fd outs)"
    with b(2) show "\<exists>m' c'. r = dns_answer m' c' (dn_route s')" by (auto split: if_splits)
  next
    show "in_step m c fd X s' \<or> (\<exists>r \<in> set (sent_to fd outs). grs_modid r = m \<and> grs_cmdid r = c)"
      using assms(3) k(3,4) b(2) bk by (auto simp: in_step_def)
  qed
qed (use assms in \<open>simp add: dns_getRoute_def\<close>)

lemma step_push:
  assumes "dns_ok s" "dns_pushChange fds s = (s', outs)" "in_step m c fd X s" "0 \<le> sint c"
  shows "in_step m c fd (arriving m c (sent_to fd outs) X) s'"
proof -
  obtain sl' news where f: "sl_fetchPush fds (dn_sl s) = (sl', news)" by fastforce
  have ok: "sl_ok (dn_sl s)" using assms(1) by (simp add: dns_ok_def)
  from assms(2) f have s': "s' = s\<lparr>dn_sl := sl'\<rparr>" by (auto simp: dns_pushChange_def)
  note w = sl.fetch_wt [OF ok f] sl.fetch_bk [OF ok f]
  show ?thesis
  proof (rule in_step_sent)
    fix r assume "r \<in> set (sent_to fd outs)"
    with assms(2) f show "\<exists>m' c'. r = dns_answer m' c' (dn_route s')"
      by (auto simp: sent_to_iff dns_pushChange_def) blast
  next
    show "in_step m c fd X s' \<or> (\<exists>r \<in> set (sent_to fd outs). grs_modid r = m \<and> grs_cmdid r = c)"
    proof (cases "(fd, mkkey m c) \<in> waiting (dn_sl s) \<and> fd \<in> set fds")
      case True
      with pushed_answer [OF ok, of fd m c fds] assms(2,4) have "dns_answer m c (dn_route s) \<in> set (sent_to fd outs)"
        by (auto simp: sent_to_iff)
      then show ?thesis by (intro disjI2 bexI [of _ "dns_answer m c (dn_route s)"]) simp_all
    qed (use assms(3) w s' in \<open>auto simp: in_step_def\<close>)
  qed
qed

text \<open>One turn of the loader: the routes stay, or they are those of the rows and the changes wait.\<close>

lemma tick_routes:
  assumes "dl_tick ws now vers rows chgs (t, s) = ((t', s'), outs)"
  obtains "rt_data (dn_route s') = rt_data (dn_route s)"
  | rs where "rows = Some rs" "rt_data (dn_route s') = fold insert_row rs []"
      "new_version vers (dn_route s) \<Longrightarrow>
        waiting (dn_sl s') = waiting (dn_sl s) \<union> {(f, k). k \<in> change_keys chgs \<and> (k, f) \<in> booked (dn_sl s)}"
proof (cases rows)
  case None
  with assms have "rt_data (dn_route s') = rt_data (dn_route s)"
    by (auto simp: dl_tick_def Let_def Route_reload_def Route_loadVersion_def split: option.splits list.splits if_splits)
  then show ?thesis by (rule that)
next
  case (Some rs)
  show ?thesis
  proof (cases "new_version vers (dn_route s)")
    case True
    then obtain v vs where v: "vers = Some (v # vs)" "atol v \<noteq> routeVersion (dn_route s)"
      by (auto simp: new_version_def split: option.splits list.splits)
    have "rt_data (dn_route s') = fold insert_row rs []"
      "waiting (dn_sl s') = waiting (dn_sl s) \<union> {(f, k). k \<in> change_keys chgs \<and> (k, f) \<in> booked (dn_sl s)}"
      using assms v Some
      by (auto simp: dl_tick_def Let_def Route_reload_def Route_loadVersion_def Route_swap_def Route_loadChanges_def
          change_keys_def sl.wt_pushc split: option.splits list.splits)
    then show ?thesis by (intro that(2) [OF Some])
  next
    case False
    then have "snd (Route_loadVersion vers (dn_route s)) \<noteq> 1" "rt_data (fst (Route_loadVersion vers (dn_route s))) = rt_data (dn_route s)"
      by (auto simp: new_version_def Route_loadVersion_def split: option.splits list.splits)
    with assms Some have "rt_data (dn_route s') = rt_data (dn_route s) \<or> rt_data (dn_route s') = fold insert_row rs []"
      by (auto simp: dl_tick_def Let_def Route_reload_def Route_swap_def split: prod.splits if_splits)
    with False Some show ?thesis by (auto intro: that)
  qed
qed

lemma step_tick:
  assumes "dl_tick ws now vers rows chgs (t, s) = ((t', s'), outs)" "in_step m c fd X s"
    and l: "change_logged (Tick ws now vers rows chgs) s"
  shows "in_step m c fd (arriving m c (sent_to fd outs) X) s'"
proof -
  have o: "sent_to fd outs = []"
    using assms(1) by (auto simp: dl_tick_def Let_def split: prod.splits if_splits)
  have b: "booked (dn_sl s') = booked (dn_sl s)"
    using assms(1) by (auto simp: dl_tick_def Let_def sl.bk_pushc split: prod.splits if_splits)
  have ak: "answer_keys m c (dn_route s') = answer_keys m c (dn_route s)"
    if "set (hosts_at (rt_data (dn_route s')) (mkkey m c)) = set (hosts_at (rt_data (dn_route s)) (mkkey m c))"
    using that by (simp add: answer_keys_at route_keys_def)
  have "waiting (dn_sl s) \<subseteq> waiting (dn_sl s')"
    using assms(1) by (auto simp: dl_tick_def Let_def sl.wt_pushc split: prod.splits if_splits)
  moreover consider (keep) "rt_data (dn_route s') = rt_data (dn_route s)"
    | (load) rs where "rows = Some rs" "rt_data (dn_route s') = fold insert_row rs []"
        "new_version vers (dn_route s) \<Longrightarrow>
          waiting (dn_sl s') = waiting (dn_sl s) \<union> {(f, k). k \<in> change_keys chgs \<and> (k, f) \<in> booked (dn_sl s)}"
    by (rule tick_routes [OF assms(1)]) presburger+
  then have "set (hosts_at (rt_data (dn_route s')) (mkkey m c)) = set (hosts_at (rt_data (dn_route s)) (mkkey m c))
      \<or> ((mkkey m c, fd) \<in> booked (dn_sl s) \<longrightarrow> (fd, mkkey m c) \<in> waiting (dn_sl s'))"
  proof cases
    case (load rs)
    with l show ?thesis by (auto simp: change_logged_def table_of_rows(1))
  qed simp
  ultimately show ?thesis using assms(2) b ak by (auto simp: in_step_def o)
qed

lemma step_dns:
  assumes "dns_ok s" "dns_step e (t, s) = Inr ((t', s'), outs)" "in_step m c fd X s" "0 \<le> sint c"
    and "change_logged e s"
  shows "in_step m c fd (arriving m c (sent_to fd outs) X) s'"
proof (cases e)
  case (Connect f)
  with assms(2,3) show ?thesis by (auto simp: dns_createSubscribe_def in_step_def)
next
  case (Close f)
  with assms(2) obtain book where "dns_clearSubscribe f s = Inr s'" "outs = []" by auto
  with assms(1,3) show ?thesis
    by (auto simp: dns_clearSubscribe_def in_step_def sl.unsub_all(1,2) split: option.splits)
next
  case (Request f p)
  with assms(2) have "dns_getRoute f p s = Inr (s', outs)" by auto
  then show ?thesis by (rule step_request [OF assms(1) _ assms(3)])
next
  case (PushTask fds)
  with assms(2) have "dns_pushChange fds s = (s', outs)" by (auto split: prod.splits)
  then show ?thesis by (rule step_push [OF assms(1) _ assms(3,4)])
next
  case (Tick ws now vers rows chgs)
  with assms(2,5) step_tick [OF _ assms(3)] show ?thesis by simp
qed

text \<open>The invariant of the two processes and what is under way between them.\<close>

definition sys_ok :: "LbConfigure \<Rightarrow> System \<Rightarrow> bool" where
  "sys_ok cfg sy \<longleftrightarrow> agent_ok cfg (sy_agent sy) \<and> dns_ok (sy_dns sy) \<and>
     (\<forall>m c. 0 \<le> sint c \<longrightarrow> 0 \<le> sint (m + c) \<longrightarrow>
        in_step m c (sy_fd sy) (arriving m c (sy_down sy) (ag_nodes m c (sy_agent sy))) (sy_dns sy))"

lemma sys_okD:
  assumes "sys_ok cfg sy"
  shows "agent_ok cfg (sy_agent sy)" "dns_ok (sy_dns sy)"
    "0 \<le> sint c \<Longrightarrow> 0 \<le> sint (m + c) \<Longrightarrow>
      in_step m c (sy_fd sy) (arriving m c (sy_down sy) (ag_nodes m c (sy_agent sy))) (sy_dns sy)"
  using assms by (auto simp: sys_ok_def)

lemma dns_part_ok:
  assumes "sys_ok cfg sy" "dns_part e sy = Inr sy'" "fresh_connects e (sy_dns sy)" "change_logged e (sy_dns sy)"
  shows "sys_ok cfg sy'" "sy_agent sy' = sy_agent sy" "sy_fd sy' = sy_fd sy" "sy_up sy' = sy_up sy"
proof -
  from assms(2) obtain t s outs where d: "dns_step e (sy_load sy, sy_dns sy) = Inr ((t, s), outs)"
    "sy' = sy\<lparr>sy_load := t, sy_dns := s, sy_down := sy_down sy @ sent_to (sy_fd sy) outs\<rparr>"
    by (auto simp: dns_part_def)
  then show "sy_agent sy' = sy_agent sy" "sy_fd sy' = sy_fd sy" "sy_up sy' = sy_up sy" by simp_all
  note i = sys_okD [OF assms(1)]
  show "sys_ok cfg sy'"
    using i(1) dns_ok_step [OF i(2) assms(3) d(1)] step_dns [OF i(2) d(1) i(3) _ assms(4)]
    by (simp add: sys_ok_def d(2))
qed

text \<open>A step of the agent that takes the answers \<open>taken\<close> off the connection.\<close>

lemma agent_part_ok:
  assumes "sys_ok cfg sy0" "agent_part cfg MyIp e sy = Inr sy'"
    and "sy_agent sy = sy_agent sy0" "sy_dns sy = sy_dns sy0" "sy_fd sy = sy_fd sy0" "sy_down sy0 = taken @ sy_down sy"
    and "\<And>m c ag out. 0 \<le> sint (m + c) \<Longrightarrow> agent_step cfg MyIp e (sy_agent sy0) = Inr (ag, out) \<Longrightarrow>
      ag_nodes m c ag = {} \<or> ag_nodes m c ag = arriving m c taken (ag_nodes m c (sy_agent sy0))"
  shows "sys_ok cfg sy'"
proof -
  from assms(2,3) obtain ag out where a: "agent_step cfg MyIp e (sy_agent sy0) = Inr (ag, out)"
    "sy' = sy\<lparr>sy_agent := ag, sy_up := sy_up sy @ (case out of ToDns rs \<Rightarrow> rs | _ \<Rightarrow> [])\<rparr>"
    by (auto simp: agent_part_def)
  note i = sys_okD [OF assms(1)]
  have "agent_ok cfg ag" using ag.step_inv [OF i(1) _ a(1)] by simp
  moreover have "in_step m c (sy_fd sy0) (arriving m c (sy_down sy) (ag_nodes m c ag)) (sy_dns sy0)"
    if "0 \<le> sint c" "0 \<le> sint (m + c)" for m c
    using in_step_less [OF i(3) [OF that], of "arriving m c (sy_down sy) (ag_nodes m c ag)"]
      arriving_less [OF assms(7) [OF that(2) a(1)], where rs = "sy_down sy"] by (simp add: assms(6))
  ultimately show ?thesis using i(2) assms(4,5) by (simp add: sys_ok_def a(2))
qed

lemma reconnect_ok:
  assumes "sys_ok cfg sy" "sys_allowed (Reconnect fd) sy" "sys_step cfg MyIp (Reconnect fd) sy = Inr sy'"
  shows "sys_ok cfg sy'"
proof -
  from assms(3) obtain sy1 sy2 where r: "dns_part (Close (sy_fd sy)) sy = Inr sy1" "dns_part (Connect fd) sy1 = Inr sy2"
    "agent_part cfg MyIp DssConnected (sy2\<lparr>sy_fd := fd, sy_up := [], sy_down := []\<rparr>) = Inr sy'"
    by auto
  have s1: "sys_ok cfg sy1"
    using dns_part_ok(1) [OF assms(1) r(1)] by (simp add: fresh_connects_def change_logged_def)
  have "keys_of (dn_conns (sy_dns sy1)) = keys_of (dn_conns (sy_dns sy)) - {sy_fd sy}"
    using r(1) by (auto simp: dns_part_def dns_clearSubscribe_def split: option.splits)
  with assms(2) have f: "fd \<notin> keys_of (dn_conns (sy_dns sy1))" by (auto simp: sys_allowed_def)
  then have s2: "sys_ok cfg sy2"
    using dns_part_ok(1) [OF s1 r(2)] by (simp add: fresh_connects_def change_logged_def)
  have "map_of (dn_conns (sy_dns sy2)) fd = Some []"
    using r(2) by (auto simp: dns_part_def dns_createSubscribe_def hm.find_put)
  then have "(k, fd) \<notin> booked (dn_sl (sy_dns sy2))" for k
    using sys_okD(2) [OF s2] by (simp add: dns_ok_def interests_iff)
  then have "sys_ok cfg (sy2\<lparr>sy_fd := fd, sy_up := [], sy_down := []\<rparr>)"
    using sys_okD(1,2) [OF s2] by (simp add: sys_ok_def in_step_def)
  from agent_part_ok [OF this r(3), where taken = "[]"] whenConnected_nodes [OF sys_okD(1) [OF s2]]
  show ?thesis by auto
qed

lemma sys_step_ok:
  assumes "sys_ok cfg sy" "sys_allowed e sy" "sys_step cfg MyIp e sy = Inr sy'"
  shows "sys_ok cfg sy'"
proof (cases e)
  case (DnsEv e')
  with assms dns_part_ok(1) [OF assms(1)] show ?thesis by (simp add: sys_allowed_def)
next
  case (UdpEv i now req)
  with assms(3) have s: "agent_part cfg MyIp (Udp i now req) sy = Inr sy'" by simp
  show ?thesis
    by (rule agent_part_ok [OF assms(1) s, where taken = "[]"])
       (auto dest: udp_nodes [OF sys_okD(1) [OF assms(1)]])
next
  case SendPulls
  with assms(3) have s: "agent_part cfg MyIp DrainPulls sy = Inr sy'" by simp
  show ?thesis by (rule agent_part_ok [OF assms(1) s, where taken = "[]"]) (auto simp: newPullReq_def)
next
  case SendReports
  with assms(3) have s: "agent_part cfg MyIp DrainReports sy = Inr sy'" by simp
  show ?thesis by (rule agent_part_ok [OF assms(1) s, where taken = "[]"]) (auto simp: newReportReq_def)
next
  case RequestIn
  show ?thesis
  proof (cases "sy_up sy")
    case (Cons req rs)
    have "sys_ok cfg (sy\<lparr>sy_up := rs\<rparr>)" using assms(1) by (simp add: sys_ok_def)
    from dns_part_ok(1) [OF this] Cons RequestIn assms(3) show ?thesis
      by (simp add: fresh_connects_def change_logged_def)
  qed (use RequestIn assms in simp)
next
  case (AnswerIn now)
  show ?thesis
  proof (cases "sy_down sy")
    case (Cons rsp rs)
    with AnswerIn assms(3) have s: "agent_part cfg MyIp (DssRoute now rsp) (sy\<lparr>sy_down := rs\<rparr>) = Inr sy'" by simp
    show ?thesis
      by (rule agent_part_ok [OF assms(1) s, where taken = "[rsp]"])
         (auto simp: Cons recvRoute_nodes [OF sys_okD(1) [OF assms(1)]])
  qed (use AnswerIn assms in simp)
next
  case (Reconnect fd)
  with assms show ?thesis by (simp only: reconnect_ok)
qed

lemma sys_start_ok: "config_ok cfg \<Longrightarrow> sys_ok cfg (sys_start t rt fd)"
proof -
  assume c: "config_ok cfg"
  have "ag_nodes m c new_Agent = {}" if "0 \<le> sint (m + c)" for m c
    using shard_nonneg [OF that] by (auto simp: ag_nodes_def new_Agent_def nodes_in_def new_RouteLB_def nth_Cons split: nat.split)
  moreover have "dns_ok (dns_createSubscribe fd (dns_start rt))"
    by (rule dns_ok_connect) (auto simp: dns_ok_def dns_start_def sl_ok_ops interests_def keys_of_def)
  ultimately show ?thesis using c
    by (auto simp: sys_ok_def sys_start_def agent_ok_def new_Agent_def [symmetric] in_step_def)
       (simp add: new_Agent_def wf_new_RouteLB)+
qed

lemma sys_reach_ok: "sys_reach cfg MyIp sy \<Longrightarrow> config_ok cfg \<Longrightarrow> sys_ok cfg sy"
  by (induction rule: sys_reach.induct) (auto intro: sys_start_ok sys_step_ok)

section \<open>From the rows of the database to a client\<close>

text \<open>The entry of a module in the agent's tables, and what an arriving route makes of it.\<close>

definition ag_module :: "i32 \<Rightarrow> i32 \<Rightarrow> Agent \<Rightarrow> LB option" where
  "ag_module m c ag = map_of (routeMap (ag_routes ag ! nat (shard m c))) (mkkey m c)"

lemma ag_module_ok: "agent_ok cfg ag \<Longrightarrow> 0 \<le> sint (m + c) \<Longrightarrow> ag_module m c ag = Some lb \<Longrightarrow> wf_LB cfg lb"
  using wf_table by (fastforce simp: ag_module_def mod_ok_def dest: wf_RouteLB_lookup)

lemma recvRoute_module:
  assumes "agent_ok cfg ag" "0 \<le> sint (m + c)" "0 \<le> sint (grs_modid r + grs_cmdid r)"
  shows "\<exists>ag'. recvRoute cfg now r ag = Inr ag' \<and> agent_ok cfg ag'
    \<and> (grs_modid r = m \<and> grs_cmdid r = c \<longrightarrow> grs_hosts r \<noteq> [] \<longrightarrow>
        (\<forall>lb. ag_module m c ag = Some lb \<longrightarrow> (\<exists>lb'. LB_update cfg now (grs_hosts r) lb = Inr lb' \<and> ag_module m c ag' = Some lb')))
    \<and> (\<not> (grs_modid r = m \<and> grs_cmdid r = c) \<longrightarrow> ag_module m c ag' = ag_module m c ag)"
proof -
  let ?m = "grs_modid r" and ?c = "grs_cmdid r"
  let ?rl = "ag_routes ag ! nat (shard ?m ?c)"
  have i: "nth_table (shard ?m ?c) ag = Inr ?rl" using nth_table_shard [OF assms(1,3)] .
  have w: "config_ok cfg" "wf_RouteLB cfg ?rl" using agent_ok_nth [OF assms(1) i] by auto
  have "ends (\<lambda>_. False) (all_mods (ident_ok cfg (\<lambda>_. True))) (RouteLB_update cfg now ?m ?c (grs_hosts r) ?rl)"
    by (rule mi.update_keeps) (use w in \<open>simp add: wf_RouteLB_ident\<close>)
  then obtain rl' where u: "RouteLB_update cfg now ?m ?c (grs_hosts r) ?rl = Inr rl'"
    by (cases "RouteLB_update cfg now ?m ?c (grs_hosts r) ?rl") auto
  let ?ag = "set_table (shard ?m ?c) rl' ag"
  have e: "recvRoute cfg now r ag = Inr ?ag" using i u by (simp add: recvRoute_def Let_def)
  then have ok: "agent_ok cfg ?ag" using recvRoute_safe [OF assms(1), of now r] by simp
  have len: "nat (shard ?m ?c) < length (ag_routes ag)"
    using shard_nonneg [OF assms(3)] assms(1) by (auto simp: agent_ok_def)
  have t: "ag_routes ?ag ! nat (shard m c) = (if nat (shard m c) = nat (shard ?m ?c) then rl' else ag_routes ag ! nat (shard m c))"
    using len by (simp add: set_table_def nth_list_update)
  have other: "map_of (routeMap rl') k = map_of (routeMap ?rl) k" if "k \<noteq> mkkey ?m ?c" for k
    using u that by (auto simp: RouteLB_update_def Let_def put_lb_def hm.find_put hm.find_erase split: option.splits if_splits)
  have "ag_module m c ?ag = ag_module m c ag" if "\<not> (?m = m \<and> ?c = c)"
  proof -
    have "mkkey m c \<noteq> mkkey ?m ?c" using that by auto
    from other [OF this] t show ?thesis by (auto simp: ag_module_def)
  qed
  moreover have "\<exists>lb'. LB_update cfg now (grs_hosts r) lb = Inr lb' \<and> ag_module m c ?ag = Some lb'"
    if "?m = m" "?c = c" "grs_hosts r \<noteq> []" "ag_module m c ag = Some lb" for lb
    using that u t by (auto simp: ag_module_def RouteLB_update_def Let_def put_lb_def hm.find_put)
  ultimately show ?thesis using e ok by blast
qed

text \<open>Answers that arrive one after the other, all for modules that have a table.\<close>

lemma answers_arrive:
  assumes "agent_ok cfg (sy_agent sy)" "0 \<le> sint (m + c)" "hosts \<noteq> []"
    and "list_all (\<lambda>r. 0 \<le> sint (grs_modid r + grs_cmdid r) \<and> (grs_modid r = m \<and> grs_cmdid r = c \<longrightarrow> grs_hosts r = hosts)) (sy_down sy)"
    and "ag_module m c (sy_agent sy) = Some lb" "downList lb = []" "set (route_of lb) \<noteq> set hosts \<or> version lb = Some now"
  shows "\<exists>sy' lb'. foldM (\<lambda>sy e. sys_step cfg MyIp e sy) sy (replicate (length (sy_down sy)) (AnswerIn now)) = Inr sy'
    \<and> agent_ok cfg (sy_agent sy') \<and> sy_dns sy' = sy_dns sy \<and> sy_down sy' = [] \<and> ag_module m c (sy_agent sy') = Some lb'
    \<and> downList lb' = []
    \<and> (if \<exists>r \<in> set (sy_down sy). grs_modid r = m \<and> grs_cmdid r = c then set (route_of lb') = set hosts \<and> version lb' = Some now
       else lb' = lb)"
  using assms
proof (induction "sy_down sy" arbitrary: sy lb)
  case Nil
  then show ?case by simp
next
  case (Cons r rs)
  note d = Cons(2) [symmetric] and p = Cons.prems
  from p(4) d have r: "0 \<le> sint (grs_modid r + grs_cmdid r)" "grs_modid r = m \<and> grs_cmdid r = c \<longrightarrow> grs_hosts r = hosts"
    by simp_all
  have c: "config_ok cfg" using p(1) by (simp add: agent_ok_def)
  from recvRoute_module [OF p(1,2) r(1), of now] obtain ag' where a:
    "recvRoute cfg now r (sy_agent sy) = Inr ag'" "agent_ok cfg ag'"
    "grs_modid r = m \<and> grs_cmdid r = c \<longrightarrow> (\<exists>lb'. LB_update cfg now hosts lb = Inr lb' \<and> ag_module m c ag' = Some lb')"
    "\<not> (grs_modid r = m \<and> grs_cmdid r = c) \<longrightarrow> ag_module m c ag' = Some lb"
    using p(3,5) r(2) by fastforce
  let ?sy = "sy\<lparr>sy_agent := ag', sy_down := rs\<rparr>"
  have s: "sys_step cfg MyIp (AnswerIn now) sy = Inr ?sy"
    using a(1) by (simp add: d agent_part_def)
  have "\<exists>lb1. ag_module m c ag' = Some lb1 \<and> downList lb1 = [] \<and> (set (route_of lb1) \<noteq> set hosts \<or> version lb1 = Some now)
      \<and> (if grs_modid r = m \<and> grs_cmdid r = c then set (route_of lb1) = set hosts \<and> version lb1 = Some now else lb1 = lb)"
  proof (cases "grs_modid r = m \<and> grs_cmdid r = c")
    case True
    with a(3) obtain lb' where u: "LB_update cfg now hosts lb = Inr lb'" "ag_module m c ag' = Some lb'" by auto
    note w = ag_module_ok [OF p(1,2,5)]
    from LB_update_spec [OF w c p(3), of now] u(1) have v: "wf_LB cfg lb'" "keys_of (hostMap lb') = route_keys hosts"
      "version lb' = (if keys_of (hostMap lb) = route_keys hosts then version lb else Some now)" "downList lb' = []"
      using p(6) by (metis Inr_inject filter.simps(1))+
    have "set (route_of lb') = set hosts" by (rule route_of_update [OF v(1,2)])
    moreover have "version lb' = Some now" using v(3) p(7) route_of_update [OF w] by auto
    ultimately show ?thesis using True u(2) v(4) by simp
  qed (use a(4) p(5-7) in auto)
  then obtain lb1 where l: "ag_module m c ag' = Some lb1" "downList lb1 = []" "set (route_of lb1) \<noteq> set hosts \<or> version lb1 = Some now"
    "if grs_modid r = m \<and> grs_cmdid r = c then set (route_of lb1) = set hosts \<and> version lb1 = Some now else lb1 = lb" by auto
  have pr: "list_all (\<lambda>r. 0 \<le> sint (grs_modid r + grs_cmdid r) \<and> (grs_modid r = m \<and> grs_cmdid r = c \<longrightarrow> grs_hosts r = hosts)) rs"
    using p(4) d by simp
  from Cons(1) [of ?sy lb1] a(2) p(2,3) pr l(1-3) obtain sy' lb' where
    "foldM (\<lambda>sy e. sys_step cfg MyIp e sy) ?sy (replicate (length rs) (AnswerIn now)) = Inr sy'"
    "agent_ok cfg (sy_agent sy')" "sy_dns sy' = sy_dns sy" "sy_down sy' = []" "ag_module m c (sy_agent sy') = Some lb'" "downList lb' = []"
    "if \<exists>r \<in> set rs. grs_modid r = m \<and> grs_cmdid r = c then set (route_of lb') = set hosts \<and> version lb' = Some now else lb' = lb1"
    by auto
  with s l(4) show ?case by (auto simp: d split: if_splits)
qed

lemma tick_new_version:
  assumes "dns_ok s" "atol v \<noteq> routeVersion (dn_route s)"
  obtains s' outs where "dl_tick ws now (Some (v # vs)) (Some rows) (Some chgs) (t, s) = ((now, s'), outs)"
    "sent_to fd outs = []" "rt_data (dn_route s') = fold insert_row rows []" "booked (dn_sl s') = booked (dn_sl s)"
    "waiting (dn_sl s') = waiting (dn_sl s) \<union> {(f, k). k \<in> change_keys (Some chgs) \<and> (k, f) \<in> booked (dn_sl s)}"
    "dns_ok s'"
proof -
  obtain s' outs where d: "dl_tick ws now (Some (v # vs)) (Some rows) (Some chgs) (t, s) = ((now, s'), outs)"
    "sent_to fd outs = []" "rt_data (dn_route s') = fold insert_row rows []" "booked (dn_sl s') = booked (dn_sl s)"
    "waiting (dn_sl s') = waiting (dn_sl s) \<union> {(f, k). k \<in> change_keys (Some chgs) \<and> (k, f) \<in> booked (dn_sl s)}"
    using assms(2)
    by (cases chgs) (auto simp: dl_tick_def Let_def Route_reload_def Route_loadVersion_def Route_swap_def Route_loadChanges_def
        change_keys_def sl.wt_pushc sl.bk_pushc)
  have "dns_ok s'"
    by (rule dns_ok_step [OF assms(1), of "Tick ws now (Some (v # vs)) (Some rows) (Some chgs)" t now s' outs])
       (simp_all add: fresh_connects_def d(1))
  with d show ?thesis by (rule that)
qed

text \<open>The loader announces, the push goes out: the answers then under way are those of the changed modules.\<close>

definition proper :: "(string \<times> string) list \<Rightarrow> bool" where
  "proper chgs \<longleftrightarrow> list_all (\<lambda>(a, b). 0 \<le> sint (atoi b) \<and> 0 \<le> sint (atoi a + atoi b)) chgs"

lemma push_announces:
  assumes "dns_ok s" "waiting (dn_sl s) \<inter> {fd} \<times> UNIV = {(fd, k) |k. k \<in> change_keys (Some chgs) \<and> (k, fd) \<in> booked (dn_sl s)}"
    and "proper chgs" "fd \<in> set fds" "dns_pushChange fds s = (s', outs)"
  shows "r \<in> set (sent_to fd outs) \<longleftrightarrow> (\<exists>m c. 0 \<le> sint c \<and> 0 \<le> sint (m + c) \<and> mkkey m c \<in> change_keys (Some chgs)
      \<and> (mkkey m c, fd) \<in> booked (dn_sl s) \<and> r = dns_answer m c (dn_route s))"
proof
  obtain sl' news where f: "sl_fetchPush fds (dn_sl s) = (sl', news)" by fastforce
  have ok: "sl_ok (dn_sl s)" using assms(1) by (simp add: dns_ok_def)
  assume "r \<in> set (sent_to fd outs)"
  with assms(5) f obtain k ms where k: "(fd, ms) \<in> set news" "k \<in> set ms" "r = dns_answer (key_hi k) (key_lo k) (dn_route s)"
    by (auto simp: sent_to_iff dns_pushChange_def)
  have "map_of news fd = Some ms" using k(1) sl.fetch_distinct [OF ok f] by simp
  then have "(fd, k) \<in> related news" using k(2) by (simp add: related_iff entry_def)
  then have "(fd, k) \<in> waiting (dn_sl s) \<inter> {fd} \<times> UNIV" using sl.fetch_news [OF ok f] by simp
  then have c: "k \<in> change_keys (Some chgs)" "(k, fd) \<in> booked (dn_sl s)" unfolding assms(2) by auto
  then obtain a b where "(a, b) \<in> set chgs" "k = mkkey (atoi a) (atoi b)" by (auto simp: change_keys_def)
  moreover with assms(3) have "0 \<le> sint (atoi b)" "0 \<le> sint (atoi a + atoi b)" by (auto simp: proper_def list_all_iff)
  ultimately show "\<exists>m c. 0 \<le> sint c \<and> 0 \<le> sint (m + c) \<and> mkkey m c \<in> change_keys (Some chgs)
      \<and> (mkkey m c, fd) \<in> booked (dn_sl s) \<and> r = dns_answer m c (dn_route s)"
    using c k(3) by (intro exI [of _ "atoi a"] exI [of _ "atoi b"]) (auto simp: key_hi_mkkey)
next
  assume "\<exists>m c. 0 \<le> sint c \<and> 0 \<le> sint (m + c) \<and> mkkey m c \<in> change_keys (Some chgs)
      \<and> (mkkey m c, fd) \<in> booked (dn_sl s) \<and> r = dns_answer m c (dn_route s)"
  then obtain m c where mc: "0 \<le> sint c" "mkkey m c \<in> change_keys (Some chgs)" "(mkkey m c, fd) \<in> booked (dn_sl s)"
    "r = dns_answer m c (dn_route s)" by auto
  then have "(fd, mkkey m c) \<in> waiting (dn_sl s)" using assms(2) by blast
  from pushed_answer [OF _ this assms(4)] assms(1,5) mc show "r \<in> set (sent_to fd outs)"
    by (simp add: sent_to_iff dns_ok_def not_less [symmetric])
qed

text \<open>A client whose route is two seconds old asks for it again and is given a node of the new one.\<close>

lemma refresh_served:
  assumes "\<not> hb_die (en_now en) (en_hb en)" "0 \<le> sint (m + c)"
    and "getCache m c (ec_cache cl) = Some cu" "cu_modid cu = m" "cu_cmdid cu = c" "2 \<le> en_now en - cu_lstUpdTs cu"
    and "en_head en + msg_size_of (en_wire en) (M_CacheBatchRptReq (batch_req cu)) \<le> 4096"
    and "v \<noteq> cu_version cu" "v \<noteq> - 1"
  shows "\<exists>cl' sent. apiGetHost en m c cl (net_of (Pkt (CacheRsp \<lparr> cgr_modid = m, cgr_cmdid = c, cgr_version = v,
        cgr_overload = Some False, cgr_route = a # as \<rparr>) # ps) sent0) =
      Inr (cl', 0, Some (inet_ntoa (ha_ip a), ha_port a), net_of ps sent)
    \<and> last sent = (shard m c, CacheGetRoute \<lparr> cgq_modid = m, cgq_cmdid = c, cgq_version = cu_version cu \<rparr>)"
proof -
  let ?n = "net_of (Pkt (CacheRsp \<lparr> cgr_modid = m, cgr_cmdid = c, cgr_version = v, cgr_overload = Some False,
      cgr_route = a # as \<rparr>) # ps)"
  have s: "0 \<le> shard m c" "shard m c < 3" using shard_nonneg [OF assms(2)] by auto
  obtain cu' sent1 where b: "batchReportRes en cu (?n sent0) = Inr (cu', ?n sent1)" "cu_version cu' = cu_version cu"
    using assms(4,5,7) s
    by (cases "cu_succCnt cu = 0") (auto simp: batchReportRes_def Let_def api_send_def net_of_def)
  show ?thesis
    using assms(1,3,6,8,9) s b
    by (simp add: apiGetHost_def Let_def refreshRoute_def getRoute4Cache_def api_send_def api_recv_def net_of_def take_route_def
        getCache_put fill_unit_def serveHost_def CacheUnit_getHost_def take_front_def)
qed

lemma change_installed:
  assumes "agent_ok cfg (sy_agent sy)" "dns_ok (sy_dns sy)" "0 \<le> sint c" "0 \<le> sint (m + c)"
    and "sy_down sy = []" "\<forall>k. (sy_fd sy, k) \<notin> waiting (dn_sl (sy_dns sy))"
    and "(mkkey m c, sy_fd sy) \<in> booked (dn_sl (sy_dns sy))" "ag_module m c (sy_agent sy) = Some lb" "downList lb = []"
    and "atol v \<noteq> routeVersion (dn_route (sy_dns sy))" "proper chgs" "mkkey m c \<in> change_keys (Some chgs)" "sy_fd sy \<in> set fds"
    and H: "H = decode_host ` {u. row_in (mkkey m c) u rows}" "H \<noteq> {}" "set (route_of lb) \<noteq> H"
  shows "\<exists>n sy' lb'. foldM (\<lambda>sy e. sys_step cfg MyIp e sy) sy
        (DnsEv (Tick ws now (Some (v # vs)) (Some rows) (Some chgs)) # DnsEv (PushTask fds) # replicate n (AnswerIn t)) = Inr sy'
    \<and> agent_ok cfg (sy_agent sy') \<and> sy_down sy' = [] \<and> ag_module m c (sy_agent sy') = Some lb'
    \<and> set (route_of lb') = H \<and> downList lb' = [] \<and> version lb' = Some t"
proof -
  let ?fd = "sy_fd sy"
  obtain s1 outs1 where k1:
    "dl_tick ws now (Some (v # vs)) (Some rows) (Some chgs) (sy_load sy, sy_dns sy) = ((now, s1), outs1)"
    "sent_to ?fd outs1 = []" "rt_data (dn_route s1) = fold insert_row rows []" "booked (dn_sl s1) = booked (dn_sl (sy_dns sy))"
    "waiting (dn_sl s1) = waiting (dn_sl (sy_dns sy)) \<union> {(f, k). k \<in> change_keys (Some chgs) \<and> (k, f) \<in> booked (dn_sl (sy_dns sy))}"
    "dns_ok s1"
    by (rule tick_new_version [OF assms(2,10), of ws now vs rows chgs "sy_load sy" ?fd])
  obtain s2 outs2 where k2: "dns_pushChange fds s1 = (s2, outs2)" by fastforce
  have w: "waiting (dn_sl s1) \<inter> {?fd} \<times> UNIV = {(?fd, k) |k. k \<in> change_keys (Some chgs) \<and> (k, ?fd) \<in> booked (dn_sl s1)}"
    using assms(6) by (auto simp: k1(4,5))
  note a = push_announces [OF k1(6) w assms(11,13) k2]
  let ?sy = "sy\<lparr>sy_load := now, sy_dns := s2, sy_down := sent_to ?fd outs2\<rparr>"
  let ?hosts = "grs_hosts (dns_answer m c (dn_route s1))"
  have h: "set ?hosts = H" using table_of_rows(1) [of rows "mkkey m c"] H(1) by (simp add: dns_answer_def getHosts_at k1(3))
  have l: "list_all (\<lambda>r. 0 \<le> sint (grs_modid r + grs_cmdid r) \<and> (grs_modid r = m \<and> grs_cmdid r = c \<longrightarrow> grs_hosts r = ?hosts)) (sy_down ?sy)"
    unfolding list_all_iff by (auto simp: a)
  have ne: "?hosts \<noteq> []" "set (route_of lb) \<noteq> set ?hosts \<or> version lb = Some t" using H h by auto
  have ans: "dns_answer m c (dn_route s1) \<in> set (sy_down ?sy)"
  proof -
    have "(mkkey m c, ?fd) \<in> booked (dn_sl s1)" using assms(7) by (simp add: k1(4))
    with assms(3,4,12) have "dns_answer m c (dn_route s1) \<in> set (sent_to ?fd outs2)"
      unfolding a by (intro exI conjI) (rule refl | assumption)+
    then show ?thesis by simp
  qed
  then have ex: "\<exists>r \<in> set (sy_down ?sy). grs_modid r = m \<and> grs_cmdid r = c" by (rule bexI [rotated]) simp
  have "agent_ok cfg (sy_agent ?sy)" "ag_module m c (sy_agent ?sy) = Some lb" using assms(1,8) by simp_all
  from answers_arrive [OF this(1) assms(4) ne(1) l this(2) assms(9) ne(2), of MyIp] obtain sy' lb' where d:
    "foldM (\<lambda>sy e. sys_step cfg MyIp e sy) ?sy (replicate (length (sy_down ?sy)) (AnswerIn t)) = Inr sy'"
    "agent_ok cfg (sy_agent sy')" "sy_down sy' = []" "ag_module m c (sy_agent sy') = Some lb'" "downList lb' = []"
    "set (route_of lb') = H" "version lb' = Some t"
    unfolding if_P [OF ex] h by metis
  have "sys_step cfg MyIp (DnsEv (Tick ws now (Some (v # vs)) (Some rows) (Some chgs))) sy = Inr (sy\<lparr>sy_load := now, sy_dns := s1\<rparr>)"
    by (simp add: dns_part_def k1(1,2))
  moreover have "sys_step cfg MyIp (DnsEv (PushTask fds)) (sy\<lparr>sy_load := now, sy_dns := s1\<rparr>) = Inr ?sy"
    by (simp add: dns_part_def k2 assms(5))
  ultimately have "foldM (\<lambda>sy e. sys_step cfg MyIp e sy) sy
        (DnsEv (Tick ws now (Some (v # vs)) (Some rows) (Some chgs)) # DnsEv (PushTask fds)
          # replicate (length (sy_down ?sy)) (AnswerIn t)) = Inr sy'"
    by (simp only: foldM.simps rbind_simps d(1))
  with d(2-) show ?thesis by blast
qed

section \<open>A first route\<close>

definition ex_rows_route :: Route where
  "ex_rows_route = \<lparr> routeVersion = 7, rt_data = [(mkkey 1 2, [addr_key (ex_addr 0)])], rt_tmp = [], unfreed = 0 \<rparr>"

text \<open>A client asks, the agent pulls, the dnsserver books and answers, the answer arrives.\<close>

lemma ex_system:
  "\<exists>sy lb. sys_reach ex_cfg 7 sy \<and> sy_fd sy = 5 \<and> sy_down sy = [] \<and> (\<forall>k. (5, k) \<notin> waiting (dn_sl (sy_dns sy)))
     \<and> (mkkey 1 2, 5) \<in> booked (dn_sl (sy_dns sy)) \<and> dn_route (sy_dns sy) = ex_rows_route
     \<and> ag_module 1 2 (sy_agent sy) = Some lb \<and> downList lb = [] \<and> set (route_of lb) = {ex_addr 0}"
proof -
  have sh: "shard 1 2 = 0" by (simp add: shard_def c_rem_def)
  let ?lb = "(new_LB 1 2)\<lparr>status := ISPULLING\<rparr>"
  let ?rl = "put_lb (mkkey 1 2) ?lb (new_RouteLB 1)" and ?q = "\<lparr> grq_modid = 1, grq_cmdid = 2 \<rparr>"
  let ?ag = "new_Agent\<lparr>ag_routes := [?rl, new_RouteLB 2, new_RouteLB 3]\<rparr>"
  let ?s0 = "sys_start 0 ex_rows_route 5"
  let ?s1 = "?s0\<lparr>sy_agent := ?ag\<lparr>ag_pullq := [?q]\<rparr>\<rparr>" and ?s2 = "?s0\<lparr>sy_agent := ?ag, sy_up := [?q]\<rparr>"
  let ?dns = "(sy_dns ?s0)\<lparr> dn_conns := [(5, [mkkey 1 2])], dn_sl := sl_subscribe (mkkey 1 2) 5 new_SubscribeList \<rparr>"
  let ?rsp = "\<lparr> grs_modid = 1, grs_cmdid = 2, grs_hosts = [ex_addr 0] \<rparr>"
  let ?s3 = "?s0\<lparr>sy_agent := ?ag, sy_dns := ?dns, sy_down := [?rsp]\<rparr>"
  have "sys_step ex_cfg 7 (UdpEv 0 100 (GetHost \<lparr> ghq_seq = 0, ghq_modid = 1, ghq_cmdid = 2 \<rparr>)) ?s0 = Inr ?s1"
    by (simp add: sys_start_def agent_part_def agent_udp_def nth_table_def set_table_def getHost_cb_def RouteLB_getHost_def
        first_pull_eq pulls_in_def repts_in_def new_Agent_def new_RouteLB_def)
  then have r1: "sys_reach ex_cfg 7 ?s1" by (rule sys_reach.step [OF sys_reach.start, rotated]) (simp add: sys_allowed_def)
  have "sys_step ex_cfg 7 SendPulls ?s1 = Inr ?s2"
    by (simp add: sys_start_def agent_part_def newPullReq_def new_Agent_def)
  then have r2: "sys_reach ex_cfg 7 ?s2" by (rule sys_reach.step [OF r1, rotated]) (simp add: sys_allowed_def)
  have "decode_host (addr_key (ex_addr 0)) = ex_addr 0"
    by (simp add: decode_host_def addr_key_def key_hi_mkkey ex_addr_def)
  then have "sys_step ex_cfg 7 RequestIn ?s2 = Inr ?s3"
    by (simp add: sys_start_def dns_part_def dns_getRoute_def book_module_def dns_createSubscribe_def dns_start_def
        dns_answer_def Route_getHosts_def ex_rows_route_def Let_def)
  then have r3: "sys_reach ex_cfg 7 ?s3" by (rule sys_reach.step [OF r2, rotated]) (simp add: sys_allowed_def)
  have w: "agent_ok ex_cfg (sy_agent ?s3)" "ag_module 1 2 (sy_agent ?s3) = Some ?lb"
    using sys_okD(1) [OF sys_reach_ok [OF r3 ex_cfg_ok]] by (simp_all add: ag_module_def sh)
  obtain s4 lb where s4: "foldM (\<lambda>sy e. sys_step ex_cfg 7 e sy) ?s3 (replicate (length (sy_down ?s3)) (AnswerIn 101)) = Inr s4"
    "sy_dns s4 = sy_dns ?s3" "sy_down s4 = []" "ag_module 1 2 (sy_agent s4) = Some lb" "downList lb = []"
    "set (route_of lb) = {ex_addr 0}"
    using answers_arrive [OF w(1), of 1 2 "[ex_addr 0]" ?lb 101 7] w(2) by (auto simp: new_LB_def route_of_def)
  then have st: "sys_step ex_cfg 7 (AnswerIn 101) ?s3 = Inr s4" by simp
  then have r4: "sys_reach ex_cfg 7 s4" by (rule sys_reach.step [OF r3, rotated]) (simp add: sys_allowed_def)
  have "sy_fd s4 = 5" using st by (auto simp: sys_start_def agent_part_def)
  with r4 s4 show ?thesis
    by (intro exI [of _ s4] exI [of _ lb]) (simp add: sys_start_def sl.wt_sub sl.bk_sub dns_createSubscribe_def dns_start_def)
qed

section \<open>Properties\<close>





end
