(* ===== verification/MsgTypes.thy ===== *)
theory MsgTypes
  imports Startup ApiClient
begin

text \<open>
  Messages as bytes between a client and the agent, and the types of the messages. The records of the messages keep the C types \<open>int\<close> and \<open>long\<close> of
  return codes and versions as integers; what the agent sends fits them, as long as its clock does,
  so that each of its messages is the one the receiver parses.
\<close>

section \<open>What the agent sends\<close>

text \<open>The message of a reply, and the identifier it is sent under.\<close>

fun rsp_msg :: "agent_rsp \<Rightarrow> elb_msg" where
  "rsp_msg (HostRsp r) = M_GetHostRsp r"
| "rsp_msg (RouteRsp r) = M_GetRouteRsp r"
| "rsp_msg (CacheRsp r) = M_CacheGetRouteRsp r"

fun rsp_id :: "agent_rsp \<Rightarrow> MsgTypeId" where
  "rsp_id (HostRsp r) = GetHostRspId"
| "rsp_id (RouteRsp r) = GetRouteByToolRspId"
| "rsp_id (CacheRsp r) = CacheGetRouteRspId"

text \<open>All messages of one step with their identifiers.\<close>

fun sent_msgs :: "agent_out \<Rightarrow> (MsgTypeId \<times> elb_msg) list" where
  "sent_msgs (Answer r) = [(rsp_id r, rsp_msg r)]"
| "sent_msgs (ToDns rs) = map (\<lambda>r. (GetRouteByAgentReqId, M_GetRouteReq r)) rs"
| "sent_msgs (ToReporter rs) = map (\<lambda>r. (ReportStatusReqId, M_ReportStatusReq r)) rs"
| "sent_msgs Quiet = []"

lemma sent_msgs_ids: "(i, x) \<in> set (sent_msgs out) \<Longrightarrow> i \<in> set (msg_ids x)"
proof (cases out)
  case (Answer r)
  then show "(i, x) \<in> set (sent_msgs out) \<Longrightarrow> i \<in> set (msg_ids x)" by (cases r) auto
qed auto

section \<open>Versions\<close>

definition is_long :: "clong \<Rightarrow> bool" where
  "is_long t \<longleftrightarrow> - (2 ^ 63) \<le> t \<and> t < 2 ^ 63"

definition long_version :: "i32 \<times> i32 \<times> STATUS \<times> clong option \<times> clong \<times> u64 set \<Rightarrow> bool" where
  "long_version i = (case i of (m, c, st, v, t, ks) \<Rightarrow> (case v of None \<Rightarrow> True | Some t \<Rightarrow> is_long t))"

interpretation mt: module_ops cfg "ident_ok cfg long_version"
  by unfold_locales
     (auto simp: ident_ok_ops(6) long_version_def intro: ident_ok_ops,
      auto simp: ident_ok_def mod_ok_def wf_LB_alt new_LB_def wf_lists_def config_ok_def long_version_def LB_ident_def)

lemma long_version_update:
  assumes "ident_ok cfg long_version k lb" "hosts \<noteq> []" "is_long now"
  shows "ends (\<lambda>_. False) (ident_ok cfg long_version k) (LB_update cfg now hosts lb)"
proof -
  from assms(1) have w: "wf_LB cfg lb" "config_ok cfg" and k: "k = mkkey (lb_modid lb) (lb_cmdid lb)"
    and v: "long_version (LB_ident lb)"
    by (auto simp: ident_ok_def mod_ok_def)
  from LB_update_spec [OF w assms(2), of now] obtain lb' where
    "LB_update cfg now hosts lb = Inr lb'" "wf_LB cfg lb'"
    "version lb' = (if keys_of (hostMap lb) = route_keys hosts then version lb else Some now)"
    "lb_modid lb' = lb_modid lb" "lb_cmdid lb' = lb_cmdid lb"
    by metis
  with k w(2) v assms(3) show ?thesis
    by (simp add: ident_ok_def mod_ok_def LB_ident_def long_version_def)
qed

definition agent_typed :: "LbConfigure \<Rightarrow> Agent \<Rightarrow> bool" where
  "agent_typed cfg ag \<longleftrightarrow> agent_ok cfg ag \<and> list_all (all_mods (ident_ok cfg long_version)) (ag_routes ag)"

lemma agent_typedD:
  assumes "agent_typed cfg ag"
  shows "agent_ok cfg ag" "config_ok cfg" "nth_table i ag = Inr rl \<Longrightarrow> all_mods (ident_ok cfg long_version) rl"
  using assms
  by (auto simp: agent_typed_def agent_ok_def nth_table_def list_all_length split: if_splits)

lemma agent_typed_set:
  assumes "agent_typed cfg ag" "agent_ok cfg (set_table i rl ag)" "all_mods (ident_ok cfg long_version) rl"
  shows "agent_typed cfg (set_table i rl ag)"
  using assms
  by (auto simp: agent_typed_def set_table_def list_all_iff dest!: subsetD [OF set_update_subset_insert])

text \<open>The events: every clock is one of the C type.\<close>

definition typed_event :: "agent_event \<Rightarrow> bool" where
  "typed_event e = (case e of DssRoute now r \<Rightarrow> is_long now | _ \<Rightarrow> True)"

lemma getHost_codes:
  assumes "RouteLB_getHost cfg now m c rl = Inr (rl', (ret, h), out)"
  shows "ret \<in> {SUCCESS, OVERLOAD, NOEXIST}"
proof -
  have "ret \<in> {SUCCESS, OVERLOAD}" if "LB_getHost cfg lb = Inr (ret, a, lb')" for ret a lb lb'
    using that by (auto simp: LB_getHost_def split: if_splits)
  moreover obtain lb r where "ret = NOEXIST \<or> LB_getHost cfg lb = Inr (ret, r)"
    using assms by (cases "map_of (routeMap rl) (mkkey m c)")
      (auto simp: RouteLB_getHost_def first_pull_eq split_beta Let_def split: if_splits)
  ultimately show ?thesis by (cases r) auto
qed

lemma handle_typed:
  assumes "config_ok cfg" "all_mods (ident_ok cfg long_version) rl" "agent_handle cfg MyIp now req rl = Inr (rl', rsp, out)"
  shows "all_mods (ident_ok cfg long_version) rl'" "rsp = Some r \<Longrightarrow> msg_range (rsp_msg r)"
proof -
  from handle_is_step(2) [OF assms(3)] obtain rep where
    s: "rl_step cfg MyIp (event_of now req) rl = Inr (rl', rep, out)" by blast
  have "event_of now req \<noteq> EvClear" "\<not> is_update (event_of now req)" by (cases req; simp add: is_update_def)+
  from mt.ops_keep [OF assms(1,2) this, of MyIp] s show "all_mods (ident_ok cfg long_version) rl'" by simp
  assume r: "rsp = Some r"
  show "msg_range (rsp_msg r)"
  proof (cases req)
    case (GetHost q)
    with r assms(3) obtain ret h where "RouteLB_getHost cfg now (ghq_modid q) (ghq_cmdid q) rl = Inr (rl', (ret, h), out)"
      "r = HostRsp \<lparr> ghr_seq = ghq_seq q, ghr_modid = ghq_modid q, ghr_cmdid = ghq_cmdid q, ghr_retcode = ret, ghr_host = h \<rparr>"
      by (auto simp: getHost_cb_def split: prod.splits)
    with getHost_codes show ?thesis by (fastforce simp: NOEXIST_def OVERLOAD_def SUCCESS_def)
  next
    case (CacheGetRoute q)
    have "is_long v" if "map_of (routeMap rl) k = Some lb" "version lb = Some v" for k lb v
      using all_modsD [OF assms(2) that(1)] that(2) by (simp add: ident_ok_def long_version_def LB_ident_def)
    with CacheGetRoute r assms(3) show ?thesis
      by (auto simp: cacheGetRoute_cb_def RouteLB_cacheGetRoute_def cacheGetRoute_locked_def Let_def is_long_def
          split: option.splits if_splits prod.splits)
  qed (use r assms(3) in \<open>auto simp: reportStatus_cb_def getRouteByTool_cb_def batchReport_cb_def split: prod.splits\<close>)
qed

lemma step_typed:
  assumes "agent_typed cfg ag" "typed_event e" "agent_step cfg MyIp e ag = Inr (ag', out)"
  shows "agent_typed cfg ag'" "list_all (\<lambda>(i, x). msg_range x) (sent_msgs out)"
proof -
  note t = agent_typedD [OF assms(1)]
  have ok: "agent_ok cfg ag'" using ag.step_inv [OF t(1) _ assms(3)] by simp
  have "agent_typed cfg ag' \<and> list_all (\<lambda>(i, x). msg_range x) (sent_msgs out)"
  proof (cases e)
    case (Udp i now req)
    with assms(3) obtain rl rl' rsp o' where u: "nth_table i ag = Inr rl" "agent_handle cfg MyIp now req rl = Inr (rl', rsp, o')"
      "ag' = (set_table i rl' ag)\<lparr> ag_pullq := ag_pullq ag @ pulls_in o', ag_reptq := ag_reptq ag @ repts_in o' \<rparr>"
      "out = (case rsp of None \<Rightarrow> Quiet | Some r \<Rightarrow> Answer r)"
      by (auto simp: agent_udp_def split: prod.splits)
    note h = handle_typed [OF t(2) t(3) [OF u(1)] u(2)]
    have "agent_ok cfg (set_table i rl' ag)" using ok by (simp add: u(3))
    from agent_typed_set [OF assms(1) this h(1)] have "agent_typed cfg ag'" using ok by (simp add: u(3) agent_typed_def)
    with h(2) show ?thesis by (cases rsp) (auto simp: u(4))
  next
    case (DssRoute now r)
    with assms(3) obtain rl rl' where u: "nth_table (shard (grs_modid r) (grs_cmdid r)) ag = Inr rl"
      "RouteLB_update cfg now (grs_modid r) (grs_cmdid r) (grs_hosts r) rl = Inr rl'"
      "ag' = set_table (shard (grs_modid r) (grs_cmdid r)) rl' ag" "out = Quiet"
      by (auto simp: recvRoute_def Let_def)
    have "is_long now" using assms(2) DssRoute by (simp add: typed_event_def)
    have "ends (\<lambda>_. False) (all_mods (ident_ok cfg long_version)) (RouteLB_update cfg now (grs_modid r) (grs_cmdid r) (grs_hosts r) rl)"
      by (rule mt.update_keeps_at [OF t(3) [OF u(1)]]) (rule long_version_update [OF _ _ \<open>is_long now\<close>])
    then have "all_mods (ident_ok cfg long_version) rl'" by (simp add: u(2))
    from agent_typed_set [OF assms(1) _ this] ok u(3,4) show ?thesis by simp
  next
    case DssConnected
    have "ident_ok cfg long_version k (clear_lb lb)" if "ident_ok cfg long_version k lb" for k lb
      using that mod_ok_clear by (auto simp: ident_ok_def LB_ident_def long_version_def clear_lb_def)
    then have "all_mods (ident_ok cfg long_version) (RouteLB_clearPulling rl)" if "all_mods (ident_ok cfg long_version) rl" for rl
      using that by (intro all_mods_clear)
    with DssConnected assms(1,3) ok show ?thesis by (auto simp: agent_typed_def whenConnected_def list.pred_map list_all_iff)
  next
    case DrainPulls
    with assms(1,3) ok show ?thesis by (auto simp: newPullReq_def agent_typed_def list_all_iff)
  next
    case DrainReports
    with assms(1,3) ok show ?thesis by (auto simp: newReportReq_def agent_typed_def list_all_iff)
  qed
  then show "agent_typed cfg ag'" "list_all (\<lambda>(i, x). msg_range x) (sent_msgs out)" by auto
qed

interpretation agt: safe_machine "agent_step cfg MyIp" "agent_typed cfg" typed_event
  "\<lambda>f. f = AssertFail \<or> f = BadCast \<or> f = BadIndex"
  by unfold_locales (auto intro: step_typed(1) dest: agent_typedD(1) ag.step_fault [rotated 2])

section \<open>Datagrams\<close>

text \<open>
  A datagram by the identifier in its header and its body. The agent answers under the identifier of the
  reply; a client reads at most \<open>cap\<close> bytes of the body and accepts what parses under an identifier of
  a reply.
\<close>

type_synonym datagram = "MsgTypeId \<times> bytes"

definition rsp_datagram :: "wire \<Rightarrow> agent_rsp \<Rightarrow> datagram" where
  "rsp_datagram w r = (rsp_id r, msg_bytes w (rsp_msg r))"

definition req_datagram :: "wire \<Rightarrow> agent_req \<Rightarrow> datagram" where
  "req_datagram w q = (req_id q, msg_bytes w (req_msg q))"

definition agent_datagram ::
  "wire \<Rightarrow> LbConfigure \<Rightarrow> u32 \<Rightarrow> clong \<Rightarrow> int \<Rightarrow> datagram \<Rightarrow> Agent \<Rightarrow> (Agent \<times> datagram option) res" where
  "agent_datagram w cfg MyIp now i d ag =
    (case udp_request w (fst d) (snd d) of
       None \<Rightarrow> Inr (ag, None)
     | Some q \<Rightarrow> rbind (agent_udp cfg MyIp now i q ag) (\<lambda>(ag', rsp).
         Inr (ag', map_option (rsp_datagram w) rsp)))"

definition client_packet :: "wire \<Rightarrow> nat \<Rightarrow> datagram \<Rightarrow> packet" where
  "client_packet w cap d =
    (let (m, ok) = msg_read w (fst d) (take cap (snd d)) in
     if \<not> ok then Garbled
     else if fst d = GetHostRspId \<or> fst d = CacheGetRouteRspId \<or> fst d = GetRouteByToolRspId
     then (case m of
         M_GetHostRsp r \<Rightarrow> Pkt (HostRsp r)
       | M_CacheGetRouteRsp r \<Rightarrow> Pkt (CacheRsp r)
       | M_GetRouteRsp r \<Rightarrow> Pkt (RouteRsp r)
       | _ \<Rightarrow> Garbled)
     else Garbled)"

lemma client_packet_rsp:
  assumes "wire_ok w" "msg_range (rsp_msg r)" "msg_size_of w (rsp_msg r) \<le> cap" "cap \<le> total_bytes_limit"
  shows "client_packet w cap (rsp_datagram w r) = Pkt r"
proof -
  have "rsp_id r \<in> set (msg_ids (rsp_msg r))" by (cases r) simp_all
  with assms have "msg_read w (rsp_id r) (msg_bytes w (rsp_msg r)) = (rsp_msg r, True)" by (intro msg_read_bytes) simp_all
  moreover have "take cap (msg_bytes w (rsp_msg r)) = msg_bytes w (rsp_msg r)"
    using assms(3) by (simp add: msg_bytes_length [OF assms(1)])
  ultimately show ?thesis by (cases r) (simp_all add: client_packet_def rsp_datagram_def)
qed

section \<open>Properties\<close>

lemma ex_rsp_size:
  "GetHostRsp_size std_wire (GetHostRsp_to \<lparr> ghr_seq = 3, ghr_modid = 1, ghr_cmdid = 2, ghr_retcode = - 9998, ghr_host = None \<rparr>) \<le> 60"
  unfolding GetHostRsp_size_def GetHostRsp_to_def
  using put_size(1) [OF std_wire_ok, of "w_putu std_wire 3"] put_size(1) [OF std_wire_ok, of "w_puti std_wire 1"]
    put_size(1) [OF std_wire_ok, of "w_puti std_wire 2"] put_size(1) [OF std_wire_ok, of "w_putn std_wire (- 9998)"]
  by (simp add: opt_size_def)



text \<open>
  C39. The bytes carry the exchange: after any run of the agent with clocks of the C type, when a
  client's request, typed and within protobuf's limit, is handled by the record-level agent,
  then the datagram of the request is handled by the agent that parses and serializes with the same
  effect and the datagram of the same reply; and a client that reads into a buffer as
  long as the reply decodes exactly that reply.
\<close>

theorem bytes_carry_exchange:
  assumes "wire_ok w" and "config_ok cfg" and "list_all typed_event es"
    and "run (agent_step cfg MyIp) es new_Agent = Inr (ag, outs)"
    and "msg_range (req_msg q)" and "msg_size_of w (req_msg q) \<le> total_bytes_limit"
    and "agent_udp cfg MyIp now i q ag = Inr (ag', rsp)" and "cap \<le> total_bytes_limit"
  shows "agent_datagram w cfg MyIp now i (req_datagram w q) ag = Inr (ag', map_option (rsp_datagram w) rsp)
    \<and> (\<forall>r. rsp = Some r \<longrightarrow> msg_size_of w (rsp_msg r) \<le> cap \<longrightarrow> client_packet w cap (rsp_datagram w r) = Pkt r)"
proof
  show "agent_datagram w cfg MyIp now i (req_datagram w q) ag = Inr (ag', map_option (rsp_datagram w) rsp)"
    using requests_dispatched [OF assms(1,5,6)] assms(7) by (simp add: agent_datagram_def req_datagram_def)
  have "agent_typed cfg new_Agent"
    using assms(2) by (simp add: agent_typed_def agent_ok_def new_Agent_def wf_new_RouteLB)
  from agt.run_inv [OF assms(4) this assms(3)] have "agent_typed cfg ag" .
  from step_typed(2) [OF this, of "Udp i now q" MyIp] assms(7) have "msg_range (rsp_msg r)" if "rsp = Some r" for r
    using that by (auto simp: typed_event_def)
  then show "\<forall>r. rsp = Some r \<longrightarrow> msg_size_of w (rsp_msg r) \<le> cap \<longrightarrow> client_packet w cap (rsp_datagram w r) = Pkt r"
    using client_packet_rsp [OF assms(1) _ _ assms(8)] by blast
qed

theorem bytes_carry_exchange_witness:
  "\<exists>ag' r. r = HostRsp \<lparr> ghr_seq = 3, ghr_modid = 1, ghr_cmdid = 2, ghr_retcode = - 9998, ghr_host = None \<rparr>
     \<and> agent_datagram std_wire ex_cfg 7 100 0
        (req_datagram std_wire (GetHost \<lparr> ghq_seq = 3, ghq_modid = 1, ghq_cmdid = 2 \<rparr>)) new_Agent
       = Inr (ag', Some (rsp_datagram std_wire r))
     \<and> client_packet std_wire 81912 (rsp_datagram std_wire r) = Pkt r"
proof -
  let ?q = "GetHost \<lparr> ghq_seq = 3, ghq_modid = 1, ghq_cmdid = 2 \<rparr>"
  let ?r = "HostRsp \<lparr> ghr_seq = 3, ghr_modid = 1, ghr_cmdid = 2, ghr_retcode = - 9998, ghr_host = None \<rparr>"
  obtain ag' where u: "agent_udp ex_cfg 7 100 0 ?q new_Agent = Inr (ag', Some ?r)"
    by (simp add: agent_udp_def nth_table_def getHost_cb_def RouteLB_getHost_def NOEXIST_def first_pull_eq new_Agent_def new_RouteLB_def)
  have "msg_size_of std_wire (req_msg ?q) \<le> 60"
    using put_size(1) [OF std_wire_ok, of "w_putu std_wire 3"] put_size(1) [OF std_wire_ok, of "w_puti std_wire 1"]
      put_size(1) [OF std_wire_ok, of "w_puti std_wire 2"]
    by (simp add: opt_size_def GetHostReq_size_def GetHostReq_to_def)
  then have "msg_size_of std_wire (req_msg ?q) \<le> total_bytes_limit" by (simp only: total_bytes_limit_def) simp
  moreover have "(81912 :: nat) \<le> total_bytes_limit" by (simp add: total_bytes_limit_def)
  moreover have "msg_size_of std_wire (rsp_msg ?r) \<le> 81912" using ex_rsp_size by simp
  ultimately show ?thesis
    using bytes_carry_exchange [OF std_wire_ok ex_cfg_ok _ _ _ _ u, of "[]" "[]" 81912] by simp
qed

end
