(* ===== verification/ReportFlow.thy ===== *)
theory ReportFlow
  imports MsgTypes ApiProps
begin

text \<open>
  The way of a reported call: from the client's message through the counters of the agent and the
  periodic report to the statement that the reporter sends to the database.
\<close>

section \<open>Counters of a node\<close>

text \<open>A node after one reported success: nothing is left of the window if it is over.\<close>

lemma report_counts:
  assumes "map_of (hostMap lb) (mkkey ip port) = Some h" "\<not> hi_overload h"
  shows "\<exists>h'. map_of (hostMap (LB_report cfg now ip port 0 lb)) (mkkey ip port) = Some h'
    \<and> hi_ip h' = hi_ip h \<and> hi_port h' = hi_port h
    \<and> hi_rSucc h' = (if clearTimo cfg \<le> now - hi_windowTs h then 0 else hi_rSucc h + 1)"
proof -
  let ?h = "count_succ h" and ?k = "mkkey ip port"
  have r: "LB_report cfg now ip port 0 lb = check_timers cfg now ?k ?h lb"
    using assms by (simp add: LB_report_def)
  show ?thesis
  proof (cases "clearTimo cfg \<le> now - hi_windowTs h")
    case True
    obtain bad h' where c: "checkWindow cfg ?h = (bad, h')" by fastforce
    have "hi_ip h' = hi_ip h" "hi_port h' = hi_port h"
      using HI_frame(1,2) [of cfg ?h] c by simp_all
    with True c assms(2) r show ?thesis
      by (simp add: check_timers_def count_succ_def hm.find_put make_overload_def setOverload_def make_idle_def resetIdle_def)
  next
    case False
    with assms(2) r show ?thesis by (simp add: check_timers_def count_succ_def hm.find_put)
  qed
qed

lemma report_keeps_time: "lstRptTime (LB_report cfg now ip port rc lb) = lstRptTime lb"
  by (simp add: LB_report_def check_timers_def to_down_def to_running_def set_hi_def Let_def split: option.split prod.split)

section \<open>The size of a report\<close>

lemma result_size:
  assumes "wire_ok w"
  shows "HostCallResult_size w (HostCallResult_to r) \<le> 46"
  using put_size(1) [OF assms, of "w_puti w (hcr_ip r)"] put_size(1) [OF assms, of "w_puti w (hcr_port r)"]
    put_size(1) [OF assms, of "w_putu w (hcr_succ r)"] put_size(1) [OF assms, of "w_putu w (hcr_err r)"]
  by (simp add: HostCallResult_size_def HostCallResult_to_def opt_size_def)

lemma report_size:
  assumes "wire_ok w"
  shows "ReportStatusReq_size w (ReportStatusReq_to x) \<le> 103 * length (rsr_results x) + 44"
proof -
  let ?s = "\<lambda>r. msg_size w (HostCallResult_size w (HostCallResult_to r))"
  have "?s r \<le> 102" for r
    using result_size [OF assms, of r] wire_vsize(2) [OF assms, of "HostCallResult_size w (HostCallResult_to r)"]
    by (simp add: msg_size_def)
  then have "sum_list (map ?s rs) \<le> 102 * length rs" for rs
    by (induction rs) (simp_all add: add_mono)
  from this [of "rsr_results x"] show ?thesis
    using put_size(1) [OF assms, of "w_puti w (rsr_modid x)"] put_size(1) [OF assms, of "w_puti w (rsr_cmdid x)"]
      put_size(1) [OF assms, of "w_puti w (rsr_caller x)"] put_size(1) [OF assms, of "w_putu w (rsr_ts x)"]
    by (simp add: ReportStatusReq_size_def ReportStatusReq_to_def opt_size_def comp_def)
qed

section \<open>Through the agent\<close>

lemma agent_reports:
  assumes "agent_ok cfg ag" "0 \<le> sint (m + c)" "map_of (routeMap (ag_routes ag ! nat (shard m c))) (mkkey m c) = Some lb"
    and "map_of (hostMap lb) (mkkey ip port) = Some h" "\<not> hi_overload h" "reportTimo cfg \<le> now - lstRptTime lb"
  shows "\<exists>ag1 msg r. agent_step cfg MyIp (Udp (shard m c) now (Report \<lparr> rq_modid = m, rq_cmdid = c,
        rq_host = \<lparr> ha_ip = ip, ha_port = port \<rparr>, rq_retcode = 0, rq_tcost = None \<rparr>)) ag = Inr (ag1, Quiet)
    \<and> ag_reptq ag1 = ag_reptq ag @ [msg] \<and> rsr_modid msg = m \<and> rsr_cmdid msg = c \<and> rsr_caller msg = MyIp
    \<and> rsr_ts msg = word_of_int now \<and> length (rsr_results msg) = length (hostMap lb) \<and> r \<in> set (rsr_results msg)
    \<and> hcr_ip r = ip \<and> hcr_port r = port
    \<and> hcr_succ r = (if clearTimo cfg \<le> now - hi_windowTs h then 0 else hi_rSucc h + 1)"
proof -
  let ?lb = "LB_report cfg now ip port 0 lb" and ?k = "mkkey ip port"
  have t: "nth_table (shard m c) ag = Inr (ag_routes ag ! nat (shard m c))" by (rule nth_table_shard [OF assms(1,2)])
  have c: "config_ok cfg" and ok: "mod_ok cfg (mkkey m c) lb"
    using agent_ok_nth [OF assms(1) t] wf_RouteLB_lookup assms(3) by blast+
  then have w: "wf_LB cfg lb" "wf_LB cfg ?lb" and id: "lb_modid lb = m" "lb_cmdid lb = c"
    by (simp_all add: mod_ok_def wf_LB_report)
  note i = LB_ident_report [of cfg now ip port 0 lb]
  have ne: "\<not> LB_empty ?lb" using i assms(4) map_of_keys_of [OF assms(4)] by (auto simp: LB_ident_def LB_empty_keys)
  from report_counts [OF assms(4,5), of cfg now] obtain h' where h': "map_of (hostMap ?lb) ?k = Some h'" "hi_ip h' = hi_ip h" "hi_port h' = hi_port h"
    "hi_rSucc h' = (if clearTimo cfg \<le> now - hi_windowTs h then 0 else hi_rSucc h + 1)" by auto
  have "wf_lists cfg (hostMap lb) (runningList lb) (downList lb)" using w(1) by (simp add: wf_LB_alt)
  then have "?k = mkkey (hi_ip h) (hi_port h)" using assms(4) by (rule wf_listsD(4))
  then have ip: "hi_ip h = ip" "hi_port h = port" by simp_all
  let ?msg = "\<lparr> rsr_modid = lb_modid ?lb, rsr_cmdid = lb_cmdid ?lb, rsr_caller = MyIp,
     rsr_results = map (result_of ?lb) (runningList ?lb @ downList ?lb), rsr_ts = word_of_int now \<rparr>"
  have d: "LB_report2Rpter cfg MyIp now ?lb = Inr (?lb\<lparr>lstRptTime := now\<rparr>, Some ?msg)"
    by (rule report2Rpter_due [OF w(2) ne]) (simp add: report_keeps_time assms(6))
  have l: "set (runningList ?lb @ downList ?lb) = keys_of (hostMap ?lb)" "distinct (runningList ?lb @ downList ?lb)"
    using wf_lists_keys wf_lists_disjoint wf_listsD(2,3) w(2) by (fastforce simp: wf_LB_alt)+
  have "length (runningList ?lb @ downList ?lb) = card (keys_of (hostMap ?lb))" using distinct_card [OF l(2)] l(1) by simp
  also have "keys_of (hostMap ?lb) = keys_of (hostMap lb)" using i by (simp add: LB_ident_def)
  also have "card (keys_of (hostMap lb)) = length (hostMap lb)"
    using distinct_card [of "map fst (hostMap lb)"] w(1) by (simp add: keys_of_def wf_LB_def)
  finally have len: "length (rsr_results ?msg) = length (hostMap lb)" by simp
  have r: "result_of ?lb ?k \<in> set (rsr_results ?msg)" using l(1) map_of_keys_of [OF h'(1)] by auto
  have rc: "hcr_ip (result_of ?lb ?k) = ip" "hcr_port (result_of ?lb ?k) = port"
    "hcr_succ (result_of ?lb ?k) = (if clearTimo cfg \<le> now - hi_windowTs h then 0 else hi_rSucc h + 1)"
    using h' ip by (simp_all add: result_of_def)
  have mi: "lb_modid ?lb = m" "lb_cmdid ?lb = c" using i id by (simp_all add: LB_ident_def)
  let ?ev = "Udp (shard m c) now (Report \<lparr> rq_modid = m, rq_cmdid = c,
        rq_host = \<lparr> ha_ip = ip, ha_port = port \<rparr>, rq_retcode = 0, rq_tcost = None \<rparr>)"
  obtain ag1 where "agent_step cfg MyIp ?ev ag = Inr (ag1, Quiet)" "ag_reptq ag1 = ag_reptq ag @ [?msg]"
    by (simp add: agent_udp_def t reportStatus_cb_def RouteLB_report_def Let_def assms(3) err_weight_def report_out_def d
        repts_in_def set_table_def)
  then show ?thesis using len r rc mi by (intro exI [of _ ag1] exI [of _ ?msg] exI [of _ "result_of ?lb ?k"]) simp
qed

section \<open>Through the reporter\<close>

lemma reporter_writes:
  assumes "wire_ok w" "rpt_ok n st" "ReportStatusReq_size w (ReportStatusReq_to msg) \<le> total_bytes_limit" "r \<in> set (rsr_results msg)"
  shows "\<exists>i st1 st2 calls. i < n \<and> rpt_step w (Arrive (ReportStatusReq_bytes w msg)) st = Inr (st1, Queued i msg)
    \<and> rpt_step w (Notify i rets) st1 = Inr (st2, Wrote i calls) \<and> sql_text msg r \<in> set (queries calls)"
proof -
  from thread_of [OF assms(2), of "mkkey (rsr_modid msg) (rsr_cmdid msg)"] obtain i where
    i: "HASHTO (mkkey (rsr_modid msg) (rsr_cmdid msg)) (threadCnt st) = Inr i" "0 \<le> sint i" "nat (sint i) < n" .
  let ?i = "nat (sint i)"
  let ?st = "st\<lparr>rptQueues := (rptQueues st)[?i := rptQueues st ! ?i @ [msg]]\<rparr>"
  have len: "length (rptQueues st) = n" using assms(2) by (simp add: rpt_ok_def)
  have "rpt_step w (Arrive (ReportStatusReq_bytes w msg)) st = Inr (?st, Queued ?i msg)"
    using i len ReportStatusReq_parse_bytes(2) [OF assms(1,3)] by (simp add: reportStatus_def Let_def)
  moreover have "rpt_step w (Notify ?i rets) ?st = Inr (?st\<lparr>rptQueues := (rptQueues ?st)[?i := []]\<rparr>, Wrote ?i (write_all (rptQueues st ! ?i @ [msg]) rets))"
    using i(3) len by (simp add: newReportReq_db_def)
  moreover have "sql_text msg r \<in> set (queries (write_all (rptQueues st ! ?i @ [msg]) rets))"
    using assms(4) by (simp add: queries_write_all statements_def)
  ultimately show ?thesis using i(3) by blast
qed

section \<open>Properties\<close>

text \<open>
  C8. A reported call reaches the database, or is lost with its window. When the agent handles the
  report of a successful call to a node in service and the report of the module is due, the
  next message of its queue, serialized, is taken by one thread of the reporter, which
  sends the database a statement for that node of that module: with one success more than
  counted so far when the node's statistics window is still open, but with no success at
  all when the window is over, since the counters are cleared before they are reported.
\<close>

theorem call_reaches_database:
  assumes "agent_ok cfg ag" and "0 \<le> sint (m + c)"
    and "map_of (routeMap (ag_routes ag ! nat (shard m c))) (mkkey m c) = Some lb"
    and "map_of (hostMap lb) (mkkey ip port) = Some h" and "\<not> hi_overload h"
    and "reportTimo cfg \<le> now - lstRptTime lb" and "length (hostMap lb) \<le> 100000"
    and "wire_ok w" and "rpt_ok n st"
  shows "\<exists>ag1 ag2 msg r i st1 st2 calls.
      agent_step cfg MyIp (Udp (shard m c) now (Report \<lparr> rq_modid = m, rq_cmdid = c,
        rq_host = \<lparr> ha_ip = ip, ha_port = port \<rparr>, rq_retcode = 0, rq_tcost = None \<rparr>)) ag = Inr (ag1, Quiet)
    \<and> agent_step cfg MyIp DrainReports ag1 = Inr (ag2, ToReporter (ag_reptq ag @ [msg]))
    \<and> rpt_step w (Arrive (msg_bytes w (M_ReportStatusReq msg))) st = Inr (st1, Queued i msg)
    \<and> rpt_step w (Notify i rets) st1 = Inr (st2, Wrote i calls) \<and> sql_text msg r \<in> set (queries calls)
    \<and> rsr_modid msg = m \<and> rsr_cmdid msg = c \<and> rsr_caller msg = MyIp \<and> hcr_ip r = ip \<and> hcr_port r = port
    \<and> hcr_succ r = (if clearTimo cfg \<le> now - hi_windowTs h then 0 else hi_rSucc h + 1)"
proof -
  from agent_reports [OF assms(1-6), of MyIp] obtain ag1 msg r where a:
    "agent_step cfg MyIp (Udp (shard m c) now (Report \<lparr> rq_modid = m, rq_cmdid = c,
        rq_host = \<lparr> ha_ip = ip, ha_port = port \<rparr>, rq_retcode = 0, rq_tcost = None \<rparr>)) ag = Inr (ag1, Quiet)"
    "ag_reptq ag1 = ag_reptq ag @ [msg]" "rsr_modid msg = m" "rsr_cmdid msg = c" "rsr_caller msg = MyIp"
    "length (rsr_results msg) = length (hostMap lb)" "r \<in> set (rsr_results msg)"
    "hcr_ip r = ip" "hcr_port r = port" "hcr_succ r = (if clearTimo cfg \<le> now - hi_windowTs h then 0 else hi_rSucc h + 1)"
    by blast
  have "ReportStatusReq_size w (ReportStatusReq_to msg) \<le> total_bytes_limit"
    using report_size [OF assms(8), of msg] assms(7) by (simp add: a(6) total_bytes_limit_def)
  from reporter_writes [OF assms(8,9) this a(7), of rets] obtain i st1 st2 calls where
    "rpt_step w (Arrive (ReportStatusReq_bytes w msg)) st = Inr (st1, Queued i msg)"
    "rpt_step w (Notify i rets) st1 = Inr (st2, Wrote i calls)" "sql_text msg r \<in> set (queries calls)" by blast
  moreover have "agent_step cfg MyIp DrainReports ag1 = Inr (ag1\<lparr>ag_reptq := []\<rparr>, ToReporter (ag_reptq ag @ [msg]))"
    by (simp add: newReportReq_def a(2))
  ultimately show ?thesis using a(1,3-5,8-10) by (metis msg_bytes.simps(6))
qed

text \<open>
  Fourteen seconds after the window of the node began its first call is written, a second later it
  is not: with the default timeouts the report and the end of the window fall due together.
\<close>

definition ex_report :: ReportReq where
  "ex_report = \<lparr> rq_modid = 1, rq_cmdid = 2, rq_host = \<lparr> ha_ip = ha_ip (ex_addr 0), ha_port = 8080 \<rparr>,
     rq_retcode = 0, rq_tcost = None \<rparr>"

theorem call_reaches_database_witness:
  "list_all (\<lambda>(now, n). \<exists>ag1 ag2 msg r i st1 st2 calls.
      agent_step ex_cfg 7 (Udp 0 now (Report ex_report)) ex_agent = Inr (ag1, Quiet)
    \<and> agent_step ex_cfg 7 DrainReports ag1 = Inr (ag2, ToReporter [msg])
    \<and> rpt_step std_wire (Arrive (msg_bytes std_wire (M_ReportStatusReq msg))) (new_Reporter 3) = Inr (st1, Queued i msg)
    \<and> rpt_step std_wire (Notify i [0, 0]) st1 = Inr (st2, Wrote i calls) \<and> sql_text msg r \<in> set (queries calls)
    \<and> rsr_modid msg = 1 \<and> rsr_cmdid msg = 2 \<and> hcr_port r = 8080 \<and> hcr_succ r = n) [(114, 1), (115, 0)]"
proof -
  have s: "shard 1 2 = 0" by (simp add: shard_def c_rem_def)
  have ok: "agent_ok ex_cfg ex_agent"
    using ex_cfg_ok ex_rl_wf by (simp add: agent_ok_def ex_agent_def wf_new_RouteLB)
  have l: "map_of (routeMap (ag_routes ex_agent ! nat (shard 1 2))) (mkkey 1 2) = Some (ex_lb 2 0)"
    by (simp add: s ex_agent_def ex_rl_lookup)
  let ?h = "fresh_HI ex_cfg 100 (ex_addr 0)"
  have h: "map_of (hostMap (ex_lb 2 0)) (mkkey (ha_ip (ex_addr 0)) 8080) = Some ?h" "\<not> hi_overload ?h"
    "lstRptTime (ex_lb 2 0) = 0" "length (hostMap (ex_lb 2 0)) = 2"
    by (simp_all add: ex_lb_def upt_rec addr_key_def fresh_HI_def new_HI_def ex_addr_def new_LB_def)
  have c: "(if clearTimo ex_cfg \<le> now - hi_windowTs ?h then 0 else hi_rSucc ?h + 1) = (if 15 \<le> now - 100 then 0 else 1)"
    for now by (simp add: fresh_HI_def new_HI_def)
  have q: "ag_reptq ex_agent @ [msg] = [msg]" for msg by (simp add: ex_agent_def new_Agent_def)
  have r: "rpt_ok 3 (new_Reporter 3)" by (simp add: rpt_ok_def new_Reporter_def)
  have p: "0 \<le> sint (1 + 2 :: i32)" by simp
  show ?thesis
    using call_reaches_database [OF ok p l h(1,2) _ _ std_wire_ok r, of 114 7 "[0, 0]"]
      call_reaches_database [OF ok p l h(1,2) _ _ std_wire_ok r, of 115 7 "[0, 0]"]
    unfolding ex_report_def s c q h(3,4) by simp blast
qed

end
