(* ===== verification/TestPrograms.thy ===== *)
theory TestPrograms
  imports ReportFlow
begin

text \<open>
  The two load generators for manual tests: the dnsserver's \<open>benchmark\<close>, whose connections ask for
  the same route again and again, and the reporter's \<open>rptClient\<close>, which sends a report every second.
  What arrives from the event loop and the clock are arguments. The lemmas say when the command
  line of the benchmark crashes it, what it asks for and when it ends, and that what
  \<open>rptClient\<close> sends is written by the reporter.
\<close>

section \<open>\<open>benchmark\<close>\<close>

subsection \<open>The command line\<close>

record Config =
  hostip :: "string option"
  hostPort :: "16 word"
  concurrency :: i32
  total :: clong

definition new_Config :: Config where
  "new_Config = \<lparr> hostip = None, hostPort = 0, concurrency = 0, total = 0 \<rparr>"

text \<open>The argument after the last one is a null pointer, which \<open>atoi\<close> and \<open>atol\<close> follow.\<close>

definition deref_text :: "string option \<Rightarrow> string res" where
  "deref_text x = (case x of None \<Rightarrow> Inl DanglingPtr | Some s \<Rightarrow> Inr s)"

definition parse_arg :: "string \<Rightarrow> string option \<Rightarrow> Config \<Rightarrow> Config res" where
  "parse_arg a nxt cf =
    (if a = ''-h'' then Inr (cf\<lparr>hostip := nxt\<rparr>)
     else if a = ''-p'' then rbind (deref_text nxt) (\<lambda>s. Inr (cf\<lparr>hostPort := ucast (atoi s)\<rparr>))
     else if a = ''-c'' then rbind (deref_text nxt) (\<lambda>s. Inr (cf\<lparr>concurrency := atoi s\<rparr>))
     else if a = ''-n'' then rbind (deref_text nxt) (\<lambda>s. Inr (cf\<lparr>total := atol s\<rparr>))
     else Inr cf)"

fun parse_args :: "string list \<Rightarrow> Config \<Rightarrow> Config res" where
  "parse_args [] cf = Inr cf"
| "parse_args (a # as) cf =
    rbind (parse_arg a (case as of [] \<Rightarrow> None | x # _ \<Rightarrow> Some x) cf) (parse_args as)"

definition complete :: "Config \<Rightarrow> bool" where
  "complete cf \<longleftrightarrow> hostip cf \<noteq> None \<and> hostPort cf \<noteq> 0 \<and> concurrency cf \<noteq> 0 \<and> total cf \<noteq> 0"

definition usage :: string where
  "usage = ''./dss-benchmark -h ip -p port -c concurrency -n total''"

text \<open>The settings, or the line printed before \<open>exit(1)\<close>.\<close>

definition parseOption :: "string list \<Rightarrow> (string + Config) res" where
  "parseOption argv =
    rbind (parse_args argv new_Config) (\<lambda>cf. Inr (if complete cf then Inr cf else Inl usage))"

subsection \<open>The connections\<close>

record Bench =
  startTs :: u64
  endTs :: u64
  done_cnt :: clong

definition new_Bench :: Bench where
  "new_Bench = \<lparr> startTs = 0, endTs = 0, done_cnt = 0 \<rparr>"

definition getCurrentMills :: "clong \<Rightarrow> clong \<Rightarrow> u64" where
  "getCurrentMills sec usec = word_of_int sec * 1000 + word_of_int (usec div 1000)"

text \<open>
  What a callback does: it sends a request, or prints three lines (the third is a rate, infinite
  or no number when no time has passed) and ends the process.
\<close>

datatype bench_out = Ask GetRouteReq | Finish "string list" "rat option"

definition finish :: "Bench \<Rightarrow> bench_out" where
  "finish b = (let t = endTs b - startTs b in
     Finish [''communicate '' @ dec_int (done_cnt b) @ '' times'', ''time use '' @ dec_int (sint t) @ ''ms'']
       (if t = 0 then None else Some (of_int (done_cnt b) * 1000 / of_int (uint t))))"

definition ActionGetRoute :: "Config \<Rightarrow> u64 \<Rightarrow> GetRouteRsp \<Rightarrow> Bench \<Rightarrow> Bench \<times> bench_out" where
  "ActionGetRoute cf now rsp b =
    (let b1 = b\<lparr>done_cnt := done_cnt b + 1\<rparr> in
     if total cf \<le> done_cnt b1 then (let b2 = b1\<lparr>endTs := now\<rparr> in (b2, finish b2))
     else (b1, Ask \<lparr> grq_modid = grs_modid rsp, grq_cmdid = grs_cmdid rsp \<rparr>))"

definition onConnectionCb :: "u64 \<Rightarrow> Bench \<Rightarrow> Bench \<times> bench_out" where
  "onConnectionCb now b =
    (if startTs b = 0 then b\<lparr>startTs := now\<rparr> else b, Ask \<lparr> grq_modid = 10001, grq_cmdid = 1001 \<rparr>)"

datatype bench_event = Connected u64 | Arrived u64 GetRouteRsp

fun bench_step :: "Config \<Rightarrow> bench_event \<Rightarrow> Bench \<Rightarrow> Bench \<times> bench_out" where
  "bench_step cf (Connected now) b = onConnectionCb now b"
| "bench_step cf (Arrived now rsp) b = ActionGetRoute cf now rsp b"

text \<open>The event loop of \<open>main\<close>, up to the end of the process.\<close>

fun process_evs :: "Config \<Rightarrow> bench_event list \<Rightarrow> Bench \<Rightarrow> Bench \<times> bench_out list" where
  "process_evs cf [] b = (b, [])"
| "process_evs cf (e # es) b =
    (let (b1, out) = bench_step cf e b in
     case out of
       Finish _ _ \<Rightarrow> (b1, [out])
     | Ask _ \<Rightarrow> (let (b2, outs) = process_evs cf es b1 in (b2, out # outs)))"

text \<open>\<open>main\<close>: a client for every connection, none for a negative number; then the loop.\<close>

definition benchmark_main :: "string list \<Rightarrow> bench_event list \<Rightarrow>
    (string + (string \<times> 16 word) list \<times> bench_out list) res" where
  "benchmark_main argv es =
    rbind (parseOption argv) (\<lambda>r. case r of
       Inl line \<Rightarrow> Inr (Inl line)
     | Inr cf \<Rightarrow> Inr (Inr (replicate (nat (sint (concurrency cf))) (the (hostip cf), hostPort cf),
         snd (process_evs cf es new_Bench))))"

subsection \<open>What it does\<close>

text \<open>Only an option with a number as the very last argument crashes the program.\<close>

lemma parse_args_fault:
  "parse_args argv cf = Inl f \<longleftrightarrow> f = DanglingPtr \<and> argv \<noteq> [] \<and> last argv \<in> {''-p'', ''-c'', ''-n''}"
proof (induction argv arbitrary: cf)
  case (Cons a as)
  show ?case
  proof (cases as)
    case Nil
    then show ?thesis by (auto simp: parse_arg_def deref_text_def)
  next
    case (Cons b bs)
    then have "\<exists>cf'. parse_arg a (Some b) cf = Inr cf'" by (simp add: parse_arg_def deref_text_def)
    with Cons.IH Cons show ?thesis by auto
  qed
qed simp

lemma parseOption_fault:
  "parseOption argv = Inl f \<longleftrightarrow> f = DanglingPtr \<and> argv \<noteq> [] \<and> last argv \<in> {''-p'', ''-c'', ''-n''}"
  unfolding parseOption_def rbind_eq_Inl by (simp add: parse_args_fault)

text \<open>
  Every answer but the last is followed by a request for its module, and every connection
  begins with one: the requests under way never get fewer, and a push of the dnsserver, which
  is counted as an answer, adds one for good.
\<close>

fun wanted :: "bench_event \<Rightarrow> i32 \<times> i32" where
  "wanted (Connected now) = (10001, 1001)"
| "wanted (Arrived now rsp) = (grs_modid rsp, grs_cmdid rsp)"

definition ask_for :: "i32 \<times> i32 \<Rightarrow> bench_out" where
  "ask_for mc = Ask \<lparr> grq_modid = fst mc, grq_cmdid = snd mc \<rparr>"

fun is_answer :: "bench_event \<Rightarrow> bool" where
  "is_answer (Connected now) = False"
| "is_answer (Arrived now rsp) = True"

lemma process_evs_asks:
  assumes "done_cnt b + int (length (filter is_answer es)) < total cf"
  shows "\<exists>b'. process_evs cf es b = (b', map (ask_for \<circ> wanted) es)
    \<and> done_cnt b' = done_cnt b + int (length (filter is_answer es))"
  using assms
proof (induction es arbitrary: b)
  case (Cons e es)
  show ?case
  proof (cases e)
    case (Connected now)
    let ?b = "fst (onConnectionCb now b)"
    have "done_cnt ?b = done_cnt b" by (simp add: onConnectionCb_def)
    with Cons.IH [of ?b] Cons.prems Connected show ?thesis by (auto simp: onConnectionCb_def ask_for_def)
  next
    case (Arrived now rsp)
    with Cons.IH [of "b\<lparr>done_cnt := done_cnt b + 1\<rparr>"] Cons.prems show ?thesis
      by (auto simp: ActionGetRoute_def ask_for_def)
  qed
qed simp

lemma process_evs_app:
  "process_evs cf es b = (b', map (ask_for \<circ> wanted) es) \<Longrightarrow>
   process_evs cf (es @ fs) b = (let (b2, outs) = process_evs cf fs b' in (b2, map (ask_for \<circ> wanted) es @ outs))"
proof (induction es arbitrary: b)
  case (Cons e es)
  obtain b1 out where s: "bench_step cf e b = (b1, out)" by fastforce
  from Cons.prems s obtain q where "out = Ask q" by (cases out) (auto simp: ask_for_def)
  with Cons.prems s have r: "out = ask_for (wanted e)" "process_evs cf es b1 = (b', map (ask_for \<circ> wanted) es)"
    by (auto split: prod.splits)
  show ?case by (simp add: s \<open>out = Ask q\<close> Cons.IH [OF r(2)] flip: r(1)) (simp add: split_def)
qed simp

text \<open>A benchmark of \<open>total\<close> answers ends with the last one, whatever arrives afterwards.\<close>

lemma benchmark_ends:
  assumes "0 < total cf" "int (length (filter is_answer es)) = total cf - 1"
  shows "\<exists>b lines rate. process_evs cf (es @ Arrived now rsp # rest) new_Bench = (b, map (ask_for \<circ> wanted) es @ [Finish lines rate])
    \<and> done_cnt b = total cf \<and> hd lines = ''communicate '' @ dec_int (total cf) @ '' times''"
proof -
  from process_evs_asks [of new_Bench es cf] assms obtain b where
    "process_evs cf es new_Bench = (b, map (ask_for \<circ> wanted) es)" "done_cnt b = total cf - 1"
    by (auto simp: new_Bench_def)
  then show ?thesis using process_evs_app [of cf es new_Bench b] by (simp add: ActionGetRoute_def Let_def finish_def)
qed

text \<open>As long as every answer is about the module that was asked for, there is only the one module.\<close>

lemma benchmark_one_module:
  assumes "list_all (\<lambda>e. wanted e = (10001, 1001)) es"
  shows "map (ask_for \<circ> wanted) es = replicate (length es) (Ask \<lparr> grq_modid = 10001, grq_cmdid = 1001 \<rparr>)"
  using assms by (induction es) (simp_all add: ask_for_def)

lemma dns_answer_module: "wanted (Arrived now (dns_answer m c rt)) = (m, c)"
  by (simp add: dns_answer_def)

section \<open>\<open>rptClient\<close>\<close>

definition test_result :: "nat \<Rightarrow> HostCallResult" where
  "test_result i = \<lparr> hcr_ip = of_nat (i + 1), hcr_port = of_nat ((i + 1) * (i + 1)), hcr_succ = 100, hcr_err = 3, hcr_overload = True \<rparr>"

definition test_report :: "int \<Rightarrow> clong \<Rightarrow> ReportStatusReq" where
  "test_report rand now = \<lparr> rsr_modid = word_of_int (c_rem rand 3 + 1), rsr_cmdid = 1, rsr_caller = 123,
     rsr_results = map test_result [0..<3], rsr_ts = word_of_int now \<rparr>"

definition rptClient_main :: "thread \<Rightarrow> action list" where
  "rptClient_main loop = [TcpClient ''127.0.0.1'' 12316 [], OnConnection, ProcessEvs loop]"

definition whenConnectDone :: "action list" where
  "whenConnectDone = [RunEvery ''reportStatus'' 1]"

text \<open>Each second three statements reach the database.\<close>

lemma test_report_written:
  assumes "wire_ok w" "rpt_ok n st" "i < 3"
  shows "\<exists>k st1 st2 calls. rpt_step w (Arrive (msg_bytes w (M_ReportStatusReq (test_report rand now)))) st = Inr (st1, Queued k (test_report rand now))
    \<and> rpt_step w (Notify k rets) st1 = Inr (st2, Wrote k calls) \<and> sql_text (test_report rand now) (test_result i) \<in> set (queries calls)"
proof -
  have "ReportStatusReq_size w (ReportStatusReq_to (test_report rand now)) \<le> total_bytes_limit"
    using report_size [OF assms(1), of "test_report rand now"] by (simp add: test_report_def total_bytes_limit_def)
  moreover have "test_result i \<in> set (rsr_results (test_report rand now))" using assms(3) by (simp add: test_report_def)
  ultimately show ?thesis using reporter_writes [OF assms(1,2)] by (metis msg_bytes.simps(6))
qed

end
