(* ===== verification/PyClient.thy ===== *)
theory PyClient
  imports MsgTypes
begin

text \<open>
  The Python client (\<open>api/python/elbApi\<close>: \<open>elbClient.py\<close>, \<open>CacheLayer.py\<close>, \<open>StaticRoute.py\<close>). Numbers are
  unbounded and hosts are kept as text; what does not fit a field of a message raises
  \<open>ValueError\<close>. A call works on one state, the client with its three sockets, and keeps what it
  has changed when an exception leaves it. What arrives is given with the identifier in its header, whether its length field
  is right, and the answer its body parses to; the time outs are among the arrivals.
\<close>

section \<open>Exceptions and state\<close>

text \<open>\<open>Waiting\<close>: the call waits for an arrival that is not in the list.\<close>

datatype py_exn = ValueError | IndexError | SocketError | StructError | DecodeError | IOError | Waiting

datatype arrival = Timeout | SocketFails | Short | Dgram MsgTypeId bool "agent_rsp option"

record PyUnit =
  pu_modid :: int
  pu_cmdid :: int
  pu_overload :: bool
  pu_lstUpdTs :: int
  pu_version :: int
  pu_succCnt :: int
  pu_nodeList :: "(string \<times> int) list"
  pu_succAccum :: "((string \<times> int) \<times> int) list"

type_synonym py_route = "((int \<times> int) \<times> (int \<times> int) list) list"

record Py =
  py_seq :: int
  py_static :: "py_route option"
  py_agentOff :: bool
  py_cache :: "((int \<times> int) \<times> PyUnit) list"
  py_tsget :: int
  py_tx :: "bool list"
  py_rx :: "arrival list"
  py_sent :: "(int \<times> agent_req) list"

definition new_Py :: Py where
  "new_Py = \<lparr> py_seq = 0, py_static = None, py_agentOff = True, py_cache = [], py_tsget = 0,
     py_tx = [], py_rx = [], py_sent = [] \<rparr>"

type_synonym 'a py = "Py \<Rightarrow> (py_exn + 'a) \<times> Py"

definition py_ret :: "'a \<Rightarrow> 'a py" where "py_ret x = (\<lambda>s. (Inr x, s))"

definition raise :: "py_exn \<Rightarrow> 'a py" where "raise e = (\<lambda>s. (Inl e, s))"

definition py_do :: "(Py \<Rightarrow> Py) \<Rightarrow> unit py" where "py_do f = (\<lambda>s. (Inr (), f s))"

definition py_get :: "(Py \<Rightarrow> 'a) \<Rightarrow> 'a py" where "py_get f = (\<lambda>s. (Inr (f s), s))"

definition py_bind :: "'a py \<Rightarrow> ('a \<Rightarrow> 'b py) \<Rightarrow> 'b py" where
  "py_bind m f = (\<lambda>s. case m s of (Inl e, s') \<Rightarrow> (Inl e, s') | (Inr x, s') \<Rightarrow> f x s')"

lemmas py_defs = py_ret_def raise_def py_do_def py_get_def py_bind_def

text \<open>The fields of the messages.\<close>

definition as_i32 :: "int \<Rightarrow> i32 py" where
  "as_i32 x = (if - (2 ^ 31) \<le> x \<and> x < 2 ^ 31 then py_ret (word_of_int x) else raise ValueError)"

definition as_u32 :: "int \<Rightarrow> u32 py" where
  "as_u32 x = (if 0 \<le> x \<and> x < 2 ^ 32 then py_ret (word_of_int x) else raise ValueError)"

text \<open>\<open>struct.unpack('I', socket.inet_aton(ip))\<close>, as the signed field takes it, and back.\<close>

definition ip_number :: "string \<Rightarrow> i32 py" where
  "ip_number ip = (case inet_aton ip of None \<Rightarrow> raise SocketError | Some n \<Rightarrow> py_ret n)"

definition ip_text :: "int \<Rightarrow> string py" where
  "ip_text ipn =
    (let n = (if ipn < 0 then ipn + 2 ^ 32 else ipn) in
     if 0 \<le> n \<and> n < 2 ^ 32 then py_ret (inet_ntoa (word_of_int n)) else raise StructError)"

definition py_send :: "int \<Rightarrow> int \<Rightarrow> agent_req \<Rightarrow> bool py" where
  "py_send m c req = (\<lambda>s. case py_tx s of
       [] \<Rightarrow> (Inr True, s\<lparr>py_sent := py_sent s @ [((m + c) mod 3, req)]\<rparr>)
     | ok # r \<Rightarrow> (Inr ok, s\<lparr>py_tx := r, py_sent := py_sent s @ (if ok then [((m + c) mod 3, req)] else [])\<rparr>))"

definition py_recv :: "arrival py" where
  "py_recv = (\<lambda>s. case py_rx s of [] \<Rightarrow> (Inl Waiting, s) | a # r \<Rightarrow> (Inr a, s\<lparr>py_rx := r\<rparr>))"

section \<open>The cache\<close>

definition py_unit :: "int \<times> int \<Rightarrow> PyUnit option py" where
  "py_unit k = py_get (\<lambda>s. map_of (py_cache s) k)"

definition py_put :: "int \<times> int \<Rightarrow> PyUnit \<Rightarrow> unit py" where
  "py_put k cu = py_do (\<lambda>s. s\<lparr>py_cache := AList.update k cu (py_cache s)\<rparr>)"

definition pu_getHost :: "int \<times> int \<Rightarrow> PyUnit \<Rightarrow> (string \<times> int) py" where
  "pu_getHost k cu = (case pu_nodeList cu of
       [] \<Rightarrow> raise IndexError
     | h # hs \<Rightarrow> py_bind (py_put k (cu\<lparr>pu_nodeList := hs @ [h]\<rparr>)) (\<lambda>_. py_ret h))"

definition pu_report :: "string \<Rightarrow> int \<Rightarrow> PyUnit \<Rightarrow> PyUnit" where
  "pu_report ip port cu = (case map_of (pu_succAccum cu) (ip, port) of
       None \<Rightarrow> cu
     | Some n \<Rightarrow> cu\<lparr>pu_succAccum := AList.update (ip, port) (n + 1) (pu_succAccum cu), pu_succCnt := pu_succCnt cu + 1\<rparr>)"

section \<open>Reports in batches\<close>

text \<open>The loop over the counters: a counter is reset when its node is in the message.\<close>

fun batch_items :: "((string \<times> int) \<times> int) list \<Rightarrow> HostBatchCallRes list \<Rightarrow>
    (py_exn + HostBatchCallRes list) \<times> ((string \<times> int) \<times> int) list" where
  "batch_items [] rs = (Inr rs, [])"
| "batch_items (((ip, port), n) # a) rs =
    (if n = 0 then (case batch_items a rs of (r, a') \<Rightarrow> (r, ((ip, port), n) # a'))
     else (case inet_aton ip of
         None \<Rightarrow> (Inl SocketError, ((ip, port), n) # a)
       | Some ipn \<Rightarrow>
           if port < - (2 ^ 31) \<or> 2 ^ 31 \<le> port \<or> n < 0 \<or> 2 ^ 32 \<le> n then (Inl ValueError, ((ip, port), n) # a)
           else (case batch_items a (rs @ [\<lparr> hbc_ip = ipn, hbc_port = word_of_int port, hbc_succcnt = word_of_int n \<rparr>]) of
               (r, a') \<Rightarrow> (r, ((ip, port), 0) # a'))))"

text \<open>A failed \<open>sendto\<close> raises, and leaves \<open>succCnt\<close> as it was.\<close>

definition py_batch :: "int \<times> int \<Rightarrow> PyUnit \<Rightarrow> unit py" where
  "py_batch k cu =
    (if pu_succCnt cu = 0 then py_ret ()
     else py_bind (as_i32 (pu_modid cu)) (\<lambda>m. py_bind (as_i32 (pu_cmdid cu)) (\<lambda>c.
       case batch_items (pu_succAccum cu) [] of (r, a) \<Rightarrow>
         let cu1 = cu\<lparr>pu_succAccum := a\<rparr> in
         py_bind (py_put k cu1) (\<lambda>_. case r of
             Inl e \<Rightarrow> raise e
           | Inr rs \<Rightarrow>
               py_bind (py_send (pu_modid cu) (pu_cmdid cu) (BatchReport \<lparr> cbr_modid = m, cbr_cmdid = c, cbr_results = rs \<rparr>)) (\<lambda>ok.
                 if \<not> ok then raise SocketError else py_put k (cu1\<lparr>pu_succCnt := 0\<rparr>))))))"

section \<open>Routes\<close>

definition pu_fill :: "CacheGetRouteRsp \<Rightarrow> int \<Rightarrow> PyUnit \<Rightarrow> PyUnit" where
  "pu_fill rsp ts cu = cu\<lparr>
     pu_overload := (case cgr_overload rsp of None \<Rightarrow> False | Some b \<Rightarrow> b),
     pu_version := cgr_version rsp, pu_succCnt := 0, pu_lstUpdTs := ts,
     pu_nodeList := map (\<lambda>h. (inet_ntoa (ha_ip h), sint (ha_port h))) (cgr_route rsp),
     pu_succAccum := fold (\<lambda>h. AList.update (inet_ntoa (ha_ip h), sint (ha_port h)) 0) (cgr_route rsp) [] \<rparr>"

definition pu_keep :: "CacheGetRouteRsp \<Rightarrow> int \<Rightarrow> PyUnit \<Rightarrow> PyUnit" where
  "pu_keep rsp ts cu = cu\<lparr>
     pu_overload := (case cgr_overload rsp of None \<Rightarrow> False | Some b \<Rightarrow> b),
     pu_succCnt := 0, pu_lstUpdTs := ts \<rparr>"

text \<open>\<open>CacheUnit()\<close> sets the two containers; \<open>pu_fill\<close> writes all the other members before they are read.\<close>

definition new_pu :: "int \<Rightarrow> int \<Rightarrow> PyUnit" where
  "new_pu m c = \<lparr> pu_modid = m, pu_cmdid = c, pu_overload = False, pu_lstUpdTs = 0, pu_version = 0,
     pu_succCnt = 0, pu_nodeList = [], pu_succAccum = [] \<rparr>"

definition py_take :: "CacheGetRouteRsp \<Rightarrow> int \<Rightarrow> int \<Rightarrow> int \<Rightarrow> unit py" where
  "py_take rsp m c ts =
    (if cgr_version rsp = - 1 then py_do (\<lambda>s. s\<lparr>py_cache := AList.delete (m, c) (py_cache s)\<rparr>)
     else py_bind (py_unit (m, c)) (\<lambda>u. case u of
         None \<Rightarrow> py_put (m, c) (pu_fill rsp ts (new_pu m c))
       | Some cu \<Rightarrow>
           if pu_version cu \<noteq> cgr_version rsp then py_put (m, c) (pu_fill rsp ts cu)
           else py_put (m, c) (pu_keep rsp ts cu)))"

definition py_getRoute4Cache :: "int \<Rightarrow> int \<Rightarrow> int \<Rightarrow> int py" where
  "py_getRoute4Cache m c ts =
    py_bind (py_unit (m, c)) (\<lambda>u.
    py_bind (as_i32 m) (\<lambda>mw. py_bind (as_i32 c) (\<lambda>cw.
    let req = \<lparr> cgq_modid = mw, cgq_cmdid = cw, cgq_version = (case u of None \<Rightarrow> - 1 | Some cu \<Rightarrow> pu_version cu) \<rparr> in
    py_bind (py_send m c (CacheGetRoute req)) (\<lambda>ok.
      if \<not> ok then py_ret API_ERR
      else py_bind py_recv (\<lambda>a. case a of
          Timeout \<Rightarrow> py_ret API_ERR
        | SocketFails \<Rightarrow> raise SocketError
        | Short \<Rightarrow> raise StructError
        | Dgram i len r \<Rightarrow>
            if i \<noteq> CacheGetRouteRspId \<or> \<not> len then py_ret API_ERR
            else (case r of
                Some (CacheRsp rsp) \<Rightarrow>
                  if sint (cgr_modid rsp) \<noteq> m \<or> sint (cgr_cmdid rsp) \<noteq> c then py_ret API_ERR
                  else py_bind (py_take rsp m c ts) (\<lambda>_. py_ret 0)
              | _ \<Rightarrow> raise DecodeError))))))"

section \<open>Static routes\<close>

text \<open>\<open>for line in inf\<close> and \<open>line.strip().split()\<close>.\<close>

function text_lines :: "string \<Rightarrow> string list" where
  "text_lines s =
    (if s = [] then []
     else takeWhile (\<lambda>c. c \<noteq> CHR 0x0A) s # text_lines (tl (dropWhile (\<lambda>c. c \<noteq> CHR 0x0A) s)))"
  by pat_completeness auto
termination
proof (relation "measure length")
  fix s :: string assume "s \<noteq> []"
  then show "(tl (dropWhile (\<lambda>c. c \<noteq> CHR 0x0A) s), s) \<in> measure length"
    using length_dropWhile_le [of "\<lambda>c. c \<noteq> CHR 0x0A" s] by (cases s) auto
qed simp

function text_words :: "string \<Rightarrow> string list" where
  "text_words s =
    (let t = dropWhile is_space s in
     if t = [] then [] else takeWhile (\<lambda>c. \<not> is_space c) t # text_words (dropWhile (\<lambda>c. \<not> is_space c) t))"
  by pat_completeness auto
termination
proof (relation "measure length")
  fix s t :: string assume t: "t = dropWhile is_space s" "t \<noteq> []"
  then have "\<not> is_space (hd t)" by (simp add: hd_dropWhile)
  with t(2) have "length (dropWhile (\<lambda>c. \<not> is_space c) t) < length t"
    using length_dropWhile_le [of "\<lambda>c. \<not> is_space c" "tl t"] by (cases t) auto
  also have "\<dots> \<le> length s" by (simp add: t(1) length_dropWhile_le)
  finally show "(dropWhile (\<lambda>c. \<not> is_space c) t, s) \<in> measure length" by simp
qed simp

declare text_lines.simps [simp del] text_words.simps [simp del]

text \<open>\<open>int(attrs[i])\<close>.\<close>

definition int_attr :: "string list \<Rightarrow> nat \<Rightarrow> py_exn + int" where
  "int_attr attrs i =
    (if length attrs \<le> i then Inl IndexError
     else (case read_int (attrs ! i) of Some (n, []) \<Rightarrow> Inr n | _ \<Rightarrow> Inl ValueError))"

fun load_lines :: "string list \<Rightarrow> py_route \<Rightarrow> py_exn option \<times> py_route" where
  "load_lines [] rt = (None, rt)"
| "load_lines (l # ls) rt =
    (let a = text_words l in
     case (int_attr a 0, int_attr a 1, int_attr a 2, int_attr a 3) of
       (Inr m, Inr c, Inr ip, Inr port) \<Rightarrow>
         load_lines ls (AList.update (m, c) ((case map_of rt (m, c) of None \<Rightarrow> [] | Some hs \<Rightarrow> hs) @ [(ip, port)]) rt)
     | (Inl e, _) \<Rightarrow> (Some e, rt)
     | (Inr m, Inl e, _) \<Rightarrow> (Some e, rt)
     | (Inr m, Inr c, Inl e, _) \<Rightarrow> (Some e, rt)
     | (Inr m, Inr c, Inr ip, Inl e) \<Rightarrow> (Some e, rt))"

text \<open>A file that cannot be opened ends the loop over the files.\<close>

fun py_load_files :: "string option list \<Rightarrow> py_route \<Rightarrow> py_exn option \<times> py_route" where
  "py_load_files [] rt = (None, rt)"
| "py_load_files (f # fs) rt =
    (case f of
       None \<Rightarrow> (Some IOError, rt)
     | Some s \<Rightarrow> (case load_lines (text_lines s) rt of
           (Some e, rt') \<Rightarrow> (Some e, rt')
         | (None, rt') \<Rightarrow> py_load_files fs rt'))"

definition py_static_getHost :: "string option list \<Rightarrow> nat \<Rightarrow> int \<Rightarrow> int \<Rightarrow> (string \<times> int) option py" where
  "py_static_getHost files choice m c =
    py_bind (py_get py_static) (\<lambda>st.
      let (e, rt) = (case st of Some (x # xs) \<Rightarrow> (None, x # xs) | _ \<Rightarrow> py_load_files files []) in
      py_bind (py_do (\<lambda>s. s\<lparr>py_static := Some rt\<rparr>)) (\<lambda>_.
        case e of
          Some x \<Rightarrow> if x = IOError then py_ret None else raise x
        | None \<Rightarrow> (case map_of rt (m, c) of
              None \<Rightarrow> py_ret None
            | Some hs \<Rightarrow> (case hs ! (choice mod length hs) of (ipn, port) \<Rightarrow>
                py_bind (ip_text ipn) (\<lambda>ip. py_ret (Some (ip, port)))))))"

section \<open>Calls\<close>

text \<open>\<open>time.time()\<close> in seconds and in milliseconds, the word of the heartbeat, \<open>random.choice\<close> and the files.\<close>

record py_env =
  pe_now :: int
  pe_mills :: int
  pe_hb :: u64
  pe_choice :: nat
  pe_files :: "string option list"

definition py_agentDie :: "py_env \<Rightarrow> bool" where
  "py_agentDie en \<longleftrightarrow> 2 < pe_now en - sint (pe_hb en)"

text \<open>The result of a call without the text of its errors.\<close>

type_synonym py_result = "int \<times> (string \<times> int) option"

text \<open>
  The loop over late answers: it expects the identifier of the request, so that an answer is
  taken for a format error.
\<close>

fun py_recv_again :: "u32 \<Rightarrow> GetHostRsp \<Rightarrow> arrival list \<Rightarrow> (py_exn + GetHostRsp option) \<times> arrival list" where
  "py_recv_again seq rsp as =
    (if ghr_seq rsp < seq then
       (case as of
          [] \<Rightarrow> (Inl Waiting, [])
        | a # as' \<Rightarrow>
            (case a of
               Timeout \<Rightarrow> (Inr None, as')
             | SocketFails \<Rightarrow> (Inl SocketError, as')
             | Short \<Rightarrow> (Inl StructError, as')
             | Dgram i len r \<Rightarrow>
                 if i \<noteq> GetHostReqId \<or> \<not> len then (Inr None, as')
                 else (case r of Some (HostRsp x) \<Rightarrow> py_recv_again seq x as' | _ \<Rightarrow> (Inl DecodeError, as'))))
     else (Inr (Some rsp), as))"

declare py_recv_again.simps [simp del]

definition py_take_answer :: "py_env \<Rightarrow> u32 \<Rightarrow> GetHostRsp option \<Rightarrow> py_result py" where
  "py_take_answer en seq ans = (case ans of
       None \<Rightarrow> py_ret (API_ERR, None)
     | Some rsp \<Rightarrow>
         if ghr_seq rsp \<noteq> seq then py_ret (API_ERR, None)
         else if ghr_retcode rsp \<noteq> 0 then py_ret (ghr_retcode rsp, None)
         else (let h = (case ghr_host rsp of None \<Rightarrow> \<lparr> ha_ip = 0, ha_port = 0 \<rparr> | Some h \<Rightarrow> h) in
           py_bind (ip_text (sint (ha_ip h))) (\<lambda>ip.
           py_bind (py_do (\<lambda>s. s\<lparr>py_tsget := pe_mills en\<rparr>)) (\<lambda>_. py_ret (0, Some (ip, sint (ha_port h)))))))"

definition py_askAgent :: "py_env \<Rightarrow> int \<Rightarrow> int \<Rightarrow> py_result py" where
  "py_askAgent en m c =
    py_bind (py_get (\<lambda>s. if py_seq s = 2 ^ 31 then 0 else py_seq s)) (\<lambda>seq.
    py_bind (py_do (\<lambda>s. s\<lparr>py_seq := seq\<rparr>)) (\<lambda>_.
    py_bind (as_u32 seq) (\<lambda>sw.
    py_bind (py_do (\<lambda>s. s\<lparr>py_seq := seq + 1\<rparr>)) (\<lambda>_.
    py_bind (as_i32 m) (\<lambda>mw. py_bind (as_i32 c) (\<lambda>cw.
    py_bind (py_send m c (GetHost \<lparr> ghq_seq = sw, ghq_modid = mw, ghq_cmdid = cw \<rparr>)) (\<lambda>ok.
      if \<not> ok then py_ret (API_ERR, None)
      else py_bind py_recv (\<lambda>a. case a of
          Timeout \<Rightarrow> py_ret (API_ERR, None)
        | SocketFails \<Rightarrow> raise SocketError
        | Short \<Rightarrow> raise StructError
        | Dgram i len r \<Rightarrow>
            if i \<noteq> GetHostRspId \<or> \<not> len then py_ret (API_ERR, None)
            else (case r of
                Some (HostRsp rsp) \<Rightarrow>
                  py_bind (\<lambda>s. case py_recv_again sw rsp (py_rx s) of (x, rx) \<Rightarrow> (x, s\<lparr>py_rx := rx\<rparr>)) (py_take_answer en sw)
              | _ \<Rightarrow> raise DecodeError)))))))))"

definition py_serveHost :: "py_env \<Rightarrow> int \<Rightarrow> int \<Rightarrow> py_result py" where
  "py_serveHost en m c =
    py_bind (py_unit (m, c)) (\<lambda>u. case u of
        None \<Rightarrow> py_ret (API_NOEXIST, None)
      | Some cu \<Rightarrow>
          if \<not> pu_overload cu
          then py_bind (pu_getHost (m, c) cu) (\<lambda>h.
               py_bind (py_do (\<lambda>s. s\<lparr>py_tsget := pe_mills en\<rparr>)) (\<lambda>_. py_ret (0, Some h)))
          else py_askAgent en m c)"

definition py_refreshRoute :: "py_env \<Rightarrow> int \<Rightarrow> int \<Rightarrow> unit py" where
  "py_refreshRoute en m c =
    py_bind (py_unit (m, c)) (\<lambda>u. case u of
        None \<Rightarrow> py_ret ()
      | Some cu \<Rightarrow>
          if 2 \<le> pe_now en - pu_lstUpdTs cu
          then py_bind (py_batch (m, c) cu) (\<lambda>_. py_bind (py_getRoute4Cache m c (pe_now en)) (\<lambda>_. py_ret ()))
          else py_ret ())"

text \<open>The time out of the call is between 10 and 1000 milliseconds; it only shows in what arrives.\<close>

definition py_apiGetHost :: "py_env \<Rightarrow> int \<Rightarrow> int \<Rightarrow> py_result py" where
  "py_apiGetHost en m c =
    (if py_agentDie en
     then py_bind (py_do (\<lambda>s. s\<lparr>py_agentOff := True\<rparr>)) (\<lambda>_.
          py_bind (py_static_getHost (pe_files en) (pe_choice en) m c) (\<lambda>h.
            py_ret (case h of None \<Rightarrow> API_NOEXIST | Some _ \<Rightarrow> 0, h)))
     else py_bind (py_do (\<lambda>s. s\<lparr>py_static := None, py_agentOff := False\<rparr>)) (\<lambda>_.
          py_bind (py_unit (m, c)) (\<lambda>u.
          py_bind (case u of None \<Rightarrow> py_getRoute4Cache m c (pe_now en) | Some _ \<Rightarrow> py_ret 0) (\<lambda>ret.
            if ret \<noteq> 0 then py_ret (ret, None)
            else py_bind (py_refreshRoute en m c) (\<lambda>_. py_serveHost en m c)))))"

definition py_report_net :: "py_env \<Rightarrow> int \<Rightarrow> int \<Rightarrow> string \<Rightarrow> int \<Rightarrow> int \<Rightarrow> unit py" where
  "py_report_net en m c ip port res =
    py_bind (as_i32 m) (\<lambda>mw. py_bind (as_i32 c) (\<lambda>cw. py_bind (as_i32 res) (\<lambda>rw.
    py_bind (if res = 0 then py_ret None
             else py_bind (py_get py_tsget) (\<lambda>t. py_bind (as_u32 (pe_mills en - t)) (\<lambda>tc. py_ret (Some tc)))) (\<lambda>tcost.
    py_bind (ip_number ip) (\<lambda>ipn. py_bind (as_i32 port) (\<lambda>pw.
    py_bind (py_send m c (Report \<lparr> rq_modid = mw, rq_cmdid = cw, rq_host = \<lparr> ha_ip = ipn, ha_port = pw \<rparr>,
        rq_retcode = rw, rq_tcost = tcost \<rparr>)) (\<lambda>ok.
      if \<not> ok then raise SocketError else py_ret ())))))))"

definition py_apiReportRes :: "py_env \<Rightarrow> int \<Rightarrow> int \<Rightarrow> string \<Rightarrow> int \<Rightarrow> int \<Rightarrow> unit py" where
  "py_apiReportRes en m c ip port res =
    py_bind (py_get py_agentOff) (\<lambda>off.
      if off then py_ret ()
      else py_bind (py_unit (m, c)) (\<lambda>u. case u of
          None \<Rightarrow> py_report_net en m c ip port res
        | Some cu \<Rightarrow>
            if pu_overload cu then py_report_net en m c ip port res
            else if res = 0 then py_put (m, c) (pu_report ip port cu)
            else py_bind (py_batch (m, c) cu) (\<lambda>_. py_report_net en m c ip port res)))"

text \<open>Up to three calls, with a pause after each.\<close>

fun py_register_loop :: "py_env list \<Rightarrow> int \<Rightarrow> int \<Rightarrow> int py" where
  "py_register_loop [] m c = py_ret API_NOEXIST"
| "py_register_loop (en # ens) m c =
    py_bind (py_apiGetHost en m c) (\<lambda>(ret, h). if ret = 0 then py_ret 0 else py_register_loop ens m c)"

definition py_apiRegister :: "(nat \<Rightarrow> py_env) \<Rightarrow> int \<Rightarrow> int \<Rightarrow> int py" where
  "py_apiRegister ens m c = py_register_loop [ens 0, ens 1, ens 2] m c"

text \<open>\<open>__del__\<close>: an exception ends the loop over the modules; the interpreter drops it.\<close>

fun py_flush :: "(int \<times> int) list \<Rightarrow> unit py" where
  "py_flush [] = py_ret ()"
| "py_flush (k # ks) =
    py_bind (py_unit k) (\<lambda>u. case u of None \<Rightarrow> py_flush ks | Some cu \<Rightarrow> py_bind (py_batch k cu) (\<lambda>_. py_flush ks))"

definition py_del :: "Py \<Rightarrow> Py" where
  "py_del s = snd (py_flush (map fst (py_cache s)) s)"

end
