(* ===== verification/PyStatic.thy ===== *)
theory PyStatic
  imports PyClient ApiSafety
begin

text \<open>
  The static routes of the Python client: from the files that the agent has written they
  give the hosts the C++ client gives. A line is four numbers of 32 bits.
\<close>

section \<open>Tokens\<close>

lemma text_words_skip: "is_space c \<Longrightarrow> text_words (c # s) = text_words s"
  by (subst (1 2) text_words.simps) simp

lemma text_words_word:
  assumes "t \<noteq> []" "list_all (\<lambda>c. \<not> is_space c) t" "r = [] \<or> is_space (hd r)"
  shows "text_words (t @ r) = t # text_words r"
proof -
  have d: "dropWhile is_space (t @ r) = t @ r" using assms(1,2) by (cases t) simp_all
  have "takeWhile (\<lambda>c. \<not> is_space c) (t @ r) = t" "dropWhile (\<lambda>c. \<not> is_space c) (t @ r) = r"
    using assms(2,3) by (cases r; simp add: list_all_iff takeWhile_append dropWhile_append)+
  with d assms(1) show ?thesis by (subst text_words.simps) (simp add: Let_def)
qed

lemma dec_nat_no_space: "list_all (\<lambda>c. \<not> is_space c) (dec_nat n)"
  by (induction n rule: dec_nat.induct) (subst dec_nat.simps, simp)

lemma dec_int_word: "dec_int i \<noteq> []" "list_all (\<lambda>c. \<not> is_space c) (dec_int i)"
proof -
  obtain d ds where "dec_nat (nat i) = digit d # ds" using dec_nat_head by blast
  then show "dec_int i \<noteq> []" by (simp add: dec_int_def)
  show "list_all (\<lambda>c. \<not> is_space c) (dec_int i)"
    using dec_nat_no_space [of "nat i"] dec_nat_no_space [of "nat (- i)"] by (simp add: dec_int_def is_space_def)
qed

text \<open>The line without its end.\<close>

definition line_text :: "int \<times> int \<times> int \<times> int \<Rightarrow> string" where
  "line_text = (\<lambda>(a, b, c, d). dec_int a @ '' '' @ dec_int b @ '' '' @ dec_int c @ '' '' @ dec_int d)"

lemma line_words: "text_words (line_text (a, b, c, d)) = [dec_int a, dec_int b, dec_int c, dec_int d]"
proof -
  have s: "text_words (dec_int i @ CHR '' '' # r) = dec_int i # text_words r" for i r
    using text_words_word [OF dec_int_word, of "CHR '' '' # r" i] by (simp add: text_words_skip is_space_def)
  have "text_words (dec_int d) = [dec_int d]"
    using text_words_word [OF dec_int_word, of "[]" d] by (simp add: text_words.simps)
  then show ?thesis by (simp add: line_text_def s)
qed

lemma text_lines_line:
  assumes "CHR 0x0A \<notin> set l"
  shows "text_lines (l @ CHR 0x0A # r) = l # text_lines r"
proof -
  have "takeWhile (\<lambda>c. c \<noteq> CHR 0x0A) (l @ CHR 0x0A # r) = l" "dropWhile (\<lambda>c. c \<noteq> CHR 0x0A) (l @ CHR 0x0A # r) = CHR 0x0A # r"
    using assms by (auto simp: takeWhile_append dropWhile_append)
  then show ?thesis by (subst text_lines.simps) simp
qed

lemma file_lines: "text_lines (file_text ls) = map line_text ls"
proof (induction ls)
  case (Cons l ls)
  obtain a b c d where l: "l = (a, b, c, d)" using prod_cases4 by blast
  have "CHR 0x0A \<notin> set (dec_int i)" for i
    using dec_int_word(2) [of i] by (auto simp: list_all_iff is_space_def)
  then have "CHR 0x0A \<notin> set (line_text l)" by (simp add: l line_text_def)
  moreover have "file_text (l # ls) = line_text l @ CHR 0x0A # file_text ls"
    by (simp add: file_text_def l print_line_def line_text_def)
  ultimately show ?case using Cons.IH by (simp add: text_lines_line)
qed (simp add: file_text_def text_lines.simps)

section \<open>Files\<close>

definition nums :: "i32 \<times> i32 \<times> i32 \<times> i32 \<Rightarrow> int \<times> int \<times> int \<times> int" where
  "nums = (\<lambda>(m, c, ip, port). (sint m, sint c, sint ip, sint port))"

definition py_add :: "i32 \<times> i32 \<times> i32 \<times> i32 \<Rightarrow> py_route \<Rightarrow> py_route" where
  "py_add = (\<lambda>(m, c, ip, port) rt. AList.update (sint m, sint c)
     ((case map_of rt (sint m, sint c) of None \<Rightarrow> [] | Some hs \<Rightarrow> hs) @ [(sint ip, sint port)]) rt)"

lemma int_attr_dec: "i < length as \<Longrightarrow> as ! i = dec_int n \<Longrightarrow> int_attr as i = Inr n"
  using read_int_dec [of "[]" "[]" n] by (simp add: int_attr_def ends_number_def)

lemma load_lines_py: "load_lines (map (line_text \<circ> nums) ls) rt = (None, fold py_add ls rt)"
proof (induction ls arbitrary: rt)
  case (Cons l ls)
  obtain m c ip port where l: "l = (m, c, ip, port)" using prod_cases4 by blast
  with Cons.IH show ?case by (simp add: nums_def line_words int_attr_dec py_add_def Let_def)
qed simp

lemma load_files_py:
  "py_load_files (map (\<lambda>ls. Some (file_text (map nums ls))) lss) rt = (None, fold py_add (concat lss) rt)"
  by (induction lss arbitrary: rt) (simp_all add: file_lines load_lines_py)

definition py_hosts :: "py_route \<Rightarrow> int \<times> int \<Rightarrow> (int \<times> int) list" where
  "py_hosts rt k = (case map_of rt k of None \<Rightarrow> [] | Some hs \<Rightarrow> hs)"

text \<open>The hosts that the lines have for a module.\<close>

definition hosts_for :: "i32 \<Rightarrow> i32 \<Rightarrow> (i32 \<times> i32 \<times> i32 \<times> i32) list \<Rightarrow> (i32 \<times> i32) list" where
  "hosts_for m c ls = map (\<lambda>(a, b, ip, port). (ip, port)) (filter (\<lambda>(a, b, ip, port). a = m \<and> b = c) ls)"

lemma sint_inj: "sint (a :: i32) = sint b \<longleftrightarrow> a = b"
  using signed_word_eqI [of a b] by auto

lemma py_hosts_add:
  "py_hosts (py_add (a, b, ip, port) rt) (sint m, sint c) =
   py_hosts rt (sint m, sint c) @ (if a = m \<and> b = c then [(sint ip, sint port)] else [])"
  by (auto simp: py_add_def py_hosts_def sint_inj hm.find_put)

lemma py_hosts_adds:
  "py_hosts (fold py_add ls rt) (sint m, sint c) =
   py_hosts rt (sint m, sint c) @ map (\<lambda>(ip, port). (sint ip, sint port)) (hosts_for m c ls)"
  by (induction ls arbitrary: rt) (auto simp: py_hosts_add hosts_for_def split: if_splits)

lemma py_adds_some:
  "\<forall>k. map_of rt k \<noteq> Some [] \<Longrightarrow> \<forall>k. map_of (fold py_add ls rt) k \<noteq> Some []"
proof (induction ls arbitrary: rt)
  case (Cons l ls)
  have "\<forall>k. map_of (py_add l rt) k \<noteq> Some []" using Cons.prems by (cases l) (auto simp: py_add_def hm.find_put)
  from Cons.IH [OF this] show ?case by simp
qed simp

lemma cpp_lines: "lines_of (mkkey m c) (map nums ls) = map (\<lambda>(ip, port). (inet_ntoa ip, port)) (hosts_for m c ls)"
  by (induction ls) (auto simp: lines_of_def hosts_for_def nums_def)

lemma nums_long: "list_all in_long (map nums ls)"
  using sint_long by (auto simp: list_all_iff nums_def in_long_def)

section \<open>A dead agent\<close>

text \<open>Both tables were loaded from the same lines, or not at all.\<close>

definition same_static :: "StaticRoute \<Rightarrow> py_route option \<Rightarrow> bool" where
  "same_static sr st \<longleftrightarrow> (\<exists>ls. sr = fold sr_add (map nums ls) \<lparr> sr_route = [] \<rparr>
     \<and> (st = Some (fold py_add ls []) \<or> ls = [] \<and> st = None))"

lemma same_static_free [simp]: "same_static (freeData sr) None"
  by (auto simp: same_static_def freeData_def)

lemma loaded_empty:
  "sr_route (fold sr_add (map nums ls) \<lparr> sr_route = [] \<rparr>) = [] \<longleftrightarrow> ls = []" "fold py_add ls [] = [] \<longleftrightarrow> ls = []"
proof -
  have u: "AList.update k v xs \<noteq> []" for k v and xs :: "('a \<times> 'b) list" by (cases xs) auto
  show "sr_route (fold sr_add (map nums ls) \<lparr> sr_route = [] \<rparr>) = [] \<longleftrightarrow> ls = []"
    by (cases ls rule: rev_cases) (auto simp: sr_add_def sr_push_def nums_def u split: prod.split)
  show "fold py_add ls [] = [] \<longleftrightarrow> ls = []"
    by (cases ls rule: rev_cases) (auto simp: py_add_def u split: prod.split)
qed

lemma static_lookup:
  assumes "sr = fold sr_add (map nums ls) \<lparr> sr_route = [] \<rparr>" "rt = fold py_add ls []"
  shows "(case map_of (sr_route sr) (mkkey m c) of None \<Rightarrow> None | Some hs \<Rightarrow> Some (hs ! (r mod length hs)))
     = map_option (\<lambda>(ip, port). (inet_ntoa ip, port))
        (if hosts_for m c ls = [] then None else Some (hosts_for m c ls ! (r mod length (hosts_for m c ls))))"
    "map_of rt (sint m, sint c) = (if hosts_for m c ls = [] then None
      else Some (map (\<lambda>(ip, port). (sint ip, sint port)) (hosts_for m c ls)))"
proof -
  have "sr_hosts sr (mkkey m c) = map (\<lambda>(ip, port). (inet_ntoa ip, port)) (hosts_for m c ls)"
    unfolding assms(1) sr_adds by (simp add: cpp_lines sr_hosts_def)
  moreover have "sr_ok sr" unfolding assms(1) by (rule sr_ok_adds) (simp add: sr_ok_def)
  ultimately show "(case map_of (sr_route sr) (mkkey m c) of None \<Rightarrow> None | Some hs \<Rightarrow> Some (hs ! (r mod length hs)))
     = map_option (\<lambda>(ip, port). (inet_ntoa ip, port))
        (if hosts_for m c ls = [] then None else Some (hosts_for m c ls ! (r mod length (hosts_for m c ls))))"
    by (auto simp: sr_hosts_def sr_ok_def split: option.splits)
  have "py_hosts rt (sint m, sint c) = map (\<lambda>(ip, port). (sint ip, sint port)) (hosts_for m c ls)"
    unfolding assms(2) py_hosts_adds by (simp add: py_hosts_def)
  moreover have "map_of rt (sint m, sint c) \<noteq> Some []" unfolding assms(2) using py_adds_some [of "[]" ls] by simp
  ultimately show "map_of rt (sint m, sint c) = (if hosts_for m c ls = [] then None
      else Some (map (\<lambda>(ip, port). (sint ip, sint port)) (hosts_for m c ls)))"
    by (auto simp: py_hosts_def split: option.splits)
qed

lemma ip_text_sint: "ip_text (sint (w :: i32)) = py_ret (inet_ntoa w)"
proof -
  have "w + 4294967296 = w" by (simp add: word_eq_iff_unsigned)
  then have "inet_ntoa (w + 4294967296) = inet_ntoa w" by (rule arg_cong)
  moreover have "- (2 ^ 31) \<le> sint w" "sint w < 2 ^ 31" using sint_range_size [of w] by (simp_all add: word_size)
  ultimately show ?thesis by (simp add: ip_text_def)
qed

definition agent_files :: "(i32 \<times> i32 \<times> i32 \<times> i32) list list \<Rightarrow> string option list" where
  "agent_files lss = map (\<lambda>ls. Some (file_text (map nums ls))) lss"

lemma getHost_static:
  assumes "same_static sr (py_static s)"
  shows "\<exists>sr' h rt. StaticRoute_getHost (agent_files lss) r m c sr = Inr (sr', h) \<and> same_static sr' (Some rt)
    \<and> py_static_getHost (agent_files lss) r (sint m) (sint c) s
      = (Inr (map_option (\<lambda>(ip, port). (ip, sint port)) h), s\<lparr>py_static := Some rt\<rparr>)"
proof -
  from assms obtain ls where ls: "sr = fold sr_add (map nums ls) \<lparr> sr_route = [] \<rparr>"
    "py_static s = Some (fold py_add ls []) \<or> ls = [] \<and> py_static s = None" by (auto simp: same_static_def)
  define ls' where "ls' = (if ls = [] then concat lss else ls)"
  define sr' where "sr' = fold sr_add (map nums ls') \<lparr> sr_route = [] \<rparr>"
  define rt where "rt = fold py_add ls' []"
  have f: "foldM (\<lambda>sr f. load_route f sr) \<lparr> sr_route = [] \<rparr> (agent_files lss)
      = Inr (fold sr_add (map nums (concat lss)) \<lparr> sr_route = [] \<rparr>)"
    using load_files [of "map (map nums) lss" "\<lparr> sr_route = [] \<rparr>"] nums_long
    by (simp add: agent_files_def comp_def map_concat)
  have c: "(if sr_route sr = [] then foldM (\<lambda>sr f. load_route f sr) sr (agent_files lss) else Inr sr) = Inr sr'"
    using loaded_empty(1) [of ls] f by (auto simp: ls(1) ls'_def sr'_def)
  have p: "(case py_static s of Some (x # xs) \<Rightarrow> (None, x # xs) | _ \<Rightarrow> py_load_files (agent_files lss) []) = (None, rt)"
    using loaded_empty(2) [of ls] ls(2) load_files_py [of lss "[]"]
    by (auto simp: ls'_def rt_def agent_files_def split: list.split option.split)
  let ?hs = "hosts_for m c ls'"
  have "same_static sr' (Some rt)" by (auto simp: same_static_def sr'_def rt_def)
  moreover have "StaticRoute_getHost (agent_files lss) r m c sr = Inr (sr', map_option (\<lambda>(ip, port). (inet_ntoa ip, port))
      (if ?hs = [] then None else Some (?hs ! (r mod length ?hs))))"
    unfolding StaticRoute_getHost_def c using static_lookup(1) [OF sr'_def rt_def] by simp
  moreover have "?hs ! (r mod length ?hs) \<in> set ?hs" if "?hs \<noteq> []" using that by simp
  then have "py_static_getHost (agent_files lss) r (sint m) (sint c) s
      = (Inr (map_option (\<lambda>(ip, port). (inet_ntoa ip, sint port)) (if ?hs = [] then None else Some (?hs ! (r mod length ?hs)))),
         s\<lparr>py_static := Some rt\<rparr>)"
    using static_lookup(2) [OF sr'_def rt_def, of m c]
    by (simp add: py_static_getHost_def py_defs p ip_text_sint split_beta)
  ultimately show ?thesis by (auto simp: split_beta)
qed

end
