(* ===== verification/PyRefine.thy ===== *)
theory PyRefine
  imports PyStatic
begin

text \<open>
  The Python client follows the C++ client. \<open>py_of\<close> reads a state of the C++ client as one of the
  Python client; whenever a call of the C++ client returns, the same call in Python
  returns the same and ends in the state that is read from the new one, provided that
  both tests of the heartbeat agree, the backup files are those of an agent, and what arrives is not late.
\<close>

section \<open>Reading a C++ state in Python\<close>

definition py_host :: "i32 \<times> i32 \<Rightarrow> string \<times> int" where
  "py_host h = (inet_ntoa (fst h), sint (snd h))"

definition py_key :: "u64 \<Rightarrow> string \<times> int" where
  "py_key k = py_host (key_hi k, key_lo k)"

definition py_counts :: "(u64 \<times> u32) list \<Rightarrow> ((string \<times> int) \<times> int) list" where
  "py_counts a = map (\<lambda>(k, n). (py_key k, uint n)) a"

definition py_cu :: "CacheUnit \<Rightarrow> PyUnit" where
  "py_cu cu = \<lparr> pu_modid = sint (cu_modid cu), pu_cmdid = sint (cu_cmdid cu), pu_overload = cu_overload cu,
     pu_lstUpdTs = cu_lstUpdTs cu, pu_version = cu_version cu, pu_succCnt = uint (cu_succCnt cu),
     pu_nodeList = map py_host (cu_nodeList cu), pu_succAccum = py_counts (cu_succAccum cu) \<rparr>"

definition py_id :: "u64 \<Rightarrow> int \<times> int" where
  "py_id k = (sint (if sint (key_lo k) < 0 then key_hi k + 1 else key_hi k), sint (key_lo k))"

definition py_mods :: "CacheLayer \<Rightarrow> ((int \<times> int) \<times> PyUnit) list" where
  "py_mods ca = map (\<lambda>(k, cu). (py_id k, py_cu cu)) ca"

definition py_of :: "py_route option \<Rightarrow> arrival list \<Rightarrow> (int \<times> agent_req) list \<Rightarrow> elbClient \<Rightarrow> Py" where
  "py_of st rx sent cl = \<lparr> py_seq = uint (ec_seqid cl), py_static = st, py_agentOff = (ec_agentOff cl \<noteq> Some False),
     py_cache = py_mods (ec_cache cl), py_tsget = uint (ec_tsget cl), py_tx = [], py_rx = rx, py_sent = sent \<rparr>"

fun packet_of :: "arrival \<Rightarrow> packet" where
  "packet_of (Dgram i len (Some r)) = (if i = rsp_id r then Pkt r else Garbled)"
| "packet_of (Dgram i len None) = Garbled"
| "packet_of a = Failed"

definition cpp_net :: "arrival list \<Rightarrow> (int \<times> agent_req) list \<Rightarrow> net" where
  "cpp_net rx sent = \<lparr> n_tx = [], n_rx = map packet_of rx, n_sent = sent \<rparr>"

text \<open>Ports are not negative, and what arrives is a time out or an answer of the agent.\<close>

fun clean :: "arrival \<Rightarrow> bool" where
  "clean Timeout = True"
| "clean (Dgram i len r) = (case r of
      Some (CacheRsp x) \<Rightarrow> i = CacheGetRouteRspId \<and> len \<and> list_all (\<lambda>h. 0 \<le> sint (ha_port h)) (cgr_route x)
    | Some x \<Rightarrow> i = rsp_id x \<and> len
    | None \<Rightarrow> False)"
| "clean _ = False"

text \<open>A module is cached under its own key.\<close>

definition cl_ok :: "elbClient \<Rightarrow> bool" where
  "cl_ok cl \<longleftrightarrow> list_all (\<lambda>(k, cu). k = mkkey (cu_modid cu) (cu_cmdid cu)) (ec_cache cl)"

definition mod_ids :: "i32 \<Rightarrow> i32 \<Rightarrow> bool" where
  "mod_ids m c \<longleftrightarrow> 0 \<le> sint m + sint c \<and> sint m + sint c < 2 ^ 31"

section \<open>Parts\<close>

lemma py_simps [simp]:
  "py_ret x s = (Inr x, s)" "raise e s = (Inl e, s)" "py_do f s = (Inr (), f s)" "py_get g s = (Inr (g s), s)"
  "py_bind m h s = (case m s of (Inl e, s') \<Rightarrow> (Inl e, s') | (Inr x, s') \<Rightarrow> h x s')"
  by (simp_all add: py_defs)

lemma py_bind_Inr: "m s = (Inr x, s') \<Longrightarrow> py_bind m f s = f x s'"
  by simp

lemma as_simps [simp]: "as_i32 (sint (w :: i32)) = py_ret w" "as_u32 (uint (v :: u32)) = py_ret v"
  using sint_range_size [of w] uint_range_size [of v] by (simp_all add: as_i32_def as_u32_def word_size)

lemma ip_number_ntoa [simp]: "ip_number (inet_ntoa w) = py_ret w"
  by (simp add: ip_number_def)

declare ip_text_sint [simp] sint_inj [simp]

lemma inet_ntoa_eq [simp]: "inet_ntoa a = inet_ntoa b \<longleftrightarrow> a = b"
  by (metis inet_aton_ntoa option.inject)

lemma shard_py:
  assumes "mod_ids m c"
  shows "(sint m + sint c) mod 3 = shard m c" "0 \<le> shard m c" "shard m c < 3"
proof -
  have "sint (m + c) = sint m + sint c"
    using assms by (simp add: sint_word_ariths mod_ids_def signed_take_bit_int_eq_self)
  then show "(sint m + sint c) mod 3 = shard m c" "0 \<le> shard m c" "shard m c < 3"
    using assms by (simp_all add: shard_def c_rem_def mod_ids_def)
qed

section \<open>The dictionaries\<close>

text \<open>A dictionary under an injective renaming of its keys.\<close>

lemma map_keys:
  assumes "inj f"
  shows "map_of (map (\<lambda>(k, v). (f k, g v)) xs) (f k) = map_option g (map_of xs k)"
    "map (\<lambda>(k, v). (f k, g v)) (AList.update k v xs) = AList.update (f k) (g v) (map (\<lambda>(k, v). (f k, g v)) xs)"
    "map (\<lambda>(k, v). (f k, g v)) (AList.delete k xs) = AList.delete (f k) (map (\<lambda>(k, v). (f k, g v)) xs)"
  by (induction xs) (auto simp: inj_eq [OF assms])

lemma key_split: "k = mkkey (if sint (key_lo k) < 0 then key_hi k + 1 else key_hi k) (key_lo k)"
proof -
  let ?a = "if sint (key_lo k) < 0 then key_hi k + 1 else key_hi k"
  have "uint k = uint (key_hi k) * 2 ^ 32 + uint (key_lo k)" for k
  proof -
    have "uint (key_lo k) = uint k mod 2 ^ 32"
      by (simp only: key_lo_def unsigned_ucast_eq take_bit_eq_mod) simp
    then show ?thesis by (simp only: uint_key_hi) (simp only: div_mult_mod_eq)
  qed
  from this [of k] this [of "mkkey ?a (key_lo k)"] show ?thesis
    by (simp only: word_uint_eq_iff key_lo_mkkey key_hi_mkkey) (auto split: if_splits)
qed

lemma key_eqI: "key_hi a = key_hi b \<Longrightarrow> key_lo a = key_lo b \<Longrightarrow> a = b"
  by (rule trans [OF key_split [of a] trans [OF _ key_split [of b, symmetric]]]) simp

lemma py_id_mkkey [simp]: "py_id (mkkey m c) = (sint m, sint c)"
  by (auto simp: py_id_def key_hi_mkkey)

lemma py_id_inj: "inj py_id"
  by (rule injI, rule key_eqI) (auto simp: py_id_def split: if_splits)

lemma py_key_mkkey: "0 \<le> sint port \<Longrightarrow> py_key (mkkey ip port) = (inet_ntoa ip, sint port)"
  by (simp add: py_key_def py_host_def key_hi_mkkey)

lemma py_key_inj: "inj py_key"
  by (rule injI, rule key_eqI) (simp_all add: py_key_def py_host_def)

lemma py_of_simps [simp]:
  "py_seq (py_of st rx sent cl) = uint (ec_seqid cl)" "py_static (py_of st rx sent cl) = st"
  "py_agentOff (py_of st rx sent cl) = (ec_agentOff cl \<noteq> Some False)" "py_tsget (py_of st rx sent cl) = uint (ec_tsget cl)"
  "py_tx (py_of st rx sent cl) = []" "py_rx (py_of st rx sent cl) = rx" "py_sent (py_of st rx sent cl) = sent"
  "py_of st rx sent cl\<lparr>py_rx := rx'\<rparr> = py_of st rx' sent cl" "py_of st rx sent cl\<lparr>py_sent := sent'\<rparr> = py_of st rx sent' cl"
  "py_of st rx sent cl\<lparr>py_static := st', py_agentOff := False\<rparr> = py_of st' rx sent (cl\<lparr>ec_agentOff := Some False, ec_static := x\<rparr>)"
  "py_of st rx sent cl\<lparr>py_tsget := uint t\<rparr> = py_of st rx sent (cl\<lparr>ec_tsget := t\<rparr>)"
  by (simp_all add: py_of_def)

lemma unit_py [simp]:
  "py_unit (sint m, sint c) (py_of st rx sent cl) = (Inr (map_option py_cu (getCache m c (ec_cache cl))), py_of st rx sent cl)"
  using map_keys(1) [OF py_id_inj, of py_cu "ec_cache cl" "mkkey m c"]
  by (simp add: py_unit_def py_of_def py_mods_def getCache_def)

lemma put_py [simp]:
  "py_put (sint m, sint c) (py_cu cu) (py_of st rx sent cl) = (Inr (), py_of st rx sent (put_unit cu m c cl))"
  using map_keys(2) [OF py_id_inj, of py_cu "mkkey m c" cu "ec_cache cl"]
  by (simp add: py_put_def py_of_def py_mods_def put_unit_def addCache_def)

lemma del_py:
  "py_of st rx sent cl\<lparr>py_cache := AList.delete (sint m, sint c) (py_cache (py_of st rx sent cl))\<rparr>
    = py_of st rx sent (cl\<lparr>ec_cache := rmCache m c (ec_cache cl)\<rparr>)"
  using map_keys(3) [OF py_id_inj, of py_cu "mkkey m c" "ec_cache cl"]
  by (simp add: py_of_def py_mods_def rmCache_def)

lemma list_all_update: "list_all P xs \<Longrightarrow> P (k, v) \<Longrightarrow> list_all P (AList.update k v xs)"
  by (induction xs) auto

lemma cl_ok_put: "cl_ok cl \<Longrightarrow> cu_modid cu = m \<Longrightarrow> cu_cmdid cu = c \<Longrightarrow> cl_ok (put_unit cu m c cl)"
  by (simp add: cl_ok_def put_unit_def addCache_def list_all_update)

lemma cl_ok_get: "cl_ok cl \<Longrightarrow> getCache m c (ec_cache cl) = Some cu \<Longrightarrow> cu_modid cu = m \<and> cu_cmdid cu = c"
  by (auto simp: cl_ok_def getCache_def list_all_iff dest!: map_of_SomeD)

section \<open>Parts of a call\<close>

lemma update_same: "map_of xs k = Some v \<Longrightarrow> AList.update k v xs = xs"
  by (induction xs) auto

lemma put_same: "getCache m c (ec_cache cl) = Some cu \<Longrightarrow> put_unit cu m c cl = cl"
  by (simp add: put_unit_def addCache_def getCache_def update_same)

lemma put_twice: "put_unit cu m c (put_unit cu' m c cl) = put_unit cu m c cl"
  by (simp add: put_unit_def addCache_def update_last)

lemma send_py:
  assumes "mod_ids m c"
  shows "api_send m c q (cpp_net rx sent) = Inr (cpp_net rx (sent @ [(shard m c, q)]), True)"
    "py_send (sint m) (sint c) q (py_of st rx sent cl) = (Inr True, py_of st rx (sent @ [(shard m c, q)]) cl)"
  using shard_py [OF assms] by (simp_all add: api_send_def cpp_net_def py_send_def)

lemma batch_items_py:
  "batch_items (py_counts a) rs =
    (Inr (rs @ map (\<lambda>(k, n). \<lparr> hbc_ip = key_hi k, hbc_port = key_lo k, hbc_succcnt = n \<rparr>) (filter (\<lambda>(k, n). n \<noteq> 0) a)),
     py_counts (map (\<lambda>(k, n). (k, 0)) a))"
proof (induction a arbitrary: rs)
  case (Cons x a)
  obtain k n where x: "x = (k, n)" by fastforce
  have "- (2 ^ 31) \<le> sint (key_lo k)" "sint (key_lo k) < 2 ^ 31" "uint n < 2 ^ 32"
    using sint_range_size [of "key_lo k"] uint_range_size [of n] by (simp_all add: word_size)
  moreover have "uint n = 0 \<longleftrightarrow> n = 0" by (rule uint_0_iff)
  ultimately show ?case using Cons.IH by (simp add: x py_counts_def py_key_def py_host_def)
qed (simp add: py_counts_def)

lemma batch_py:
  assumes "cl_ok cl" "getCache m c (ec_cache cl) = Some cu" "mod_ids m c"
  shows "ends (\<lambda>_. True) (\<lambda>(cu', n'). \<exists>sent'. n' = cpp_net rx sent' \<and> cu_modid cu' = m \<and> cu_cmdid cu' = c
      \<and> py_batch (sint m, sint c) (py_cu cu) (py_of st rx sent cl) = (Inr (), py_of st rx sent' (put_unit cu' m c cl)))
    (batchReportRes en cu (cpp_net rx sent))"
proof -
  have i: "cu_modid cu = m" "cu_cmdid cu = c" using cl_ok_get [OF assms(1,2)] by simp_all
  show ?thesis
  proof (cases "cu_succCnt cu = 0")
    case True
    with i put_same [OF assms(2)] show ?thesis by (auto simp: batchReportRes_def py_batch_def py_cu_def)
  next
    case False
    let ?cu1 = "cu\<lparr>cu_succAccum := map (\<lambda>(k, n). (k, 0)) (cu_succAccum cu)\<rparr>"
    let ?cu2 = "cu\<lparr>cu_succCnt := 0, cu_succAccum := map (\<lambda>(k, n). (k, 0)) (cu_succAccum cu)\<rparr>"
    have "(py_cu cu)\<lparr>pu_succAccum := py_counts (map (\<lambda>(k, n). (k, 0)) (cu_succAccum cu))\<rparr> = py_cu ?cu1"
      "(py_cu ?cu1)\<lparr>pu_succCnt := 0\<rparr> = py_cu ?cu2" by (simp_all add: py_cu_def)
    moreover have "pu_succCnt (py_cu cu) \<noteq> 0" "pu_modid (py_cu cu) = sint m" "pu_cmdid (py_cu cu) = sint c"
      "pu_succAccum (py_cu cu) = py_counts (cu_succAccum cu)" using False i by (simp_all add: py_cu_def uint_0_iff)
    ultimately have "py_batch (sint m, sint c) (py_cu cu) (py_of st rx sent cl)
        = (Inr (), py_of st rx (sent @ [(shard m c, BatchReport (batch_req cu))]) (put_unit ?cu2 m c cl))"
      by (simp add: py_batch_def batch_items_py send_py(2) [OF assms(3)] put_twice batch_req_def i Let_def)
    with False i show ?thesis by (auto simp: batchReportRes_def Let_def send_py(1) [OF assms(3)])
  qed
qed

lemma fill_py:
  assumes "list_all (\<lambda>h. 0 \<le> sint (ha_port h)) (cgr_route rsp)"
  shows "pu_fill rsp ts (py_cu cu) = py_cu (fill_unit rsp ts cu)"
proof -
  have "list_all (\<lambda>h. 0 \<le> sint (ha_port h)) hs \<Longrightarrow> fold (\<lambda>h. AList.update (inet_ntoa (ha_ip h), sint (ha_port h)) 0) hs (py_counts a)
      = py_counts (fold (\<lambda>h a. AList.update (mkkey (ha_ip h) (ha_port h)) 0 a) hs a)" for hs a
  proof (induction hs arbitrary: a)
    case (Cons h hs)
    have "AList.update (inet_ntoa (ha_ip h), sint (ha_port h)) 0 (py_counts a)
        = py_counts (AList.update (mkkey (ha_ip h) (ha_port h)) 0 a)"
      using map_keys(2) [OF py_key_inj, of uint "mkkey (ha_ip h) (ha_port h)" 0 a] Cons.prems
      by (simp add: py_counts_def py_key_mkkey)
    with Cons show ?case by simp
  qed simp
  from this [of "cgr_route rsp" "[]"] assms show ?thesis
    by (simp add: pu_fill_def fill_unit_def py_cu_def py_counts_def py_host_def comp_def)
qed

lemma keep_py: "pu_keep rsp ts (py_cu cu) = py_cu (keep_unit rsp ts cu)"
  by (simp add: pu_keep_def keep_unit_def py_cu_def)

lemma take_py:
  assumes "list_all (\<lambda>h. 0 \<le> sint (ha_port h)) (cgr_route rsp)"
  shows "py_take rsp (sint m) (sint c) ts (py_of st rx sent cl) = (Inr (), py_of st rx sent (take_route rsp m c ts cl))"
proof -
  have n: "new_pu (sint m) (sint c) = py_cu (new_unit m c)"
    by (simp add: new_pu_def py_cu_def new_unit_def py_counts_def)
  have "pu_version (py_cu cu) = cu_version cu" for cu by (simp add: py_cu_def)
  then show ?thesis
    by (simp add: py_take_def take_route_def del_py fill_py [OF assms] keep_py n split: option.split)
qed

lemma cl_ok_take:
  "cl_ok cl \<Longrightarrow> cl_ok (take_route rsp m c ts cl)"
  using cl_ok_get [of cl m c]
  by (auto simp: take_route_def cl_ok_put split: option.split)
    (auto simp: cl_ok_def rmCache_def list_all_iff AList.delete_eq)

section \<open>Calls\<close>

text \<open>The Python call returns the result and the state read from what the C++ call has left.\<close>

definition py_end :: "(arrival \<Rightarrow> bool) \<Rightarrow> py_route option \<Rightarrow> (py_exn + 'a) \<times> Py \<Rightarrow> 'a \<Rightarrow> elbClient \<Rightarrow> net \<Rightarrow> bool" where
  "py_end P st p x cl n \<longleftrightarrow> cl_ok cl \<and>
     (\<exists>rx sent. list_all P rx \<and> n = cpp_net rx sent \<and> p = (Inr x, py_of st rx sent cl))"

lemma py_endI [intro]:
  "cl_ok cl \<Longrightarrow> list_all P rx \<Longrightarrow> py_end P st (Inr x, py_of st rx sent cl) x cl (cpp_net rx sent)"
  by (auto simp: py_end_def)

text \<open>An answer about a host is not late, and one with the number of the request is about its module.\<close>

fun timely :: "u32 \<Rightarrow> i32 \<Rightarrow> i32 \<Rightarrow> arrival \<Rightarrow> bool" where
  "timely q m c (Dgram i len (Some (HostRsp r))) \<longleftrightarrow> i = GetHostRspId \<and> len \<and> q \<le> ghr_seq r
     \<and> (ghr_seq r = q \<longrightarrow> ghr_modid r = m \<and> ghr_cmdid r = c)"
| "timely q m c a = clean a"

lemma timely_clean: "timely q m c a \<Longrightarrow> clean a"
  by (induction q m c a rule: timely.induct) auto

lemma recv_cpp: "api_recv (cpp_net rx sent) =
    (case rx of [] \<Rightarrow> Inl Hang | a # r \<Rightarrow> Inr (cpp_net r sent, packet_of a))"
  by (simp add: api_recv_def cpp_net_def split: list.split)

lemma recv_py: "py_recv (py_of st rx sent cl) =
    (case rx of [] \<Rightarrow> (Inl Waiting, py_of st rx sent cl) | a # r \<Rightarrow> (Inr a, py_of st r sent cl))"
  by (simp add: py_recv_def split: list.split)

lemma getRoute_py:
  assumes "cl_ok cl" "mod_ids m c" "list_all P rx" "\<And>a. P a \<Longrightarrow> clean a"
  shows "ends (\<lambda>_. True) (\<lambda>(cl', r, n'). ec_seqid cl' = ec_seqid cl \<and>
      py_end P st (py_getRoute4Cache (sint m) (sint c) ts (py_of st rx sent cl)) r cl' n')
    (getRoute4Cache m c ts cl (cpp_net rx sent))"
proof (cases rx)
  case Nil
  then show ?thesis by (simp add: getRoute4Cache_def Let_def send_py(1) [OF assms(2)] recv_cpp)
next
  case (Cons a r)
  let ?q = "CacheGetRoute \<lparr> cgq_modid = m, cgq_cmdid = c,
     cgq_version = (case getCache m c (ec_cache cl) of None \<Rightarrow> - 1 | Some cu \<Rightarrow> cu_version cu) \<rparr>"
  have v: "case_option x (pu_version \<circ> py_cu) u = case_option x cu_version u" for x u
    by (simp add: py_cu_def split: option.split)
  have r: "list_all P r" and a: "clean a" using assms(3,4) Cons by simp_all
  show ?thesis
  proof (cases a)
    case Timeout
    with assms(1) r Cons show ?thesis
      by (auto simp: getRoute4Cache_def py_getRoute4Cache_def Let_def send_py [OF assms(2)] recv_cpp recv_py v)
  next
    case (Dgram i len x)
    with a obtain y where x: "x = Some y" by (cases x) auto
    show ?thesis
    proof (cases y)
      case (CacheRsp rsp)
      with a Dgram x have "i = CacheGetRouteRspId" len and p: "list_all (\<lambda>h. 0 \<le> sint (ha_port h)) (cgr_route rsp)"
        by simp_all
      moreover have "ec_seqid (take_route rsp m c ts cl) = ec_seqid cl"
        by (auto simp: take_route_def put_unit_def split: option.split)
      ultimately show ?thesis using assms(1) r Cons Dgram x CacheRsp
        by (auto simp: getRoute4Cache_def py_getRoute4Cache_def Let_def send_py [OF assms(2)] recv_cpp recv_py v take_py [OF p] cl_ok_take)
    qed (use assms(1) r a Cons Dgram x in \<open>auto simp: getRoute4Cache_def py_getRoute4Cache_def Let_def
        send_py [OF assms(2)] recv_cpp recv_py v\<close>)
  qed (use a in simp_all)
qed

definition py_env_of :: "api_env \<Rightarrow> py_env" where
  "py_env_of en = \<lparr> pe_now = en_now en, pe_mills = uint (en_mills en), pe_hb = en_hb en,
     pe_choice = en_rand en, pe_files = en_files en \<rparr>"

definition py_answer :: "int \<Rightarrow> api_host option \<Rightarrow> py_result" where
  "py_answer ret h = (ret, map_option (\<lambda>(ip, port). (ip, sint port)) h)"

lemma take_answer_py:
  assumes "q \<le> ghr_seq r" "ghr_seq r = q \<longrightarrow> ghr_modid r = m \<and> ghr_cmdid r = c"
  shows "py_take_answer (py_env_of en) q (Some r) (py_of st rx sent cl) =
    (case take_answer en m c q (Some r) cl of (cl', ret, h) \<Rightarrow> (Inr (py_answer ret h), py_of st rx sent cl'))"
  using assms(2) by (auto simp: py_take_answer_def take_answer_def py_answer_def py_env_of_def Let_def split: option.split)

lemma cl_ok_frame: "ec_cache cl' = ec_cache cl \<Longrightarrow> cl_ok cl' = cl_ok cl"
  by (simp add: cl_ok_def)

lemma take_answer_cache: "take_answer en m c q ans cl = (cl', ret, h) \<Longrightarrow> ec_cache cl' = ec_cache cl"
  by (auto simp: take_answer_def Let_def split: option.splits if_splits)

lemma py_askAgent_step:
  assumes "mod_ids m c" "uint (ec_seqid cl) < 2 ^ 31"
    and "q = ec_seqid cl" "cl' = cl\<lparr>ec_seqid := q + 1\<rparr>"
    and "sent' = sent @ [(shard m c, GetHost \<lparr> ghq_seq = q, ghq_modid = m, ghq_cmdid = c \<rparr>)]"
  shows "py_askAgent (py_env_of en) (sint m) (sint c) (py_of st (a # r) sent cl) = (case a of
      Timeout \<Rightarrow> (Inr (API_ERR, None), py_of st r sent' cl')
    | SocketFails \<Rightarrow> (Inl SocketError, py_of st r sent' cl') | Short \<Rightarrow> (Inl StructError, py_of st r sent' cl')
    | Dgram i len x \<Rightarrow> if i \<noteq> GetHostRspId \<or> \<not> len then (Inr (API_ERR, None), py_of st r sent' cl')
        else (case x of
            Some (HostRsp rsp) \<Rightarrow> py_bind (\<lambda>s. case py_recv_again q rsp (py_rx s) of (x, rx) \<Rightarrow> (x, s\<lparr>py_rx := rx\<rparr>))
              (py_take_answer (py_env_of en) q) (py_of st r sent' cl')
          | _ \<Rightarrow> (Inl DecodeError, py_of st r sent' cl')))"
proof -
  have "uint (q + 1) = uint q + 1" using assms(2,3) by (simp add: uint_word_ariths mod_pos_pos_trivial)
  then have q: "py_of st rx s cl\<lparr>py_seq := uint q + 1\<rparr> = py_of st rx s cl'"
    "py_of st rx s cl\<lparr>py_seq := uint q\<rparr> = py_of st rx s cl" for rx s
    by (simp_all add: py_of_def assms(3,4))
  show ?thesis using assms(2) unfolding assms(3-5)
    by (cases a)
      (simp_all add: py_askAgent_def q [unfolded assms(3,4)] send_py(2) [OF assms(1)] recv_py del: py_simps(5) split del: if_split,
       simp_all add: q [unfolded assms(3,4)] send_py(2) [OF assms(1)] recv_py split: option.split agent_rsp.split)
qed

lemma askAgent_py:
  assumes "cl_ok cl" "mod_ids m c" "list_all (timely (ec_seqid cl) m c) rx" "uint (ec_seqid cl) < 2 ^ 31"
  shows "ends (\<lambda>_. True) (\<lambda>(cl', ret, h, n').
      py_end clean st (py_askAgent (py_env_of en) (sint m) (sint c) (py_of st rx sent cl)) (py_answer ret h) cl' n')
    (askAgent en m c cl (cpp_net rx sent))"
proof (cases rx)
  case Nil
  then show ?thesis by (simp add: askAgent_def Let_def send_py(1) [OF assms(2)] recv_cpp)
next
  case (Cons a r)
  let ?q = "ec_seqid cl" and ?cl = "cl\<lparr>ec_seqid := ec_seqid cl + 1\<rparr>"
  have ok: "cl_ok ?cl" using assms(1) by (simp add: cl_ok_def)
  have r: "list_all clean r" and t: "timely ?q m c a"
    using assms(3) Cons by (auto simp: list_all_iff intro: timely_clean)
  have n: "py_answer API_ERR None = (API_ERR, None)" by (simp add: py_answer_def)
  let ?sent = "sent @ [(shard m c, GetHost \<lparr> ghq_seq = ?q, ghq_modid = m, ghq_cmdid = c \<rparr>)]"
  note py = py_askAgent_step [OF assms(2,4) refl refl refl, of en st a r sent, folded Cons]
  show ?thesis
  proof (cases a)
    case Timeout
    with ok r py show ?thesis
      by (auto simp: askAgent_def Let_def send_py(1) [OF assms(2)] recv_cpp Cons n)
  next
    case (Dgram i len x)
    with t timely_clean [OF t] obtain y where x: "x = Some y" by (cases x) auto
    show ?thesis
    proof (cases y)
      case (HostRsp rsp)
      with t Dgram x have h: "i = GetHostRspId" len "?q \<le> ghr_seq rsp"
        "ghr_seq rsp = ?q \<longrightarrow> ghr_modid rsp = m \<and> ghr_cmdid rsp = c" by simp_all
      then have "\<not> ghr_seq rsp < ?q" by (simp add: not_less)
      then have g: "recv_again ?q rsp ps = Inr (ps, Some rsp)" "py_recv_again ?q rsp as = (Inr (Some rsp), as)" for ps as
        by (simp_all add: recv_again.simps [of ?q rsp] py_recv_again.simps [of ?q rsp])
      obtain cl' ret h' where ta: "take_answer en m c ?q (Some rsp) ?cl = (cl', ret, h')" by (metis prod_cases3)
      have ok': "cl_ok cl'" using cl_ok_frame [OF take_answer_cache [OF ta]] ok by simp
      have "cpp_net r ?sent\<lparr>n_rx := n_rx (cpp_net r ?sent)\<rparr> = cpp_net r ?sent" by (simp add: cpp_net_def)
      then have "askAgent en m c cl (cpp_net rx sent) = Inr (cl', ret, h', cpp_net r ?sent)"
        using h Dgram x HostRsp by (simp add: askAgent_def Let_def send_py(1) [OF assms(2)] recv_cpp Cons g ta)
      moreover have "py_askAgent (py_env_of en) (sint m) (sint c) (py_of st rx sent cl) = (Inr (py_answer ret h'), py_of st r ?sent cl')"
        using take_answer_py [OF h(3,4), of en st r ?sent ?cl] ta by (simp add: py Dgram x HostRsp h(1,2) g)
      ultimately show ?thesis using ok' r by auto
    qed (use ok r py timely_clean [OF t] Dgram x in \<open>auto simp: askAgent_def Let_def send_py(1) [OF assms(2)] recv_cpp Cons n\<close>)
  qed (use t in simp_all)
qed

lemma serve_py:
  assumes "cl_ok cl" "mod_ids m c" "list_all (timely (ec_seqid cl) m c) rx" "uint (ec_seqid cl) < 2 ^ 31"
  shows "ends (\<lambda>_. True) (\<lambda>(cl', ret, h, n').
      py_end clean st (py_serveHost (py_env_of en) (sint m) (sint c) (py_of st rx sent cl)) (py_answer ret h) cl' n')
    (serveHost en m c cl (cpp_net rx sent))"
proof (cases "getCache m c (ec_cache cl)")
  case None
  have "list_all clean rx" using assms(3) by (auto simp: list_all_iff intro: timely_clean)
  with None assms(1) show ?thesis by (auto simp: serveHost_def py_serveHost_def py_answer_def)
next
  case (Some cu)
  have rx: "list_all clean rx" using assms(3) by (auto simp: list_all_iff intro: timely_clean)
  show ?thesis
  proof (cases "cu_overload cu")
    case True
    then have "py_serveHost (py_env_of en) (sint m) (sint c) (py_of st rx sent cl)
        = py_askAgent (py_env_of en) (sint m) (sint c) (py_of st rx sent cl)"
      by (simp add: py_serveHost_def Some py_cu_def)
    with True show ?thesis using askAgent_py [OF assms] by (simp add: serveHost_def Some)
  next
    case False
    show ?thesis
    proof (cases "cu_nodeList cu")
      case Nil
      with False show ?thesis by (simp add: serveHost_def Some CacheUnit_getHost_def take_front_def)
    next
      case (Cons x ns)
      obtain ip port where x: "x = (ip, port)" by fastforce
      let ?cu = "cu\<lparr>cu_nodeList := ns @ [x]\<rparr>"
      have "(py_cu cu)\<lparr>pu_nodeList := map py_host ns @ [py_host x]\<rparr> = py_cu ?cu" by (simp add: py_cu_def)
      moreover have "pu_nodeList (py_cu cu) = py_host x # map py_host ns" "\<not> pu_overload (py_cu cu)"
        using Cons False by (simp_all add: py_cu_def)
      ultimately have "py_serveHost (py_env_of en) (sint m) (sint c) (py_of st rx sent cl)
          = (Inr (0, Some (py_host x)), py_of st rx sent ((put_unit ?cu m c cl)\<lparr>ec_tsget := en_mills en\<rparr>))"
        by (simp add: py_serveHost_def Some pu_getHost_def py_env_of_def)
      moreover have "cl_ok ((put_unit ?cu m c cl)\<lparr>ec_tsget := en_mills en\<rparr>)"
        using cl_ok_put [OF assms(1), of ?cu m c] cl_ok_get [OF assms(1) Some] by (simp add: cl_ok_def)
      moreover have "serveHost en m c cl (cpp_net rx sent)
          = Inr ((put_unit ?cu m c cl)\<lparr>ec_tsget := en_mills en\<rparr>, 0, Some (inet_ntoa ip, port), cpp_net rx sent)"
        using False Cons by (simp add: serveHost_def Some CacheUnit_getHost_def take_front_def x)
      ultimately show ?thesis using rx by (auto simp: py_answer_def py_host_def x)
    qed
  qed
qed

lemma refresh_py:
  assumes "cl_ok cl" "mod_ids m c" "list_all P rx" "\<And>a. P a \<Longrightarrow> clean a"
  shows "ends (\<lambda>_. True) (\<lambda>(cl', n'). ec_seqid cl' = ec_seqid cl \<and>
      py_end P st (py_refreshRoute (py_env_of en) (sint m) (sint c) (py_of st rx sent cl)) () cl' n')
    (refreshRoute en m c cl (cpp_net rx sent))"
proof (cases "getCache m c (ec_cache cl)")
  case None
  with assms(1,3) show ?thesis by (auto simp: refreshRoute_def py_refreshRoute_def)
next
  case (Some cu)
  show ?thesis
  proof (cases "2 \<le> en_now en - cu_lstUpdTs cu")
    case False
    with Some assms(1,3) show ?thesis by (auto simp: refreshRoute_def py_refreshRoute_def py_cu_def py_env_of_def)
  next
    case True
    have p: "py_refreshRoute (py_env_of en) (sint m) (sint c) (py_of st rx sent cl) =
        py_bind (py_batch (sint m, sint c) (py_cu cu)) (\<lambda>_. py_bind (py_getRoute4Cache (sint m) (sint c) (en_now en))
          (\<lambda>_. py_ret ())) (py_of st rx sent cl)"
      using True by (simp add: py_refreshRoute_def Some del: py_simps(5)) (simp add: Some py_cu_def py_env_of_def)
    have s: "ec_seqid (put_unit cu' m c cl) = ec_seqid cl" for cu' by (simp add: put_unit_def)
    show ?thesis unfolding refreshRoute_def Some option.case p using True
    proof (simp del: py_simps(5), intro ends_rbind [OF batch_py [OF assms(1) Some assms(2), where rx = rx and sent = sent and st = st and en = en]])
      fix x assume x: "case x of (cu', n') \<Rightarrow> \<exists>sent'. n' = cpp_net rx sent' \<and> cu_modid cu' = m \<and> cu_cmdid cu' = c
        \<and> py_batch (sint m, sint c) (py_cu cu) (py_of st rx sent cl) = (Inr (), py_of st rx sent' (put_unit cu' m c cl))"
      obtain cu' n' where [simp]: "x = (cu', n')" by fastforce
      from x obtain sent' where b: "n' = cpp_net rx sent'" "cu_modid cu' = m" "cu_cmdid cu' = c"
        "py_batch (sint m, sint c) (py_cu cu) (py_of st rx sent cl) = (Inr (), py_of st rx sent' (put_unit cu' m c cl))" by auto
      note g = getRoute_py [OF cl_ok_put [OF assms(1) b(2,3)] assms(2,3,4), of st "en_now en" sent']
      show "ends (\<lambda>_. True) (\<lambda>(cl', n'). ec_seqid cl' = ec_seqid cl \<and> py_end P st (py_bind (py_batch (sint m, sint c) (py_cu cu))
          (\<lambda>_. py_bind (py_getRoute4Cache (sint m) (sint c) (en_now en)) (\<lambda>_. py_ret ())) (py_of st rx sent cl)) () cl' n')
        (case x of (cu', n1) \<Rightarrow> rbind (getRoute4Cache m c (en_now en) (put_unit cu' m c cl) n1) (\<lambda>(cl', _, n2). Inr (cl', n2)))"
        by (auto simp: b s intro!: ends_rbind [OF g]) (auto simp: py_end_def, blast)
    qed
  qed
qed

text \<open>The heartbeat: what is alive for the unsigned test of the C++ client is alive for the signed one.\<close>

lemma alive_py:
  assumes "\<not> hb_die now hb" "0 \<le> now" "now < 2 ^ 63"
  shows "now - sint hb \<le> 2"
proof -
  let ?d = "(word_of_int now :: u64) - hb"
  have d: "0 \<le> uint ?d" "uint ?d \<le> 2" using assms(1) by (simp_all add: hb_die_def word_less_def not_less)
  have "hb = word_of_int (now - uint ?d)" by simp
  then have "sint hb = sint (word_of_int (now - uint ?d) :: u64)" by (rule arg_cong)
  then have "sint hb = signed_take_bit 63 (now - uint ?d)" unfolding sint_sbintrunc' by simp
  moreover have "- (2 ^ 63) \<le> now - x \<and> now - x < 2 ^ 63" if "0 \<le> x" "x \<le> 2" for x :: int
    using assms(2,3) that by simp
  with d have "signed_take_bit 63 (now - uint ?d) = now - uint ?d" by (intro signed_take_bit_int_eq_self) simp_all
  ultimately show ?thesis using d by simp
qed

definition beating :: "api_env \<Rightarrow> bool" where
  "beating en \<longleftrightarrow> \<not> hb_die (en_now en) (en_hb en) \<and> 0 \<le> en_now en \<and> en_now en < 2 ^ 63"

lemma py_seq:
  assumes "ends F (\<lambda>(cl', x, n'). ec_seqid cl' = q \<and> py_end P st (f s) x cl' n') m"
    and "\<And>cl' x rx' sent'. cl_ok cl' \<Longrightarrow> ec_seqid cl' = q \<Longrightarrow> list_all P rx' \<Longrightarrow>
      ends F (\<lambda>r. R (g x (py_of st rx' sent' cl')) r) (k cl' x (cpp_net rx' sent'))"
  shows "ends F (\<lambda>r. R (py_bind f g s) r) (rbind m (\<lambda>(cl', x, n'). k cl' x n'))"
  using assms by (cases m) (auto simp: py_end_def py_bind_Inr)

lemma py_seq_unit:
  assumes "ends F (\<lambda>(cl', n'). ec_seqid cl' = q \<and> py_end P st (f s) () cl' n') m"
    and "\<And>cl' rx' sent'. cl_ok cl' \<Longrightarrow> ec_seqid cl' = q \<Longrightarrow> list_all P rx' \<Longrightarrow>
      ends F (\<lambda>r. R (g () (py_of st rx' sent' cl')) r) (k cl' (cpp_net rx' sent'))"
  shows "ends F (\<lambda>r. R (py_bind f g s) r) (rbind m (\<lambda>(cl', n'). k cl' n'))"
  using assms by (cases m) (auto simp: py_end_def py_bind_Inr)

lemma refresh_serve_py:
  assumes "cl_ok cl" "mod_ids m c" "list_all (timely (ec_seqid cl) m c) rx" "uint (ec_seqid cl) < 2 ^ 31"
  shows "ends (\<lambda>_. True) (\<lambda>r. case r of (cl', ret, h, n') \<Rightarrow>
      py_end clean st (py_bind (py_refreshRoute (py_env_of en) (sint m) (sint c))
        (\<lambda>_. py_serveHost (py_env_of en) (sint m) (sint c)) (py_of st rx sent cl)) (py_answer ret h) cl' n')
    (rbind (refreshRoute en m c cl (cpp_net rx sent)) (\<lambda>(cl', n'). serveHost en m c cl' n'))"
proof (rule py_seq_unit)
  show "ends (\<lambda>_. True) (\<lambda>(cl', n'). ec_seqid cl' = ec_seqid cl \<and> py_end (timely (ec_seqid cl) m c) st
      (py_refreshRoute (py_env_of en) (sint m) (sint c) (py_of st rx sent cl)) () cl' n')
    (refreshRoute en m c cl (cpp_net rx sent))"
    by (rule refresh_py [OF assms(1-3)]) (rule timely_clean)
qed (use assms(4) in \<open>simp add: serve_py [OF _ assms(2)]\<close>)

lemma getHost_py:
  assumes "cl_ok cl" "mod_ids m c" "list_all (timely (ec_seqid cl) m c) rx" "uint (ec_seqid cl) < 2 ^ 31" "beating en"
  shows "ends (\<lambda>_. True) (\<lambda>(cl', ret, h, n').
      py_end clean None (py_apiGetHost (py_env_of en) (sint m) (sint c) (py_of st rx sent cl)) (py_answer ret h) cl' n')
    (apiGetHost en m c cl (cpp_net rx sent))"
proof -
  let ?T = "timely (ec_seqid cl) m c" and ?E = "py_env_of en"
  let ?cl = "cl\<lparr>ec_agentOff := Some False, ec_static := freeData (ec_static cl)\<rparr>"
  have a: "\<not> py_agentDie ?E" "\<not> hb_die (en_now en) (en_hb en)"
    using assms(5) alive_py by (auto simp: py_agentDie_def py_env_of_def beating_def not_less)
  have ok: "cl_ok ?cl" and q: "ec_seqid ?cl = ec_seqid cl" using assms(1) by (simp_all add: cl_ok_def)
  let ?rest = "\<lambda>ret. if ret \<noteq> 0 then py_ret (ret, None)
     else py_bind (py_refreshRoute ?E (sint m) (sint c)) (\<lambda>_. py_serveHost ?E (sint m) (sint c))"
  let ?more = "\<lambda>cl2 ret n2. if ret \<noteq> 0 then Inr (cl2, ret, None, n2)
     else rbind (refreshRoute en m c cl2 n2) (\<lambda>(cl3, n3). serveHost en m c cl3 n3)"
  have p: "py_apiGetHost ?E (sint m) (sint c) (py_of st rx sent cl) =
      py_bind (case getCache m c (ec_cache ?cl) of None \<Rightarrow> py_getRoute4Cache (sint m) (sint c) (en_now en) | Some _ \<Rightarrow> py_ret 0)
        ?rest (py_of None rx sent ?cl)"
    using a(1) by (simp add: py_apiGetHost_def del: py_simps(5)) (simp add: py_of_simps(10) [of _ _ _ _ _ "freeData (ec_static cl)"] py_env_of_def split: option.split)
  have r: "ends (\<lambda>_. True) (\<lambda>r. case r of (cl', ret', h, n') \<Rightarrow>
        py_end clean None (?rest ret (py_of None rx' sent' cl2)) (py_answer ret' h) cl' n') (?more cl2 ret (cpp_net rx' sent'))"
    if "cl_ok cl2" "ec_seqid cl2 = ec_seqid cl" "list_all ?T rx'" for ret cl2 rx' sent'
  proof (cases "ret = 0")
    case True
    with refresh_serve_py [OF that(1) assms(2)] that assms(4) show ?thesis by simp
  next
    case False
    moreover have "list_all clean rx'" using that(3) by (auto simp: list_all_iff intro: timely_clean)
    ultimately show ?thesis using that(1) by (auto simp: py_answer_def)
  qed
  show ?thesis
  proof (cases "getCache m c (ec_cache ?cl)")
    case None
    have "ends (\<lambda>_. True) (\<lambda>(cl2, ret, n2). ec_seqid cl2 = ec_seqid cl \<and>
        py_end ?T None (py_getRoute4Cache (sint m) (sint c) (en_now en) (py_of None rx sent ?cl)) ret cl2 n2)
      (getRoute4Cache m c (en_now en) ?cl (cpp_net rx sent))"
      using getRoute_py [OF ok assms(2,3) timely_clean] by (simp only: q)
    from py_seq [where f = "py_getRoute4Cache (sint m) (sint c) (en_now en)" and s = "py_of None rx sent ?cl"
        and g = ?rest and k = ?more, OF this r]
    show ?thesis using None unfolding p by (simp add: apiGetHost_def Let_def a(2))
  next
    case (Some cu)
    with r [OF ok q assms(3), of 0 sent] show ?thesis by (simp add: apiGetHost_def Let_def p a(2))
  qed
qed

text \<open>A live agent leaves the static routes freed, a dead one has them read.\<close>

definition same_files :: "StaticRoute \<Rightarrow> elbClient \<Rightarrow> bool" where
  "same_files sr cl \<longleftrightarrow> ec_static cl = sr"

lemma same_files_put [simp]: "same_files sr (put_unit cu m c cl) = same_files sr cl"
  "same_files sr (take_route rsp m c ts cl) = same_files sr cl" "same_files sr (cl\<lparr>ec_tsget := t\<rparr>) = same_files sr cl"
  "same_files sr (cl\<lparr>ec_seqid := q\<rparr>) = same_files sr cl"
  by (auto simp: same_files_def put_unit_def take_route_def split: option.split)

lemma getRoute_static:
  "same_files sr cl \<Longrightarrow> ends (\<lambda>_. True) (\<lambda>(cl', r, n'). same_files sr cl') (getRoute4Cache m c ts cl n)"
  unfolding getRoute4Cache_def Let_def
  by (auto intro!: ends_any split: packet.split agent_rsp.split)

lemma refresh_static:
  "same_files sr cl \<Longrightarrow> ends (\<lambda>_. True) (\<lambda>(cl', n'). same_files sr cl') (refreshRoute en m c cl n)"
  unfolding refreshRoute_def
  by (auto split: option.split, rule ends_any, auto, rule ends_rbind [OF getRoute_static], auto)

lemma serve_static:
  "same_files sr cl \<Longrightarrow> ends (\<lambda>_. True) (\<lambda>(cl', r, h, n'). same_files sr cl') (serveHost en m c cl n)"
  by (auto simp: serveHost_def askAgent_def take_answer_def Let_def intro!: ends_any
      split: option.split packet.split agent_rsp.split prod.split)

lemma getHost_static_freed:
  assumes "\<not> hb_die (en_now en) (en_hb en)"
  shows "ends (\<lambda>_. True) (\<lambda>(cl', r, h, n'). same_files (freeData (ec_static cl)) cl') (apiGetHost en m c cl n)"
proof -
  let ?cl = "cl\<lparr>ec_agentOff := Some False, ec_static := freeData (ec_static cl)\<rparr>" and ?sr = "freeData (ec_static cl)"
  have s: "same_files ?sr ?cl" by (simp add: same_files_def)
  have "ends (\<lambda>_. True) (\<lambda>(cl2, r, n2). same_files ?sr cl2) (case getCache m c (ec_cache ?cl) of
      None \<Rightarrow> getRoute4Cache m c (en_now en) ?cl n | Some _ \<Rightarrow> Inr (?cl, 0, n))"
    using s getRoute_static [OF s] by (auto split: option.split)
  then show ?thesis unfolding apiGetHost_def Let_def using assms
    by (simp only: if_False) (erule ends_rbind, auto intro!: ends_rbind [OF refresh_static] serve_static)
qed

lemma report_static:
  "same_files sr cl \<Longrightarrow> ends (\<lambda>_. True) (\<lambda>(cl', n'). same_files sr cl') (apiReportRes en m c ip port res cl n)"
  by (auto simp: apiReportRes_def report_net_def intro!: ends_any split: option.split bool.split)

lemma getHost_dead_py:
  assumes "cl_ok cl" "same_static (ec_static cl) st" "hb_die (en_now en) (en_hb en)" "2 < en_now en - sint (en_hb en)"
    and "en_files en = agent_files lss" "apiGetHost en m c cl n = Inr (cl', ret, h, n')"
  shows "n' = n \<and> cl_ok cl' \<and> (\<exists>rt. same_static (ec_static cl') (Some rt)
    \<and> py_apiGetHost (py_env_of en) (sint m) (sint c) (py_of st rx sent cl) = (Inr (py_answer ret h), py_of (Some rt) rx sent cl'))"
proof -
  let ?s = "py_of st rx sent cl\<lparr>py_agentOff := True\<rparr>"
  from getHost_static [of "ec_static cl" ?s lss "en_rand en" m c] assms(2) obtain sr' h' rt where
    g: "StaticRoute_getHost (agent_files lss) (en_rand en) m c (ec_static cl) = Inr (sr', h')" "same_static sr' (Some rt)"
      "py_static_getHost (agent_files lss) (en_rand en) (sint m) (sint c) ?s
        = (Inr (map_option (\<lambda>(ip, port). (ip, sint port)) h'), ?s\<lparr>py_static := Some rt\<rparr>)" by auto
  then have c: "cl' = cl\<lparr>ec_agentOff := Some True, ec_static := sr'\<rparr>" "h = h'" "n' = n"
    "ret = (case h' of None \<Rightarrow> API_NOEXIST | Some _ \<Rightarrow> 0)"
    using assms(3,5,6) by (auto simp: apiGetHost_def)
  have "py_agentDie (py_env_of en)" "pe_files (py_env_of en) = agent_files lss" "pe_choice (py_env_of en) = en_rand en"
    using assms(4,5) by (simp_all add: py_agentDie_def py_env_of_def)
  moreover have "?s\<lparr>py_static := Some rt\<rparr> = py_of (Some rt) rx sent cl'" by (simp add: py_of_def c(1))
  ultimately have "py_apiGetHost (py_env_of en) (sint m) (sint c) (py_of st rx sent cl)
      = (Inr (py_answer ret h), py_of (Some rt) rx sent cl')"
    using g(3) by (simp add: py_apiGetHost_def c(2,4) py_answer_def split: option.split)
  moreover have "cl_ok cl'" using assms(1) by (simp add: c(1) cl_ok_def)
  ultimately show ?thesis using g(2) by (auto simp: c(1,3))
qed

lemma report_net_py:
  assumes "mod_ids m c" "res \<noteq> 0 \<longrightarrow> ec_tsget cl \<le> en_mills en \<and> uint (en_mills en) - uint (ec_tsget cl) < 2 ^ 32"
  shows "py_report_net (py_env_of en) (sint m) (sint c) (inet_ntoa ipn) (sint port) (sint res) (py_of st rx sent cl)
    = (Inr (), py_of st rx (sent @ [(shard m c, Report (report_req en m c ipn port res cl))]) cl)"
proof (cases "res = 0")
  case False
  let ?d = "uint (en_mills en) - uint (ec_tsget cl)"
  have d: "uint (en_mills en - ec_tsget cl) = ?d" "0 \<le> ?d" "?d < 2 ^ 32"
    using assms(2) False by (auto simp: uint_sub_lem word_le_def)
  then have "word_of_int ?d = (ucast (en_mills en - ec_tsget cl) :: u32)" by (simp only: ucast_eq)
  with d(2,3) have "as_u32 (pe_mills (py_env_of en) - uint (ec_tsget cl)) = py_ret (ucast (en_mills en - ec_tsget cl))"
    by (simp add: as_u32_def py_env_of_def)
  moreover have "sint res \<noteq> 0" using False by (metis sint_0 sint_inj)
  ultimately show ?thesis using False by (simp add: py_report_net_def send_py(2) [OF assms(1)] report_req_def)
next
  case True
  have "as_i32 0 = py_ret 0" using as_simps(1) [of 0] by simp
  with True show ?thesis by (simp add: py_report_net_def send_py(2) [OF assms(1)] report_req_def)
qed

text \<open>No counter is about to wrap around.\<close>

definition room :: "CacheUnit \<Rightarrow> bool" where
  "room cu \<longleftrightarrow> cu_succCnt cu \<noteq> - 1 \<and> list_all (\<lambda>(k, n). n \<noteq> - 1) (cu_succAccum cu)"

lemma uint_succ:
  fixes n :: "'a::len word"
  assumes "n \<noteq> - 1"
  shows "uint (n + 1) = uint n + 1"
proof -
  have "uint n \<noteq> 2 ^ LENGTH('a) - 1"
  proof
    assume "uint n = 2 ^ LENGTH('a) - 1"
    then have "uint n = uint (- 1 :: 'a word)" by (simp add: unsigned_minus_1_eq_mask mask_eq_exp_minus_1)
    with assms show False by (simp add: word_uint_eq_iff)
  qed
  then have "uint n + 1 < 2 ^ LENGTH('a)" using uint_lt2p [of n] by linarith
  moreover have "uint (n + 1) = (uint n + 1) mod 2 ^ LENGTH('a)" by (simp add: uint_word_ariths)
  ultimately show ?thesis by (simp add: mod_pos_pos_trivial)
qed

lemma report_py:
  assumes "room cu" "0 \<le> sint port"
  shows "pu_report (inet_ntoa ipn) (sint port) (py_cu cu) = py_cu (CacheUnit_report ipn port cu)"
proof (cases "map_of (cu_succAccum cu) (mkkey ipn port)")
  case None
  with map_keys(1) [OF py_key_inj, of uint "cu_succAccum cu" "mkkey ipn port"] show ?thesis
    by (simp add: pu_report_def CacheUnit_report_def py_cu_def py_counts_def py_key_mkkey [OF assms(2)])
next
  case (Some n)
  then have "n \<noteq> - 1" "cu_succCnt cu \<noteq> - 1" using assms(1) by (auto simp: room_def list_all_iff dest!: map_of_SomeD)
  with Some map_keys(1) [OF py_key_inj, of uint "cu_succAccum cu" "mkkey ipn port"]
    map_keys(2) [OF py_key_inj, of uint "mkkey ipn port" "n + 1" "cu_succAccum cu"] show ?thesis
    by (simp add: pu_report_def CacheUnit_report_def py_cu_def py_counts_def py_key_mkkey [OF assms(2)] uint_succ)
qed

text \<open>A reported time is one the field can hold.\<close>

definition cost_ok :: "api_env \<Rightarrow> elbClient \<Rightarrow> bool" where
  "cost_ok en cl \<longleftrightarrow> ec_tsget cl \<le> en_mills en \<and> uint (en_mills en) - uint (ec_tsget cl) < 2 ^ 32"

lemma report_net_sends:
  assumes "cl_ok cl" "mod_ids m c" "res \<noteq> 0 \<longrightarrow> cost_ok en cl"
  shows "ends (\<lambda>_. True) (\<lambda>r. case r of (cl', n') \<Rightarrow> py_end (\<lambda>_. False) st
      (py_report_net (py_env_of en) (sint m) (sint c) (inet_ntoa ipn) (sint port) (sint res) (py_of st [] sent cl)) () cl' n')
    (report_net en m c ipn port res cl (cpp_net [] sent))"
  using assms(1,3) report_net_py [OF assms(2), of res cl en ipn port st "[]" sent]
  by (auto simp: report_net_def send_py(1) [OF assms(2)] cost_ok_def)

lemma batch_report_py:
  assumes "cl_ok cl" "mod_ids m c" "res \<noteq> 0 \<longrightarrow> cost_ok en cl" "getCache m c (ec_cache cl) = Some cu"
  shows "ends (\<lambda>_. True) (\<lambda>r. case r of (cl', n') \<Rightarrow> py_end (\<lambda>_. False) st
      (py_bind (py_batch (sint m, sint c) (py_cu cu)) (\<lambda>_. py_report_net (py_env_of en) (sint m) (sint c)
        (inet_ntoa ipn) (sint port) (sint res)) (py_of st [] sent cl)) () cl' n')
    (rbind (batchReportRes en cu (cpp_net [] sent)) (\<lambda>(cu', n'). report_net en m c ipn port res (put_unit cu' m c cl) n'))"
proof (rule ends_rbind [OF batch_py [OF assms(1,4,2), of "[]" st sent]], clarify)
  fix cu' sent'
  assume i: "m = cu_modid cu'" "c = cu_cmdid cu'"
    and b: "py_batch (sint (cu_modid cu'), sint (cu_cmdid cu')) (py_cu cu) (py_of st [] sent cl)
      = (Inr (), py_of st [] sent' (put_unit cu' (cu_modid cu') (cu_cmdid cu') cl))"
  have "cl_ok (put_unit cu' m c cl)" using cl_ok_put [OF assms(1)] i by blast
  moreover have "cost_ok en (put_unit cu' m c cl) \<longleftrightarrow> cost_ok en cl" by (simp add: cost_ok_def put_unit_def)
  ultimately show "ends (\<lambda>_. True) (\<lambda>r. case r of (cl', n') \<Rightarrow> py_end (\<lambda>_. False) st
      (py_bind (py_batch (sint (cu_modid cu'), sint (cu_cmdid cu')) (py_cu cu)) (\<lambda>_. py_report_net (py_env_of en)
        (sint (cu_modid cu')) (sint (cu_cmdid cu')) (inet_ntoa ipn) (sint port) (sint res)) (py_of st [] sent cl)) () cl' n')
    (report_net en (cu_modid cu') (cu_cmdid cu') ipn port res (put_unit cu' (cu_modid cu') (cu_cmdid cu') cl) (cpp_net [] sent'))"
    using report_net_sends [OF _ assms(2)] assms(3) by (simp add: b i)
qed

lemma reportRes_py:
  assumes "cl_ok cl" "mod_ids m c" "0 \<le> sint port" "res \<noteq> 0 \<longrightarrow> cost_ok en cl"
    and "\<And>cu. getCache m c (ec_cache cl) = Some cu \<Longrightarrow> room cu"
  shows "ends (\<lambda>_. True) (\<lambda>r. case r of (cl', n') \<Rightarrow> py_end (\<lambda>_. False) st
      (py_apiReportRes (py_env_of en) (sint m) (sint c) (inet_ntoa ipn) (sint port) (sint res) (py_of st [] sent cl)) () cl' n')
    (apiReportRes en m c (inet_ntoa ipn) port res cl (cpp_net [] sent))"
proof (cases "ec_agentOff cl = Some False")
  case False
  then show ?thesis using assms(1) by (cases "ec_agentOff cl") (auto simp: apiReportRes_def py_apiReportRes_def)
next
  case on: True
  note sends = report_net_sends [OF assms(1,2,4), of st ipn port sent]
  show ?thesis
  proof (cases "getCache m c (ec_cache cl)")
    case None
    with on sends show ?thesis by (simp add: apiReportRes_def py_apiReportRes_def)
  next
    case (Some cu)
    have o: "pu_overload (py_cu cu) = cu_overload cu" by (simp add: py_cu_def)
    have z: "sint res = 0 \<longleftrightarrow> res = 0" by (metis sint_0 sint_inj)
    consider "cu_overload cu" | "\<not> cu_overload cu" "res = 0" | "\<not> cu_overload cu" "res \<noteq> 0" by blast
    then show ?thesis
    proof cases
      case 1
      with on sends Some show ?thesis by (simp add: apiReportRes_def py_apiReportRes_def o)
    next
      case 2
      have "cu_modid (CacheUnit_report ipn port cu) = m \<and> cu_cmdid (CacheUnit_report ipn port cu) = c"
        using cl_ok_get [OF assms(1) Some] by (auto simp: CacheUnit_report_def Let_def split: option.split)
      with cl_ok_put [OF assms(1)] have "cl_ok (put_unit (CacheUnit_report ipn port cu) m c cl)" by blast
      with 2 on Some show ?thesis
        by (auto simp: apiReportRes_def py_apiReportRes_def o report_py [OF assms(5) [OF Some] assms(3)])
    next
      case 3
      with on batch_report_py [OF assms(1,2,4) Some, of st ipn port sent] Some show ?thesis
        by (simp add: apiReportRes_def py_apiReportRes_def o z)
    qed
  qed
qed

section \<open>Runs\<close>

text \<open>A machine that stays in step with another as long as the events are in order.\<close>

fun orderly :: "('e \<Rightarrow> 's \<Rightarrow> ('s \<times> 'o) res) \<Rightarrow> ('e \<Rightarrow> 's \<Rightarrow> bool) \<Rightarrow> 'e list \<Rightarrow> 's \<Rightarrow> bool" where
  "orderly step ok [] s = True"
| "orderly step ok (e # es) s \<longleftrightarrow> ok e s \<and> (case step e s of Inl _ \<Rightarrow> True | Inr (s', _) \<Rightarrow> orderly step ok es s')"

fun outputs :: "('e \<Rightarrow> 't \<Rightarrow> 'p \<times> 't) \<Rightarrow> 'e list \<Rightarrow> 't \<Rightarrow> 'p list \<times> 't" where
  "outputs step [] t = ([], t)"
| "outputs step (e # es) t = (let (x, t1) = step e t; (xs, t2) = outputs step es t1 in (x # xs, t2))"

locale lockstep =
  fixes step :: "'e \<Rightarrow> 's \<Rightarrow> ('s \<times> 'o) res" and step' :: "'e \<Rightarrow> 't \<Rightarrow> 'p \<times> 't"
    and rel :: "'s \<Rightarrow> 't \<Rightarrow> bool" and ok :: "'e \<Rightarrow> 's \<Rightarrow> bool" and obs :: "'o \<Rightarrow> 'p"
  assumes follow: "rel s t \<Longrightarrow> ok e s \<Longrightarrow> step e s = Inr (s', x) \<Longrightarrow> \<exists>t'. step' e t = (obs x, t') \<and> rel s' t'"
begin

lemma runs:
  "run step es s = Inr (s', xs) \<Longrightarrow> rel s t \<Longrightarrow> orderly step ok es s \<Longrightarrow>
   \<exists>t'. outputs step' es t = (map obs xs, t') \<and> rel s' t'"
proof (induction es arbitrary: s t xs)
  case (Cons e es)
  from Cons.prems(1) obtain s1 x ys where s: "step e s = Inr (s1, x)" "run step es s1 = Inr (s', ys)" "xs = x # ys" by auto
  from follow [OF Cons.prems(2) _ s(1)] Cons.prems(3) obtain t1 where t: "step' e t = (obs x, t1)" "rel s1 t1" by auto
  from Cons.IH [OF s(2) t(2)] Cons.prems(3) s(1) obtain t' where "outputs step' es t1 = (map obs ys, t')" "rel s' t'" by auto
  with t(1) s(3) show ?case by simp
qed simp

end

section \<open>Both clients at work\<close>

text \<open>A call with its environment, and what arrives for it; the hosts of reports are those of answers.\<close>

datatype client_call =
    AskHost api_env i32 i32 "arrival list"
  | TellResult api_env i32 i32 i32 i32 i32

type_synonym cpp_state = "elbClient \<times> (int \<times> agent_req) list"

fun cpp_call :: "client_call \<Rightarrow> cpp_state \<Rightarrow> (cpp_state \<times> int \<times> api_host option) res" where
  "cpp_call (AskHost en m c rx) (cl, sent) =
    rbind (apiGetHost en m c cl (cpp_net rx sent)) (\<lambda>(cl', ret, h, n'). Inr ((cl', n_sent n'), ret, h))"
| "cpp_call (TellResult en m c ip port res) (cl, sent) =
    rbind (apiReportRes en m c (inet_ntoa ip) port res cl (cpp_net [] sent)) (\<lambda>(cl', n'). Inr ((cl', n_sent n'), 0, None))"

fun py_call :: "client_call \<Rightarrow> Py \<Rightarrow> (py_exn + py_result) \<times> Py" where
  "py_call (AskHost en m c rx) s =
    (case py_apiGetHost (py_env_of en) (sint m) (sint c) (s\<lparr>py_rx := rx\<rparr>) of (r, s') \<Rightarrow> (r, s'\<lparr>py_rx := []\<rparr>))"
| "py_call (TellResult en m c ip port res) s =
    py_bind (py_apiReportRes (py_env_of en) (sint m) (sint c) (inet_ntoa ip) (sint port) (sint res)) (\<lambda>_. py_ret (0, None)) s"

text \<open>
  When the two are in step: either the agent is dead by both tests and the files are as agents write them,
  or it is alive and what arrives is in time; the identifiers have a sum that is not negative,
  ports are not negative, and no number is at its limit.
\<close>

fun in_concert :: "client_call \<Rightarrow> cpp_state \<Rightarrow> bool" where
  "in_concert (AskHost en m c rx) (cl, sent) \<longleftrightarrow>
     (if hb_die (en_now en) (en_hb en) then 2 < en_now en - sint (en_hb en) \<and> (\<exists>lss. en_files en = agent_files lss)
      else beating en \<and> mod_ids m c \<and> list_all (timely (ec_seqid cl) m c) rx \<and> uint (ec_seqid cl) < 2 ^ 31)"
| "in_concert (TellResult en m c ip port res) (cl, sent) \<longleftrightarrow> mod_ids m c \<and> 0 \<le> sint port \<and> (res \<noteq> 0 \<longrightarrow> cost_ok en cl)
     \<and> (case getCache m c (ec_cache cl) of None \<Rightarrow> True | Some cu \<Rightarrow> room cu)"

definition py_reads :: "cpp_state \<Rightarrow> Py \<Rightarrow> bool" where
  "py_reads s t \<longleftrightarrow> cl_ok (fst s) \<and> (\<exists>st. same_static (ec_static (fst s)) st \<and> t = py_of st [] (snd s) (fst s))"

lemma py_of_rx: "py_of st [] sent cl\<lparr>py_rx := rx\<rparr> = py_of st rx sent cl" by simp

lemma call_py:
  assumes "py_reads s t" "in_concert e s" "cpp_call e s = Inr (s', x)"
  shows "\<exists>t'. py_call e t = (Inr (py_answer (fst x) (snd x)), t') \<and> py_reads s' t'"
proof -
  obtain cl sent where s: "s = (cl, sent)" by fastforce
  with assms(1) obtain st where t: "cl_ok cl" "same_static (ec_static cl) st" "t = py_of st [] sent cl" by (auto simp: py_reads_def)
  show ?thesis
  proof (cases e)
    case (AskHost en m c rx)
    with assms(3) s obtain cl' ret h n' where c: "apiGetHost en m c cl (cpp_net rx sent) = Inr (cl', ret, h, n')"
      "s' = (cl', n_sent n')" "x = (ret, h)" by auto
    show ?thesis
    proof (cases "hb_die (en_now en) (en_hb en)")
      case True
      with assms(2) AskHost s obtain lss where "2 < en_now en - sint (en_hb en)" "en_files en = agent_files lss" by auto
      from getHost_dead_py [OF t(1,2) True this c(1), of rx sent] c show ?thesis
        by (auto simp: AskHost t(3) py_reads_def cpp_net_def)
    next
      case False
      have "ends (\<lambda>_. True) (\<lambda>(cl', ret, h, n').
          py_end clean None (py_apiGetHost (py_env_of en) (sint m) (sint c) (py_of st rx sent cl)) (py_answer ret h) cl' n')
        (apiGetHost en m c cl (cpp_net rx sent))"
        using assms(2) AskHost s False by (intro getHost_py [OF t(1)]) simp_all
      with c getHost_static_freed [OF False, of cl m c "cpp_net rx sent"] show ?thesis
        by (auto simp: AskHost t(3) py_end_def py_reads_def cpp_net_def same_files_def) (rule exI [of _ None], simp)
    qed
  next
    case (TellResult en m c ip port res)
    with assms(3) s obtain cl' n' where c: "apiReportRes en m c (inet_ntoa ip) port res cl (cpp_net [] sent) = Inr (cl', n')"
      "s' = (cl', n_sent n')" "x = (0, None)" by auto
    have "ends (\<lambda>_. True) (\<lambda>(cl', n'). py_end (\<lambda>_. False) st
        (py_apiReportRes (py_env_of en) (sint m) (sint c) (inet_ntoa ip) (sint port) (sint res) (py_of st [] sent cl)) () cl' n')
      (apiReportRes en m c (inet_ntoa ip) port res cl (cpp_net [] sent))"
      using assms(2) TellResult s by (intro reportRes_py [OF t(1)]) (auto split: option.splits)
    with c obtain rx sent' where "cl_ok cl'" "list_all (\<lambda>_. False) rx" "n' = cpp_net rx sent'"
      "py_apiReportRes (py_env_of en) (sint m) (sint c) (inet_ntoa ip) (sint port) (sint res) (py_of st [] sent cl)
        = (Inr (), py_of st rx sent' cl')" by (auto simp: py_end_def)
    moreover from this have "rx = []" by (cases rx) simp_all
    ultimately show ?thesis using t(2) c(1)
        report_static [of "ec_static cl" cl en m c "inet_ntoa ip" port res "cpp_net [] sent"]
      by (auto simp: TellResult t(3) c(2,3) py_reads_def cpp_net_def py_answer_def same_files_def)
  qed
qed

interpretation py: lockstep cpp_call py_call py_reads in_concert "\<lambda>(ret, h). Inr (py_answer ret h)"
  by unfold_locales (auto simp: split_beta dest: call_py)

section \<open>Properties\<close>


definition ex_client_calls :: "client_call list" where
  "ex_client_calls = [AskHost (ex_env 100) 1 2 [Dgram CacheGetRouteRspId True (Some (CacheRsp ex_rsp))],
     TellResult (ex_env 100) 1 2 7 80 0, AskHost (ex_env 101) 1 2 [],
     AskHost ((ex_env 101)\<lparr>en_now := 110, en_files := agent_files [[(1, 2, 8, 80)], [], []]\<rparr>) 1 2 []]"


text \<open>
  C40. Where they part: when a node of a cached module is overloaded and the answer to an
  earlier call comes before the one to this call, the C++ client drops the first and returns
  the host of the second, while the Python client, which then expects the identifier of the request, takes the second
  for a format error and fails.
\<close>

theorem python_fails_on_late_answer:
  assumes "beating en" and "mod_ids m c" and "uint (ec_seqid cl) < 2 ^ 31"
    and "getCache m c (ec_cache cl) = Some cu" and "cu_overload cu" and "en_now en - cu_lstUpdTs cu < 2"
    and "ghr_seq old < ec_seqid cl"
    and "new = \<lparr> ghr_seq = ec_seqid cl, ghr_modid = m, ghr_cmdid = c, ghr_retcode = 0, ghr_host = Some h \<rparr>"
    and "rx = [Dgram GetHostRspId True (Some (HostRsp old)), Dgram GetHostRspId True (Some (HostRsp new))]"
  shows "(\<exists>cl' sent'. apiGetHost en m c cl (cpp_net rx sent)
        = Inr (cl', 0, Some (inet_ntoa (ha_ip h), ha_port h), cpp_net [] sent'))
    \<and> fst (py_apiGetHost (py_env_of en) (sint m) (sint c) (py_of st rx sent cl)) = Inr (API_ERR, None)"
proof -
  let ?cl = "cl\<lparr>ec_agentOff := Some False, ec_static := freeData (ec_static cl)\<rparr>" and ?q = "ec_seqid cl"
  have a: "\<not> hb_die (en_now en) (en_hb en)" "\<not> py_agentDie (py_env_of en)"
    using assms(1) alive_py by (auto simp: py_agentDie_def py_env_of_def beating_def not_less)
  have "recv_again ?q old (map packet_of (tl rx)) = Inr ([], Some new)"
    using assms(7) by (simp add: assms(8,9) recv_again.simps)
  then have "\<exists>cl' sent'. askAgent en m c ?cl (cpp_net rx sent)
      = Inr (cl', 0, Some (inet_ntoa (ha_ip h), ha_port h), cpp_net [] sent')"
    by (simp add: askAgent_def Let_def send_py(1) [OF assms(2)] recv_cpp assms(9)) (simp add: cpp_net_def take_answer_def assms(8))
  moreover have "apiGetHost en m c cl (cpp_net rx sent) = askAgent en m c ?cl (cpp_net rx sent)"
    using a(1) assms(4-6) by (simp add: apiGetHost_def Let_def refreshRoute_def serveHost_def)
  moreover have "py_recv_again ?q old (tl rx) = (Inr None, [])"
    using assms(7) by (simp add: assms(9) py_recv_again.simps)
  then have "fst (py_askAgent (py_env_of en) (sint m) (sint c) (py_of None rx sent ?cl)) = Inr (API_ERR, None)"
    using assms(3) by (simp add: py_askAgent_def assms(9)) (simp add: py_of_def py_send_def py_recv_def py_take_answer_def)
  moreover have "py_apiGetHost (py_env_of en) (sint m) (sint c) (py_of st rx sent cl)
      = py_askAgent (py_env_of en) (sint m) (sint c) (py_of None rx sent ?cl)"
    using a(2) assms(4-6) by (simp add: py_apiGetHost_def py_refreshRoute_def py_serveHost_def
        py_of_simps(10) [of _ _ _ _ _ "freeData (ec_static cl)"]) (simp add: py_cu_def py_env_of_def)
  ultimately show ?thesis by simp
qed

definition ex_busy :: elbClient where
  "ex_busy = put_unit ((new_unit 1 2)\<lparr>cu_overload := True, cu_lstUpdTs := 100\<rparr>) 1 2 (new_elbClient\<lparr>ec_seqid := 1\<rparr>)"

definition ex_host_rsp :: "u32 \<Rightarrow> GetHostRsp" where
  "ex_host_rsp q = \<lparr> ghr_seq = q, ghr_modid = 1, ghr_cmdid = 2, ghr_retcode = 0, ghr_host = Some (ex_addr 0) \<rparr>"

definition ex_late :: "arrival list" where
  "ex_late = map (\<lambda>q. Dgram GetHostRspId True (Some (HostRsp (ex_host_rsp q)))) [0, 1]"

theorem python_fails_on_late_answer_witness:
  "(\<exists>cl' sent'. apiGetHost (ex_env 101) 1 2 ex_busy (cpp_net ex_late [])
      = Inr (cl', 0, Some (inet_ntoa (ha_ip (ex_addr 0)), 8080), cpp_net [] sent'))
   \<and> fst (py_apiGetHost (py_env_of (ex_env 101)) 1 2 (py_of None ex_late [] ex_busy)) = Inr (- 9999, None)"
proof -
  have "beating (ex_env 101)" using ex_alive [of 101] by (simp add: beating_def ex_env_def)
  moreover have "mod_ids 1 2" by (simp add: mod_ids_def)
  moreover have "getCache 1 2 (ec_cache ex_busy) = Some ((new_unit 1 2)\<lparr>cu_overload := True, cu_lstUpdTs := 100\<rparr>)"
    by (simp add: ex_busy_def put_unit_def addCache_def getCache_def)
  moreover have "ec_seqid ex_busy = 1" by (simp add: ex_busy_def put_unit_def)
  ultimately show ?thesis
    using python_fails_on_late_answer [of "ex_env 101" 1 2 ex_busy _ "ex_host_rsp 0" "ex_host_rsp 1" "ex_addr 0" ex_late "[]" None]
    by (simp add: ex_host_rsp_def ex_late_def ex_env_def ex_addr_def API_ERR_def)
qed

end
