(* ===== verification/PyPrograms.thy ===== *)
theory PyPrograms
  imports PyClient
begin

text \<open>
  The example programs of the Python client: \<open>example.py\<close>, \<open>testcache.py\<close> and \<open>timotest.py\<close>. A script
  is a run of calls on one client, each made in an environment of its own, and keeps what it has printed when an exception
  ends it. At its end, by an exception or not, the client is deleted. The lemmas show that a
  call that returns zero has a host, so that no script takes an error text apart, and how much a
  script prints.
\<close>

section \<open>Scripts\<close>

text \<open>What is printed; the text of an error is left out of the model of the client.\<close>

datatype py_line = Line string | ErrorText int

type_synonym 'a script = "Py \<Rightarrow> (py_exn + 'a) \<times> py_line list \<times> Py"

definition sc_ret :: "'a \<Rightarrow> 'a script" where
  "sc_ret x = (\<lambda>s. (Inr x, [], s))"

definition sc_call :: "'a py \<Rightarrow> 'a script" where
  "sc_call m = (\<lambda>s. case m s of (r, s') \<Rightarrow> (r, [], s'))"

definition sc_print :: "py_line \<Rightarrow> unit script" where
  "sc_print l = (\<lambda>s. (Inr (), [l], s))"

definition sc_bind :: "'a script \<Rightarrow> ('a \<Rightarrow> 'b script) \<Rightarrow> 'b script" where
  "sc_bind m f = (\<lambda>s. case m s of
      (Inl e, out, s') \<Rightarrow> (Inl e, out, s')
    | (Inr x, out, s') \<Rightarrow> (case f x s' of (r, out', s'') \<Rightarrow> (r, out @ out', s'')))"

text \<open>\<open>int(sys.argv[i])\<close>; white space around the number is allowed.\<close>

definition py_arg :: "string list \<Rightarrow> nat \<Rightarrow> int py" where
  "py_arg argv i =
    (if length argv \<le> i then raise IndexError
     else (case read_int (argv ! i) of
         None \<Rightarrow> raise ValueError
       | Some (n, rest) \<Rightarrow> if list_all is_space rest then py_ret n else raise ValueError))"

section \<open>The programs\<close>

definition py_unregistered :: py_line where
  "py_unregistered = Line ''still no exist after register''"

definition py_absent :: "int \<Rightarrow> int \<Rightarrow> py_line" where
  "py_absent m c = Line (''['' @ dec_int m @ '','' @ dec_int c @ ''] not exist'')"

definition py_host_line :: "string \<times> int \<Rightarrow> py_line" where
  "py_host_line h = Line (fst h @ '':'' @ dec_int (snd h))"

text \<open>One request and, when it has got a host, what \<open>serve\<close> does with it. Without a host \<open>hostOrEmsg\<close> is a text.\<close>

definition py_round :: "py_env \<Rightarrow> (string \<times> int \<Rightarrow> unit script) \<Rightarrow> int \<Rightarrow> int \<Rightarrow> unit script" where
  "py_round en serve m c =
    sc_bind (sc_call (py_apiGetHost en m c)) (\<lambda>(ret, h).
      if ret = 0 then (case h of
          None \<Rightarrow> sc_call (raise IndexError)
        | Some x \<Rightarrow> sc_bind (sc_print (py_host_line x)) (\<lambda>_. serve x))
      else if ret = - 9998 then sc_print (py_absent m c)
      else sc_print (ErrorText ret))"

definition py_register :: "(nat \<Rightarrow> py_env) \<Rightarrow> int \<Rightarrow> int \<Rightarrow> unit script" where
  "py_register ens m c =
    sc_bind (sc_call (py_apiRegister ens m c)) (\<lambda>ret.
      if ret = - 9998 then sc_print py_unregistered else sc_ret ())"

definition py_example :: "(nat \<Rightarrow> py_env) \<Rightarrow> string list \<Rightarrow> unit script" where
  "py_example ens argv =
    sc_bind (sc_call (py_arg argv 1)) (\<lambda>m. sc_bind (sc_call (py_arg argv 2)) (\<lambda>c.
    sc_bind (py_register ens m c) (\<lambda>_.
      py_round (ens 3) (\<lambda>h. sc_call (py_apiReportRes (ens 4) m c (fst h) (snd h) 0)) m c)))"

fun py_testcache_loop :: "nat \<Rightarrow> nat \<Rightarrow> (nat \<Rightarrow> py_env) \<Rightarrow> int \<Rightarrow> int \<Rightarrow> unit script" where
  "py_testcache_loop 0 i ens m c = sc_ret ()"
| "py_testcache_loop (Suc k) i ens m c =
    sc_bind (py_round (ens (2 * i)) (\<lambda>h. sc_call (py_apiReportRes (ens (2 * i + 1)) m c (fst h) (snd h) 0)) m c) (\<lambda>_.
      py_testcache_loop k (i + 1) ens m c)"

definition py_testcache :: "(nat \<Rightarrow> py_env) \<Rightarrow> string list \<Rightarrow> unit script" where
  "py_testcache ens argv =
    sc_bind (sc_call (py_arg argv 1)) (\<lambda>m. sc_bind (sc_call (py_arg argv 2)) (\<lambda>c.
      py_testcache_loop 2000 0 ens m c))"

text \<open>The failure is reported after a pause of one or two seconds: the environment of the report is a later one.\<close>

fun py_timotest_loop :: "nat \<Rightarrow> nat \<Rightarrow> (nat \<Rightarrow> py_env) \<Rightarrow> int \<Rightarrow> int \<Rightarrow> unit script" where
  "py_timotest_loop 0 i ens m c = sc_ret ()"
| "py_timotest_loop (Suc k) i ens m c =
    sc_bind (py_round (ens (2 * i)) (\<lambda>h.
        sc_bind (sc_print (Line (''sleep '' @ dec_nat (i mod 2 + 1) @ ''s''))) (\<lambda>_.
          sc_call (py_apiReportRes (ens (2 * i + 1)) m c (fst h) (snd h) 1))) m c) (\<lambda>_.
      py_timotest_loop k (i + 1) ens m c)"

definition py_timotest :: "(nat \<Rightarrow> py_env) \<Rightarrow> (nat \<Rightarrow> py_env) \<Rightarrow> string list \<Rightarrow> unit script" where
  "py_timotest ens0 ens argv =
    sc_bind (sc_call (py_arg argv 1)) (\<lambda>m. sc_bind (sc_call (py_arg argv 2)) (\<lambda>c.
    sc_bind (py_register ens0 m c) (\<lambda>_.
      py_timotest_loop 10 0 ens m c)))"

text \<open>The interpreter runs a script and deletes its client.\<close>

definition py_run :: "unit script \<Rightarrow> Py \<Rightarrow> (py_exn + unit) \<times> py_line list \<times> Py" where
  "py_run sc s = (case sc s of (r, out, s') \<Rightarrow> (r, out, py_del s'))"

section \<open>A call that returns zero has a host\<close>

definition answers :: "py_result \<Rightarrow> bool" where
  "answers x \<longleftrightarrow> (fst x = 0 \<longleftrightarrow> snd x \<noteq> None)"

text \<open>A call whose results all satisfy \<open>P\<close>.\<close>

definition gives :: "('a \<Rightarrow> bool) \<Rightarrow> 'a py \<Rightarrow> bool" where
  "gives P m \<longleftrightarrow> (\<forall>s x s'. m s = (Inr x, s') \<longrightarrow> P x)"

lemma gives_simps [simp]:
  "gives P (py_ret x) = P x" "gives P (raise e)"
  by (simp_all add: gives_def py_ret_def raise_def)

lemma gives_bind: "(\<And>x. gives P (f x)) \<Longrightarrow> gives P (py_bind m f)"
  by (auto simp: gives_def py_bind_def split: prod.splits sum.splits)

lemma gives_bind_with: "gives Q m \<Longrightarrow> (\<And>x. Q x \<Longrightarrow> gives P (f x)) \<Longrightarrow> gives P (py_bind m f)"
  by (fastforce simp: gives_def py_bind_def split: prod.splits sum.splits)

lemma take_gives: "gives answers (py_take_answer en seq ans)"
  by (cases ans) (auto simp: py_take_answer_def Let_def answers_def API_ERR_def intro!: gives_bind)

lemma ask_gives: "gives answers (py_askAgent en m c)"
  unfolding py_askAgent_def
  by (intro gives_bind)
     (auto simp: answers_def API_ERR_def take_gives intro!: gives_bind split: arrival.split option.split agent_rsp.split)

lemma serve_gives: "gives answers (py_serveHost en m c)"
  unfolding py_serveHost_def
  by (intro gives_bind) (auto simp: answers_def API_NOEXIST_def ask_gives intro!: gives_bind split: option.split)

lemma getHost_gives: "gives answers (py_apiGetHost en m c)"
  unfolding py_apiGetHost_def
  by (auto simp: answers_def API_NOEXIST_def serve_gives intro!: gives_bind split: option.split)

section \<open>What a script prints\<close>

text \<open>A script that ends without an exception prints between \<open>lo\<close> and \<open>hi\<close> lines.\<close>

definition prints :: "nat \<Rightarrow> nat \<Rightarrow> 'a script \<Rightarrow> bool" where
  "prints lo hi m \<longleftrightarrow> (\<forall>s x out s'. m s = (Inr x, out, s') \<longrightarrow> lo \<le> length out \<and> length out \<le> hi)"

lemma prints_simps [simp]:
  "prints lo hi (sc_ret x) = (lo = 0)" "prints lo hi (sc_print l) = (lo \<le> 1 \<and> 1 \<le> hi)" "prints 0 hi (sc_call m)"
  "prints lo hi (sc_call (raise e))"
  by (auto simp: prints_def sc_ret_def sc_print_def sc_call_def raise_def split: prod.splits)

lemma prints_bind: "prints a b m \<Longrightarrow> (\<And>x. prints c d (f x)) \<Longrightarrow> prints (a + c) (b + d) (sc_bind m f)"
  unfolding prints_def sc_bind_def by (fastforce split: prod.splits sum.splits)

lemma prints_round:
  assumes "\<And>h. prints 0 k (serve h)"
  shows "prints 1 (1 + k) (py_round en serve m c)"
proof -
  have "prints 1 (1 + k) (sc_bind (sc_print l) (\<lambda>_. serve x))" for l x
    using prints_bind [of 1 1 "sc_print l" 0 k "\<lambda>_. serve x"] assms by simp
  then have "prints (0 + 1) (0 + (1 + k)) (py_round en serve m c)"
    unfolding py_round_def by (intro prints_bind) (auto split: option.split)
  then show ?thesis by simp
qed

lemma testcache_rounds: "prints k k (py_testcache_loop k i ens m c)"
proof (induction k arbitrary: i)
  case (Suc k)
  have "prints (1 + k) (1 + 0 + k) (py_testcache_loop (Suc k) i ens m c)"
    unfolding py_testcache_loop.simps by (intro prints_bind prints_round Suc) simp
  then show ?case by simp
qed simp

lemma timotest_rounds: "prints k (2 * k) (py_timotest_loop k i ens m c)"
proof (induction k arbitrary: i)
  case (Suc k)
  have "prints 0 1 (sc_bind (sc_print l) (\<lambda>_. sc_call q))" for l and q :: "unit py"
    by (simp add: prints_def sc_bind_def sc_print_def sc_call_def split: prod.splits sum.splits)
  then have "prints (1 + k) (1 + 1 + 2 * k) (py_timotest_loop (Suc k) i ens m c)"
    unfolding py_timotest_loop.simps by (intro prints_bind prints_round Suc)
  then show ?case by simp
qed simp

lemma register_prints: "prints 0 1 (py_register ens m c)"
proof -
  have "prints (0 + 0) (0 + 1) (py_register ens m c)" unfolding py_register_def by (intro prints_bind) simp_all
  then show ?thesis by simp
qed

text \<open>
  A run of \<open>testcache.py\<close> that no exception ends has printed one line for each of its 2000
  rounds; \<open>timotest.py\<close> prints one or two lines in each of ten rounds, and perhaps one before.
\<close>

lemma testcache_prints:
  assumes "py_run (py_testcache ens argv) s = (Inr (), out, s')"
  shows "length out = 2000"
proof -
  have "prints (0 + (0 + 2000)) (0 + (0 + 2000)) (py_testcache ens argv)"
    unfolding py_testcache_def by (intro prints_bind testcache_rounds) simp_all
  then show ?thesis using assms by (force simp: prints_def py_run_def split: prod.splits)
qed

lemma timotest_prints:
  assumes "py_run (py_timotest ens0 ens argv) s = (Inr (), out, s')"
  shows "10 \<le> length out \<and> length out \<le> 21"
proof -
  have "prints (0 + (0 + (0 + 10))) (0 + (0 + (1 + 2 * 10))) (py_timotest ens0 ens argv)"
    unfolding py_timotest_def by (intro prints_bind timotest_rounds register_prints) simp_all
  then show ?thesis using assms by (force simp: prints_def py_run_def split: prod.splits)
qed

text \<open>A round raises nothing of its own: what it raises, its request or its report has raised.\<close>

lemma round_raises:
  assumes "py_round en serve m c s = (Inl e, out, s')"
  obtains (request) "py_apiGetHost en m c s = (Inl e, s')"
  | (report) x s1 out1 where "py_apiGetHost en m c s = (Inr (0, Some x), s1)" "serve x s1 = (Inl e, out1, s')"
proof (cases "py_apiGetHost en m c s")
  case (Pair r s1)
  show ?thesis
  proof (cases r)
    case (Inl e')
    with Pair assms request show ?thesis by (simp add: py_round_def sc_bind_def sc_call_def)
  next
    case (Inr a)
    obtain ret h where a: "a = (ret, h)" by (cases a)
    have "answers (ret, h)"
      using getHost_gives [of en m c] Pair Inr a unfolding gives_def by blast
    then have "ret = 0 \<longleftrightarrow> h \<noteq> None" by (simp add: answers_def)
    with Pair Inr a assms report show ?thesis
      by (auto simp: py_round_def sc_bind_def sc_call_def sc_print_def split: if_splits prod.splits sum.splits)
  qed
qed

end
