(* ===== verification/LbTraffic.thy ===== *)
theory LbTraffic
  imports RouteSafety
begin

text \<open>
  How much traffic a node gets that fails every call, and how soon a node that works again
  is back in service: the agent's handlers for a request and for a reported result in a closed loop,
  where a client asks for a node, calls it and reports the result.
\<close>

section \<open>Paying for steps\<close>

text \<open>
  The credit of a state pays for what its remaining events cost; both the credit and the
  invariant may speak of these events.
\<close>

locale budget =
  fixes step :: "'e \<Rightarrow> 's \<Rightarrow> ('s \<times> 'o) res"
    and inv :: "'e list \<Rightarrow> 's \<Rightarrow> bool"
    and cost :: "'o \<Rightarrow> nat"
    and credit :: "'e list \<Rightarrow> 's \<Rightarrow> nat"
  assumes pays: "inv (e # es) s \<Longrightarrow>
    \<exists>s' out. step e s = Inr (s', out) \<and> inv es s' \<and> cost out + credit es s' \<le> credit (e # es) s"
begin

lemma run_pays:
  "inv es s \<Longrightarrow> \<exists>s' outs. run step es s = Inr (s', outs) \<and> inv [] s'
     \<and> sum_list (map cost outs) \<le> credit es s"
proof (induction es arbitrary: s)
  case (Cons e es)
  from pays [OF Cons.prems] obtain s1 out where
    s1: "step e s = Inr (s1, out)" "inv es s1" "cost out + credit es s1 \<le> credit (e # es) s" by blast
  with Cons.IH [OF s1(2)] show ?case by fastforce
qed simp

end

section \<open>The loop\<close>

text \<open>
  One turn: the times of the request and of the report, and what a call of each node would give:
  the code and, for a failed call, its duration if it is reported. The report carries the
  node that the agent has named; after a refusal there is none.
\<close>

type_synonym turn = "clong \<times> clong \<times> (HostAddr \<Rightarrow> i32 \<times> u32 option)"

definition call_turn ::
  "LbConfigure \<Rightarrow> u32 \<Rightarrow> i32 \<Rightarrow> i32 \<Rightarrow> turn \<Rightarrow> RouteLB \<Rightarrow> (RouteLB \<times> HostAddr option) res" where
  "call_turn cfg MyIp m c e rl =
    (case e of (t1, t2, res) \<Rightarrow>
      rbind (RouteLB_getHost cfg t1 m c rl) (\<lambda>(rl1, (ret, a), out).
        case a of None \<Rightarrow> Inr (rl1, None)
        | Some a \<Rightarrow>
            rbind (RouteLB_report cfg MyIp t2
                \<lparr> rq_modid = m, rq_cmdid = c, rq_host = a, rq_retcode = fst (res a), rq_tcost = snd (res a) \<rparr> rl1)
              (\<lambda>(rl2, out). Inr (rl2, Some a))))"

text \<open>What the module does with the report: \<open>RouteLB::report\<close> up to the report to the reporter.\<close>

definition told :: "LbConfigure \<Rightarrow> clong \<Rightarrow> HostAddr \<Rightarrow> i32 \<times> u32 option \<Rightarrow> LB \<Rightarrow> LB res" where
  "told cfg now a r lb =
    (if err_weight (snd r) = 1 then Inr (LB_report cfg now (ha_ip a) (ha_port a) (fst r) lb)
     else LB_reportSomeErr cfg now (ha_ip a) (ha_port a) (err_weight (snd r)) lb)"

text \<open>A duration is reported for failed calls only, as the clients do.\<close>

definition sensible :: "i32 \<times> u32 option \<Rightarrow> bool" where
  "sensible r \<longleftrightarrow> snd r = None \<or> fst r \<noteq> 0"

lemma told_wf: "config_ok cfg \<Longrightarrow> wf_LB cfg lb \<Longrightarrow> told cfg now a r lb = Inr lb' \<Longrightarrow> wf_LB cfg lb'"
  by (auto simp: told_def wf_LB_report wf_LB_reportSomeErr split: if_splits)

lemma told_ident: "told cfg now a r lb = Inr lb' \<Longrightarrow> LB_ident lb' = LB_ident lb"
  by (auto simp: told_def LB_ident_report LB_ident_someErr split: if_splits)

text \<open>The part of a module that scheduling and decisions depend on.\<close>

definition sides :: "LB \<Rightarrow> (u64 \<times> HI) list \<times> u64 list \<times> u64 list \<times> int" where
  "sides lb = (hostMap lb, runningList lb, downList lb, accessCnt lb)"

lemma sides_repull: "sides (fst (repull cfg now lb)) = sides lb"
  by (simp add: repull_def LB_pull_def sides_def)

lemma sides_rpter: "LB_report2Rpter cfg MyIp now lb = Inr (lb', msg) \<Longrightarrow> sides lb' = sides lb"
  by (auto simp: LB_report2Rpter_def sides_def rbind_eq_Inr split: if_splits)

lemma err_weight_None [simp]: "err_weight None = 1"
  by (simp add: err_weight_def)

lemma report_told:
  assumes "config_ok cfg" "err_third cfg" "sensible r" "wf_LB cfg lb"
    and "map_of (routeMap rl) (mkkey m c) = Some lb"
  obtains lb2 lb' rl' out where "told cfg now a r lb = Inr lb2"
    "RouteLB_report cfg MyIp now
      \<lparr> rq_modid = m, rq_cmdid = c, rq_host = a, rq_retcode = fst r, rq_tcost = snd r \<rparr> rl = Inr (rl', out)"
    "map_of (routeMap rl') (mkkey m c) = Some lb'" "wf_LB cfg lb'" "sides lb' = sides lb2"
proof -
  obtain lb2 where t: "told cfg now a r lb = Inr lb2"
    using LB_reportSomeErr_total [of cfg now "ha_ip a" "ha_port a" "err_weight (snd r)" lb] assms(2)
    by (cases "err_weight (snd r) = 1") (auto simp: told_def err_third_def)
  from told_wf [OF assms(1,4) t] have w: "wf_LB cfg lb2" .
  obtain lb' msg where p: "LB_report2Rpter cfg MyIp now lb2 = Inr (lb', msg)" "wf_LB cfg lb'"
    by (rule LB_report2Rpter_wf [OF w, of MyIp now])
  have "RouteLB_report cfg MyIp now
      \<lparr> rq_modid = m, rq_cmdid = c, rq_host = a, rq_retcode = fst r, rq_tcost = snd r \<rparr> rl =
    Inr (put_lb (mkkey m c) lb' rl, (case msg of None \<Rightarrow> [] | Some m \<Rightarrow> [Rept m]))"
    using assms(3,5) t p(1) by (auto simp: RouteLB_report_def Let_def sensible_def told_def report_out_def)
  with that t p sides_rpter [OF p(1)] show ?thesis by simp
qed

lemma request_served:
  assumes "map_of (routeMap rl) (mkkey m c) = Some lb" "\<not> LB_empty lb" "LB_getHost cfg lb = Inr (ret, a, lb1)" "wf_LB cfg lb1"
  obtains rl1 lb' out where "RouteLB_getHost cfg now m c rl = Inr (rl1, (ret, a), out)"
    "map_of (routeMap rl1) (mkkey m c) = Some lb'" "wf_LB cfg lb'" "sides lb' = sides lb1"
proof -
  obtain lb' out where r: "repull cfg now lb1 = (lb', out)" by fastforce
  then have "RouteLB_getHost cfg now m c rl = Inr (put_lb (mkkey m c) lb' rl, (ret, a), out)"
    using assms by (simp add: RouteLB_getHost_def)
  with that r assms(4) repull_frame [OF r] sides_repull [of cfg now lb1] show ?thesis by simp
qed

lemma getHost_keeps_wf: "wf_LB cfg lb \<Longrightarrow> \<not> LB_empty lb \<Longrightarrow> LB_getHost cfg lb = Inr (ret, a, lb1) \<Longrightarrow> wf_LB cfg lb1"
  using endsD [OF LB_ident_getHost] by fastforce

text \<open>A turn that hands out a node: the request, the call and the report.\<close>

lemma host_called:
  assumes c: "config_ok cfg" "err_third cfg" and w: "wf_LB cfg lb" "\<not> LB_empty lb"
    and l: "map_of (routeMap rl) (mkkey m c) = Some lb" and s: "\<And>a. sensible (res a)"
    and g: "LB_getHost cfg lb = Inr (SUCCESS, Some b, lb1)"
  shows "\<exists>rl' lb1' lb2 lb'. sides lb1' = sides lb1 \<and> wf_LB cfg lb1' \<and>
      told cfg t2 b (res b) lb1' = Inr lb2 \<and> call_turn cfg MyIp m c (t1, t2, res) rl = Inr (rl', Some b) \<and>
      map_of (routeMap rl') (mkkey m c) = Some lb' \<and> wf_LB cfg lb' \<and> sides lb' = sides lb2"
proof -
  obtain rl1 lb1' out where q: "RouteLB_getHost cfg t1 m c rl = Inr (rl1, (SUCCESS, Some b), out)"
    "map_of (routeMap rl1) (mkkey m c) = Some lb1'" "wf_LB cfg lb1'" "sides lb1' = sides lb1"
    by (rule request_served [OF l w(2) g getHost_keeps_wf [OF w g]])
  obtain lb2 lb' rl' out' where p: "told cfg t2 b (res b) lb1' = Inr lb2"
    "RouteLB_report cfg MyIp t2 \<lparr> rq_modid = m, rq_cmdid = c, rq_host = b,
       rq_retcode = fst (res b), rq_tcost = snd (res b) \<rparr> rl1 = Inr (rl', out')"
    "map_of (routeMap rl') (mkkey m c) = Some lb'" "wf_LB cfg lb'" "sides lb' = sides lb2"
    by (rule report_told [OF c s q(3,2)])
  have "call_turn cfg MyIp m c (t1, t2, res) rl = Inr (rl', Some b)"
    by (simp add: call_turn_def q(1) p(2))
  with p q(3,4) show ?thesis by blast
qed

lemma turn_cases:
  assumes c: "config_ok cfg" "err_third cfg" and w: "wf_LB cfg lb" "\<not> LB_empty lb"
    and l: "map_of (routeMap rl) (mkkey m c) = Some lb" and s: "\<And>a. sensible (res a)"
  obtains (full) rl' lb' where "runningList lb = []" "downList lb \<noteq> []" "accessCnt lb < probeNum cfg"
      "call_turn cfg MyIp m c (t1, t2, res) rl = Inr (rl', None)"
      "map_of (routeMap rl') (mkkey m c) = Some lb'" "wf_LB cfg lb'"
      "sides lb' = (hostMap lb, runningList lb, downList lb, accessCnt lb + 1)"
  | (probe) k ks rl' lb1 lb2 lb' where "downList lb = k # ks" "probeNum cfg \<le> accessCnt lb"
      "sides lb1 = (hostMap lb, runningList lb, ks @ [k], 0)" "wf_LB cfg lb1"
      "told cfg t2 (addr_of lb k) (res (addr_of lb k)) lb1 = Inr lb2"
      "call_turn cfg MyIp m c (t1, t2, res) rl = Inr (rl', Some (addr_of lb k))"
      "map_of (routeMap rl') (mkkey m c) = Some lb'" "wf_LB cfg lb'" "sides lb' = sides lb2"
  | (idle) k ks rl' lb1 lb2 lb' where "runningList lb = k # ks" "downList lb = [] \<or> accessCnt lb < probeNum cfg"
      "sides lb1 = (hostMap lb, ks @ [k], downList lb, if downList lb = [] then 0 else accessCnt lb + 1)" "wf_LB cfg lb1"
      "told cfg t2 (addr_of lb k) (res (addr_of lb k)) lb1 = Inr lb2"
      "call_turn cfg MyIp m c (t1, t2, res) rl = Inr (rl', Some (addr_of lb k))"
      "map_of (routeMap rl') (mkkey m c) = Some lb'" "wf_LB cfg lb'" "sides lb' = sides lb2"
proof -
  have call: "\<exists>rl' lb1' lb2 lb'. sides lb1' = sides lb1 \<and> wf_LB cfg lb1' \<and>
      told cfg t2 (addr_of lb k) (res (addr_of lb k)) lb1' = Inr lb2 \<and>
      call_turn cfg MyIp m c (t1, t2, res) rl = Inr (rl', Some (addr_of lb k)) \<and>
      map_of (routeMap rl') (mkkey m c) = Some lb' \<and> wf_LB cfg lb' \<and> sides lb' = sides lb2"
    if "LB_getHost cfg lb = Inr (SUCCESS, Some (addr_of lb k), lb1)" for k lb1
    by (rule host_called [OF c w l s that])
  from w show ?thesis
  proof (cases rule: LB_getHost_cases)
    case (probe k ks)
    from call [OF LB_getHost_probe [OF w(1) probe]] that(2) [OF probe] show ?thesis
      unfolding sides_def by simp metis
  next
    case (idle k ks)
    from call [OF LB_getHost_idle [OF w(1) idle]] that(3) [OF idle] show ?thesis
      unfolding sides_def by simp metis
  next
    case full
    note g = LB_getHost_overload [OF full(1,3)]
    obtain rl1 lb' out where "RouteLB_getHost cfg t1 m c rl = Inr (rl1, (OVERLOAD, None), out)"
      "map_of (routeMap rl1) (mkkey m c) = Some lb'" "wf_LB cfg lb'" "sides lb' = sides (lb\<lparr>accessCnt := accessCnt lb + 1\<rparr>)"
      by (rule request_served [OF l w(2) g getHost_keeps_wf [OF w g]])
    with full that(1) show ?thesis by (auto simp: call_turn_def sides_def)
  qed
qed

section \<open>What a report does to its node\<close>

text \<open>The node after \<open>check_timers\<close>.\<close>

definition timed :: "LbConfigure \<Rightarrow> clong \<Rightarrow> HI \<Rightarrow> HI" where
  "timed cfg now h =
    (if \<not> hi_overload h then
       (if clearTimo cfg \<le> now - hi_windowTs h then
          (let (bad, h') = checkWindow cfg h in if bad then make_overload cfg now h' else make_idle cfg now h')
        else h)
     else if ovldWaitLim cfg \<le> now - hi_overloadTs h then make_idle cfg now h
     else h)"

lemma check_timers_node:
  "map_of (hostMap (check_timers cfg now k h lb)) = (map_of (hostMap lb))(k \<mapsto> timed cfg now h)"
  by (simp add: check_timers_def timed_def hm.find_put split: prod.split)

text \<open>A node that leaves the down list leaves the others in order; one that joins it is its last.\<close>

definition moved :: "u64 \<Rightarrow> u64 list \<Rightarrow> u64 list \<Rightarrow> bool" where
  "moved k dl dl' \<longleftrightarrow> dl' = dl \<or> dl' = removeAll k dl \<or> dl' = dl @ [k]"

lemma check_timers_moves:
  "moved k (downList lb) (downList (check_timers cfg now k h lb))"
  "accessCnt (check_timers cfg now k h lb) = accessCnt lb"
  by (simp_all add: check_timers_def moved_def to_down_def to_running_def set_hi_def split: prod.split)

lemma side_moves [simp]:
  "accessCnt (to_down k h lb) = accessCnt lb" "accessCnt (to_running k h lb) = accessCnt lb"
  "downList (to_down k h lb) = downList lb @ [k]" "downList (to_running k h lb) = removeAll k (downList lb)"
  by (simp_all add: to_down_def to_running_def set_hi_def)

text \<open>The counters after \<open>n\<close> failures that came as one report.\<close>

definition failed :: "u32 \<Rightarrow> HI \<Rightarrow> HI \<Rightarrow> bool" where
  "failed n h h' \<longleftrightarrow> hi_overload h' = hi_overload h \<and> hi_continErr h' = hi_continErr h + n \<and>
     hi_rErr h' = hi_rErr h + n \<and> hi_rSucc h' = hi_rSucc h \<and> hi_windErrCnt h' = hi_windErrCnt h \<and>
     hi_windowTs h' = hi_windowTs h \<and> hi_overloadTs h' = hi_overloadTs h"

definition just_down :: "clong \<Rightarrow> HI \<Rightarrow> bool" where
  "just_down now h \<longleftrightarrow> hi_overload h \<and> hi_overloadTs h = now \<and> hi_windErrCnt h = 0"

lemma just_down_simps [simp]:
  "just_down now (make_overload cfg now h)" "just_down now (h\<lparr>hi_err := e\<rparr>) = just_down now h"
  by (simp_all add: just_down_def make_overload_def setOverload_def)

lemma timed_just_down: "0 < ovldWaitLim cfg \<Longrightarrow> just_down now h \<Longrightarrow> timed cfg now h = h"
  by (simp add: timed_def just_down_def)

lemma LB_report_fails:
  assumes "rc \<noteq> 0" "map_of (hostMap lb) (mkkey ip port) = Some h0"
  shows "\<exists>h. map_of (hostMap (LB_report cfg now ip port rc lb)) = (map_of (hostMap lb))(mkkey ip port \<mapsto> h)
     \<and> (\<not> hi_overload h0 \<and> just_down now h \<or>
        (\<exists>h1. failed 1 h0 h1 \<and> (hi_overload h0 \<or> hi_continErr h1 < word_of_int (continErrLim cfg))
          \<and> h = timed cfg now h1))"
proof (cases "\<not> hi_overload h0 \<and> suffers cfg (count_err h0)")
  case True
  with assms show ?thesis by (auto simp: LB_report_def Let_def hm.find_put)
next
  case False
  have "failed 1 h0 (count_err h0)" by (simp add: failed_def count_err_def)
  moreover have "hi_overload h0 \<or> hi_continErr (count_err h0) < word_of_int (continErrLim cfg)"
    using False by (auto simp: suffers_def)
  moreover have "LB_report cfg now ip port rc lb = check_timers cfg now (mkkey ip port) (count_err h0) lb"
    using False assms by (auto simp: LB_report_def Let_def)
  ultimately show ?thesis by (auto simp: check_timers_node)
qed

lemma LB_reportSomeErr_fails:
  assumes "0 < ovldWaitLim cfg" "map_of (hostMap lb) (mkkey ip port) = Some h0"
    and r: "LB_reportSomeErr cfg now ip port n lb = Inr lb'"
  shows "\<exists>h. map_of (hostMap lb') = (map_of (hostMap lb))(mkkey ip port \<mapsto> h)
     \<and> (\<not> hi_overload h0 \<and> just_down now h \<or>
        (\<exists>h1. failed n h0 h1 \<and> (hi_overload h0 \<or> hi_continErr h1 < word_of_int (continErrLim cfg))
          \<and> h = timed cfg now h1))"
proof -
  let ?h = "h0\<lparr> hi_rErr := hi_rErr h0 + n, hi_continSucc := 0, hi_continErr := hi_continErr h0 + n \<rparr>"
  have f: "failed n h0 (?h\<lparr>hi_err := e\<rparr>)" for e by (simp add: failed_def)
  show ?thesis
  proof (cases "hi_overload h0")
    case True
    with r assms(2) have "lb' = check_timers cfg now (mkkey ip port) (?h\<lparr>hi_err := hi_err ?h + n\<rparr>) lb"
      by (simp add: LB_reportSomeErr_def Let_def)
    with f True show ?thesis by (auto simp: check_timers_node)
  next
    case False
    with r assms(2) obtain ov left where b: "err_batch cfg n ?h = Inr (ov, left)"
      by (auto simp: LB_reportSomeErr_def Let_def)
    show ?thesis
    proof (cases ov)
      case True
      let ?h2 = "make_overload cfg now (?h\<lparr>hi_err := hi_err ?h + (n - left)\<rparr>)"
      from True b r False assms(2) have l: "lb' = check_timers cfg now (mkkey ip port) (?h2\<lparr>hi_err := hi_err ?h2 + left\<rparr>)
          (to_down (mkkey ip port) ?h2 lb)"
        by (simp add: LB_reportSomeErr_def Let_def)
      have "just_down now (?h2\<lparr>hi_err := hi_err ?h2 + left\<rparr>)" by simp
      with False timed_just_down [OF assms(1) this] show ?thesis
        unfolding l check_timers_node by (auto simp: hm.find_put)
    next
      case nov: False
      let ?h1 = "?h\<lparr>hi_err := hi_err ?h + (n - left) + left\<rparr>"
      from nov b r False assms(2) have l: "lb' = check_timers cfg now (mkkey ip port) ?h1 lb"
        by (simp add: LB_reportSomeErr_def Let_def)
      from nov err_batch_stays [of cfg n ?h left] b
      have "hi_continErr ?h1 < word_of_int (continErrLim cfg)" by simp
      with f show ?thesis unfolding l check_timers_node by blast
    qed
  qed
qed

lemma err_weight_pos: "1 \<le> unat (err_weight t) \<and> unat (err_weight t) \<le> 50"
  using err_weight_clamped by (cases t) auto

lemma told_fails:
  assumes "0 < ovldWaitLim cfg" "fst r \<noteq> 0" "map_of (hostMap lb) (addr_key a) = Some h0"
    and "told cfg now a r lb = Inr lb'"
  shows "\<exists>h. map_of (hostMap lb') = (map_of (hostMap lb))(addr_key a \<mapsto> h)
     \<and> (\<not> hi_overload h0 \<and> just_down now h \<or>
        (\<exists>h1 n. failed n h0 h1 \<and> 1 \<le> unat n \<and> unat n \<le> 50
          \<and> (hi_overload h0 \<or> hi_continErr h1 < word_of_int (continErrLim cfg)) \<and> h = timed cfg now h1))"
proof (cases "err_weight (snd r) = 1")
  case True
  with assms(4) have "lb' = LB_report cfg now (ha_ip a) (ha_port a) (fst r) lb" by (simp add: told_def)
  moreover have "1 \<le> unat (1::u32) \<and> unat (1::u32) \<le> 50" by simp
  ultimately show ?thesis
    using LB_report_fails [OF assms(2) assms(3) [unfolded addr_key_def], of cfg now] unfolding addr_key_def by blast
next
  case False
  with assms(4) have "LB_reportSomeErr cfg now (ha_ip a) (ha_port a) (err_weight (snd r)) lb = Inr lb'"
    by (simp add: told_def)
  from LB_reportSomeErr_fails [OF assms(1) assms(3) [unfolded addr_key_def] this] err_weight_pos [of "snd r"]
  show ?thesis unfolding addr_key_def by blast
qed

lemma told_succeeds:
  assumes "told cfg now a (0, None) lb = Inr lb'" "map_of (hostMap lb) (addr_key a) = Some h0"
  shows "map_of (hostMap lb') = (map_of (hostMap lb))(addr_key a \<mapsto>
      (if hi_overload h0 \<and> recovers cfg (count_succ h0) then make_idle cfg now (count_succ h0)
       else timed cfg now (count_succ h0)))"
  using assms by (auto simp: told_def LB_report_def Let_def addr_key_def check_timers_node hm.find_put)

lemma moved_refl [simp]: "moved k dl dl" and moved_off [simp]: "moved k dl (removeAll k dl)"
  and moved_on [simp]: "moved k dl (dl @ [k])"
  by (simp_all add: moved_def)

lemma LB_report_moves:
  "moved (mkkey ip port) (downList lb) (downList (LB_report cfg now ip port rc lb))"
  "accessCnt (LB_report cfg now ip port rc lb) = accessCnt lb"
  by (simp_all add: LB_report_def Let_def check_timers_moves split: option.split)

lemma LB_reportSomeErr_moves:
  assumes "0 < ovldWaitLim cfg" and "LB_reportSomeErr cfg now ip port n lb = Inr lb'"
  shows "moved (mkkey ip port) (downList lb) (downList lb') \<and> accessCnt lb' = accessCnt lb"
  using assms
  by (auto simp: LB_reportSomeErr_def Let_def check_timers_moves split: option.splits if_splits)
     (auto simp: check_timers_def make_overload_def setOverload_def set_hi_def)

lemma told_moves:
  "0 < ovldWaitLim cfg \<Longrightarrow> told cfg now a r lb = Inr lb' \<Longrightarrow>
   moved (addr_key a) (downList lb) (downList lb') \<and> accessCnt lb' = accessCnt lb"
  by (auto simp: told_def addr_key_def LB_report_moves dest: LB_reportSomeErr_moves split: if_splits)

lemma told_other:
  "told cfg now a r lb = Inr lb' \<Longrightarrow> k \<noteq> addr_key a \<Longrightarrow> map_of (hostMap lb') k = map_of (hostMap lb) k"
  by (auto simp: told_def LB_report_def LB_reportSomeErr_def Let_def addr_key_def check_timers_node hm.find_put
      split: if_splits option.splits)

section \<open>A node that fails every call\<close>

text \<open>
  The configurations the bound is about: thresholds in range, both of them reachable, and
  a waiting time. \<open>burst\<close> is the number of failures after which an idle node is down at the latest,
  however its windows fall.
\<close>

definition isolating :: "LbConfigure \<Rightarrow> bool" where
  "isolating cfg \<longleftrightarrow> config_ok cfg \<and> err_third cfg \<and> 0 < windErrLim cfg \<and> windErrLim cfg < 2 ^ 31
     \<and> windErrRate cfg \<le> 1 \<and> 0 < ovldWaitLim cfg"

definition burst :: "LbConfigure \<Rightarrow> nat" where
  "burst cfg = nat (continErrLim cfg) * (nat (windErrLim cfg) + 1)"

text \<open>
  How many failures an idle node still has: up to the limit in this window, and as many
  in every further window that may be bad. A window that began with successes may end
  as a good one.
\<close>

definition patience :: "LbConfigure \<Rightarrow> HI \<Rightarrow> nat" where
  "patience cfg h = (let lim = nat (continErrLim cfg); w = nat (windErrLim cfg) in
     (lim - unat (hi_continErr h)) +
     lim * (if hi_rSucc h = 0 \<and> hi_rErr h = hi_continErr h then w - 1 - unat (hi_windErrCnt h) else w))"

definition wind_ok :: "LbConfigure \<Rightarrow> HI \<Rightarrow> bool" where
  "wind_ok cfg h \<longleftrightarrow> unat (hi_windErrCnt h) < nat (windErrLim cfg)"

lemma patience_burst: "patience cfg h \<le> burst cfg"
  by (auto simp: patience_def burst_def Let_def intro!: add_mono mult_le_mono2)

lemma word_limit:
  assumes "0 < n" "n < 2 ^ 31"
  shows "(c::u32) < word_of_int n \<longleftrightarrow> unat c < nat n"
  using limit_le [OF assms, of c] by (simp add: not_le [symmetric] le_nat_iff [symmetric] nat_le_iff)

lemma patience_fails:
  assumes "config_ok cfg" "failed n h0 h1" "1 \<le> unat n" "unat n \<le> 50"
    and "hi_continErr h0 < word_of_int (continErrLim cfg)" "hi_continErr h1 < word_of_int (continErrLim cfg)"
  shows "patience cfg h1 < patience cfg h0"
proof -
  have lim: "unat (hi_continErr h0) < nat (continErrLim cfg)" "unat (hi_continErr h1) < nat (continErrLim cfg)"
    "nat (continErrLim cfg) < 2 ^ 31"
    using assms(1,5,6) by (auto simp: config_ok_def word_limit nat_less_iff)
  then have "unat (hi_continErr h1) = unat (hi_continErr h0) + unat n"
    using assms(2,4) by (simp add: failed_def word_add_no_wrap)
  moreover have "hi_rErr h1 = hi_continErr h1 \<longleftrightarrow> hi_rErr h0 = hi_continErr h0"
    using assms(2) by (simp add: failed_def)
  then obtain x where "patience cfg h0 = (nat (continErrLim cfg) - unat (hi_continErr h0)) + x"
    "patience cfg h1 = (nat (continErrLim cfg) - unat (hi_continErr h1)) + x"
    using assms(2) by (simp add: patience_def Let_def failed_def)
  ultimately show ?thesis using assms(3) lim(2) by linarith
qed

lemma ratio_one: "c \<noteq> 0 \<Longrightarrow> fp_ge (ratio c c) r \<longleftrightarrow> r \<le> 1"
proof -
  assume "c \<noteq> 0"
  then have "(of_nat (unat c) :: rat) \<noteq> 0" by (metis of_nat_eq_0_iff unat_eq_0)
  then have "of_nat (unat c) / of_nat (unat c) = (1 :: rat)" by (rule divide_self)
  moreover have "fl64 1 = 1" by (rule rnd_dyadic [of 0 _ 1]) (simp_all add: dyadic_def)
  ultimately show ?thesis using \<open>c \<noteq> 0\<close> by (simp only: ratio_def if_False fp_ge.simps)
qed

text \<open>A bad window goes down or leaves a window less.\<close>

lemma windErr_next:
  assumes "isolating cfg" "wind_ok cfg h"
  shows "windErrLim cfg \<le> sint (hi_windErrCnt h + 1) \<longleftrightarrow> nat (windErrLim cfg) \<le> unat (hi_windErrCnt h) + 1"
    and "unat (hi_windErrCnt h + 1) = unat (hi_windErrCnt h) + 1"
proof -
  have b: "nat (windErrLim cfg) < 2 ^ 31" "unat (hi_windErrCnt h) < nat (windErrLim cfg)"
    using assms by (auto simp: isolating_def wind_ok_def nat_less_iff)
  then show u: "unat (hi_windErrCnt h + 1) = unat (hi_windErrCnt h) + 1"
    by (simp add: word_add_no_wrap)
  have "unat (hi_windErrCnt h + 1) < 2 ^ 31" using b u by linarith
  then have "uint (hi_windErrCnt h + 1) < 2 ^ 31" by (simp only: unat_eq_nat_uint nat_less_iff uint_ge_0) simp
  then have "sint (hi_windErrCnt h + 1) = int (unat (hi_windErrCnt h + 1))"
    by (simp add: sint_uint signed_take_bit_int_eq_self_iff order_trans [OF _ uint_ge_0])
  then show "windErrLim cfg \<le> sint (hi_windErrCnt h + 1) \<longleftrightarrow> nat (windErrLim cfg) \<le> unat (hi_windErrCnt h) + 1"
    by (simp only: nat_le_iff u)
qed

lemma make_idle_node [simp]:
  "hi_windErrCnt (make_idle cfg now h) = hi_windErrCnt h" "hi_continErr (make_idle cfg now h) = 0"
  "hi_rSucc (make_idle cfg now h) = 0" "hi_rErr (make_idle cfg now h) = 0"
  "hi_continSucc (make_idle cfg now h) = 0"
  by (simp_all add: make_idle_def resetIdle_def)

lemma patience_idle:
  "patience cfg (make_idle cfg now h) =
     nat (continErrLim cfg) + nat (continErrLim cfg) * (nat (windErrLim cfg) - 1 - unat (hi_windErrCnt h))"
  by (simp add: patience_def Let_def)

lemma checkWindow_wind_ok:
  assumes "isolating cfg" "wind_ok cfg h" "checkWindow cfg h = (False, h')"
  shows "wind_ok cfg h'"
proof -
  have "0 < nat (windErrLim cfg)" using assms(1) by (simp add: isolating_def)
  with assms(3) windErr_next [OF assms(1,2)] show ?thesis
    by (auto simp: checkWindow_def wind_ok_def Let_def split: if_splits)
qed

lemma checkWindow_all_bad:
  assumes "isolating cfg" "wind_ok cfg h" "checkWindow cfg h = (False, h')"
    and "hi_rSucc h = 0" "hi_rErr h \<noteq> 0"
  shows "unat (hi_windErrCnt h') = unat (hi_windErrCnt h) + 1"
  using assms ratio_one [of "hi_rErr h" "windErrRate cfg"] windErr_next [OF assms(1,2)]
  by (auto simp: checkWindow_def isolating_def Let_def)

lemma patience_window:
  assumes "isolating cfg" "wind_ok cfg h" "hi_continErr h \<noteq> 0" "checkWindow cfg h = (False, h')"
  shows "patience cfg (make_idle cfg now h') \<le> patience cfg h"
proof -
  let ?lim = "nat (continErrLim cfg)" and ?w = "nat (windErrLim cfg)"
  have w: "0 < ?w" using assms(1) by (simp add: isolating_def)
  have one: "?lim + ?lim * (n - 1) \<le> ?lim * n" if "0 < n" for n
    using that by (cases n) simp_all
  show ?thesis
  proof (cases "hi_rSucc h = 0 \<and> hi_rErr h = hi_continErr h")
    case True
    with checkWindow_all_bad [OF assms(1,2,4)] assms(3)
    have u: "unat (hi_windErrCnt h') = unat (hi_windErrCnt h) + 1" by simp
    with checkWindow_wind_ok [OF assms(1,2,4)] have "0 < ?w - 1 - unat (hi_windErrCnt h)"
      by (simp add: wind_ok_def)
    from one [OF this] show ?thesis using True unfolding patience_idle u by (simp add: patience_def Let_def)
  next
    case False
    have "?lim * (?w - 1 - unat (hi_windErrCnt h')) \<le> ?lim * (?w - 1)" by (rule mult_le_mono2) simp
    moreover have "patience cfg h = (?lim - unat (hi_continErr h)) + ?lim * ?w"
      using False by (auto simp: patience_def Let_def)
    ultimately show ?thesis using one [OF w] unfolding patience_idle by linarith
  qed
qed

lemma timed_fails:
  assumes "isolating cfg" "wind_ok cfg h" "\<not> hi_overload h" "hi_continErr h \<noteq> 0"
  shows "wind_ok cfg (timed cfg now h)"
    and "hi_overload (timed cfg now h) \<Longrightarrow> hi_overloadTs (timed cfg now h) = now"
    and "\<not> hi_overload (timed cfg now h) \<Longrightarrow> patience cfg (timed cfg now h) \<le> patience cfg h"
proof -
  obtain bad h' where c: "checkWindow cfg h = (bad, h')" by fastforce
  have d: "just_down now (make_overload cfg now h')" by simp
  have "0 < nat (windErrLim cfg)" using assms(1) by (simp add: isolating_def)
  with d have o: "wind_ok cfg (make_overload cfg now h')" "hi_overloadTs (make_overload cfg now h') = now"
    unfolding just_down_def by (simp_all add: wind_ok_def)
  have k: "wind_ok cfg (make_idle cfg now h')" if "\<not> bad"
    using checkWindow_wind_ok [OF assms(1,2)] c that by (simp add: wind_ok_def)
  show "wind_ok cfg (timed cfg now h)"
    using assms(2,3) o(1) k by (auto simp: timed_def c)
  show "hi_overloadTs (timed cfg now h) = now" if "hi_overload (timed cfg now h)"
    using assms(3) o(2) that by (auto simp: timed_def c split: if_splits)
  show "patience cfg (timed cfg now h) \<le> patience cfg h" if "\<not> hi_overload (timed cfg now h)"
    using assms(3) that patience_window [OF assms(1,2,4)] c by (auto simp: timed_def split: if_splits)
qed

section \<open>The budget of a failing node\<close>

text \<open>
  The credit of the node \<open>k\<close> of a module: its patience, a burst for every time it can
  still come back before \<open>until\<close>, and the counter and the requests that lead to its probes. A
  node that is down comes back no earlier than \<open>ovldWaitLim\<close> after it went down.
\<close>

fun next_time :: "clong \<Rightarrow> turn list \<Rightarrow> clong" where
  "next_time until [] = until"
| "next_time until ((t1, t2, res) # es) = t2"

definition failures_left :: "LbConfigure \<Rightarrow> clong \<Rightarrow> turn list \<Rightarrow> HI \<Rightarrow> nat" where
  "failures_left cfg until es h =
     (if hi_overload h then burst cfg * nat ((until - hi_overloadTs h) div ovldWaitLim cfg)
      else patience cfg h + burst cfg * nat ((until - next_time until es) div ovldWaitLim cfg))"

fun in_time :: "clong \<Rightarrow> turn list \<Rightarrow> bool" where
  "in_time until [] \<longleftrightarrow> True"
| "in_time until ((t1, t2, res) # es) \<longleftrightarrow> t2 \<le> next_time until es \<and> in_time until es"

lemma in_time_until: "in_time until es \<Longrightarrow> next_time until es \<le> until"
  by (induction es) auto

lemma returns_mono:
  "0 < w \<Longrightarrow> t \<le> t' \<Longrightarrow> burst cfg * nat ((until - t') div w) \<le> burst cfg * nat ((until - t) div w)"
  by (intro mult_le_mono2 nat_mono zdiv_mono1) auto

lemma returns_one_more:
  assumes "0 < w" "t' + w \<le> t" "t \<le> until"
  shows "burst cfg + burst cfg * nat ((until - t) div w) \<le> burst cfg * nat ((until - t') div w)"
proof -
  have "(until - t) div w + 1 = (until - t + w) div w" using assms(1) by simp
  also have "\<dots> \<le> (until - t') div w" using assms by (intro zdiv_mono1) auto
  finally have "nat ((until - t) div w) + 1 \<le> nat ((until - t') div w)"
    using assms by (simp add: nat_le_iff pos_imp_zdiv_nonneg_iff le_nat_iff flip: nat_add_distrib)
  then have "burst cfg * (nat ((until - t) div w) + 1) \<le> burst cfg * nat ((until - t') div w)"
    by (rule mult_le_mono2)
  then show ?thesis by simp
qed

text \<open>One failed call of the node costs one of the failures left when it is idle, and none when it is down.\<close>

lemma failure_costs:
  assumes i: "isolating cfg" and w: "wind_ok cfg h0" "host_ok cfg h0"
    and f: "failed n h0 h1" "1 \<le> unat n" "unat n \<le> 50" "hi_overload h0 \<or> hi_continErr h1 < word_of_int (continErrLim cfg)"
    and t: "t2 \<le> next_time until es" "in_time until es"
  shows "wind_ok cfg (timed cfg t2 h1) \<and>
    (if hi_overload h0 then 0 else 1) + failures_left cfg until es (timed cfg t2 h1)
      \<le> failures_left cfg until ((t1, t2, res) # es) h0"
proof -
  have w1: "wind_ok cfg h1" "hi_overload h1 = hi_overload h0" "hi_overloadTs h1 = hi_overloadTs h0"
    using f(1) w(1) by (simp_all add: failed_def wind_ok_def)
  have wait: "0 < ovldWaitLim cfg" "config_ok cfg" using i by (simp_all add: isolating_def)
  note r = returns_mono [OF wait(1) t(1), of cfg until]
  have u: "t2 \<le> until" using t in_time_until by fastforce
  show ?thesis
  proof (cases "hi_overload h0")
    case True
    show ?thesis
    proof (cases "ovldWaitLim cfg \<le> t2 - hi_overloadTs h0")
      case due: True
      then have e: "timed cfg t2 h1 = make_idle cfg t2 h1" using True w1 by (simp add: timed_def)
      have "hi_overloadTs h0 + ovldWaitLim cfg \<le> t2" using due by simp
      from returns_one_more [OF wait(1) this u, of cfg] r patience_burst [of cfg "make_idle cfg t2 h1"]
      have "patience cfg (make_idle cfg t2 h1) + burst cfg * nat ((until - next_time until es) div ovldWaitLim cfg)
          \<le> burst cfg * nat ((until - hi_overloadTs h0) div ovldWaitLim cfg)" by linarith
      with True w1(1) show ?thesis unfolding e by (simp only: failures_left_def wind_ok_def) simp
    next
      case False
      then have "timed cfg t2 h1 = h1" using True w1 by (simp add: timed_def)
      with True w1 show ?thesis by (simp add: failures_left_def)
    qed
  next
    case False
    have c: "hi_continErr h0 < word_of_int (continErrLim cfg)" "hi_continErr h1 < word_of_int (continErrLim cfg)"
      using w(2) f(4) False by (simp_all add: host_ok_def)
    note p = patience_fails [OF wait(2) f(1-3) c]
    have "unat (hi_continErr h1) = unat (hi_continErr h0) + unat n"
      using c(1) f(1,3) wait(2) by (auto simp: failed_def config_ok_def word_limit nat_less_iff intro!: word_add_no_wrap)
    then have "hi_continErr h1 \<noteq> 0" using f(2) by auto
    note t = timed_fails [OF i w1(1) _ this, of t2]
    have "Suc (patience cfg (timed cfg t2 h1) + burst cfg * nat ((until - next_time until es) div ovldWaitLim cfg))
        \<le> patience cfg h0 + burst cfg * nat ((until - t2) div ovldWaitLim cfg)"
      if "\<not> hi_overload (timed cfg t2 h1)"
      using t(3) p r False w1(2) that by linarith
    moreover have "0 < patience cfg h0" using p by simp
    ultimately show ?thesis using t(1,2) False w1(2)
      by (cases "hi_overload (timed cfg t2 h1)") (simp_all add: failures_left_def)
  qed
qed

lemma failures_left_wait:
  assumes "isolating cfg" "t2 \<le> next_time until es"
  shows "failures_left cfg until es h \<le> failures_left cfg until ((t1, t2, res) # es) h"
  using returns_mono [OF _ assms(2), of "ovldWaitLim cfg" cfg until] assms(1)
  by (simp add: failures_left_def isolating_def)

lemma wf_LB_node:
  assumes "wf_LB cfg lb" "map_of (hostMap lb) k = Some h"
  shows "k = mkkey (hi_ip h) (hi_port h)" "host_ok cfg h"
  using assms wf_listsD(4,5) unfolding wf_LB_alt by blast+

lemma addr_key_of: "wf_LB cfg lb \<Longrightarrow> map_of (hostMap lb) k = Some h \<Longrightarrow> addr_key (addr_of lb k) = k"
  using wf_LB_node(1) [of cfg lb k h] by (simp add: addr_of_def addr_key_def host_addr_def)

lemma on_side:
  assumes "wf_LB cfg lb"
  shows "k \<in> set (runningList lb) \<longleftrightarrow> (\<exists>h. map_of (hostMap lb) k = Some h \<and> \<not> hi_overload h)"
    and "k \<in> set (downList lb) \<longleftrightarrow> (\<exists>h. map_of (hostMap lb) k = Some h \<and> hi_overload h)"
  using assms wf_listsD(6,7) unfolding wf_LB_alt by blast+

text \<open>What a report of a failed call means to the budget.\<close>

lemma told_costs:
  assumes i: "isolating cfg" and t: "t2 \<le> next_time until es" "in_time until es"
    and w: "wf_LB cfg lb" "map_of (hostMap lb) (addr_key a) = Some h" "wind_ok cfg h"
    and r: "fst r \<noteq> 0" "told cfg t2 a r lb = Inr lb'"
  obtains h' where "map_of (hostMap lb') (addr_key a) = Some h'" "wind_ok cfg h'"
    "(if hi_overload h then 0 else 1) + failures_left cfg until es h' \<le> failures_left cfg until ((t1, t2, res) # es) h"
proof -
  have wait: "0 < ovldWaitLim cfg" "config_ok cfg" "0 < nat (windErrLim cfg)" using i by (simp_all add: isolating_def)
  have ok: "host_ok cfg h" using wf_LB_node [OF w(1,2)] by simp
  from told_fails [OF wait(1) r(1) w(2) r(2)] obtain h' where m: "map_of (hostMap lb') = (map_of (hostMap lb))(addr_key a \<mapsto> h')"
    and "\<not> hi_overload h \<and> just_down t2 h' \<or>
        (\<exists>h1 n. failed n h h1 \<and> 1 \<le> unat n \<and> unat n \<le> 50
          \<and> (hi_overload h \<or> hi_continErr h1 < word_of_int (continErrLim cfg)) \<and> h' = timed cfg t2 h1)"
    by blast
  then consider "\<not> hi_overload h" "just_down t2 h'"
    | h1 n where "failed n h h1" "1 \<le> unat n" "unat n \<le> 50"
      "hi_overload h \<or> hi_continErr h1 < word_of_int (continErrLim cfg)" "h' = timed cfg t2 h1"
    by blast
  moreover have h': "map_of (hostMap lb') (addr_key a) = Some h'" using m by simp
  ultimately show ?thesis
  proof cases
    case 1
    have "hi_continErr h < word_of_int (continErrLim cfg)" using ok 1(1) by (simp add: host_ok_def)
    then have "0 < patience cfg h" using wait(2) by (simp add: patience_def config_ok_def word_limit Let_def)
    with 1 that [OF h'] wait(3) show ?thesis by (simp add: just_down_def failures_left_def wind_ok_def)
  next
    case (2 h1 n)
    from failure_costs [OF i w(3) ok 2(1-4) t, of t1 res] that [OF h'] 2(5) show ?thesis by simp
  qed
qed

text \<open>The invariant, over the turns to come, and the credit of the node at \<open>a\<close>.\<close>

definition turns_ok :: "(HostAddr \<Rightarrow> i32 \<times> u32 option \<Rightarrow> bool) \<Rightarrow> turn list \<Rightarrow> bool" where
  "turns_ok R es \<longleftrightarrow> (\<forall>(t1, t2, res) \<in> set es. \<forall>b. sensible (res b) \<and> R b (res b))"

definition fails_at :: "HostAddr \<Rightarrow> HostAddr \<Rightarrow> i32 \<times> u32 option \<Rightarrow> bool" where
  "fails_at a b r \<longleftrightarrow> (b = a \<longrightarrow> fst r \<noteq> 0)"

definition node_at :: "LbConfigure \<Rightarrow> i32 \<Rightarrow> i32 \<Rightarrow> HostAddr \<Rightarrow> RouteLB \<Rightarrow> LB \<Rightarrow> HI \<Rightarrow> bool" where
  "node_at cfg m c a rl lb h \<longleftrightarrow> map_of (routeMap rl) (mkkey m c) = Some lb \<and> wf_LB cfg lb
     \<and> map_of (hostMap lb) (addr_key a) = Some h"

definition failing :: "LbConfigure \<Rightarrow> i32 \<Rightarrow> i32 \<Rightarrow> HostAddr \<Rightarrow> clong \<Rightarrow> turn list \<Rightarrow> RouteLB \<Rightarrow> bool" where
  "failing cfg m c a until es rl \<longleftrightarrow> isolating cfg \<and> in_time until es \<and> turns_ok (fails_at a) es
     \<and> (\<exists>lb h. node_at cfg m c a rl lb h \<and> wind_ok cfg h)"

definition node_credit :: "LbConfigure \<Rightarrow> i32 \<Rightarrow> i32 \<Rightarrow> HostAddr \<Rightarrow> clong \<Rightarrow> turn list \<Rightarrow> RouteLB \<Rightarrow> nat" where
  "node_credit cfg m c a until es rl =
     (case map_of (routeMap rl) (mkkey m c) of None \<Rightarrow> 0 | Some lb \<Rightarrow>
       (case map_of (hostMap lb) (addr_key a) of None \<Rightarrow> 0 | Some h \<Rightarrow>
          (nat (probeNum cfg) + 1) * failures_left cfg until es h + nat (accessCnt lb) + length es))"

definition call_cost :: "LbConfigure \<Rightarrow> HostAddr \<Rightarrow> HostAddr option \<Rightarrow> nat" where
  "call_cost cfg a out = (if out = Some a then nat (probeNum cfg) + 1 else 0)"

lemma node_credit_at:
  "node_at cfg m c a rl lb h \<Longrightarrow> node_credit cfg m c a until es rl =
     (nat (probeNum cfg) + 1) * failures_left cfg until es h + nat (accessCnt lb) + length es"
  by (simp add: node_credit_def node_at_def)

lemma sides_eq:
  "sides lb' = sides lb \<Longrightarrow> hostMap lb' = hostMap lb \<and> runningList lb' = runningList lb
     \<and> downList lb' = downList lb \<and> accessCnt lb' = accessCnt lb"
  by (simp add: sides_def)

lemma node_nonempty: "node_at cfg m c a rl lb h \<Longrightarrow> \<not> LB_empty lb"
  by (auto simp: node_at_def LB_empty_def)

text \<open>The three kinds of turns, from the node's point of view.\<close>

lemma failing_served:
  assumes i: "isolating cfg" and t: "t2 \<le> next_time until es" "in_time until es"
    and n: "node_at cfg m c a rl lb h" "wind_ok cfg h" and r: "fails_at a b (res b)"
    and lb1: "wf_LB cfg lb1" "hostMap lb1 = hostMap lb" "0 \<le> accessCnt lb1"
    and b: "b = a \<Longrightarrow> hi_overload h \<Longrightarrow> nat (accessCnt lb1) + nat (probeNum cfg) \<le> nat (accessCnt lb)"
      "nat (accessCnt lb1) \<le> nat (accessCnt lb) + 1"
    and told: "told cfg t2 b (res b) lb1 = Inr lb2"
    and rl': "map_of (routeMap rl') (mkkey m c) = Some lb'" "wf_LB cfg lb'" "sides lb' = sides lb2"
  shows "\<exists>lb' h'. node_at cfg m c a rl' lb' h' \<and> wind_ok cfg h' \<and>
    call_cost cfg a (Some b) + node_credit cfg m c a until es rl'
      \<le> node_credit cfg m c a until ((t1, t2, res) # es) rl"
proof -
  let ?p = "nat (probeNum cfg) + 1"
  have l: "map_of (hostMap lb1) (addr_key a) = Some h" using n(1) lb1(2) by (simp add: node_at_def)
  have acc: "accessCnt lb' = accessCnt lb1"
    using told_moves [OF _ told] i sides_eq [OF rl'(3)] by (simp add: isolating_def)
  show ?thesis
  proof (cases "b = a")
    case True
    have "fst (res a) \<noteq> 0" using r True by (simp add: fails_at_def)
    from told_costs [OF i t lb1(1) l n(2) this told [unfolded True], of t1 res] obtain h' where
      h': "map_of (hostMap lb2) (addr_key a) = Some h'" "wind_ok cfg h'"
      "(if hi_overload h then 0 else 1) + failures_left cfg until es h' \<le> failures_left cfg until ((t1, t2, res) # es) h"
      by blast
    have at: "node_at cfg m c a rl' lb' h'" using rl' h'(1) sides_eq [OF rl'(3)] by (simp add: node_at_def)
    have "?p * (if hi_overload h then 0 else 1) + ?p * failures_left cfg until es h'
        \<le> ?p * failures_left cfg until ((t1, t2, res) # es) h"
      using mult_le_mono2 [OF h'(3), of ?p] by (simp only: distrib_left)
    moreover have "?p + nat (accessCnt lb1) \<le> ?p * (if hi_overload h then 0 else 1) + nat (accessCnt lb) + 1"
      using b(1) [OF True] b(2) by (auto simp: add.commute)
    ultimately have "?p + (?p * failures_left cfg until es h' + nat (accessCnt lb') + length es)
        \<le> ?p * failures_left cfg until ((t1, t2, res) # es) h + nat (accessCnt lb) + length ((t1, t2, res) # es)"
      using acc unfolding list.size by linarith
    with at h'(2) show ?thesis
      by (auto simp only: node_credit_at [OF at] node_credit_at [OF n(1)] call_cost_def True simp_thms if_True)
  next
    case False
    have "map_of (hostMap lb') (addr_key a) = Some h"
      using told_other [OF told, of "addr_key a"] False l sides_eq [OF rl'(3)] by auto
    with rl' have at: "node_at cfg m c a rl' lb' h" by (simp add: node_at_def)
    have "?p * failures_left cfg until es h \<le> ?p * failures_left cfg until ((t1, t2, res) # es) h"
      by (intro mult_le_mono2 failures_left_wait i t)
    then have "?p * failures_left cfg until es h + nat (accessCnt lb') + length es
        \<le> ?p * failures_left cfg until ((t1, t2, res) # es) h + nat (accessCnt lb) + length ((t1, t2, res) # es)"
      using acc b(2) unfolding list.size by linarith
    with at n(2) False show ?thesis
      by (auto simp only: node_credit_at [OF at] node_credit_at [OF n(1)] call_cost_def option.inject if_False add_0)
  qed
qed

lemma failing_refused:
  assumes "isolating cfg" "t2 \<le> next_time until es" and n: "node_at cfg m c a rl lb h"
    and l: "map_of (routeMap rl') (mkkey m c) = Some lb'" "wf_LB cfg lb'"
    and s: "sides lb' = (hostMap lb, runningList lb, downList lb, accessCnt lb + 1)"
  shows "node_at cfg m c a rl' lb' h \<and>
    call_cost cfg a None + node_credit cfg m c a until es rl' \<le> node_credit cfg m c a until ((t1, t2, res) # es) rl"
proof -
  have at: "node_at cfg m c a rl' lb' h" and acc: "accessCnt lb' = accessCnt lb + 1"
    using l s n by (simp_all add: node_at_def sides_def)
  have c: "0 \<le> accessCnt lb" using wf_LB_counter [of cfg lb] n by (simp add: node_at_def)
  have "(nat (probeNum cfg) + 1) * failures_left cfg until es h
      \<le> (nat (probeNum cfg) + 1) * failures_left cfg until ((t1, t2, res) # es) h"
    by (intro mult_le_mono2 failures_left_wait assms(1,2))
  with at acc c show ?thesis
    by (auto simp: node_credit_at [OF at] node_credit_at [OF n] call_cost_def)
qed

lemma failing_turn:
  assumes f: "failing cfg m c a until ((t1, t2, res) # es) rl"
  shows "\<exists>rl' out. call_turn cfg MyIp m c (t1, t2, res) rl = Inr (rl', out) \<and> failing cfg m c a until es rl' \<and>
    call_cost cfg a out + node_credit cfg m c a until es rl' \<le> node_credit cfg m c a until ((t1, t2, res) # es) rl"
proof -
  from f obtain lb h where n: "node_at cfg m c a rl lb h" "wind_ok cfg h" by (auto simp: failing_def)
  have i: "isolating cfg" "config_ok cfg" "err_third cfg" and t: "t2 \<le> next_time until es" "in_time until es"
    and s: "\<And>b. sensible (res b)" and r: "\<And>b. fails_at a b (res b)" and es: "turns_ok (fails_at a) es"
    using f by (auto simp: failing_def isolating_def turns_ok_def)
  have w: "wf_LB cfg lb" and l: "map_of (routeMap rl) (mkkey m c) = Some lb"
    and k: "map_of (hostMap lb) (addr_key a) = Some h" using n(1) by (simp_all add: node_at_def)
  note c = wf_LB_counter [OF w]
  have rest: "failing cfg m c a until es rl'" if "node_at cfg m c a rl' lb' h'" "wind_ok cfg h'" for rl' lb' h'
    using that i(1) t(2) es by (auto simp: failing_def)
  show ?thesis
    using i(2,3) w node_nonempty [OF n(1)] l s
  proof (cases rule: turn_cases [of _ _ _ _ _ res MyIp t1 t2])
    case (full rl' lb')
    from failing_refused [OF i(1) t(1) n(1) full(5-7)] full(4) rest n(2) show ?thesis by blast
  next
    case (probe k' ks rl' lb1 lb2 lb')
    have "k' \<in> set (downList lb)" using probe(1) by simp
    then obtain h' where h': "map_of (hostMap lb) k' = Some h'" "hi_overload h'" using on_side [OF w] by blast
    have "k' = addr_key a" if "addr_of lb k' = a" using addr_key_of [OF w h'(1)] that by simp
    with k h' have "addr_of lb k' = a \<Longrightarrow> hi_overload h \<Longrightarrow> nat (accessCnt lb1) + nat (probeNum cfg) \<le> nat (accessCnt lb)"
      using probe(2,3) by (simp add: sides_def)
    moreover have "hostMap lb1 = hostMap lb" "0 \<le> accessCnt lb1" "nat (accessCnt lb1) \<le> nat (accessCnt lb) + 1"
      using probe(3) by (simp_all add: sides_def)
    ultimately have "\<exists>lb' h'. node_at cfg m c a rl' lb' h' \<and> wind_ok cfg h' \<and>
        call_cost cfg a (Some (addr_of lb k')) + node_credit cfg m c a until es rl'
          \<le> node_credit cfg m c a until ((t1, t2, res) # es) rl"
      by (intro failing_served [where res = res, OF i(1) t n r probe(4) _ _ _ _ probe(5,7-9)])
    with probe(6) rest show ?thesis by blast
  next
    case (idle k' ks rl' lb1 lb2 lb')
    have "k' \<in> set (runningList lb)" using idle(1) by simp
    then obtain h' where h': "map_of (hostMap lb) k' = Some h'" "\<not> hi_overload h'" using on_side [OF w] by blast
    have "\<not> hi_overload h" if "addr_of lb k' = a" using addr_key_of [OF w h'(1)] that h' k by simp
    then have "addr_of lb k' = a \<Longrightarrow> hi_overload h \<Longrightarrow> nat (accessCnt lb1) + nat (probeNum cfg) \<le> nat (accessCnt lb)"
      by blast
    moreover have "hostMap lb1 = hostMap lb" "0 \<le> accessCnt lb1" "nat (accessCnt lb1) \<le> nat (accessCnt lb) + 1"
      using idle(3) c by (auto simp: sides_def nat_add_distrib)
    ultimately have "\<exists>lb' h'. node_at cfg m c a rl' lb' h' \<and> wind_ok cfg h' \<and>
        call_cost cfg a (Some (addr_of lb k')) + node_credit cfg m c a until es rl'
          \<le> node_credit cfg m c a until ((t1, t2, res) # es) rl"
      by (intro failing_served [where res = res, OF i(1) t n r idle(4) _ _ _ _ idle(5,7-9)])
    with idle(6) rest show ?thesis by blast
  qed
qed

interpretation fb: budget "call_turn cfg MyIp m c" "failing cfg m c a until" "call_cost cfg a" "node_credit cfg m c a until"
proof unfold_locales
  fix e :: turn and es rl
  assume "failing cfg m c a until (e # es) rl"
  then show "\<exists>rl' out. call_turn cfg MyIp m c e rl = Inr (rl', out) \<and> failing cfg m c a until es rl' \<and>
      call_cost cfg a out + node_credit cfg m c a until es rl' \<le> node_credit cfg m c a until (e # es) rl"
    by (cases e) (auto intro: failing_turn)
qed

lemma sum_call_cost:
  "sum_list (map (call_cost cfg a) outs) = (nat (probeNum cfg) + 1) * count_list outs (Some a)"
  by (induction outs) (simp_all add: call_cost_def algebra_simps)

lemma failures_left_start:
  assumes "isolating cfg" "\<not> hi_overload h" "start \<le> next_time until es"
  shows "failures_left cfg until es h \<le> burst cfg * (1 + nat ((until - start) div ovldWaitLim cfg))"
proof -
  have "burst cfg * nat ((until - next_time until es) div ovldWaitLim cfg)
      \<le> burst cfg * nat ((until - start) div ovldWaitLim cfg)"
    using assms(1,3) by (intro returns_mono) (simp_all add: isolating_def)
  with patience_burst [of cfg h] show ?thesis
    using assms(2) unfolding failures_left_def distrib_left mult_1_right if_not_P [OF assms(2)] by linarith
qed

lemma div_bound: "d * x \<le> d * y + z \<Longrightarrow> 0 < d \<Longrightarrow> x \<le> y + z div d" for d x y z :: nat
  using div_le_mono [of "d * x" "d * y + z" d] by simp

section \<open>A node that works again\<close>

text \<open>The place of a node in the down list; another node's report never pushes it back.\<close>

definition place :: "u64 \<Rightarrow> u64 list \<Rightarrow> nat" where
  "place k ks = length (takeWhile (\<lambda>x. x \<noteq> k) ks)"

lemma place_simps [simp]: "place k [] = 0" "place k (x # xs) = (if x = k then 0 else Suc (place k xs))"
  by (simp_all add: place_def)

lemma place_append [simp]: "k \<in> set xs \<Longrightarrow> place k (xs @ ys) = place k xs"
  by (induction xs) auto

lemma place_less: "k \<in> set xs \<Longrightarrow> place k xs < length xs"
  by (induction xs) auto

lemma place_removeAll: "k' \<noteq> k \<Longrightarrow> place k (removeAll k' xs) \<le> place k xs"
  by (induction xs) auto

lemma place_moved: "moved k' dl dl' \<Longrightarrow> k \<in> set dl \<Longrightarrow> k' \<noteq> k \<Longrightarrow> place k dl' \<le> place k dl \<and> k \<in> set dl'"
  by (auto simp: moved_def place_removeAll)

text \<open>The turns that it takes at most until the node is back: a pass of the down list for every success it still needs.\<close>

definition comeback :: "LbConfigure \<Rightarrow> nat \<Rightarrow> nat" where
  "comeback cfg n = nat (continSuccLim cfg) * (n * (nat (probeNum cfg) + 1))"

definition debt :: "LbConfigure \<Rightarrow> u64 \<Rightarrow> LB \<Rightarrow> HI \<Rightarrow> nat" where
  "debt cfg k lb h =
     (nat (continSuccLim cfg) - 1 - unat (hi_continSucc h)) * (length (hostMap lb) * (nat (probeNum cfg) + 1))
     + place k (downList lb) * (nat (probeNum cfg) + 1) + (nat (probeNum cfg) - nat (accessCnt lb)) + 1"

lemma down_few:
  assumes "wf_LB cfg lb"
  shows "length (downList lb) \<le> length (hostMap lb)"
proof -
  have "set (downList lb) \<subseteq> set (map fst (hostMap lb))" "distinct (downList lb)"
    using wf_lists_keys [of cfg "hostMap lb" "runningList lb" "downList lb"] assms
    by (auto simp: wf_LB_alt keys_of_def wf_lists_def)
  then show ?thesis by (metis card_mono distinct_card finite_set length_map card_length order_trans)
qed

lemma same_size: 
  assumes "wf_LB cfg lb" "wf_LB cfg lb'" "keys_of (hostMap lb') = keys_of (hostMap lb)"
  shows "length (hostMap lb') = length (hostMap lb)"
proof -
  have "length (hostMap x) = card (keys_of (hostMap x))" if "wf_LB cfg x" for x
    using that distinct_card [of "map fst (hostMap x)"] by (simp add: wf_LB_def keys_of_def)
  with assms show ?thesis by simp
qed

lemma succ_limit:
  assumes "config_ok cfg" "hi_continSucc h < word_of_int (continSuccLim cfg)"
  shows "unat (hi_continSucc h) < nat (continSuccLim cfg)"
    and "unat (hi_continSucc h + 1) = unat (hi_continSucc h) + 1"
proof -
  show *: "unat (hi_continSucc h) < nat (continSuccLim cfg)"
    using assms by (simp add: config_ok_def word_limit)
  moreover have "nat (continSuccLim cfg) < 2 ^ 31" using assms(1) by (auto simp: config_ok_def nat_less_iff)
  ultimately show "unat (hi_continSucc h + 1) = unat (hi_continSucc h) + 1"
    by (simp add: word_add_no_wrap)
qed

lemma debt_bound:
  assumes "config_ok cfg" "wf_LB cfg lb" "k \<in> set (downList lb)"
  shows "debt cfg k lb h \<le> comeback cfg (length (hostMap lb))"
proof -
  let ?p = "nat (probeNum cfg) + 1" and ?n = "length (hostMap lb)" and ?l = "nat (continSuccLim cfg)"
  have "place k (downList lb) + 1 \<le> ?n" using place_less [OF assms(3)] down_few [OF assms(2)] by linarith
  from mult_le_mono1 [OF this, of ?p] have "place k (downList lb) * ?p + ?p \<le> ?n * ?p" by simp
  moreover have "(?l - 1 - unat (hi_continSucc h)) * (?n * ?p) \<le> (?l - 1) * (?n * ?p)" by (rule mult_le_mono1) simp
  moreover have "0 < ?l" using assms(1) by (simp add: config_ok_def)
  then have "comeback cfg ?n = (?l - 1) * (?n * ?p) + ?n * ?p"
    by (cases ?l) (simp_all add: comeback_def)
  ultimately show ?thesis unfolding debt_def by linarith
qed

text \<open>What a report of a successful call does: nothing bad to an idle node without failures, one step back for one that is down.\<close>

definition returning :: "LbConfigure \<Rightarrow> bool" where
  "returning cfg \<longleftrightarrow> config_ok cfg \<and> err_third cfg \<and> 0 < windErrRate cfg \<and> 0 < ovldWaitLim cfg"

lemma clean_window:
  assumes "0 < windErrRate cfg" "hi_rErr h = 0"
  shows "\<not> fst (checkWindow cfg h)"
proof -
  have "fl64 0 = 0" by (rule rnd_dyadic [of 0 _ 0]) (simp_all add: dyadic_def)
  with assms show ?thesis by (auto simp: checkWindow_def ratio_def)
qed

lemma timed_clean:
  "0 < windErrRate cfg \<Longrightarrow> \<not> hi_overload h \<Longrightarrow> hi_rErr h = 0 \<Longrightarrow>
   \<not> hi_overload (timed cfg now h) \<and> hi_rErr (timed cfg now h) = 0"
  using clean_window [of cfg h] by (auto simp: timed_def split: prod.split)

lemma told_helps:
  assumes r: "returning cfg" and w: "wf_LB cfg lb" "map_of (hostMap lb) (addr_key a) = Some h"
    and o: "hi_overload h \<or> hi_rErr h = 0" and t: "told cfg now a (0, None) lb = Inr lb'"
  obtains h' where "map_of (hostMap lb') (addr_key a) = Some h'" "\<not> hi_overload h'" "hi_rErr h' = 0"
  | "hi_overload h" "map_of (hostMap lb') (addr_key a) = Some (count_succ h)"
    "unat (hi_continSucc h) + 1 < nat (continSuccLim cfg)" "unat (hi_continSucc h + 1) = unat (hi_continSucc h) + 1"
proof -
  let ?s = "count_succ h"
  have c: "config_ok cfg" "0 < windErrRate cfg" using r by (simp_all add: returning_def)
  have s: "hi_overload ?s = hi_overload h" "hi_rErr ?s = hi_rErr h" "hi_continSucc ?s = hi_continSucc h + 1"
    by (simp_all add: count_succ_def)
  note m = told_succeeds [OF t w(2)]
  show ?thesis
  proof (cases "hi_overload h")
    case True
    show ?thesis
    proof (cases "recovers cfg ?s \<or> ovldWaitLim cfg \<le> now - hi_overloadTs ?s")
      case True
      with m \<open>hi_overload h\<close> s that(1) [of "make_idle cfg now ?s"] show ?thesis by (auto simp: timed_def)
    next
      case False
      have "hi_continSucc h < word_of_int (continSuccLim cfg)"
        using wf_LB_node(2) [OF w] True by (simp add: host_ok_def)
      note l = succ_limit [OF c(1) this]
      have "hi_continSucc ?s < word_of_int (continSuccLim cfg)" using False by (simp add: recovers_def not_le)
      from succ_limit(1) [OF c(1) this] have "unat (hi_continSucc h) + 1 < nat (continSuccLim cfg)"
        by (simp add: s l(2))
      moreover have "timed cfg now ?s = ?s" using False True s by (simp add: timed_def)
      ultimately show ?thesis using m that(2) True False l(2) by simp
    qed
  next
    case False
    with o timed_clean [OF c(2), of ?s now] s m that(1) show ?thesis by simp
  qed
qed

text \<open>The invariant: the node is in service without failures, or the turns to come are enough to bring it back.\<close>

definition answers_at :: "HostAddr \<Rightarrow> HostAddr \<Rightarrow> i32 \<times> u32 option \<Rightarrow> bool" where
  "answers_at a b r \<longleftrightarrow> (b = a \<longrightarrow> fst r = 0)"

definition recovering :: "LbConfigure \<Rightarrow> i32 \<Rightarrow> i32 \<Rightarrow> HostAddr \<Rightarrow> turn list \<Rightarrow> RouteLB \<Rightarrow> bool" where
  "recovering cfg m c a es rl \<longleftrightarrow> returning cfg \<and> turns_ok (answers_at a) es
     \<and> (\<exists>lb h. node_at cfg m c a rl lb h
          \<and> (if hi_overload h then debt cfg (addr_key a) lb h \<le> length es else hi_rErr h = 0))"

lemma debt_step:
  assumes "length (hostMap lb') = length (hostMap lb)"
    and "place k (downList lb') * (nat (probeNum cfg) + 1) + (nat (probeNum cfg) - nat (accessCnt lb')) + 1
      \<le> place k (downList lb) * (nat (probeNum cfg) + 1) + (nat (probeNum cfg) - nat (accessCnt lb))"
  shows "debt cfg k lb' h + 1 \<le> debt cfg k lb h"
  using assms(2) unfolding debt_def assms(1) by linarith

lemma debt_success:
  assumes "length (hostMap lb') = length (hostMap lb)" "place k (downList lb') < length (hostMap lb)"
    and "unat (hi_continSucc h) + 1 < nat (continSuccLim cfg)" "unat (hi_continSucc h') = unat (hi_continSucc h) + 1"
  shows "debt cfg k lb' h' + 1 \<le> debt cfg k lb h"
proof -
  let ?p = "nat (probeNum cfg) + 1" and ?n = "length (hostMap lb)"
  obtain x where x: "nat (continSuccLim cfg) - 1 - unat (hi_continSucc h') = x"
    "nat (continSuccLim cfg) - 1 - unat (hi_continSucc h) = x + 1"
    using assms(3,4) by force
  have "place k (downList lb') + 1 \<le> ?n" using assms(2) by simp
  from mult_le_mono1 [OF this, of ?p] have "place k (downList lb') * ?p + ?p \<le> ?n * ?p" by simp
  moreover have "(x + 1) * (?n * ?p) = x * (?n * ?p) + ?n * ?p" by simp
  ultimately show ?thesis unfolding debt_def assms(1) x by linarith
qed

lemma recovering_own:
  assumes r: "returning cfg" and n: "node_at cfg m c a rl lb h"
    and d: "if hi_overload h then debt cfg (addr_key a) lb h \<le> Suc n' else hi_rErr h = 0"
    and lb1: "wf_LB cfg lb1" "hostMap lb1 = hostMap lb"
    and told: "told cfg t2 a (0, None) lb1 = Inr lb2"
    and rl': "map_of (routeMap rl') (mkkey m c) = Some lb'" "wf_LB cfg lb'" "sides lb' = sides lb2"
    and size: "length (hostMap lb') = length (hostMap lb)"
  shows "\<exists>h'. node_at cfg m c a rl' lb' h'
    \<and> (if hi_overload h' then debt cfg (addr_key a) lb' h' \<le> n' else hi_rErr h' = 0)"
proof -
  note e = sides_eq [OF rl'(3)]
  have l: "map_of (hostMap lb1) (addr_key a) = Some h" using n lb1(2) by (simp add: node_at_def)
  have o: "hi_overload h \<or> hi_rErr h = 0" using d by (auto split: if_splits)
  from r lb1(1) l o told show ?thesis
  proof (cases rule: told_helps)
    case (1 h')
    with rl' e show ?thesis by (auto simp: node_at_def)
  next
    case 2
    have at: "node_at cfg m c a rl' lb' (count_succ h)" using 2(2) rl' e by (simp add: node_at_def)
    then have "addr_key a \<in> set (downList lb')" using on_side(2) [OF rl'(2)] 2(1) by (auto simp: node_at_def)
    with place_less down_few [OF rl'(2)] size have "place (addr_key a) (downList lb') < length (hostMap lb)"
      by (metis order_less_le_trans)
    from debt_success [OF size this 2(3), of "count_succ h"] 2(4) d 2(1) at show ?thesis
      by (auto simp: count_succ_def)
  qed
qed

lemma recovering_served:
  assumes r: "returning cfg" and n: "node_at cfg m c a rl lb h"
    and d: "if hi_overload h then debt cfg (addr_key a) lb h \<le> Suc n' else hi_rErr h = 0"
    and res: "answers_at a b r'" "sensible r'"
    and lb1: "wf_LB cfg lb1" "hostMap lb1 = hostMap lb"
    and other: "\<And>dl'. b \<noteq> a \<Longrightarrow> hi_overload h \<Longrightarrow> moved (addr_key b) (downList lb1) dl' \<Longrightarrow>
      place (addr_key a) dl' * (nat (probeNum cfg) + 1) + (nat (probeNum cfg) - nat (accessCnt lb1)) + 1
        \<le> place (addr_key a) (downList lb) * (nat (probeNum cfg) + 1) + (nat (probeNum cfg) - nat (accessCnt lb))"
    and told: "told cfg t2 b r' lb1 = Inr lb2"
    and rl': "map_of (routeMap rl') (mkkey m c) = Some lb'" "wf_LB cfg lb'" "sides lb' = sides lb2"
  shows "\<exists>h'. node_at cfg m c a rl' lb' h'
    \<and> (if hi_overload h' then debt cfg (addr_key a) lb' h' \<le> n' else hi_rErr h' = 0)"
proof -
  have w: "wf_LB cfg lb" and l: "map_of (hostMap lb1) (addr_key a) = Some h" using n lb1(2) by (simp_all add: node_at_def)
  have wait: "0 < ovldWaitLim cfg" using r by (simp add: returning_def)
  note e = sides_eq [OF rl'(3)] and mv = told_moves [OF wait told]
  have "keys_of (hostMap lb') = keys_of (hostMap lb)"
    using told_ident [OF told] e lb1(2) by (simp add: LB_ident_def)
  from same_size [OF w rl'(2) this] have size: "length (hostMap lb') = length (hostMap lb)" .
  show ?thesis
  proof (cases "b = a")
    case True
    have "r' = (0, None)" using res True by (cases r') (simp add: answers_at_def sensible_def)
    with told True have "told cfg t2 a (0, None) lb1 = Inr lb2" by simp
    from recovering_own [OF r n d lb1 this rl' size] show ?thesis .
  next
    case False
    have at: "node_at cfg m c a rl' lb' h"
      using told_other [OF told, of "addr_key a"] False l rl' e by (auto simp: node_at_def)
    show ?thesis
    proof (cases "hi_overload h")
      case True
      from other [OF False True, of "downList lb'"] mv e
      have "debt cfg (addr_key a) lb' h + 1 \<le> debt cfg (addr_key a) lb h" by (intro debt_step size) simp
      with d True at show ?thesis by auto
    qed (use d at in auto)
  qed
qed

lemma down_place:
  assumes "node_at cfg m c a rl lb h" "hi_overload h"
  shows "addr_key a \<in> set (downList lb)"
  using assms on_side(2) [of cfg lb "addr_key a"] by (auto simp: node_at_def)

text \<open>A turn without the node brings it nearer to a probe: the counter grows, or the node before it moves behind it.\<close>

lemma nearer_counted:
  assumes "node_at cfg m c a rl lb h" "accessCnt lb < probeNum cfg" "accessCnt lb' = accessCnt lb + 1"
    and "place k dl' \<le> place k (downList lb)"
  shows "place k dl' * (nat (probeNum cfg) + 1) + (nat (probeNum cfg) - nat (accessCnt lb')) + 1
    \<le> place k (downList lb) * (nat (probeNum cfg) + 1) + (nat (probeNum cfg) - nat (accessCnt lb))"
proof -
  have "0 \<le> accessCnt lb" using wf_LB_counter [of cfg lb] assms(1) by (simp add: node_at_def)
  with assms(2,3) have "nat (accessCnt lb') = nat (accessCnt lb) + 1" "nat (accessCnt lb) < nat (probeNum cfg)"
    by (simp_all add: nat_add_distrib)
  with mult_le_mono1 [OF assms(4), of "nat (probeNum cfg) + 1"] show ?thesis by linarith
qed

lemma nearer_probed:
  assumes "downList lb = k' # ks" "k \<in> set (downList lb)" "k' \<noteq> k" "moved k' (ks @ [k']) dl'" "accessCnt lb1 = 0"
  shows "place k dl' * (nat (probeNum cfg) + 1) + (nat (probeNum cfg) - nat (accessCnt lb1)) + 1
    \<le> place k (downList lb) * (nat (probeNum cfg) + 1) + (nat (probeNum cfg) - nat (accessCnt lb))"
proof -
  have "k \<in> set ks" using assms(1-3) by auto
  with place_moved [OF assms(4), of k] assms(3) have "place k dl' \<le> place k ks" by simp
  from mult_le_mono1 [OF this, of "nat (probeNum cfg) + 1"] show ?thesis using assms(1,3,5) by simp
qed

lemma recovering_turn:
  assumes f: "recovering cfg m c a ((t1, t2, res) # es) rl"
  shows "\<exists>rl' out. call_turn cfg MyIp m c (t1, t2, res) rl = Inr (rl', out) \<and> recovering cfg m c a es rl'"
proof -
  let ?p = "nat (probeNum cfg) + 1" and ?k = "addr_key a"
  from f obtain lb h where n: "node_at cfg m c a rl lb h"
    and d: "if hi_overload h then debt cfg ?k lb h \<le> Suc (length es) else hi_rErr h = 0"
    unfolding recovering_def length_Cons by blast
  have i: "returning cfg" "config_ok cfg" "err_third cfg"
    and s: "\<And>b. sensible (res b)" and r: "\<And>b. answers_at a b (res b)" and es: "turns_ok (answers_at a) es"
    using f by (auto simp: recovering_def returning_def turns_ok_def)
  have w: "wf_LB cfg lb" and l: "map_of (routeMap rl) (mkkey m c) = Some lb"
    and k: "map_of (hostMap lb) ?k = Some h" using n by (simp_all add: node_at_def)
  note c = wf_LB_counter [OF w]
  have rest: "recovering cfg m c a es rl'" if "\<exists>h'. node_at cfg m c a rl' lb' h'
      \<and> (if hi_overload h' then debt cfg ?k lb' h' \<le> length es else hi_rErr h' = 0)" for rl' lb'
    using that i(1) es unfolding recovering_def by blast
  show ?thesis
    using i(2,3) w node_nonempty [OF n] l s
  proof (cases rule: turn_cases [of _ _ _ _ _ res MyIp t1 t2])
    case (full rl' lb')
    have e: "hostMap lb' = hostMap lb" "downList lb' = downList lb" "accessCnt lb' = accessCnt lb + 1"
      using full(7) by (simp_all add: sides_def)
    from nearer_counted [OF n full(3) e(3), of ?k "downList lb"]
    have "debt cfg ?k lb' h + 1 \<le> debt cfg ?k lb h" by (intro debt_step) (simp_all only: e order_refl)
    with d have "if hi_overload h then debt cfg ?k lb' h \<le> length es else hi_rErr h = 0" by auto
    moreover have "node_at cfg m c a rl' lb' h" using full(5,6) e(1) k by (simp add: node_at_def)
    ultimately have "recovering cfg m c a es rl'" by (intro rest) blast
    with full(4) show ?thesis by blast
  next
    case (probe k' ks rl' lb1 lb2 lb')
    have e: "hostMap lb1 = hostMap lb" "downList lb1 = ks @ [k']" "accessCnt lb1 = 0"
      using probe(3) by (simp_all add: sides_def)
    have "k' \<in> set (downList lb)" using probe(1) by simp
    then obtain h' where "map_of (hostMap lb) k' = Some h'" using on_side [OF w] by blast
    note k' = addr_key_of [OF w this]
    have other: "place ?k dl' * ?p + (nat (probeNum cfg) - nat (accessCnt lb1)) + 1
        \<le> place ?k (downList lb) * ?p + (nat (probeNum cfg) - nat (accessCnt lb))"
      if "addr_of lb k' \<noteq> a" "hi_overload h" "moved (addr_key (addr_of lb k')) (downList lb1) dl'" for dl'
      using that k' e(2) by (intro nearer_probed [OF probe(1) down_place [OF n that(2)] _ _ e(3)]) auto
    from recovering_served [OF i(1) n d r s probe(4) e(1) other probe(5,7-9)] rest probe(6)
    show ?thesis by blast
  next
    case (idle k' ks rl' lb1 lb2 lb')
    have "k' \<in> set (runningList lb)" using idle(1) by simp
    then obtain h' where h': "map_of (hostMap lb) k' = Some h'" "\<not> hi_overload h'" using on_side [OF w] by blast
    note k' = addr_key_of [OF w h'(1)]
    have e: "hostMap lb1 = hostMap lb" "downList lb1 = downList lb" using idle(3) by (simp_all add: sides_def)
    have other: "place ?k dl' * ?p + (nat (probeNum cfg) - nat (accessCnt lb1)) + 1
        \<le> place ?k (downList lb) * ?p + (nat (probeNum cfg) - nat (accessCnt lb))"
      if "addr_of lb k' \<noteq> a" "hi_overload h" "moved (addr_key (addr_of lb k')) (downList lb1) dl'" for dl'
    proof -
      note dp = down_place [OF n that(2)]
      have ne: "k' \<noteq> ?k" using that(1) k' by auto
      from dp have "downList lb \<noteq> []" by auto
      with idle(2,3) have "accessCnt lb < probeNum cfg" "accessCnt lb1 = accessCnt lb + 1" by (auto simp: sides_def)
      moreover have "place ?k dl' \<le> place ?k (downList lb)"
        using place_moved [of k' "downList lb" dl' ?k] that(3) k' ne dp e(2) by simp
      ultimately show ?thesis by (intro nearer_counted [OF n])
    qed
    from recovering_served [OF i(1) n d r s idle(4) e(1) other idle(5,7-9)] rest idle(6)
    show ?thesis by blast
  qed
qed

interpretation rb: budget "call_turn cfg MyIp m c" "recovering cfg m c a" "\<lambda>_. 0" "\<lambda>_ _. 0"
proof unfold_locales
  fix e :: turn and es rl
  assume "recovering cfg m c a (e # es) rl"
  then show "\<exists>rl' out. call_turn cfg MyIp m c e rl = Inr (rl', out) \<and> recovering cfg m c a es rl' \<and> (0::nat) + 0 \<le> 0"
    using recovering_turn by (cases e) fastforce
qed

section \<open>Properties\<close>

text \<open>
  C5. A node that fails every call gets little traffic: over any number of turns between
  \<open>start\<close> and \<open>until\<close>, whatever the other nodes answer and whenever the windows fall, the agent hands it out
  at most \<open>burst cfg\<close> times for every time it can be in service (once, and once more for every \<open>ovldWaitLim\<close>
  seconds), and besides for one probe in \<open>probeNum + 1\<close> requests. No turn ends in a fault.
\<close>

theorem failing_node_bounded:
  assumes "isolating cfg" and "map_of (routeMap rl) (mkkey m c) = Some lb" and "wf_LB cfg lb"
    and "map_of (hostMap lb) (addr_key a) = Some h" and "wind_ok cfg h" and "\<not> hi_overload h"
    and "in_time until es" and "start \<le> next_time until es" and "turns_ok (fails_at a) es"
  shows "\<exists>rl' outs. run (call_turn cfg MyIp m c) es rl = Inr (rl', outs)
     \<and> count_list outs (Some a) \<le> burst cfg * (1 + nat ((until - start) div ovldWaitLim cfg))
         + (length es + nat (probeNum cfg)) div (nat (probeNum cfg) + 1)"
proof -
  let ?b = "burst cfg * (1 + nat ((until - start) div ovldWaitLim cfg))"
  have n: "node_at cfg m c a rl lb h" using assms(2-4) by (simp add: node_at_def)
  with assms(1,5,7,9) have "failing cfg m c a until es rl" by (auto simp: failing_def)
  from fb.run_pays [OF this] obtain rl' outs where r: "run (call_turn cfg MyIp m c) es rl = Inr (rl', outs)"
    "(nat (probeNum cfg) + 1) * count_list outs (Some a) \<le>
       (nat (probeNum cfg) + 1) * failures_left cfg until es h + nat (accessCnt lb) + length es"
    unfolding sum_call_cost node_credit_at [OF n] by blast
  have "(nat (probeNum cfg) + 1) * failures_left cfg until es h \<le> (nat (probeNum cfg) + 1) * ?b"
    by (intro mult_le_mono2 failures_left_start assms)
  moreover have "nat (accessCnt lb) \<le> nat (probeNum cfg)" using assms(3) by (auto simp: wf_LB_alt intro: nat_mono)
  ultimately have "(nat (probeNum cfg) + 1) * count_list outs (Some a)
      \<le> (nat (probeNum cfg) + 1) * ?b + (length es + nat (probeNum cfg))"
    using r(2) by linarith
  from div_bound [OF this] r(1) show ?thesis by auto
qed

lemma in_time_replicate: "t2 \<le> until \<Longrightarrow> in_time until (replicate n (t1, t2, res)) \<and> t2 \<le> next_time until (replicate n (t1, t2, res))"
  by (induction n) auto

lemma turns_ok_replicate:
  "(\<And>b. sensible (res b) \<and> R b (res b)) \<Longrightarrow> turns_ok R (replicate n (t1, t2, res))"
  by (auto simp: turns_ok_def)

lemma ex_windErrRate: "0 < windErrRate ex_cfg" "windErrRate ex_cfg \<le> 1"
proof -
  have e: "windErrRate ex_cfg = fl32 (fl64 (7 / 10))" by (simp add: ex_cfg_def initLbEnviro_def)
  have "99 / 100 * fl64 (7 / 10) \<le> windErrRate ex_cfg" "windErrRate ex_cfg \<le> 101 / 100 * fl64 (7 / 10)"
    unfolding e using fl32_near [of "fl64 (7 / 10)"] by (simp_all add: fl64_seven_tenths)
  moreover have "0 < 99 / 100 * fl64 (7 / 10)" "101 / 100 * fl64 (7 / 10) \<le> 1"
    by (simp_all add: fl64_seven_tenths)
  ultimately show "0 < windErrRate ex_cfg" "windErrRate ex_cfg \<le> 1"
    by (auto intro: less_le_trans order_trans)
qed

lemma ex_isolating: "isolating ex_cfg"
proof -
  have "errRate ex_cfg = 13421773 / 134217728"
    using fl32_tenth by (simp add: ex_cfg_def initLbEnviro_def)
  with ex_windErrRate(2) show ?thesis by (simp add: isolating_def ex_cfg_ok err_third_def)
qed

text \<open>A thousand turns in one second in which the first of two nodes fails.\<close>

definition ex_turns :: "nat \<Rightarrow> turn list" where
  "ex_turns n = replicate n (101, 102, \<lambda>b. if b = ex_addr 0 then (1, Some 250) else (0, None))"

theorem failing_node_bounded_witness:
  "\<exists>rl' outs. run (call_turn ex_cfg 2130706433 1 2) (ex_turns 1000) (ex_rl 2 0) = Inr (rl', outs)
     \<and> count_list outs (Some (ex_addr 0)) \<le> 364"
proof -
  let ?h = "fresh_HI ex_cfg 100 (ex_addr 0)"
  have l: "map_of (hostMap (ex_lb 2 0)) (addr_key (ex_addr 0)) = Some ?h"
    by (simp add: ex_lb_def upt_rec fresh_HI_def new_HI_def)
  have h: "wind_ok ex_cfg ?h" "\<not> hi_overload ?h" by (simp_all add: fresh_HI_def new_HI_def wind_ok_def)
  have t: "in_time 200 (ex_turns 1000)" "102 \<le> next_time 200 (ex_turns 1000)"
    using in_time_replicate [of 102 200] by (simp_all add: ex_turns_def)
  have f: "turns_ok (fails_at (ex_addr 0)) (ex_turns 1000)"
    unfolding ex_turns_def by (rule turns_ok_replicate) (simp add: sensible_def fails_at_def)
  have "burst ex_cfg = 30" "length (ex_turns 1000) = 1000" by (simp_all add: burst_def ex_turns_def)
  with failing_node_bounded [OF ex_isolating ex_rl_lookup ex_lb_wf(2) l h t f, of 2130706433] show ?thesis by simp
qed

text \<open>
  C6. A node that works again is soon back: when an overloaded node answers every call from now on, it is
  on the running list after at most \<open>continSuccLim\<close> times the number of nodes times \<open>probeNum + 1\<close>
  turns, and stays there, whatever the other nodes answer. No turn ends in a fault.
\<close>

theorem recovered_node_returns:
  assumes "returning cfg" and "map_of (routeMap rl) (mkkey m c) = Some lb" and "wf_LB cfg lb"
    and "map_of (hostMap lb) (addr_key a) = Some h" and "hi_overload h"
    and "turns_ok (answers_at a) es" and "comeback cfg (length (hostMap lb)) \<le> length es"
  shows "\<exists>rl' outs lb'. run (call_turn cfg MyIp m c) es rl = Inr (rl', outs)
     \<and> map_of (routeMap rl') (mkkey m c) = Some lb' \<and> addr_key a \<in> set (runningList lb')"
proof -
  have n: "node_at cfg m c a rl lb h" using assms(2-4) by (simp add: node_at_def)
  have "config_ok cfg" using assms(1) by (simp add: returning_def)
  from debt_bound [OF this assms(3) down_place [OF n assms(5)]] assms(7)
  have "debt cfg (addr_key a) lb h \<le> length es" by (rule order_trans)
  with n assms(1,5,6) have "recovering cfg m c a es rl" by (auto simp: recovering_def)
  from rb.run_pays [OF this, of MyIp] obtain rl' outs where r: "run (call_turn cfg MyIp m c) es rl = Inr (rl', outs)"
    and "recovering cfg m c a [] rl'" by blast
  then obtain lb' h' where "node_at cfg m c a rl' lb' h'" "\<not> hi_overload h'"
    by (fastforce simp: recovering_def debt_def split: if_splits)
  with r on_side(1) [of cfg lb' "addr_key a"] show ?thesis by (auto simp: node_at_def)
qed

definition ex_good_turns :: "nat \<Rightarrow> turn list" where
  "ex_good_turns n = replicate n (101, 102, \<lambda>b. if b = ex_addr 2 then (0, None) else (1, Some 100))"

theorem recovered_node_returns_witness:
  "\<exists>rl' outs lb'. run (call_turn ex_cfg 2130706433 1 2) (ex_good_turns 90) (ex_rl 2 1) = Inr (rl', outs)
     \<and> map_of (routeMap rl') (mkkey 1 2) = Some lb' \<and> addr_key (ex_addr 2) \<in> set (runningList lb')"
proof (rule recovered_node_returns [OF _ ex_rl_lookup ex_lb_wf(1)])
  show "returning ex_cfg" using ex_isolating ex_windErrRate(1) by (simp add: isolating_def returning_def)
  show "map_of (hostMap (ex_lb 2 1)) (addr_key (ex_addr 2)) = Some ((fresh_HI ex_cfg 100 (ex_addr 2))\<lparr>hi_overload := True\<rparr>)"
    by (simp add: ex_lb_def upt_rec) (simp add: ex_addr_def)
  show "turns_ok (answers_at (ex_addr 2)) (ex_good_turns 90)"
    unfolding ex_good_turns_def by (rule turns_ok_replicate) (simp add: sensible_def answers_at_def)
  show "comeback ex_cfg (length (hostMap (ex_lb 2 1))) \<le> length (ex_good_turns 90)"
    by (simp add: comeback_def ex_lb_def ex_good_turns_def)
qed simp
end
