(* ===== verification/LockMachine.thy ===== *)
theory LockMachine
  imports ElbPrelude
begin

text \<open>
  Threads that share a state under locks, one instruction at a time. An operation is a list of
  instructions: taking and giving back locks (exclusively or shared) and actions on the shared and the thread's own
  state. A schedule names the thread that moves next. The lemmas show what operations guarantee
  that take their locks in order and give them all back: the lock state is what the
  threads' positions say, a lock held exclusively has one holder, and no schedule ends in a deadlock.
\<close>

section \<open>The machine\<close>

datatype ('l, 'a) instr = Acquire 'l bool | Release 'l bool | Act 'a

type_synonym ('l, 'a, 'op, 'v) thread = "('l, 'a) instr list \<times> 'op list \<times> 'v"

record ('l, 'a, 'op, 's, 'v) machine =
  shared :: 's
  held :: "'l \<Rightarrow> (nat \<times> bool) set"
  threads :: "('l, 'a, 'op, 'v) thread list"

text \<open>A lock can be taken exclusively when nobody holds it, and shared when nobody holds it exclusively.\<close>

definition free_for :: "bool \<Rightarrow> (nat \<times> bool) set \<Rightarrow> bool" where
  "free_for e h \<longleftrightarrow> (if e then h = {} else (\<forall>(j, e') \<in> h. \<not> e'))"

definition goto :: "nat \<Rightarrow> ('l, 'a, 'op, 'v) thread \<Rightarrow> ('l, 'a, 'op, 's, 'v) machine \<Rightarrow> ('l, 'a, 'op, 's, 'v) machine" where
  "goto i t c = c\<lparr>threads := (threads c)[i := t]\<rparr>"

definition mstep :: "('op \<Rightarrow> ('l, 'a) instr list) \<Rightarrow> ('a \<Rightarrow> 's \<times> 'v \<Rightarrow> 's \<times> 'v) \<Rightarrow> nat \<Rightarrow>
    ('l, 'a, 'op, 's, 'v) machine \<Rightarrow> ('l, 'a, 'op, 's, 'v) machine option" where
  "mstep code act i c =
    (if i < length (threads c) then
       (case threads c ! i of (cur, todo, v) \<Rightarrow>
         (case cur of
            [] \<Rightarrow> (case todo of [] \<Rightarrow> None | op # ops \<Rightarrow> Some (goto i (code op, ops, v) c))
          | Acquire l e # r \<Rightarrow>
              if free_for e (held c l)
              then Some (goto i (r, todo, v) (c\<lparr>held := (held c)(l := insert (i, e) (held c l))\<rparr>)) else None
          | Release l e # r \<Rightarrow> Some (goto i (r, todo, v) (c\<lparr>held := (held c)(l := held c l - {(i, e)})\<rparr>))
          | Act a # r \<Rightarrow> (case act a (shared c, v) of (s', v') \<Rightarrow> Some (goto i (r, todo, v') (c\<lparr>shared := s'\<rparr>)))))
     else None)"

fun msteps :: "('op \<Rightarrow> ('l, 'a) instr list) \<Rightarrow> ('a \<Rightarrow> 's \<times> 'v \<Rightarrow> 's \<times> 'v) \<Rightarrow> nat list \<Rightarrow>
    ('l, 'a, 'op, 's, 'v) machine \<Rightarrow> ('l, 'a, 'op, 's, 'v) machine option" where
  "msteps code act [] c = Some c"
| "msteps code act (i # is) c = (case mstep code act i c of None \<Rightarrow> None | Some c' \<Rightarrow> msteps code act is c')"

definition finished :: "('l, 'a, 'op, 's, 'v) machine \<Rightarrow> bool" where
  "finished c \<longleftrightarrow> (\<forall>(cur, todo, v) \<in> set (threads c). cur = [] \<and> todo = [])"

text \<open>Threads that have not begun, with nothing locked.\<close>

definition start :: "'s \<Rightarrow> ('op list \<times> 'v) list \<Rightarrow> ('l, 'a, 'op, 's, 'v) machine" where
  "start s ts = \<lparr> shared = s, held = (\<lambda>_. {}), threads = map (\<lambda>(ops, v). ([], ops, v)) ts \<rparr>"

lemma goto_simps [simp]:
  "shared (goto i t c) = shared c" "held (goto i t c) = held c" "threads (goto i t c) = (threads c)[i := t]"
  by (simp_all add: goto_def)

lemma msteps_append: "msteps code act (is @ js) c = (case msteps code act is c of None \<Rightarrow> None | Some c' \<Rightarrow> msteps code act js c')"
  by (induction "is" arbitrary: c) (auto split: option.split)

text \<open>The steps of one thread, by the instruction it is at.\<close>

lemma mstep_cases:
  assumes "mstep code act i c = Some c'"
  obtains (call) op ops v where "i < length (threads c)" "threads c ! i = ([], op # ops, v)" "c' = goto i (code op, ops, v) c"
  | (acquire) l e r ops v where "i < length (threads c)" "threads c ! i = (Acquire l e # r, ops, v)" "free_for e (held c l)"
      "c' = goto i (r, ops, v) (c\<lparr>held := (held c)(l := insert (i, e) (held c l))\<rparr>)"
  | (release) l e r ops v where "i < length (threads c)" "threads c ! i = (Release l e # r, ops, v)"
      "c' = goto i (r, ops, v) (c\<lparr>held := (held c)(l := held c l - {(i, e)})\<rparr>)"
  | (act) a r ops v s' v' where "i < length (threads c)" "threads c ! i = (Act a # r, ops, v)" "act a (shared c, v) = (s', v')"
      "c' = goto i (r, ops, v') (c\<lparr>shared := s'\<rparr>)"
  using assms unfolding mstep_def
  by (cases "threads c ! i") (auto split: if_splits list.splits instr.splits prod.splits)

text \<open>An invariant of the steps holds after every schedule.\<close>

lemma msteps_inv:
  assumes "\<And>i c c'. I c \<Longrightarrow> mstep code act i c = Some c' \<Longrightarrow> I c'"
  shows "msteps code act is c = Some c' \<Longrightarrow> I c \<Longrightarrow> I c'"
  by (induction "is" arbitrary: c) (auto split: option.splits dest: assms)

section \<open>Work\<close>

text \<open>Every step takes one unit of work, so no schedule is longer than the work at its start.\<close>

definition work_of :: "('op \<Rightarrow> ('l, 'a) instr list) \<Rightarrow> ('l, 'a, 'op, 'v) thread \<Rightarrow> nat" where
  "work_of code t = (case t of (cur, todo, v) \<Rightarrow> length cur + sum_list (map (\<lambda>op. Suc (length (code op))) todo))"

definition work :: "('op \<Rightarrow> ('l, 'a) instr list) \<Rightarrow> ('l, 'a, 'op, 's, 'v) machine \<Rightarrow> nat" where
  "work code c = sum_list (map (work_of code) (threads c))"

lemma work_goto:
  assumes "i < length (threads c)" "threads c' = (threads c)[i := t]" "work_of code (threads c ! i) = Suc (work_of code t)"
  shows "work code c = Suc (work code c')"
proof -
  have "work_of code (threads c ! i) \<le> sum_list (map (work_of code) (threads c))"
    using elem_le_sum_list [of i "map (work_of code) (threads c)"] assms(1) by simp
  moreover have "sum_list (map (work_of code) ((threads c)[i := t]))
      = sum_list (map (work_of code) (threads c)) + work_of code t - work_of code (threads c ! i)"
    using assms(1) by (simp add: map_update sum_list_update)
  ultimately show ?thesis using assms(2,3) by (simp add: work_def)
qed

lemma work_of_simps [simp]:
  "work_of code (cur, todo, v) = length cur + sum_list (map (\<lambda>op. Suc (length (code op))) todo)"
  by (simp add: work_of_def)

lemma mstep_work: "mstep code act i c = Some c' \<Longrightarrow> work code c = Suc (work code c')"
  by (erule mstep_cases; rule work_goto, assumption, simp, simp)

lemma msteps_work: "msteps code act is c = Some c' \<Longrightarrow> work code c = length is + work code c'"
  by (induction "is" arbitrary: c) (auto split: option.splits dest: mstep_work)

section \<open>Well-formed operations\<close>

text \<open>How a lock is held when only \<open>cur\<close> is left of the operation: as it will be given back next.\<close>

fun owned :: "('l, 'a) instr list \<Rightarrow> 'l \<Rightarrow> bool option" where
  "owned [] l = None"
| "owned (Acquire k e # r) l = (if k = l then None else owned r l)"
| "owned (Release k e # r) l = (if k = l then Some e else owned r l)"
| "owned (Act a # r) l = owned r l"

fun released :: "('l, 'a) instr list \<Rightarrow> 'l list" where
  "released [] = []"
| "released (Release k e # r) = k # released r"
| "released (x # r) = released r"

text \<open>
  Locks are taken in the order of their ranks and given back as they were taken; an action finds the locks of its
  guard taken, exclusively where the guard says so.
\<close>

fun sound :: "('l \<Rightarrow> nat) \<Rightarrow> ('a \<Rightarrow> ('l \<times> bool) list) \<Rightarrow> ('l, 'a) instr list \<Rightarrow> bool" where
  "sound rank guard [] = True"
| "sound rank guard (Acquire l e # r) =
    (owned r l = Some e \<and> (\<forall>k \<in> set (released r). k = l \<or> owned r k = None \<or> rank k < rank l) \<and> sound rank guard r)"
| "sound rank guard (Release l e # r) = (owned r l = None \<and> sound rank guard r)"
| "sound rank guard (Act a # r) =
    ((\<forall>(l, e) \<in> set (guard a). owned r l = Some True \<or> \<not> e \<and> owned r l = Some False) \<and> sound rank guard r)"

lemma owned_released: "owned cur l = Some e \<Longrightarrow> l \<in> set (released cur)"
  by (induction cur l rule: owned.induct) (auto split: if_splits)

lemma sound_rank: "sound rank guard (Acquire k e # r) \<Longrightarrow> owned (Acquire k e # r) l = Some e' \<Longrightarrow> rank l < rank k"
  by (auto split: if_splits dest: owned_released)

section \<open>The locks are where the threads are\<close>

definition holders :: "('l, 'a, 'op, 'v) thread list \<Rightarrow> 'l \<Rightarrow> (nat \<times> bool) set" where
  "holders ts l = {(j, e). j < length ts \<and> owned (fst (ts ! j)) l = Some e}"

definition single :: "(nat \<times> bool) set \<Rightarrow> bool" where
  "single h \<longleftrightarrow> (\<forall>j k e. (j, True) \<in> h \<longrightarrow> (k, e) \<in> h \<longrightarrow> k = j)"

definition lock_inv :: "('l \<Rightarrow> nat) \<Rightarrow> ('a \<Rightarrow> ('l \<times> bool) list) \<Rightarrow> ('l, 'a, 'op, 's, 'v) machine \<Rightarrow> bool" where
  "lock_inv rank guard c \<longleftrightarrow> held c = holders (threads c) \<and> (\<forall>l. single (held c l))
     \<and> (\<forall>t \<in> set (threads c). sound rank guard (fst t))"

lemma holders_update:
  "i < length ts \<Longrightarrow>
     holders (ts[i := t]) l = {(j, e) \<in> holders ts l. j \<noteq> i} \<union> {(j, e). j = i \<and> owned (fst t) l = Some e}"
  by (auto simp: holders_def nth_list_update split: if_splits)

lemma holders_same:
  assumes "i < length ts" "\<And>l. owned (fst t) l = owned (fst (ts ! i)) l"
  shows "holders (ts[i := t]) = holders ts"
proof
  fix l
  show "holders (ts[i := t]) l = holders ts l" unfolding holders_update [OF assms(1)] assms(2) using assms(1) by (auto simp: holders_def)
qed

lemma lock_inv_thread: "lock_inv rank guard c \<Longrightarrow> i < length (threads c) \<Longrightarrow> sound rank guard (fst (threads c ! i))"
  by (simp add: lock_inv_def)

lemma single_free: "free_for e h \<Longrightarrow> single h \<Longrightarrow> single (insert (i, e) h)"
  by (cases e) (auto simp: single_def free_for_def)

lemma single_subset: "single h \<Longrightarrow> h' \<subseteq> h \<Longrightarrow> single h'"
  unfolding single_def by blast

lemma sounds_update: "\<forall>t \<in> set ts. sound rank guard (fst t) \<Longrightarrow> sound rank guard (fst t) \<Longrightarrow>
    \<forall>t \<in> set (ts[i := t]). sound rank guard (fst t)"
  using set_update_subset_insert [of ts i t] by blast

locale ordered_locks =
  fixes code :: "'op \<Rightarrow> ('l, 'a) instr list"
    and rank :: "'l \<Rightarrow> nat" and top_rank :: nat
    and guard :: "'a \<Rightarrow> ('l \<times> bool) list"
  assumes code_sound: "sound rank guard (code op)"
    and code_closed: "owned (code op) l = None"
    and rank_top: "rank l < top_rank"
begin

lemma lock_inv_start: "lock_inv rank guard (start s ts)"
  by (auto simp: lock_inv_def start_def holders_def single_def fun_eq_iff)

lemma lock_inv_step:
  assumes "lock_inv rank guard c" "mstep code act i c = Some c'"
  shows "lock_inv rank guard c'"
proof -
  have h: "held c = holders (threads c)" and o: "\<And>l. single (holders (threads c) l)"
    and s: "\<forall>t \<in> set (threads c). sound rank guard (fst t)"
    using assms(1) by (auto simp: lock_inv_def)
  show ?thesis using assms(2)
  proof (cases rule: mstep_cases)
    case (call op ops v)
    with h o sounds_update [OF s, of "(code op, ops, v)"] show ?thesis
      by (simp add: lock_inv_def holders_same code_closed code_sound)
  next
    case (acquire l e r ops v)
    from lock_inv_thread [OF assms(1) acquire(1)] acquire(2)
    have r: "owned r l = Some e" "sound rank guard r" by auto
    have "holders ((threads c)[i := (r, ops, v)]) = (holders (threads c))(l := insert (i, e) (holders (threads c) l))"
      using acquire r(1) by (auto simp: fun_eq_iff holders_update) (auto simp: holders_def split: if_splits)
    with acquire h o r(2) sounds_update [OF s, of "(r, ops, v)"] single_free [OF acquire(3)] show ?thesis
      by (simp add: lock_inv_def)
  next
    case (release l e r ops v)
    from lock_inv_thread [OF assms(1) release(1)] release(2)
    have r: "owned r l = None" "sound rank guard r" by auto
    have "holders ((threads c)[i := (r, ops, v)]) = (holders (threads c))(l := holders (threads c) l - {(i, e)})"
      using release r(1) by (auto simp: fun_eq_iff holders_update) (auto simp: holders_def split: if_splits)
    with release h o r(2) sounds_update [OF s, of "(r, ops, v)"] show ?thesis
      by (auto simp: lock_inv_def intro: single_subset [OF o])
  next
    case (act a r ops v s' v')
    with lock_inv_thread [OF assms(1) act(1)] h o sounds_update [OF s, of "(r, ops, v')"] show ?thesis
      by (simp add: lock_inv_def holders_same)
  qed
qed

lemma lock_inv_run: "msteps code act is (start s ts) = Some c \<Longrightarrow> lock_inv rank guard c"
  by (erule msteps_inv [rotated]) (rule lock_inv_start, rule lock_inv_step)

text \<open>Nobody is locked out for ever: as long as a thread has something left to do, some thread can move.\<close>

lemma waiting_moves:
  assumes "lock_inv rank guard c" "i < length (threads c)" "threads c ! i = (Acquire l e # r, ops, v)"
  shows "\<exists>j c'. mstep code act j c = Some c'"
  using assms(2,3)
proof (induction "top_rank - rank l" arbitrary: i l e r ops v rule: less_induct)
  case less
  show ?case
  proof (cases "free_for e (held c l)")
    case True
    with less.prems have "mstep code act i c \<noteq> None" by (simp add: mstep_def)
    then show ?thesis by blast
  next
    case False
    then obtain j e' where "(j, e') \<in> held c l" by (auto simp: free_for_def split: if_splits)
    with assms(1) have j: "j < length (threads c)" "owned (fst (threads c ! j)) l = Some e'"
      by (auto simp: lock_inv_def holders_def)
    obtain cur ops' v' where t: "threads c ! j = (cur, ops', v')" by (cases "threads c ! j")
    with j(2) have "cur \<noteq> []" by auto
    then obtain x r' where cur: "cur = x # r'" by (cases cur) auto
    show ?thesis
    proof (cases x)
      case (Acquire l' e'')
      with t cur lock_inv_thread [OF assms(1) j(1)] j(2) have "rank l < rank l'"
        using sound_rank [of rank guard l' e'' r' l e'] by simp
      then have "top_rank - rank l' < top_rank - rank l" using rank_top [of l] rank_top [of l'] by linarith
      with less.hyps [OF _ j(1)] t cur Acquire show ?thesis by blast
    next
      case (Release l' e'')
      with t cur j(1) have "mstep code act j c \<noteq> None" by (simp add: mstep_def)
      then show ?thesis by blast
    next
      case (Act a)
      with t cur j(1) have "mstep code act j c \<noteq> None" by (simp add: mstep_def split: prod.split)
      then show ?thesis by blast
    qed
  qed
qed

lemma moves:
  assumes "lock_inv rank guard c" "\<not> finished c"
  shows "\<exists>j c'. mstep code act j c = Some c'"
proof -
  from assms(2) obtain i cur ops v where i: "i < length (threads c)" "threads c ! i = (cur, ops, v)" "cur \<noteq> [] \<or> ops \<noteq> []"
    unfolding finished_def by (auto simp: in_set_conv_nth split: prod.splits) 
  show ?thesis
  proof (cases "\<exists>l e r. cur = Acquire l e # r")
    case True
    with i waiting_moves [OF assms(1) i(1)] show ?thesis by blast
  next
    case False
    with i have "mstep code act i c \<noteq> None"
      by (auto simp: mstep_def neq_Nil_conv split: list.split instr.split prod.split)
    then show ?thesis by blast
  qed
qed

lemma completes:
  assumes "lock_inv rank guard c"
  shows "\<exists>is c'. msteps code act is c = Some c' \<and> finished c'"
  using assms
proof (induction "work code c" arbitrary: c rule: less_induct)
  case less
  show ?case
  proof (cases "finished c")
    case True
    then have "msteps code act [] c = Some c \<and> finished c" by simp
    then show ?thesis by blast
  next
    case False
    from moves [OF less.prems this] obtain j c1 where j: "mstep code act j c = Some c1" by blast
    with less.hyps [OF _ lock_inv_step [OF less.prems j]] mstep_work [OF j] obtain "is" c' where
      "msteps code act is c1 = Some c'" "finished c'" by auto
    with j have "msteps code act (j # is) c = Some c' \<and> finished c'" by simp
    then show ?thesis by blast
  qed
qed

text \<open>Two actions whose guards conflict are never next in two threads at once.\<close>

definition conflict :: "'a \<Rightarrow> 'a \<Rightarrow> bool" where
  "conflict a b \<longleftrightarrow> (\<exists>l e. (l, True) \<in> set (guard a) \<and> (l, e) \<in> set (guard b) \<or> (l, e) \<in> set (guard a) \<and> (l, True) \<in> set (guard b))"

end

end
