(* ===== verification/LockSerial.thy ===== *)
theory LockSerial
  imports LockMachine
begin

text \<open>
  Operations that take all their locks before they act (two phases) look as if each ran
  alone: whatever the schedule, the shared state and the results of all threads are those of some serial order of
  the operations that agrees with the order in every thread. An operation counts from the moment
  it has its last lock.
\<close>

section \<open>Operations and their actions\<close>

fun acts :: "('l, 'a) instr list \<Rightarrow> 'a list" where
  "acts [] = []"
| "acts (Act a # r) = a # acts r"
| "acts (x # r) = acts r"

fun ready :: "('l, 'a) instr list \<Rightarrow> bool" where
  "ready [] = True"
| "ready (Acquire l e # r) = False"
| "ready (x # r) = ready r"

fun two_phase :: "('l, 'a) instr list \<Rightarrow> bool" where
  "two_phase [] = True"
| "two_phase (Acquire l e # r) = two_phase r"
| "two_phase (x # r) = ready r"

lemma ready_two_phase: "ready cur \<Longrightarrow> two_phase cur"
  by (induction cur rule: ready.induct) auto

text \<open>The state that actions see: what is shared and what belongs to each thread.\<close>

type_synonym ('s, 'v) whole = "'s \<times> 'v list"

definition do_act :: "('a \<Rightarrow> 's \<times> 'v \<Rightarrow> 's \<times> 'v) \<Rightarrow> nat \<Rightarrow> 'a \<Rightarrow> ('s, 'v) whole \<Rightarrow> ('s, 'v) whole" where
  "do_act act i a z = (case z of (s, vs) \<Rightarrow> (case act a (s, vs ! i) of (s', v') \<Rightarrow> (s', vs[i := v'])))"

definition do_acts :: "('a \<Rightarrow> 's \<times> 'v \<Rightarrow> 's \<times> 'v) \<Rightarrow> nat \<Rightarrow> 'a list \<Rightarrow> ('s, 'v) whole \<Rightarrow> ('s, 'v) whole" where
  "do_acts act i as = fold (do_act act i) as"

text \<open>One operation after the other.\<close>

definition serial :: "('op \<Rightarrow> ('l, 'a) instr list) \<Rightarrow> ('a \<Rightarrow> 's \<times> 'v \<Rightarrow> 's \<times> 'v) \<Rightarrow> (nat \<times> 'op) list \<Rightarrow>
    ('s, 'v) whole \<Rightarrow> ('s, 'v) whole" where
  "serial code act ps = fold (\<lambda>(i, p). do_acts act i (acts (code p))) ps"

text \<open>The operations of one thread.\<close>

definition mine :: "nat \<Rightarrow> (nat \<times> 'op) list \<Rightarrow> 'op list" where
  "mine i ps = map snd (filter (\<lambda>(j, p). j = i) ps)"

lemma mine_simps [simp]: "mine i [] = []" "mine i (ps @ [(j, p)]) = mine i ps @ (if j = i then [p] else [])"
  by (simp_all add: mine_def)

section \<open>Actions that commute\<close>

definition commutes :: "('a \<Rightarrow> 's \<times> 'v \<Rightarrow> 's \<times> 'v) \<Rightarrow> 'a \<Rightarrow> 'a \<Rightarrow> bool" where
  "commutes act a b \<longleftrightarrow> (\<forall>s v w.
     (case act a (s, v) of (s1, v1) \<Rightarrow> case act b (s1, w) of (s2, w2) \<Rightarrow> (s2, v1, w2)) =
     (case act b (s, w) of (s1, w1) \<Rightarrow> case act a (s1, v) of (s2, v2) \<Rightarrow> (s2, v2, w1)))"

lemma do_act_commutes:
  assumes "commutes act a b" "i \<noteq> j"
  shows "do_act act i a (do_act act j b z) = do_act act j b (do_act act i a z)"
proof -
  obtain s vs where z: "z = (s, vs)" by (cases z)
  from assms(1) have "(case act a (s, vs ! i) of (s1, v1) \<Rightarrow> case act b (s1, vs ! j) of (s2, w2) \<Rightarrow> (s2, v1, w2)) =
     (case act b (s, vs ! j) of (s1, w1) \<Rightarrow> case act a (s1, vs ! i) of (s2, v2) \<Rightarrow> (s2, v2, w1))"
    by (simp add: commutes_def)
  with assms(2) show ?thesis
    by (auto simp: z do_act_def list_update_swap split: prod.splits)
qed

definition apart :: "('a \<Rightarrow> 's \<times> 'v \<Rightarrow> 's \<times> 'v) \<Rightarrow> 'a list \<Rightarrow> 'a list \<Rightarrow> bool" where
  "apart act as bs \<longleftrightarrow> (\<forall>a \<in> set as. \<forall>b \<in> set bs. commutes act a b)"

lemma do_acts_simps [simp]:
  "do_acts act i [] z = z" "do_acts act i (a # as) z = do_acts act i as (do_act act i a z)"
  by (simp_all add: do_acts_def)

lemma do_acts_past_one:
  "\<forall>b \<in> set bs. commutes act a b \<Longrightarrow> i \<noteq> j \<Longrightarrow>
     do_acts act j bs (do_act act i a z) = do_act act i a (do_acts act j bs z)"
  by (induction bs arbitrary: z) (simp_all add: do_act_commutes [symmetric])

lemma do_acts_past:
  "apart act as bs \<Longrightarrow> i \<noteq> j \<Longrightarrow> do_acts act j bs (do_acts act i as z) = do_acts act i as (do_acts act j bs z)"
  by (induction as arbitrary: z) (simp_all add: apart_def do_acts_past_one)

text \<open>A block of actions for each thread, in the order of the threads.\<close>

definition blocks :: "('a \<Rightarrow> 's \<times> 'v \<Rightarrow> 's \<times> 'v) \<Rightarrow> (nat \<Rightarrow> 'a list) \<Rightarrow> nat list \<Rightarrow> ('s, 'v) whole \<Rightarrow> ('s, 'v) whole" where
  "blocks act P is = fold (\<lambda>i. do_acts act i (P i)) is"

lemma blocks_simps [simp]:
  "blocks act P [] z = z" "blocks act P (i # is) z = blocks act P is (do_acts act i (P i) z)"
  by (simp_all add: blocks_def)

lemma blocks_cong: "(\<And>i. i \<in> set is \<Longrightarrow> P i = Q i) \<Longrightarrow> blocks act P is z = blocks act Q is z"
  by (induction "is" arbitrary: z) simp_all

lemma blocks_past:
  "\<forall>j \<in> set is. j \<noteq> k \<and> apart act as (P j) \<Longrightarrow> blocks act P is (do_acts act k as z) = do_acts act k as (blocks act P is z)"
proof (induction "is" arbitrary: z)
  case (Cons j js)
  with do_acts_past [of act as "P j" k j z] show ?case by auto
qed simp

text \<open>The next action of a thread can as well come first, and a new block last.\<close>

lemma blocks_first:
  "distinct is \<Longrightarrow> k \<in> set is \<Longrightarrow> P k = a # as \<Longrightarrow> \<forall>j \<in> set is. j \<noteq> k \<longrightarrow> apart act [a] (P j) \<Longrightarrow>
     blocks act (P(k := as)) is (do_act act k a z) = blocks act P is z"
proof (induction "is" arbitrary: z)
  case (Cons j js)
  show ?case
  proof (cases "j = k")
    case True
    with Cons.prems have "blocks act (P(k := as)) js z' = blocks act P js z'" for z'
      by (intro blocks_cong) auto
    with True Cons.prems show ?thesis by (simp del: fun_upd_apply add: fun_upd_same)
  next
    case False
    with Cons show ?thesis using do_acts_past_one [of "P j" act a k j z] by (simp add: apart_def)
  qed
qed simp

lemma blocks_last:
  "distinct is \<Longrightarrow> k \<in> set is \<Longrightarrow> P k = [] \<Longrightarrow> \<forall>j \<in> set is. j \<noteq> k \<longrightarrow> apart act as (P j) \<Longrightarrow>
     blocks act (P(k := as)) is z = do_acts act k as (blocks act P is z)"
proof (induction "is" arbitrary: z)
  case (Cons j js)
  show ?case
  proof (cases "j = k")
    case True
    with Cons.prems have "blocks act (P(k := as)) js z' = blocks act P js z'" for z'
      by (intro blocks_cong) auto
    moreover have "\<forall>j \<in> set js. j \<noteq> k \<and> apart act as (P j)" using True Cons.prems by auto
    ultimately show ?thesis using True Cons.prems(3) by (simp del: fun_upd_apply add: fun_upd_same blocks_past)
  next
    case False
    with Cons show ?thesis by simp
  qed
qed simp

section \<open>What is still to be done\<close>

definition pend :: "('l, 'a, 'op, 'v) thread \<Rightarrow> 'a list" where
  "pend t = (if ready (fst t) then acts (fst t) else [])"

definition now_of :: "('l, 'a, 'op, 's, 'v) machine \<Rightarrow> ('s, 'v) whole" where
  "now_of c = (shared c, map (\<lambda>t. snd (snd t)) (threads c))"

definition flush :: "('a \<Rightarrow> 's \<times> 'v \<Rightarrow> 's \<times> 'v) \<Rightarrow> ('l, 'a, 'op, 's, 'v) machine \<Rightarrow> ('s, 'v) whole" where
  "flush act c = blocks act (\<lambda>i. pend (threads c ! i)) [0..<length (threads c)] (now_of c)"

lemma pend_goto: "i < length ts \<Longrightarrow> (\<lambda>j. pend (ts[i := t] ! j)) = (\<lambda>j. pend (ts ! j))(i := pend t)"
  by (auto simp: fun_eq_iff nth_list_update)

lemma flush_idle:
  assumes "\<And>t. t \<in> set (threads c) \<Longrightarrow> fst t = []"
  shows "flush act c = now_of c"
proof -
  have "blocks act (\<lambda>i. pend (threads c ! i)) is z = z" if "set is \<subseteq> {..<length (threads c)}" for "is" z
    using that assms by (induction "is" arbitrary: z) (simp_all add: pend_def)
  then show ?thesis by (simp add: flush_def atLeast0LessThan)
qed

text \<open>While an operation acts, it owns what its actions are guarded by.\<close>

lemma ready_owned:
  "sound rank guard cur \<Longrightarrow> ready cur \<Longrightarrow> a \<in> set (acts cur) \<Longrightarrow> (l, e) \<in> set (guard a) \<Longrightarrow>
     owned cur l = Some True \<or> \<not> e \<and> owned cur l = Some False"
  by (induction cur rule: ready.induct) auto

context ordered_locks
begin

lemma pend_no_conflict:
  assumes "lock_inv rank guard c" "i < length (threads c)" "j < length (threads c)" "i \<noteq> j"
    and "a \<in> set (pend (threads c ! i))" "b \<in> set (pend (threads c ! j))"
  shows "\<not> conflict a b"
proof
  have o: "\<exists>e'. (k, e') \<in> held c l \<and> (e \<longrightarrow> e')"
    if "k < length (threads c)" "d \<in> set (pend (threads c ! k))" "(l, e) \<in> set (guard d)" for k d l e
    using ready_owned [of rank guard "fst (threads c ! k)" d l e] that lock_inv_thread [OF assms(1) that(1)] assms(1)
    by (auto simp: pend_def lock_inv_def holders_def split: if_splits)
  have s: "single (held c l)" for l using assms(1) by (auto simp: lock_inv_def)
  assume "conflict a b"
  then show False
    unfolding conflict_def using o [OF assms(2,5)] o [OF assms(3,6)] s assms(4) unfolding single_def by metis
qed

end


lemma now_of_update:
  assumes "i < length (threads c)" "threads c' = (threads c)[i := t]" "shared c' = shared c"
    and "snd (snd t) = snd (snd (threads c ! i))"
  shows "now_of c' = now_of c"
  using assms by (simp add: now_of_def map_update list_update_same_conv)

lemma flush_same:
  assumes "i < length (threads c)" "threads c' = (threads c)[i := t]" "now_of c' = now_of c"
    and "pend t = pend (threads c ! i)"
  shows "flush act c' = flush act c"
  using assms by (simp add: flush_def pend_goto fun_upd_idem)

section \<open>Every run is a serial one\<close>

text \<open>
  A thread has the operations of its program behind it, at hand and before it; the one
  at hand counts as done once it has its locks.
\<close>

definition on_track :: "('op \<Rightarrow> ('l, 'a) instr list) \<Rightarrow> 'op list \<Rightarrow> ('l, 'a, 'op, 'v) thread \<Rightarrow> 'op list \<Rightarrow> bool" where
  "on_track code counted t prog \<longleftrightarrow> (case t of (cur, todo, v) \<Rightarrow>
     two_phase cur \<and> (\<forall>a \<in> set (acts cur). \<exists>p \<in> set prog. a \<in> set (acts (code p)))
     \<and> (if ready cur then counted @ todo = prog else \<exists>p. acts cur = acts (code p) \<and> counted @ p # todo = prog))"

lemma on_track_done: "on_track code counted ([], [], v) prog \<Longrightarrow> counted = prog"
  by (simp add: on_track_def)

lemma on_track_pend:
  "on_track code counted t prog \<Longrightarrow> a \<in> set (pend t) \<Longrightarrow> \<exists>p \<in> set prog. a \<in> set (acts (code p))"
  by (cases t) (auto simp: on_track_def pend_def split: if_splits)

definition tracked :: "('op \<Rightarrow> ('l, 'a) instr list) \<Rightarrow> 'op list list \<Rightarrow> (nat \<times> 'op) list \<Rightarrow> ('l, 'a, 'op, 's, 'v) machine \<Rightarrow> bool" where
  "tracked code progs ps c \<longleftrightarrow> length (threads c) = length progs \<and> (\<forall>(i, p) \<in> set ps. i < length progs)
     \<and> (\<forall>i < length progs. on_track code (mine i ps) (threads c ! i) (progs ! i))"

lemma mine_append [simp]: "mine i (ps @ qs) = mine i ps @ mine i qs"
  by (simp add: mine_def)

lemma mine_Pair [simp]: "mine i (map (Pair j) ps) = (if i = j then ps else [])"
  by (induction ps) (auto simp: mine_def)

text \<open>One thread has moved, and perhaps its operation is now counted.\<close>

lemma tracked_update:
  assumes "tracked code progs ps c" "i < length (threads c)" "threads c' = (threads c)[i := t]"
    and "on_track code (mine i ps @ ps') t (progs ! i)"
  shows "tracked code progs (ps @ map (Pair i) ps') c'"
  using assms by (auto simp: tracked_def nth_list_update)

definition logged :: "('op \<Rightarrow> ('l, 'a) instr list) \<Rightarrow> ('a \<Rightarrow> 's \<times> 'v \<Rightarrow> 's \<times> 'v) \<Rightarrow> 'op list list \<Rightarrow> ('s, 'v) whole \<Rightarrow>
    (nat \<times> 'op) list \<Rightarrow> ('l, 'a, 'op, 's, 'v) machine \<Rightarrow> bool" where
  "logged code act progs z0 ps c \<longleftrightarrow> tracked code progs ps c \<and> flush act c = serial code act ps z0"

locale two_phase_locks = ordered_locks code rank top_rank guard
  for code :: "'op \<Rightarrow> ('l, 'a) instr list" and rank :: "'l \<Rightarrow> nat" and top_rank :: nat and guard :: "'a \<Rightarrow> ('l \<times> bool) list" +
  fixes act :: "'a \<Rightarrow> 's \<times> 'v \<Rightarrow> 's \<times> 'v"
    and may :: "nat \<Rightarrow> 'op \<Rightarrow> bool"
  assumes code_two_phase: "two_phase (code p)"
    and code_commutes: "may i p \<Longrightarrow> may j q \<Longrightarrow> i \<noteq> j \<Longrightarrow> a \<in> set (acts (code p)) \<Longrightarrow> b \<in> set (acts (code q)) \<Longrightarrow>
      \<not> conflict a b \<Longrightarrow> commutes act a b"
begin

definition permitted :: "'op list list \<Rightarrow> bool" where
  "permitted progs \<longleftrightarrow> (\<forall>i < length progs. \<forall>p \<in> set (progs ! i). may i p)"

lemma pend_apart:
  assumes "permitted progs" "tracked code progs ps c" "lock_inv rank guard c"
    and "i < length progs" "j < length progs" "i \<noteq> j"
  shows "apart act (pend (threads c ! i)) (pend (threads c ! j))"
  unfolding apart_def
proof (intro ballI)
  have o: "\<exists>p. may k p \<and> a \<in> set (acts (code p))" if "k < length progs" "a \<in> set (pend (threads c ! k))" for k a
    using that assms(1,2) on_track_pend [OF _ that(2)] unfolding permitted_def tracked_def by blast
  fix a b
  assume a: "a \<in> set (pend (threads c ! i))" "b \<in> set (pend (threads c ! j))"
  from o [OF assms(4) a(1)] o [OF assms(5) a(2)] obtain p q where
    "may i p" "a \<in> set (acts (code p))" "may j q" "b \<in> set (acts (code q))" by blast
  moreover have "\<not> conflict a b"
    using assms(2-6) a by (intro pend_no_conflict [OF assms(3), of i j]) (auto simp: tracked_def)
  ultimately show "commutes act a b" using assms(6) code_commutes by blast
qed

text \<open>An operation has its locks from now on: its actions can as well come last of all.\<close>

lemma flush_begin:
  assumes "permitted progs" "tracked code progs ps c'" "lock_inv rank guard c'" "i < length (threads c)"
    and "threads c' = (threads c)[i := t]" "now_of c' = now_of c" "pend (threads c ! i) = []"
  shows "flush act c' = do_acts act i (pend t) (flush act c)"
proof -
  have n: "length (threads c) = length progs" using assms(2,5) by (simp add: tracked_def)
  have "\<forall>j \<in> set [0..<length (threads c)]. j \<noteq> i \<longrightarrow> apart act (pend t) (pend (threads c ! j))"
    using pend_apart [OF assms(1-3), of i] assms(4,5) n by auto
  from blocks_last [OF _ _ _ this] assms(4-7) show ?thesis
    by (simp add: flush_def pend_goto del: fun_upd_apply)
qed

text \<open>The action of a thread that is about to act can as well come first of all.\<close>

lemma flush_act:
  assumes "permitted progs" "tracked code progs ps c" "lock_inv rank guard c" "i < length (threads c)"
    and "threads c ! i = (Act a # r, ops, v)" "ready r" "act a (shared c, v) = (s', v')"
  shows "flush act (goto i (r, ops, v') (c\<lparr>shared := s'\<rparr>)) = flush act c"
proof -
  have n: "length (threads c) = length progs" using assms(2) by (simp add: tracked_def)
  have p: "pend (threads c ! i) = a # acts r" using assms(5,6) by (simp add: pend_def)
  have "\<forall>j \<in> set [0..<length (threads c)]. j \<noteq> i \<longrightarrow> apart act [a] (pend (threads c ! j))"
    using pend_apart [OF assms(1-3), of i] assms(4) n p by (auto simp: apart_def)
  moreover have "now_of (goto i (r, ops, v') (c\<lparr>shared := s'\<rparr>)) = do_act act i a (now_of c)"
    using assms(4,5,7) by (simp add: now_of_def do_act_def map_update)
  ultimately show ?thesis using blocks_first [of "[0..<length (threads c)]" i "\<lambda>i. pend (threads c ! i)" a "acts r"] assms(4,6) p
    by (simp add: flush_def pend_goto pend_def [of "(r, ops, v')"] del: fun_upd_apply)
qed

lemma logged_begin:
  assumes "permitted progs" "logged code act progs z0 ps c" "lock_inv rank guard c'" "i < length (threads c)"
    and "threads c' = (threads c)[i := t]" "now_of c' = now_of c" "pend (threads c ! i) = []"
    and "t = (cur, todo, v)" "two_phase cur" "acts cur = acts (code p)" "mine i ps @ p # todo = progs ! i"
  shows "\<exists>ps'. logged code act progs z0 ps' c'"
proof -
  let ?ps' = "if ready cur then [p] else []"
  have "on_track code (mine i ps @ ?ps') t (progs ! i)"
    using assms(8-10) unfolding assms(11) [symmetric] on_track_def by auto
  with tracked_update [OF _ assms(4,5), of code progs ps ?ps'] assms(2) have t: "tracked code progs (ps @ map (Pair i) ?ps') c'"
    by (simp only: logged_def)
  from flush_begin [OF assms(1) t assms(3-7)] assms(2,8,10)
  have "flush act c' = serial code act (ps @ map (Pair i) ?ps') z0"
    by (simp add: logged_def serial_def pend_def)
  with t show ?thesis unfolding logged_def by blast
qed

lemma logged_on:
  assumes "logged code act progs z0 ps c" "i < length (threads c)"
    and "threads c' = (threads c)[i := t]" "flush act c' = flush act c" "on_track code (mine i ps) t (progs ! i)"
  shows "\<exists>ps'. logged code act progs z0 ps' c'"
  using tracked_update [OF _ assms(2,3), of code progs ps "[]"] assms(1,4,5) unfolding logged_def by auto

lemma logged_step:
  assumes "permitted progs" "logged code act progs z0 ps c" "lock_inv rank guard c" "mstep code act i c = Some c'"
  shows "\<exists>ps'. logged code act progs z0 ps' c'"
proof -
  have i': "lock_inv rank guard c'" by (rule lock_inv_step [OF assms(3,4)])
  have tr: "tracked code progs ps c" using assms(2) by (simp add: logged_def)
  have on: "on_track code (mine i ps) (threads c ! i) (progs ! i)" if "i < length (threads c)"
    using tr that by (simp add: tracked_def)
  show ?thesis using assms(4)
  proof (cases rule: mstep_cases)
    case (call op ops v)
    show ?thesis
      by (rule logged_begin [OF assms(1,2) i' call(1), of "(code op, ops, v)"])
         (use call on code_two_phase [of op] in \<open>auto simp: on_track_def pend_def intro: now_of_update\<close>)
  next
    case (acquire l e r ops v)
    with on obtain p where "acts r = acts (code p)" "mine i ps @ p # ops = progs ! i" "two_phase r" by (auto simp: on_track_def)
    with acquire show ?thesis
      by (intro logged_begin [OF assms(1,2) i' acquire(1), of "(r, ops, v)" r ops v p]) (auto simp: pend_def intro: now_of_update)
  next
    case (release l e r ops v)
    with on have o: "on_track code (mine i ps) (r, ops, v) (progs ! i)"
      by (auto simp: on_track_def ready_two_phase)
    from release have "flush act c' = flush act c"
      by (intro flush_same [OF release(1), of c' "(r, ops, v)"]) (auto simp: pend_def intro: now_of_update)
    with logged_on [OF assms(2) release(1) _ _ o] release show ?thesis by simp
  next
    case (act a r ops v s' v')
    with on have r: "ready r" by (auto simp: on_track_def)
    with act on have o: "on_track code (mine i ps) (r, ops, v') (progs ! i)"
      by (auto simp: on_track_def ready_two_phase)
    from flush_act [OF assms(1) tr assms(3) act(1,2) r act(3)] logged_on [OF assms(2) act(1) _ _ o] act show ?thesis by simp
  qed
qed

lemma logged_start: "logged code act (map fst ts) (s, map snd ts) [] (start s ts)"
proof -
  have "flush act c = now_of c" if "c = start s ts" for c
    by (rule flush_idle) (auto simp: that start_def)
  then show ?thesis
    by (auto simp: logged_def tracked_def on_track_def now_of_def start_def serial_def comp_def split: prod.split)
qed

lemma logged_run:
  assumes "permitted (map fst ts)" "msteps code act is (start s ts) = Some c"
  shows "\<exists>ps. logged code act (map fst ts) (s, map snd ts) ps c"
proof -
  let ?I = "\<lambda>c. lock_inv rank guard c \<and> (\<exists>ps. logged code act (map fst ts) (s, map snd ts) ps c)"
  have "?I c"
  proof (rule msteps_inv [where I = ?I, OF _ assms(2)])
    show "?I c2" if "?I c1" "mstep code act i c1 = Some c2" for i c1 c2
      using logged_step [OF assms(1)] lock_inv_step that by blast
    show "?I (start s ts)" by (intro conjI exI) (rule lock_inv_start, rule logged_start)
  qed
  then show ?thesis by blast
qed

lemma serializable:
  assumes "permitted (map fst ts)" "msteps code act is (start s ts) = Some c" "finished c"
  obtains ps where "\<And>i. i < length ts \<Longrightarrow> mine i ps = fst (ts ! i)" "\<And>i p. (i, p) \<in> set ps \<Longrightarrow> i < length ts"
    "serial code act ps (s, map snd ts) = (shared c, map (\<lambda>t. snd (snd t)) (threads c))"
proof -
  from logged_run [OF assms(1,2)] obtain ps where t: "tracked code (map fst ts) ps c"
    and f: "flush act c = serial code act ps (s, map snd ts)" by (auto simp: logged_def)
  have d: "fst t = [] \<and> fst (snd t) = []" if "t \<in> set (threads c)" for t
    using assms(3) that by (auto simp: finished_def)
  have n: "length (threads c) = length ts" using t by (simp add: tracked_def)
  show ?thesis
  proof (rule that)
    fix i
    assume i: "i < length ts"
    with n have "threads c ! i \<in> set (threads c)" by simp
    from d [OF this] obtain v where "threads c ! i = ([], [], v)" by (cases "threads c ! i") auto
    moreover have "on_track code (mine i ps) (threads c ! i) (fst (ts ! i))" using i t by (simp add: tracked_def)
    ultimately show "mine i ps = fst (ts ! i)" by (simp add: on_track_done)
  next
    show "i < length ts" if "(i, p) \<in> set ps" for i p using t that by (auto simp: tracked_def)
    show "serial code act ps (s, map snd ts) = (shared c, map (\<lambda>t. snd (snd t)) (threads c))"
      using f flush_idle [of c act] d by (simp add: now_of_def)
  qed
qed

end

end
