(* ===== verification/DnsLocks.thy ===== *)
theory DnsLocks
  imports LockSerial DnsServer
begin

text \<open>
  The calls of the dnsserver's threads under their locks: the network threads book, cancel, fetch
  what is waiting and look up routes, the loader thread (thread 0) reloads the table into \<open>_tmpData\<close>
  without a lock, exchanges the tables under \<open>_rwlock\<close> and pushes changes under \<open>booklock\<close> and \<open>pushlock\<close>. Each
  call is the list of its lock operations and of its accesses to the shared state. The lemmas show that no
  schedule of the threads ends in a deadlock, that every schedule is a serial order of the calls
  as \<open>DnsSubscribe\<close> and \<open>DnsRoute\<close> define them, and that no reader ever sees half of a table.
\<close>

section \<open>State\<close>

datatype dns_lock = BookLock | PushLock | RwLock

record dns_shared =
  sh_subs :: SubscribeList
  sh_route :: Route

text \<open>What the calls of a thread have returned, in order.\<close>

datatype dns_result =
    Hosts i32 i32 "u64 list"
  | News "(cfd \<times> u64 list) list"
  | Loaded int
  | Changes "u64 list"

text \<open>A thread's own data: the variable \<open>t\<close> of \<open>swap\<close>, and what it got.\<close>

record dns_local =
  kept :: "(u64 \<times> u64 list) list"
  results :: "dns_result list"

section \<open>Accesses\<close>

datatype dns_access =
    BookInsert u64 cfd
  | BookErase u64 cfd
  | PushChanged u64
  | TakeWaiting "cfd list"
  | LookUp i32 i32
  | CheckVersion "string list option"
  | ClearTmp
  | InsertRow route_row
  | LoadEnds int
  | KeepData
  | TakeTmp
  | GiveData
  | ReadChanges "(string \<times> string) list option"

definition got :: "dns_result \<Rightarrow> dns_local \<Rightarrow> dns_local" where
  "got r v = v\<lparr>results := results v @ [r]\<rparr>"

fun do_access :: "dns_access \<Rightarrow> dns_shared \<times> dns_local \<Rightarrow> dns_shared \<times> dns_local" where
  "do_access (BookInsert m fd) (s, v) = (s\<lparr>sh_subs := sl_subscribe m fd (sh_subs s)\<rparr>, v)"
| "do_access (BookErase m fd) (s, v) = (s\<lparr>sh_subs := sl_unsubscribe m fd (sh_subs s)\<rparr>, v)"
| "do_access (PushChanged m) (s, v) = (s\<lparr>sh_subs := sl_push [m] (sh_subs s)\<rparr>, v)"
| "do_access (TakeWaiting fds) (s, v) =
    (case sl_fetchPush fds (sh_subs s) of (sl', news) \<Rightarrow> (s\<lparr>sh_subs := sl'\<rparr>, got (News news) v))"
| "do_access (LookUp m c) (s, v) = (s, got (Hosts m c (Route_getHosts m c (sh_route s))) v)"
| "do_access (CheckVersion vers) (s, v) =
    (case Route_loadVersion vers (sh_route s) of (rt', r) \<Rightarrow> (s\<lparr>sh_route := rt'\<rparr>, got (Loaded r) v))"
| "do_access ClearTmp (s, v) = (s\<lparr>sh_route := (sh_route s)\<lparr>rt_tmp := []\<rparr>\<rparr>, v)"
| "do_access (InsertRow r) (s, v) = (s\<lparr>sh_route := (sh_route s)\<lparr>rt_tmp := insert_row r (rt_tmp (sh_route s))\<rparr>\<rparr>, v)"
| "do_access (LoadEnds n) (s, v) = (s, got (Loaded n) v)"
| "do_access KeepData (s, v) = (s, v\<lparr>kept := rt_data (sh_route s)\<rparr>)"
| "do_access TakeTmp (s, v) = (s\<lparr>sh_route := (sh_route s)\<lparr>rt_data := rt_tmp (sh_route s)\<rparr>\<rparr>, v)"
| "do_access GiveData (s, v) = (s\<lparr>sh_route := (sh_route s)\<lparr>rt_tmp := kept v\<rparr>\<rparr>, v)"
| "do_access (ReadChanges chgs) (s, v) =
    (case Route_loadChanges chgs (sh_route s) of (rt', cs) \<Rightarrow> (s\<lparr>sh_route := rt'\<rparr>, got (Changes cs) v))"

section \<open>Calls\<close>

datatype dns_call =
    Subscribe u64 cfd
  | Unsubscribe u64 cfd
  | PushAll "u64 list"
  | FetchPush "cfd list"
  | GetHosts i32 i32
  | LoadVersion "string list option"
  | Reload "route_row list option"
  | SwapTables
  | LoadChanges "(string \<times> string) list option"

definition subscribe_code :: "u64 \<Rightarrow> cfd \<Rightarrow> (dns_lock, dns_access) instr list" where
  "subscribe_code m fd = [Acquire BookLock True, Act (BookInsert m fd), Release BookLock True]"

definition unsubscribe_code :: "u64 \<Rightarrow> cfd \<Rightarrow> (dns_lock, dns_access) instr list" where
  "unsubscribe_code m fd = [Acquire BookLock True, Act (BookErase m fd), Release BookLock True]"

definition push_code :: "u64 list \<Rightarrow> (dns_lock, dns_access) instr list" where
  "push_code changes = [Acquire BookLock True, Acquire PushLock True]
     @ map (\<lambda>m. Act (PushChanged m)) changes @ [Release PushLock True, Release BookLock True]"

definition fetchPush_code :: "cfd list \<Rightarrow> (dns_lock, dns_access) instr list" where
  "fetchPush_code fds = [Acquire PushLock True, Act (TakeWaiting fds), Release PushLock True]"

definition getHosts_code :: "i32 \<Rightarrow> i32 \<Rightarrow> (dns_lock, dns_access) instr list" where
  "getHosts_code m c = [Acquire RwLock False, Act (LookUp m c), Release RwLock False]"

definition reload_code :: "route_row list option \<Rightarrow> (dns_lock, dns_access) instr list" where
  "reload_code ans = Act ClearTmp # (case ans of
       None \<Rightarrow> [Act (LoadEnds (- 1))]
     | Some rows \<Rightarrow> map (\<lambda>r. Act (InsertRow r)) rows @ [Act (LoadEnds 0)])"

definition swap_code :: "(dns_lock, dns_access) instr list" where
  "swap_code = [Acquire RwLock True, Act KeepData, Act TakeTmp, Act GiveData, Release RwLock True]"

fun dns_code :: "dns_call \<Rightarrow> (dns_lock, dns_access) instr list" where
  "dns_code (Subscribe m fd) = subscribe_code m fd"
| "dns_code (Unsubscribe m fd) = unsubscribe_code m fd"
| "dns_code (PushAll changes) = push_code changes"
| "dns_code (FetchPush fds) = fetchPush_code fds"
| "dns_code (GetHosts m c) = getHosts_code m c"
| "dns_code (LoadVersion vers) = [Act (CheckVersion vers)]"
| "dns_code (Reload ans) = reload_code ans"
| "dns_code SwapTables = swap_code"
| "dns_code (LoadChanges chgs) = [Act (ReadChanges chgs)]"

text \<open>The threads before their first call.\<close>

definition dns_threads :: "dns_shared \<Rightarrow> dns_call list list \<Rightarrow> (dns_lock, dns_access, dns_call, dns_shared, dns_local) machine" where
  "dns_threads s progs = start s (map (\<lambda>p. (p, \<lparr> kept = [], results = [] \<rparr>)) progs)"

definition results_of :: "(dns_lock, dns_access, dns_call, dns_shared, dns_local) machine \<Rightarrow> dns_result list list" where
  "results_of c = map (\<lambda>t. results (snd (snd t))) (threads c)"

text \<open>A call as one step: the operations of the components.\<close>

fun dns_do :: "dns_call \<Rightarrow> dns_shared \<times> dns_result list \<Rightarrow> dns_shared \<times> dns_result list" where
  "dns_do (Subscribe m fd) (s, os) = (s\<lparr>sh_subs := sl_subscribe m fd (sh_subs s)\<rparr>, os)"
| "dns_do (Unsubscribe m fd) (s, os) = (s\<lparr>sh_subs := sl_unsubscribe m fd (sh_subs s)\<rparr>, os)"
| "dns_do (PushAll changes) (s, os) = (s\<lparr>sh_subs := sl_push changes (sh_subs s)\<rparr>, os)"
| "dns_do (FetchPush fds) (s, os) =
    (case sl_fetchPush fds (sh_subs s) of (sl', news) \<Rightarrow> (s\<lparr>sh_subs := sl'\<rparr>, os @ [News news]))"
| "dns_do (GetHosts m c) (s, os) = (s, os @ [Hosts m c (Route_getHosts m c (sh_route s))])"
| "dns_do (LoadVersion vers) (s, os) =
    (case Route_loadVersion vers (sh_route s) of (rt', r) \<Rightarrow> (s\<lparr>sh_route := rt'\<rparr>, os @ [Loaded r]))"
| "dns_do (Reload ans) (s, os) =
    (case Route_reload ans (sh_route s) of (rt', r) \<Rightarrow> (s\<lparr>sh_route := rt'\<rparr>, os @ [Loaded r]))"
| "dns_do SwapTables (s, os) = (s\<lparr>sh_route := Route_swap (sh_route s)\<rparr>, os)"
| "dns_do (LoadChanges chgs) (s, os) =
    (case Route_loadChanges chgs (sh_route s) of (rt', cs) \<Rightarrow> (s\<lparr>sh_route := rt'\<rparr>, os @ [Changes cs]))"

section \<open>The locks of the calls\<close>

text \<open>The order in which locks nest, and the lock that each access needs; the loader's own table needs none.\<close>

fun lock_rank :: "dns_lock \<Rightarrow> nat" where
  "lock_rank BookLock = 0" | "lock_rank PushLock = 1" | "lock_rank RwLock = 2"

fun access_guard :: "dns_access \<Rightarrow> (dns_lock \<times> bool) list" where
  "access_guard (BookInsert m fd) = [(BookLock, True)]"
| "access_guard (BookErase m fd) = [(BookLock, True)]"
| "access_guard (PushChanged m) = [(BookLock, True), (PushLock, True)]"
| "access_guard (TakeWaiting fds) = [(PushLock, True)]"
| "access_guard (LookUp m c) = [(RwLock, False)]"
| "access_guard KeepData = [(RwLock, True)]"
| "access_guard TakeTmp = [(RwLock, True)]"
| "access_guard GiveData = [(RwLock, True)]"
| "access_guard a = []"

lemma straight_code:
  "owned (map (\<lambda>x. Act (f x)) xs @ r) l = owned r l"
  "released (map (\<lambda>x. Act (f x)) xs @ r) = released r"
  "ready (map (\<lambda>x. Act (f x)) xs @ r) = ready r"
  "acts (map (\<lambda>x. Act (f x)) xs @ r) = map f xs @ acts r"
  by (induction xs) auto

lemma straight_sound:
  "sound rank guard (map (\<lambda>x. Act (f x)) xs @ r) \<longleftrightarrow>
     (\<forall>x \<in> set xs. \<forall>(l, e) \<in> set (guard (f x)). owned r l = Some True \<or> \<not> e \<and> owned r l = Some False) \<and> sound rank guard r"
  by (induction xs) (auto simp: straight_code)

lemmas code_defs = subscribe_code_def unsubscribe_code_def push_code_def fetchPush_code_def getHosts_code_def
  reload_code_def swap_code_def

text \<open>The tables are loaded and exchanged by thread 0 alone.\<close>

definition loader_only :: "nat \<Rightarrow> dns_call \<Rightarrow> bool" where
  "loader_only i p \<longleftrightarrow> (case p of LoadVersion _ \<Rightarrow> i = 0 | Reload _ \<Rightarrow> i = 0 | SwapTables \<Rightarrow> i = 0 | LoadChanges _ \<Rightarrow> i = 0 | _ \<Rightarrow> True)"

interpretation dl: ordered_locks dns_code lock_rank 3 access_guard
proof
  show "sound lock_rank access_guard (dns_code op)" for op
    by (cases op) (auto simp: code_defs straight_sound straight_code split: option.split)
  show "owned (dns_code op) l = None" for op l
    by (cases op; cases l) (auto simp: code_defs straight_code split: option.split)
  show "lock_rank l < 3" for l by (cases l) simp_all
qed

section \<open>Accesses that commute\<close>

fun loader_access :: "dns_access \<Rightarrow> bool" where
  "loader_access (BookInsert m fd) = False"
| "loader_access (BookErase m fd) = False"
| "loader_access (PushChanged m) = False"
| "loader_access (TakeWaiting fds) = False"
| "loader_access (LookUp m c) = False"
| "loader_access a = True"

lemma loader_alone: "loader_only i p \<Longrightarrow> a \<in> set (acts (dns_code p)) \<Longrightarrow> loader_access a \<Longrightarrow> i = 0"
  by (cases p) (auto simp: loader_only_def code_defs straight_code)

lemma commutes_sym: "commutes act a b \<Longrightarrow> commutes act b a"
  unfolding commutes_def by (auto split: prod.splits) (metis (no_types, lifting) prod.inject)+

text \<open>An access of the loader changes nothing of what the others use, unless it is under the lock of the table.\<close>

lemma Route_reads [simp]:
  "Route_getHosts m c (rt\<lparr>rt_tmp := T\<rparr>) = Route_getHosts m c rt"
  "rt_data (fst (Route_loadVersion vers rt)) = rt_data rt"
  "rt_data (fst (Route_loadChanges chgs rt)) = rt_data rt"
  by (auto simp: Route_getHosts_def Route_loadVersion_def Route_loadChanges_def Let_def split: option.split list.split)

lemma Route_reads' [simp]:
  "Route_loadVersion vers rt = (rt', r) \<Longrightarrow> Route_getHosts m c rt' = Route_getHosts m c rt"
  "Route_loadChanges chgs rt = (rt', cs) \<Longrightarrow> Route_getHosts m c rt' = Route_getHosts m c rt"
  using Route_reads(2) [of vers rt] Route_reads(3) [of chgs rt] by (simp_all add: Route_getHosts_def)

lemma sl_apart [simp]:
  "sl_fetchPush fds (sl_subscribe m fd sl) = (sl_subscribe m fd (fst (sl_fetchPush fds sl)), snd (sl_fetchPush fds sl))"
  "sl_fetchPush fds (sl_unsubscribe m fd sl) = (sl_unsubscribe m fd (fst (sl_fetchPush fds sl)), snd (sl_fetchPush fds sl))"
  by (auto simp: sl_fetchPush_def sl_subscribe_def sl_unsubscribe_def Let_def split: option.split)

lemma access_commutes:
  assumes "\<not> dl.conflict a b" "loader_access a \<longrightarrow> \<not> loader_access b"
  shows "commutes do_access a b"
  using assms unfolding dl.conflict_def
  by (cases a; cases b) (auto simp: commutes_def got_def split: prod.splits)

interpretation ds: two_phase_locks dns_code lock_rank 3 access_guard do_access loader_only
proof
  show "two_phase (dns_code p)" for p
    by (cases p) (auto simp: code_defs straight_code ready_two_phase split: option.split)
  show "commutes do_access a b"
    if "loader_only i p" "loader_only j q" "i \<noteq> j" "a \<in> set (acts (dns_code p))" "b \<in> set (acts (dns_code q))"
      "\<not> dl.conflict a b" for i j p q a b
    using access_commutes [OF that(6)] loader_alone that by blast
qed

section \<open>A call that runs alone\<close>

lemma push_each: "fold do_access (map PushChanged changes) (s, v) = (s\<lparr>sh_subs := sl_push changes (sh_subs s)\<rparr>, v)"
proof (induction changes arbitrary: s)
  case (Cons m ms)
  have "sl_push ms (sl_push [m] sl) = sl_push (m # ms) sl" for sl by (simp add: sl_push_def)
  with Cons show ?case by simp
qed (simp add: sl_push_def)

lemma insert_each: "fold do_access (map InsertRow rows) (s, v) =
    (s\<lparr>sh_route := (sh_route s)\<lparr>rt_tmp := fold insert_row rows (rt_tmp (sh_route s))\<rparr>\<rparr>, v)"
  by (induction rows arbitrary: s) simp_all

lemma call_alone: "fold do_access (acts (dns_code p)) (s, v) = (s', v') \<Longrightarrow> dns_do p (s, results v) = (s', results v')"
  by (cases p) (auto simp: code_defs straight_code push_each insert_each got_def Route_reload_def Route_swap_def
      split: prod.splits option.splits)

lemma do_acts_alone:
  "i < length vs \<Longrightarrow> do_acts act i as (s, vs) = (case fold act as (s, vs ! i) of (s', v') \<Rightarrow> (s', vs[i := v']))"
proof (induction as arbitrary: s vs)
  case (Cons a as)
  obtain s1 v1 where "act a (s, vs ! i) = (s1, v1)" by fastforce
  with Cons show ?case by (simp add: do_act_def)
qed simp

text \<open>The calls one after the other, each by the thread it belongs to.\<close>

definition dns_serial :: "(nat \<times> dns_call) list \<Rightarrow> dns_shared \<times> dns_result list list \<Rightarrow> dns_shared \<times> dns_result list list" where
  "dns_serial ps = fold (\<lambda>(i, p). do_act dns_do i p) ps"

lemma serial_calls:
  "\<forall>(i, p) \<in> set ps. i < length vs \<Longrightarrow> serial dns_code do_access ps (s, vs) = (s', vs') \<Longrightarrow>
     dns_serial ps (s, map results vs) = (s', map results vs')"
proof (induction ps arbitrary: s vs)
  case (Cons x ps)
  obtain i p where x: "x = (i, p)" by (cases x)
  with Cons.prems have i: "i < length vs" by simp
  obtain s1 v1 where one: "fold do_access (acts (dns_code p)) (s, vs ! i) = (s1, v1)" by fastforce
  have "do_act dns_do i p (s, map results vs) = (s1, map results (vs[i := v1]))"
    using call_alone [OF one] i by (simp add: do_act_def map_update)
  moreover have "do_acts do_access i (acts (dns_code p)) (s, vs) = (s1, vs[i := v1])"
    using do_acts_alone [OF i, of do_access] one by simp
  ultimately show ?case using Cons.IH [of "vs[i := v1]" s1] Cons.prems x by (simp add: serial_def dns_serial_def)
qed (simp add: serial_def dns_serial_def)

section \<open>Whole tables\<close>

text \<open>A loader exchanges the tables only when the last load of the spare one has succeeded.\<close>

fun loads_ok :: "bool \<Rightarrow> dns_call list \<Rightarrow> bool" where
  "loads_ok w [] = True"
| "loads_ok w (Reload None # ps) = loads_ok False ps"
| "loads_ok w (Reload (Some rows) # ps) = loads_ok True ps"
| "loads_ok w (SwapTables # ps) = (w \<and> loads_ok True ps)"
| "loads_ok w (p # ps) = loads_ok w ps"

definition tables_of :: "dns_call list \<Rightarrow> (u64 \<times> u64 list) list set" where
  "tables_of ps = {fold insert_row rows [] |rows. Reload (Some rows) \<in> set ps}"

definition whole_results :: "(u64 \<times> u64 list) list set \<Rightarrow> dns_result list \<Rightarrow> bool" where
  "whole_results Ts os \<longleftrightarrow> (\<forall>m c hs. Hosts m c hs \<in> set os \<longrightarrow> (\<exists>T \<in> Ts. hs = hosts_at T (mkkey m c)))"

text \<open>The calls of a turn of the loader: what \<open>dl_tick\<close> does, call by call.\<close>

definition tick_calls :: "int \<Rightarrow> clong \<Rightarrow> string list option \<Rightarrow> route_row list option \<Rightarrow> (string \<times> string) list option \<Rightarrow>
    clong \<Rightarrow> Route \<Rightarrow> dns_call list" where
  "tick_calls ws now vers rows chgs lstLoadTs rt =
    (let (rt1, ret) = Route_loadVersion vers rt in
     LoadVersion vers #
     (if ret = 1 then
        Reload rows # (if rows = None then [] else
          [SwapTables, LoadChanges chgs, PushAll (snd (Route_loadChanges chgs rt1))])
      else if ws \<le> now - lstLoadTs then Reload rows # (if rows = None then [] else [SwapTables])
      else []))"

lemma loads_ok_mono: "loads_ok False ps \<Longrightarrow> loads_ok w ps"
  by (induction w ps rule: loads_ok.induct) (auto split: option.splits)

lemma loads_ok_tick: "loads_ok False ps \<Longrightarrow> loads_ok w (tick_calls ws now vers rows chgs lst rt @ ps)"
  by (cases rows) (auto simp: tick_calls_def loads_ok_mono split: prod.split)

text \<open>A turn of \<open>dl_tick\<close> is its calls one after the other.\<close>

lemma loadChanges_any: "snd (Route_loadChanges chgs rt) = snd (Route_loadChanges chgs rt')"
  by (auto simp: Route_loadChanges_def split: option.split list.split)

lemma tick_is_calls:
  assumes "dl_tick ws now vers rows chgs (lst, s) = ((lst', s'), out)"
  shows "fst (fold dns_do (tick_calls ws now vers rows chgs lst (dn_route s)) (\<lparr> sh_subs = dn_sl s, sh_route = dn_route s \<rparr>, os))
    = \<lparr> sh_subs = dn_sl s', sh_route = dn_route s' \<rparr>"
proof -
  obtain rt1 r where v: "Route_loadVersion vers (dn_route s) = (rt1, r)" by fastforce
  show ?thesis
  proof (cases rows)
    case None
    with assms v show ?thesis by (auto simp: dl_tick_def tick_calls_def Route_reload_def split: if_splits)
  next
    case (Some rws)
    have "snd (Route_loadChanges chgs rt1) = snd (Route_loadChanges chgs (Route_swap (fst (Route_reload rows rt1))))"
      by (rule loadChanges_any)
    with Some assms v show ?thesis
      by (auto simp: dl_tick_def tick_calls_def Route_reload_def split: if_splits prod.splits)
  qed
qed

lemma mine_Cons [simp]: "mine i ((j, p) # ps) = (if j = i then p # mine i ps else mine i ps)"
  by (simp add: mine_def)

definition whole_state :: "(u64 \<times> u64 list) list set \<Rightarrow> bool \<Rightarrow> Route \<Rightarrow> bool" where
  "whole_state Ts w rt \<longleftrightarrow> rt_data rt \<in> Ts \<and> (w \<longrightarrow> rt_tmp rt \<in> Ts)"

lemma loader_step:
  assumes "dns_do p (s, os) = (s', os')" "loads_ok w (p # ps)" "whole_state Ts w (sh_route s)" "tables_of [p] \<subseteq> Ts"
  obtains w' where "loads_ok w' ps" "whole_state Ts w' (sh_route s')"
proof -
  have v: "rt_data rt' = rt_data rt" "rt_tmp rt' = rt_tmp rt" if "Route_loadVersion vers rt = (rt', r)" for vers rt rt' r
    using that by (auto simp: Route_loadVersion_def Let_def split: option.splits list.splits if_splits)
  have l: "rt_data rt' = rt_data rt" "rt_tmp rt' = rt_tmp rt" if "Route_loadChanges chgs rt = (rt', cs)" for chgs rt rt' cs
    using that by (auto simp: Route_loadChanges_def split: option.splits list.splits)
  show ?thesis
  proof (cases p)
    case (Reload ans)
    with assms that [of "ans \<noteq> None"] show ?thesis
      by (cases ans) (auto simp: whole_state_def Route_reload_def tables_of_def)
  next
    case SwapTables
    with assms that [of True] show ?thesis by (auto simp: whole_state_def Route_swap_def)
  qed (use assms that [of w] in \<open>auto simp: whole_state_def v l split: prod.splits\<close>)
qed

lemma other_step: "dns_do p (s, os) = (s', os') \<Longrightarrow> loader_only i p \<Longrightarrow> i \<noteq> 0 \<Longrightarrow> sh_route s' = sh_route s"
  by (cases p) (auto simp: loader_only_def split: prod.splits)

lemma results_step:
  "dns_do p (s, os) = (s', os') \<Longrightarrow> rt_data (sh_route s) \<in> Ts \<Longrightarrow> whole_results Ts os \<Longrightarrow> whole_results Ts os'"
  by (cases p) (auto simp: whole_results_def getHosts_at split: prod.splits)

lemma serial_whole:
  "dns_serial ps (s, oss) = (s', oss') \<Longrightarrow> loads_ok w (mine 0 ps) \<Longrightarrow> whole_state Ts w (sh_route s) \<Longrightarrow>
   tables_of (mine 0 ps) \<subseteq> Ts \<Longrightarrow> \<forall>(i, p) \<in> set ps. loader_only i p \<and> i < length oss \<Longrightarrow>
   \<forall>os \<in> set oss. whole_results Ts os \<Longrightarrow> \<forall>os \<in> set oss'. whole_results Ts os"
proof (induction ps arbitrary: s oss w)
  case (Cons x ps)
  obtain i p where x: "x = (i, p)" by (cases x)
  with Cons.prems(5) have i: "loader_only i p" "i < length oss" by auto
  obtain s1 os1 where one: "dns_do p (s, oss ! i) = (s1, os1)" by fastforce
  with Cons.prems(1) x have rest: "dns_serial ps (s1, oss[i := os1]) = (s', oss')" by (simp add: dns_serial_def do_act_def)
  have "whole_results Ts os1"
    using results_step [OF one] Cons.prems(3,6) i(2) by (simp add: whole_state_def)
  then have r: "\<forall>os \<in> set (oss[i := os1]). whole_results Ts os"
    using Cons.prems(6) set_update_subset_insert [of oss i os1] by blast
  have t: "tables_of (mine 0 ps) \<subseteq> Ts" using Cons.prems(4) x by (auto simp: tables_of_def split: if_splits)
  obtain w' where "loads_ok w' (mine 0 ps)" "whole_state Ts w' (sh_route s1)"
  proof (cases "i = 0")
    case True
    with Cons.prems(4) x have "tables_of [p] \<subseteq> Ts" by (auto simp: tables_of_def)
    from loader_step [OF one _ Cons.prems(3) this, of "mine 0 ps"] Cons.prems(2) x True that show ?thesis by auto
  next
    case False
    with other_step [OF one i(1)] Cons.prems(2,3) x that [of w] show ?thesis by simp
  qed
  from Cons.IH [OF rest this t _ r] Cons.prems(5) show ?case by auto
qed (simp add: dns_serial_def)

section \<open>Properties\<close>

lemma permitted_loader:
  "\<forall>i < length progs. \<forall>p \<in> set (progs ! i). loader_only i p \<Longrightarrow> ds.permitted (map fst (map (\<lambda>p. (p, \<lparr> kept = [], results = [] \<rparr>)) progs))"
  by (simp add: ds.permitted_def comp_def)

lemma threads_finish:
  assumes "msteps dns_code do_access sched (dns_threads s progs) = Some c"
  obtains sched' c' where "msteps dns_code do_access sched' c = Some c'" "finished c'"
    "length (sched @ sched') = work dns_code (dns_threads s progs)"
proof -
  from assms have "lock_inv lock_rank access_guard c" unfolding dns_threads_def by (rule dl.lock_inv_run)
  from dl.completes [OF this, of do_access] obtain sched' c' where
    c': "msteps dns_code do_access sched' c = Some c'" "finished c'" by blast
  moreover have "work dns_code c' = 0" using c'(2) by (auto simp: work_def finished_def)
  ultimately show ?thesis using that msteps_work [OF assms] msteps_work [OF c'(1)] by simp
qed

lemma calls_serial:
  assumes "\<forall>i < length progs. \<forall>p \<in> set (progs ! i). loader_only i p"
    and "msteps dns_code do_access sched (dns_threads s progs) = Some c" and "finished c"
  obtains ps where "\<forall>i < length progs. mine i ps = progs ! i" "\<forall>(i, p) \<in> set ps. i < length progs"
    "dns_serial ps (s, replicate (length progs) []) = (shared c, results_of c)"
proof -
  let ?ts = "map (\<lambda>p. (p, \<lparr> kept = [], results = [] \<rparr>)) progs"
  have r: "map results (map snd ?ts) = replicate (length progs) []" by (simp add: comp_def map_replicate_const)
  from ds.serializable [OF permitted_loader [OF assms(1)] assms(2) [unfolded dns_threads_def] assms(3)] obtain ps where
    ps: "\<And>i. i < length ?ts \<Longrightarrow> mine i ps = fst (?ts ! i)" "\<And>i p. (i, p) \<in> set ps \<Longrightarrow> i < length ?ts"
      "serial dns_code do_access ps (s, map snd ?ts) = (shared c, map (\<lambda>t. snd (snd t)) (threads c))" by blast
  have "dns_serial ps (s, map results (map snd ?ts)) = (shared c, map results (map (\<lambda>t. snd (snd t)) (threads c)))"
    by (rule serial_calls [OF _ ps(3)]) (use ps(2) in auto)
  with ps(1,2) show ?thesis unfolding r by (intro that [of ps]) (auto simp: results_of_def comp_def)
qed

text \<open>
  C11. The network threads and the loader thread never block each other for good: whatever they call and
  whatever has happened so far, the run can be continued until all calls have returned, and every run is
  finite, as each step is one of the instructions that the calls consist of.
\<close>

theorem dns_threads_finish:
  assumes "msteps dns_code do_access sched (dns_threads s progs) = Some c"
  shows "\<exists>sched' c'. msteps dns_code do_access (sched @ sched') (dns_threads s progs) = Some c' \<and> finished c'
    \<and> length (sched @ sched') = work dns_code (dns_threads s progs)"
  using threads_finish [OF assms] assms by (metis msteps_append option.simps(5))

text \<open>
  C7. The locks make the calls atomic. Whenever the threads have returned from all their calls,
  the shared state and everything the calls have returned are as if the calls had been made one after the
  other, in an order that keeps the order of each thread, each with the effect that \<open>DnsSubscribe\<close>
  and \<open>DnsRoute\<close> give to it: for any calls of any number of threads, as long as thread 0 alone
  loads and exchanges the tables.
\<close>

theorem dns_calls_serializable:
  assumes "\<forall>i < length progs. \<forall>p \<in> set (progs ! i). loader_only i p"
    and "msteps dns_code do_access sched (dns_threads s progs) = Some c" and "finished c"
  shows "\<exists>ps. (\<forall>i < length progs. mine i ps = progs ! i)
    \<and> dns_serial ps (s, replicate (length progs) []) = (shared c, results_of c)"
  using calls_serial [OF assms] by metis

lemma results_grow:
  assumes "msteps dns_code do_access sched c = Some c'"
  shows "length (threads c') = length (threads c) \<and> (\<forall>i < length (threads c). set (results_of c ! i) \<subseteq> set (results_of c' ! i))"
proof (rule msteps_inv [OF _ assms])
  have a: "do_access a (s, v) = (s', v') \<Longrightarrow> set (results v) \<subseteq> set (results v')" for a s v s' v'
    by (cases a) (auto simp: got_def split: prod.splits)
  fix i c1 c2
  assume c1: "length (threads c1) = length (threads c) \<and> (\<forall>i < length (threads c). set (results_of c ! i) \<subseteq> set (results_of c1 ! i))"
    and m: "mstep dns_code do_access i c1 = Some c2"
  from m have "length (threads c2) = length (threads c1) \<and> (\<forall>i < length (threads c1). set (results_of c1 ! i) \<subseteq> set (results_of c2 ! i))"
    by (cases rule: mstep_cases) (auto simp: results_of_def nth_list_update dest!: a)
  with c1 show "length (threads c2) = length (threads c) \<and> (\<forall>i < length (threads c). set (results_of c ! i) \<subseteq> set (results_of c2 ! i))"
    by fastforce
qed simp

text \<open>
  C12. No reader sees half of a table. At any moment of any run in which the loader exchanges the tables
  only after a load that succeeded (as every turn of \<open>dl_tick\<close> does), each lookup of any
  thread has returned the hosts of its module in one whole table: the one of the start or one that the loader has loaded, although
  the loader fills its table without a lock while others read.
\<close>

theorem readers_see_whole_tables:
  assumes "\<forall>i < length progs. \<forall>p \<in> set (progs ! i). loader_only i p" and "0 < length progs" and "loads_ok False (progs ! 0)"
    and "msteps dns_code do_access sched (dns_threads s progs) = Some c"
    and "i < length progs" and "Hosts m k hs \<in> set (results_of c ! i)"
  shows "\<exists>T \<in> insert (rt_data (sh_route s)) (tables_of (progs ! 0)). hs = hosts_at T (mkkey m k)"
proof -
  let ?Ts = "insert (rt_data (sh_route s)) (tables_of (progs ! 0))"
  from threads_finish [OF assms(4)] obtain sched' c' where
    c': "msteps dns_code do_access sched' c = Some c'" "finished c'" by blast
  with assms(4) have run: "msteps dns_code do_access (sched @ sched') (dns_threads s progs) = Some c'"
    by (simp add: msteps_append)
  from calls_serial [OF assms(1) run c'(2)] obtain ps where ps: "\<forall>i < length progs. mine i ps = progs ! i"
    "\<forall>(i, p) \<in> set ps. i < length progs" "dns_serial ps (s, replicate (length progs) []) = (shared c', results_of c')" by blast
  have "loader_only j p \<and> j < length progs" if "(j, p) \<in> set ps" for j p
  proof -
    from that have "p \<in> set (mine j ps)" by (force simp: mine_def)
    with assms(1) ps(1,2) that show ?thesis by fastforce
  qed
  then have "\<forall>os \<in> set (results_of c'). whole_results ?Ts os"
    using assms(2,3) ps(1) by (intro serial_whole [OF ps(3), where w = False]) (auto simp: whole_state_def whole_results_def)
  moreover have n: "length (threads c) = length progs"
    using results_grow [OF assms(4)] by (simp add: dns_threads_def start_def)
  then have "results_of c' ! i \<in> set (results_of c')"
    using results_grow [OF c'(1)] assms(5) by (simp add: results_of_def)
  moreover have "Hosts m k hs \<in> set (results_of c' ! i)" using results_grow [OF c'(1)] assms(5,6) n by auto
  ultimately show ?thesis unfolding whole_results_def by blast
qed

section \<open>A run of two threads\<close>

text \<open>The loader loads one row and pushes the module, while a network thread books, reads and fetches it.\<close>

definition ex_row :: route_row where
  "ex_row = \<lparr> rr_id = ''1'', rr_modid = ''1'', rr_cmdid = ''2'', rr_ip = ''100'', rr_port = ''80'' \<rparr>"

definition ex_progs :: "dns_call list list" where
  "ex_progs = [[Reload (Some [ex_row]), SwapTables, PushAll [mkkey 1 2]],
               [Subscribe (mkkey 1 2) 5, GetHosts 1 2, FetchPush [5]]]"

definition ex_shared :: dns_shared where
  "ex_shared = \<lparr> sh_subs = new_SubscribeList, sh_route = \<lparr> routeVersion = 0, rt_data = [], rt_tmp = [], unfreed = 0 \<rparr> \<rparr>"

definition ex_first :: "nat list" where
  "ex_first = [0, 1, 0, 1, 0, 1, 0, 1, 1, 1, 0, 1, 1]"

definition ex_rest :: "nat list" where
  "ex_rest = [0, 0, 0, 0, 0, 0, 0, 0, 1, 0, 0, 1, 0, 1, 1]"

lemma goto_parts: "goto i t c = \<lparr> shared = shared c, held = held c, threads = (threads c)[i := t] \<rparr>"
  by (simp add: goto_def)

lemmas ex_run_defs = ex_progs_def dns_threads_def start_def mstep_def free_for_def code_defs goto_parts got_def

lemma ex_run_first:
  "\<exists>c. msteps dns_code do_access ex_first (dns_threads ex_shared ex_progs) = Some c"
  by (simp add: ex_first_def ex_run_defs)

lemma ex_run_all:
  "\<exists>c. msteps dns_code do_access (ex_first @ ex_rest) (dns_threads ex_shared ex_progs) = Some c \<and> finished c
     \<and> results_of c ! 1 = [Hosts 1 2 [], News [(5, [mkkey 1 2])]]"
  by (simp add: ex_first_def ex_rest_def ex_run_defs finished_def results_of_def ex_shared_def Route_getHosts_def
      sl_subscribe_def insert_at_def entry_def new_SubscribeList_def sl_push_def sl_fetchPush_def)

definition ex_late_run :: "nat list" where
  "ex_late_run = [0, 0, 0, 0, 0, 0, 1, 0, 1, 0, 1, 0, 1, 0, 1, 1, 1]"

lemma ex_run_late:
  "\<exists>c. msteps dns_code do_access ex_late_run (dns_threads ex_shared ex_progs) = Some c
     \<and> results_of c ! 1 = [Hosts 1 2 (hosts_at (fold insert_row [ex_row] []) (mkkey 1 2))]"
  by (simp add: ex_late_run_def ex_run_defs results_of_def ex_shared_def getHosts_at)

lemma ex_loader_only: "\<forall>i < length ex_progs. \<forall>p \<in> set (ex_progs ! i). loader_only i p"
  by (simp add: ex_progs_def less_Suc_eq loader_only_def)

lemma ex_work: "work dns_code (dns_threads ex_shared ex_progs) = 28"
  by (simp add: work_def dns_threads_def start_def ex_progs_def code_defs)

theorem dns_threads_finish_witness:
  "\<exists>sched' c'. msteps dns_code do_access (ex_first @ sched') (dns_threads ex_shared ex_progs) = Some c' \<and> finished c'
     \<and> length (ex_first @ sched') = 28"
proof -
  from ex_run_first obtain c where "msteps dns_code do_access ex_first (dns_threads ex_shared ex_progs) = Some c" by blast
  from dns_threads_finish [OF this] show ?thesis unfolding ex_work .
qed

theorem dns_calls_serializable_witness:
  "\<exists>c ps. msteps dns_code do_access (ex_first @ ex_rest) (dns_threads ex_shared ex_progs) = Some c
     \<and> results_of c ! 1 = [Hosts 1 2 [], News [(5, [mkkey 1 2])]]
     \<and> mine 0 ps = ex_progs ! 0 \<and> mine 1 ps = ex_progs ! 1
     \<and> dns_serial ps (ex_shared, [[], []]) = (shared c, results_of c)"
proof -
  from ex_run_all obtain c where c: "msteps dns_code do_access (ex_first @ ex_rest) (dns_threads ex_shared ex_progs) = Some c"
    "finished c" "results_of c ! 1 = [Hosts 1 2 [], News [(5, [mkkey 1 2])]]" by blast
  from dns_calls_serializable [OF ex_loader_only c(1,2)] obtain ps where
    "\<forall>i < length ex_progs. mine i ps = ex_progs ! i"
    "dns_serial ps (ex_shared, replicate (length ex_progs) []) = (shared c, results_of c)" by blast
  with c show ?thesis
    by (intro exI [of _ c] exI [of _ ps]) (simp add: ex_progs_def numeral_2_eq_2)
qed

theorem readers_see_whole_tables_witness:
  "\<exists>c hs. msteps dns_code do_access ex_late_run (dns_threads ex_shared ex_progs) = Some c
     \<and> Hosts 1 2 hs \<in> set (results_of c ! 1) \<and> hs = hosts_at (fold insert_row [ex_row] []) (mkkey 1 2)
     \<and> (\<exists>T \<in> {[], fold insert_row [ex_row] []}. hs = hosts_at T (mkkey 1 2))"
proof -
  let ?hs = "hosts_at (fold insert_row [ex_row] []) (mkkey 1 2)"
  from ex_run_late obtain c where c: "msteps dns_code do_access ex_late_run (dns_threads ex_shared ex_progs) = Some c"
    "results_of c ! 1 = [Hosts 1 2 ?hs]" by blast
  have h: "Hosts 1 2 ?hs \<in> set (results_of c ! 1)" unfolding c(2) by simp
  have p: "0 < length ex_progs" "loads_ok False (ex_progs ! 0)" "1 < length ex_progs" by (simp_all add: ex_progs_def)
  from readers_see_whole_tables [OF ex_loader_only p(1,2) c(1) p(3) h]
  have "\<exists>T \<in> insert (rt_data (sh_route ex_shared)) (tables_of (ex_progs ! 0)). ?hs = hosts_at T (mkkey 1 2)" .
  moreover have "insert (rt_data (sh_route ex_shared)) (tables_of (ex_progs ! 0)) = {[], fold insert_row [ex_row] []}"
    by (auto simp: ex_shared_def tables_of_def ex_progs_def)
  ultimately show ?thesis using c(1) h by blast
qed

end
