(* ===== verification/Spec2Isabelle.thy ===== *)
theory Spec2Isabelle
  imports Startup Programs ByteOrder Propagation TestPrograms PyRefine PyPrograms LbTraffic DnsLocks
begin

text \<open>
  A verification library for Easy-Load-Balancer: the load-balancing agent \<^verbatim>\<open>src/lbagent\<close>, the
  directory server \<^verbatim>\<open>src/dnsserver\<close>, the \<^verbatim>\<open>src/reporter\<close>, the clients \<^verbatim>\<open>src/api/cpp\<close> and
  \<^verbatim>\<open>src/api/python\<close>, their messages \<^verbatim>\<open>src/common/proto\<close> and what they share in \<^verbatim>\<open>src/common/base\<close>.

  \<^bold>\<open>The program.\<close> A module is named by two integers (\<open>modid\<close>, \<open>cmdid\<close>); its route is the list of
  its nodes (address and port). The dnsserver loads the routes from a database, answers
  requests for them over TCP and pushes the changed ones to the connections that asked. On every machine an agent
  keeps the routes that its clients have asked for in three tables, one for each UDP thread (module
  \<open>(modid + cmdid) mod 3\<close>); it hands out nodes in turn, counts reported successes and failures,
  takes overloaded nodes out and probes them, and reports to the reporter, which writes the
  counts into the database. A client asks the agent for a node, or fetches and caches the whole route
  while no node of it is overloaded, and reports results singly or in batches. When the
  agent is dead by the heartbeat in shared memory, the client falls back to the tables that the agent has
  written to disk.

  \<^bold>\<open>Theories and what they model.\<close>
  \<^item> \<open>ElbPrelude\<close>: machine integers, faults and sequencing (\<open>rbind\<close>, \<open>ends\<close>), the 64-bit keys, hash maps as
    association lists, and the interfaces (locales) \<open>keyed_store\<close>, \<open>round_robin\<close> and \<open>safe_machine\<close>.
    \<open>IeeeFloat\<close>: the \<open>float\<close> operations of the thresholds, on exact rationals with rounding.
    \<open>CText\<close>, \<open>NetText\<close>: integers and addresses as text, as the C library prints and reads them.
  \<^item> \<open>ElbProto\<close>: the messages as records and their identifiers (\<^verbatim>\<open>elb.proto\<close>).
    \<open>ElbWire\<close>, \<open>ElbCodec\<close>: the generated classes of \<^verbatim>\<open>elb.pb.cc\<close> and \<^verbatim>\<open>elb.pb.h\<close> (\<open>Clear\<close>, the switch of
    the parser, serialization, \<open>ByteSize\<close>, \<open>IsInitialized\<close>, \<open>MergeFrom\<close>, \<open>CopyFrom\<close>, \<open>Swap\<close>, accessors), over the
    protobuf runtime as the parameter \<open>wire\<close>, whose laws \<open>wire_ok\<close> are documented behaviour; \<open>std_wire\<close>
    satisfies them.
  \<^item> \<open>LbHost\<close> (\<open>HI\<close>: \<^verbatim>\<open>RouteLb.h\<close>), \<open>LbModule\<close> (\<open>LB\<close>) and \<open>RouteLb\<close> (\<open>RouteLB\<close>: \<^verbatim>\<open>RouteLb.cc\<close>): one
    node's counters and windows, one module's lists and operations, one thread's table with the handlers
    that run under its mutex; \<open>getRoute\<close> and \<open>cacheGetRoute\<close> are split where the mutex is released.
    \<open>LbSchedule\<close> refines \<open>LB_getHost\<close> to an abstract scheduler, \<open>LbDecide\<close> treats the decisions,
    \<open>RouteSafety\<close> the runs of a table, \<open>LbTraffic\<close> the closed loop of requests and reports
    (\<open>call_turn\<close>). \<open>LbAgent\<close>: the process, from \<^verbatim>\<open>AgentServer.cc\<close>, \<^verbatim>\<open>DssClient.cc\<close>,
    \<^verbatim>\<open>RptClient.cc\<close> and \<^verbatim>\<open>HeartBeat.h\<close>, its callbacks as steps of one machine.
  \<^item> \<open>DnsSubscribe\<close> (\<^verbatim>\<open>SubscribeList.cc\<close>), \<open>DnsRoute\<close> (\<^verbatim>\<open>Route.cc\<close>) and \<open>DnsServer\<close> (\<^verbatim>\<open>Server.cc\<close>, the
    loader thread): the answers of queries are arguments, the statements sent are outputs.
    \<open>LockMachine\<close> and \<open>LockSerial\<close>: threads that run operations instruction by instruction under locks, any schedule
    of them; \<open>DnsLocks\<close>: the calls of the dnsserver's network and loader threads on it, under \<open>booklock\<close>, \<open>pushlock\<close> and
    \<open>_rwlock\<close>.
  \<^item> \<open>ApiStatic\<close> (\<^verbatim>\<open>StaticRoute.h\<close>), \<open>ApiCache\<close> (\<^verbatim>\<open>cacheLayer.cc\<close>) and \<open>ApiClient\<close> (\<^verbatim>\<open>elbApi.cc\<close>): a call is a
    function of the client, its environment and the results of \<open>sendto\<close> and \<open>recvfrom\<close> in order.
    \<open>ApiSafety\<close> and \<open>ApiProps\<close> hold its invariant and its behaviour. \<open>Programs\<close>: the tool
    \<^verbatim>\<open>getroute.cc\<close> and the example programs.
  \<^item> \<open>MurHash\<close> (\<^verbatim>\<open>util.h\<close>) and \<open>Reporter\<close> (\<^verbatim>\<open>CallStatis.cc\<close>, the reporter's \<^verbatim>\<open>Server.cc\<close>): from the bytes of a
    report to the statements in the database. \<open>ElbLog\<close> (\<^verbatim>\<open>log.cc\<close>, \<^verbatim>\<open>log.h\<close>): what is logged, where.
    \<open>Startup\<close>: the three \<open>main\<close> functions, the set-up of the threads, the heartbeat's constructor,
    \<^verbatim>\<open>Singleton.h\<close>, and which packets reach which callback.
    \<open>ByteOrder\<close>: the byte-order accessors of the MySQL headers that are compiled in.
  \<^item> \<open>PyClient\<close> (\<^verbatim>\<open>elbClient.py\<close>, \<^verbatim>\<open>CacheLayer.py\<close>, \<^verbatim>\<open>StaticRoute.py\<close>): the Python client as functions that return a
    value or an exception and the state they leave. \<open>PyStatic\<close> and \<open>PyRefine\<close> relate it to the C++ client: \<open>py_of\<close>
    reads a state of the one as a state of the other. \<open>PyPrograms\<close>: the example scripts.
    \<open>TestPrograms\<close>: \<^verbatim>\<open>benchmark.cc\<close> and \<^verbatim>\<open>rptClient.cc\<close>.
  \<^item> Across processes: \<open>Propagation\<close> composes the dnsserver, an agent and their connection into one machine
    (\<open>sys_step\<close>), up to the answer of a client; \<open>MsgTypes\<close> puts datagrams of bytes between client and agent; \<open>ReportFlow\<close>
    joins client, agent and reporter.

  \<^bold>\<open>Faults.\<close> An operation returns a result or a \<open>fault\<close>: a failed \<open>assert\<close> (they are compiled in), a
  dangling pointer, \<open>front()\<close> of an empty list, a read of something never written, a conversion or an index
  out of range, a buffer overflow, a division by zero, or a call that does not return.

  \<^bold>\<open>What the lemmas show.\<close>
  \<^item> The agent: an invariant of every module (\<open>wf_LB\<close>: each node on exactly the list its state says)
    that all handlers keep, the faults a run can end in, and those that orderly peers exclude; fair turns,
    probes after \<open>probeNum\<close> accesses, exact floating-point thresholds, statistics kept over updates,
    at most one pull under way; a node that always fails gets a bounded number of calls and its share of probes, one
    that works again is back after a bounded number of turns; the behaviours that go wrong (a reconnection before the first route, the race of
    \<open>getRoute\<close>, versions of one second, batches that miss a threshold) as theorems.
  \<^item> The dnsserver: subscriptions are exactly the interests of open connections, no change is lost
    between a request and a reload, the loader pushes before it deletes, answers are the table's rows;
    and where a failed reload or a reused descriptor breaks the promise. Its threads never deadlock, every schedule
    of their calls is a serial order of them, and no reader sees half of a table although the loader fills its own without a lock.
  \<^item> The messages: every one is parsed back from its bytes, and \<open>ByteSize\<close> is exact; a request reaches the
    callback for it; whatever the agent is sent, what it sends fits the declared types, and the agent on bytes refines
    the agent on messages.
  \<^item> The system: the agent has the nodes of the dnsserver's routes unless a push or an answer is on its way; a change
    of the database reaches the clients; a reported call reaches the database, or is lost when the window
    of its node ends with the same call.
  \<^item> The client: successes are reported exactly once, to the end of its destructor; calls return;
    the fallback hands out what the agent last wrote; batches of many nodes overflow their buffer;
    with the agent, the first call returns a node of the agent's table; the example programs never use
    what a failed call left unwritten. The Python client returns and sends the same for every sequence of calls that finds
    them in step (\<open>in_concert\<close>), with the agent alive or dead; after a late answer it fails where the C++ client succeeds.
  \<^item> The reporter: every thread writes all it was given, whole and in order; the hash spreads
    keys without collisions in either half. The logger: the text on both sinks. Start-up: globals exist before the
    threads that use them; failures of \<open>pthread_create\<close> and \<open>mmap\<close> go unnoticed. Byte order:
    all variants agree on the bytes, and stores are read back.

  \<^bold>\<open>Modelling decisions.\<close> \<open>int\<close> and \<open>unsigned\<close> are words of 32 bits, \<open>uint64_t\<close> of 64, \<open>long\<close> an
  integer (wall-clock seconds and database versions). A handler reads the clock once. Hash maps iterate in the
  order of the list; no property but the order of a listing depends on it. Each locked section is one step;
  interleavings are sequences of steps. For the dnsserver, whose threads share tables under three locks, \<open>DnsLocks\<close> shows that
  this loses nothing: the steps of \<open>DnsSubscribe\<close> and \<open>DnsRoute\<close> are what the calls do under any schedule. Loops that may not end return the fault \<open>Hang\<close>; the only
  bounded view of a loop without end is the number of passes of \<open>mockApi\<close> in \<open>qpstest\<close>. The lexer of \<open>std_wire\<close>
  has the length of its input as fuel, enough since every token takes a byte. The Python client and the test programs have
  what arrives as a list; a call that waits beyond its end is \<open>Waiting\<close>.

  \<^bold>\<open>Interfaces.\<close> \<open>keyed_store\<close> is interpreted for the module table, the node table and the client's cache,
  \<open>round_robin\<close> for the running and down lists and the cached nodes, \<open>module_safe\<close> for the invariant of modules and
  \<open>module_ops\<close> (all handlers but the update) for what updates alone change: the nodes and the types of versions;
  \<open>safe_machine\<close> for the table's handlers, the agent process and its types, the reporter; the subscription interface for the
  dnsserver's list; \<open>ordered_locks\<close> (no deadlock) and, on top of it, \<open>two_phase_locks\<close> (serial order) for the dnsserver's threads;
  \<open>budget\<close> (credit that pays for the turns to come) for a failing and for a recovering node; \<open>lockstep\<close> for the Python client beside the C++ client.

  \<^bold>\<open>Not modelled.\<close> The reactor library, protobuf, the MySQL client and the configuration reader are not in the
  sources: they are parameters or inputs. Descriptors and reflection of the generated classes, the generated \<^verbatim>\<open>elb_pb2.py\<close>,
  the banner \<^verbatim>\<open>logo.h\<close> and the other MySQL headers are left out, as are the text of Python's error messages and the freeing of memory. The
  memory that \<open>apiGetRoute\<close> leaks is not modelled either.
\<close>

end
